(* ===== verification/Prelude.thy ===== *)
theory Prelude
  imports Main "HOL-Library.Word"
begin

text \<open>
  Shared vocabulary of the development: the machine integers of the C sources, their
  little-endian byte encoding, the byte-addressed memory the allocators work on, and the
  generic lemmas about lists and words that the component theories use.

  The collections: \<open>enc_simps\<close> gathers the equations about byte encodings,
  \<open>mem_simps\<close> the load/store laws of byte memory.
\<close>

unbundle bit_operations_syntax

named_theorems enc_simps
named_theorems mem_simps

type_synonym u8 = "8 word"
type_synonym u16 = "16 word"
type_synonym u32 = "32 word"
type_synonym u64 = "64 word"

lemma unat_lt_exp: "unat (w :: 'a::len word) < 2 ^ LENGTH('a)"
  by (rule unsigned_less)

section \<open>Little-endian encodings\<close>

definition le_enc :: "nat \<Rightarrow> 'a::len word \<Rightarrow> u8 list" where
  "le_enc n w = map (\<lambda>i. ucast (drop_bit (8 * i) w)) [0..<n]"

primrec le_dec :: "u8 list \<Rightarrow> 'a::len word" where
  "le_dec [] = 0"
| "le_dec (b # bs) = ucast b OR push_bit 8 (le_dec bs)"

lemma length_le_enc [simp]: "length (le_enc n w) = n"
  by (simp add: le_enc_def)

lemma nth_le_enc: "i < n \<Longrightarrow> le_enc n w ! i = ucast (drop_bit (8 * i) w)"
  by (simp add: le_enc_def)

lemma bit_le_dec:
  "bit (le_dec bs :: 'a::len word) k \<longleftrightarrow>
     k < LENGTH('a) \<and> k div 8 < length bs \<and> bit (bs ! (k div 8)) (k mod 8)"
proof (induction bs arbitrary: k)
  case Nil
  then show ?case by simp
next
  case (Cons b bs)
  show ?case
  proof (cases "k < 8")
    case True
    then show ?thesis by (auto simp: bit_simps)
  next
    case False
    then have "k div 8 = Suc ((k - 8) div 8)" "k mod 8 = (k - 8) mod 8"
      by (simp_all add: le_div_geq le_mod_geq)
    moreover have "\<not> bit b k"
      using False by (auto dest: bit_imp_le_length)
    ultimately show ?thesis
      using False Cons.IH [of "k - 8"] by (auto simp: bit_simps)
  qed
qed


lemma le_dec_enc_take: "le_dec (le_enc n (w :: 'a::len word)) = take_bit (8 * n) w"
proof (rule bit_word_eqI)
  fix k
  assume "k < LENGTH('a)"
  then show "bit (le_dec (le_enc n w) :: 'a word) k = bit (take_bit (8 * n) w) k"
    by (auto simp: bit_le_dec nth_le_enc bit_simps less_mult_imp_div_less algebra_simps)
qed

lemma le_dec_enc [enc_simps]:
  "LENGTH('a) \<le> 8 * n \<Longrightarrow> le_dec (le_enc n (w :: 'a::len word)) = w"
  by (simp add: le_dec_enc_take take_bit_word_eq_self)

lemma le_enc_dec [enc_simps]:
  assumes "length bs = n" and "8 * n \<le> LENGTH('a)"
  shows "le_enc n (le_dec bs :: 'a::len word) = bs"
proof (rule nth_equalityI)
  show "length (le_enc n (le_dec bs :: 'a word)) = length bs" using assms by simp
  fix i
  assume "i < length (le_enc n (le_dec bs :: 'a word))"
  then have i: "i < n" by simp
  show "le_enc n (le_dec bs :: 'a word) ! i = bs ! i"
  proof (rule bit_word_eqI)
    fix k
    assume "k < LENGTH(8)"
    then have "k < 8" by simp
    moreover from this i assms have "8 * i + k < LENGTH('a)" by linarith
    ultimately show "bit (le_enc n (le_dec bs :: 'a word) ! i) k = bit (bs ! i) k"
      using i assms by (simp add: nth_le_enc bit_simps bit_le_dec)
  qed
qed

section \<open>Byte-addressed memory\<close>

text \<open>
  Physical memory as the kernel sees it: one byte per 64-bit address. Pointer arithmetic
  wraps, so the byte a store puts at \<open>x\<close> is found from the offset \<open>x - a\<close>.
\<close>

type_synonym mem = "u64 \<Rightarrow> u8"

definition mem_read :: "mem \<Rightarrow> u64 \<Rightarrow> nat \<Rightarrow> u8 list" where
  "mem_read m a n = map (\<lambda>i. m (a + of_nat i)) [0..<n]"

definition mem_write :: "mem \<Rightarrow> u64 \<Rightarrow> u8 list \<Rightarrow> mem" where
  "mem_write m a bs = (\<lambda>x. if unat (x - a) < length bs then bs ! unat (x - a) else m x)"

definition ld64 :: "mem \<Rightarrow> u64 \<Rightarrow> u64" where
  "ld64 m a = le_dec (mem_read m a 8)"

definition st64 :: "mem \<Rightarrow> u64 \<Rightarrow> u64 \<Rightarrow> mem" where
  "st64 m a v = mem_write m a (le_enc 8 v)"

definition ld32 :: "mem \<Rightarrow> u64 \<Rightarrow> u32" where
  "ld32 m a = le_dec (mem_read m a 4)"

definition st32 :: "mem \<Rightarrow> u64 \<Rightarrow> u32 \<Rightarrow> mem" where
  "st32 m a v = mem_write m a (le_enc 4 v)"

text \<open>Two byte ranges that do not wrap and do not meet.\<close>

definition apart :: "u64 \<Rightarrow> nat \<Rightarrow> u64 \<Rightarrow> nat \<Rightarrow> bool" where
  "apart a n b k \<longleftrightarrow> unat a + n \<le> 2 ^ 64 \<and> unat b + k \<le> 2 ^ 64 \<and>
     (unat a + n \<le> unat b \<or> unat b + k \<le> unat a)"

lemma length_mem_read [simp]: "length (mem_read m a n) = n"
  by (simp add: mem_read_def)

lemma mem_read_write_same [mem_simps]:
  assumes "length bs = n" and "n \<le> 2 ^ 64"
  shows "mem_read (mem_write m a bs) a n = bs"
  using assms by (auto simp: mem_read_def mem_write_def unat_of_nat intro!: nth_equalityI)

lemma apart_offset:
  assumes "apart a n b k" and "i < k"
  shows "n \<le> unat (b + of_nat i - a)"
proof -
  have i: "unat (of_nat i :: u64) = i"
    using assms by (simp add: apart_def unat_of_nat)
  then have b: "unat (b + of_nat i) = unat b + i"
    using assms by (simp add: apart_def unat_word_ariths)
  show ?thesis
    using assms b unat_lt_exp [of a] by (auto simp: apart_def unat_sub_if')
qed

lemma mem_read_write_apart [mem_simps]:
  assumes "apart a (length bs) b k"
  shows "mem_read (mem_write m a bs) b k = mem_read m b k"
  using apart_offset [OF assms] by (auto simp: mem_read_def mem_write_def not_less [symmetric])

lemma ld64_write_apart [mem_simps]:
  "apart a (length bs) b 8 \<Longrightarrow> ld64 (mem_write m a bs) b = ld64 m b"
  by (simp add: ld64_def mem_simps)

lemma ld32_write_apart [mem_simps]:
  "apart a (length bs) b 4 \<Longrightarrow> ld32 (mem_write m a bs) b = ld32 m b"
  by (simp add: ld32_def mem_simps)

lemma ld64_st64_same [mem_simps]: "ld64 (st64 m a v) a = v"
  by (simp add: ld64_def st64_def mem_simps enc_simps)

lemma ld32_st32_same [mem_simps]: "ld32 (st32 m a v) a = v"
  by (simp add: ld32_def st32_def mem_simps enc_simps)

lemma ld64_st64_apart [mem_simps]: "apart a 8 b 8 \<Longrightarrow> ld64 (st64 m a v) b = ld64 m b"
  by (simp add: st64_def mem_simps)

lemma ld64_st32_apart [mem_simps]: "apart a 4 b 8 \<Longrightarrow> ld64 (st32 m a v) b = ld64 m b"
  by (simp add: st32_def mem_simps)

lemma ld32_st64_apart [mem_simps]: "apart a 8 b 4 \<Longrightarrow> ld32 (st64 m a v) b = ld32 m b"
  by (simp add: st64_def mem_simps)

lemma ld32_st32_apart [mem_simps]: "apart a 4 b 4 \<Longrightarrow> ld32 (st32 m a v) b = ld32 m b"
  by (simp add: st32_def mem_simps)

section \<open>Word arithmetic without wrap-around\<close>

lemma unat_add_exact:
  "unat a + unat b < 2 ^ LENGTH('a) \<Longrightarrow> unat (a + b :: 'a::len word) = unat a + unat b"
  by (simp add: unat_word_ariths)

lemma unat_sub_exact:
  "unat b \<le> unat a \<Longrightarrow> unat (a - b :: 'a::len word) = unat a - unat b"
  by (simp add: unat_sub_if')

lemma unat_add_numeral_exact:
  "unat a + numeral k < 2 ^ LENGTH('a) \<Longrightarrow>
   unat (a + numeral k :: 'a::len word) = unat a + numeral k"
proof -
  assume a: "unat a + numeral k < 2 ^ LENGTH('a)"
  then have "unat (numeral k :: 'a word) = numeral k"
    by (metis add_lessD1 add.commute mod_less of_nat_numeral unat_of_nat)
  with a show ?thesis by (simp add: unat_word_ariths)
qed

text \<open>Rounding down to a multiple of a power of two by masking.\<close>

lemma and_not_mask_eq: "(w :: 'a::len word) AND NOT (mask k) = push_bit k (drop_bit k w)"
  by (rule bit_word_eqI) (auto simp: bit_simps)

lemma unat_and_not_mask:
  "unat ((w :: 'a::len word) AND NOT (mask k)) = 2 ^ k * (unat w div 2 ^ k)"
proof -
  have "unat w div 2 ^ k * 2 ^ k \<le> unat w" by simp
  then have "unat w div 2 ^ k * 2 ^ k < 2 ^ LENGTH('a)"
    using unat_lt_exp [of w] by (rule le_less_trans)
  moreover have "unat (w AND NOT (mask k)) = take_bit LENGTH('a) (push_bit k (drop_bit k (unat w)))"
    unfolding and_not_mask_eq by (simp add: unsigned_push_bit_eq unsigned_drop_bit_eq take_bit_nat_eq_self)
  ultimately show ?thesis
    by (simp add: push_bit_eq_mult drop_bit_eq_div take_bit_nat_eq_self mult.commute)
qed

section \<open>Slots of a ring\<close>

text \<open>Two indices less than one turn apart use different slots.\<close>

lemma mod_offset_inj:
  fixes i j :: nat
  assumes "i < m" and "j < m" and "(a + i) mod m = (a + j) mod m"
  shows "i = j"
proof (rule antisym)
  have "i \<le> j" if "i < m" "(a + i) mod m = (a + j) mod m" for i j
  proof (rule ccontr)
    assume "\<not> i \<le> j"
    with that have "m dvd i - j" by (simp add: mod_eq_dvd_iff_nat)
    with that(1) \<open>\<not> i \<le> j\<close> show False by (auto dest: dvd_imp_le)
  qed
  from this [of i j] this [of j i] assms show "i \<le> j" "j \<le> i" by simp_all
qed

lemma mod_window:
  fixes i n :: nat
  assumes "i < n" and "n < i + m"
  shows "i mod m \<noteq> n mod m"
proof
  assume "i mod m = n mod m"
  with assms have "0 = n - i" by (intro mod_offset_inj [of 0 m "n - i" i]) auto
  with assms(1) show False by simp
qed

lemma sint_unat: "unat (w :: u64) < 2 ^ 63 \<Longrightarrow> sint w = int (unat w)"
proof -
  assume "unat w < 2 ^ 63"
  then have "int (unat w) < int (2 ^ 63)" by (simp only: of_nat_less_iff)
  then have "uint w < 2 ^ 63" by simp
  then have "signed_take_bit 63 (uint w) = uint w"
    by (intro signed_take_bit_int_eq_self) (simp_all add: order_trans [OF _ unsigned_greater_eq])
  then show ?thesis by (simp add: sint_uint)
qed

section \<open>C strings\<close>

text \<open>A C string is a byte list read up to its first zero.\<close>

definition cstr :: "u8 list \<Rightarrow> u8 list" where
  "cstr s = takeWhile (\<lambda>c. c \<noteq> 0) s"

definition ascii :: "string \<Rightarrow> u8 list" where
  "ascii s = map of_char s"

lemma zero_notin_cstr: "0 \<notin> set (cstr s)"
  by (auto simp: cstr_def dest: set_takeWhileD)

lemma cstr_id: "0 \<notin> set s \<Longrightarrow> cstr (s @ 0 # r) = s"
  by (auto simp: cstr_def takeWhile_eq_all_conv takeWhile_append)

end
