(* ===== verification/KAlloc.thy ===== *)
theory KAlloc
  imports Prelude
begin

text \<open>
  The kernel heap of \<open>kernel/src/alloc.c\<close>: a first-fit allocator over a singly linked list
  of block headers kept in the managed memory itself, used for the main kernel heap and, by
  the \<open>kheap\<close> instances, for the graphics and image heaps. Headers are read and written
  through byte-addressed memory, so aliasing is explicit; walks over the list are partial
  functions, since a cyclic list makes the code loop for ever.
\<close>

section \<open>Block headers\<close>

text \<open>
  \<open>struct alloc_header\<close> is 24 bytes: \<open>size\<close> at offset 0, \<open>next\<close> at 8 and the
  \<open>int\<close> \<open>is_free\<close> at 16 (four bytes of padding follow).
\<close>

definition h_size :: "mem \<Rightarrow> u64 \<Rightarrow> u64" where
  "h_size m p = ld64 m p"

definition h_next :: "mem \<Rightarrow> u64 \<Rightarrow> u64" where
  "h_next m p = ld64 m (p + 8)"

definition h_free :: "mem \<Rightarrow> u64 \<Rightarrow> u32" where
  "h_free m p = ld32 m (p + 16)"

definition set_size :: "u64 \<Rightarrow> u64 \<Rightarrow> mem \<Rightarrow> mem" where
  "set_size p v m = st64 m p v"

definition set_next :: "u64 \<Rightarrow> u64 \<Rightarrow> mem \<Rightarrow> mem" where
  "set_next p v m = st64 m (p + 8) v"

definition set_free :: "u64 \<Rightarrow> u32 \<Rightarrow> mem \<Rightarrow> mem" where
  "set_free p v m = st32 m (p + 16) v"

section \<open>Allocator state\<close>

text \<open>
  One instance of \<open>struct kheap\<close>, and the globals of \<open>alloc.c\<close>: the main heap is
  described by five globals of its own, the two auxiliary heaps by a \<open>struct kheap\<close> each.
  All three live in the same physical memory.
\<close>

record kheap =
  kh_start :: u64
  kh_base :: u64
  kh_size :: u64

record kmem =
  bytes :: mem
  g_heap_start :: u64
  g_heap_base :: u64
  g_heap_size :: u64
  g_used :: u64
  g_physical_total :: u64
  g_gfx_heap :: kheap
  g_img_heap :: kheap

section \<open>The main heap\<close>

definition heap_end_addr :: "kmem \<Rightarrow> u64" where
  "heap_end_addr s = g_heap_base s + g_heap_size s"

definition block_in_range :: "u64 \<Rightarrow> u64 \<Rightarrow> mem \<Rightarrow> u64 \<Rightarrow> bool" where
  "block_in_range base end m p \<longleftrightarrow>
     \<not> (p < base \<or> p + 24 > end) \<and> \<not> (h_size m p > end - p - 24)"

definition block_in_heap :: "kmem \<Rightarrow> mem \<Rightarrow> u64 \<Rightarrow> bool" where
  "block_in_heap s m p = block_in_range (g_heap_base s) (heap_end_addr s) m p"

definition block_phys_next :: "mem \<Rightarrow> u64 \<Rightarrow> u64" where
  "block_phys_next m p = p + 24 + h_size m p"

definition kmalloc_init :: "u64 \<Rightarrow> u64 \<Rightarrow> kmem \<Rightarrow> kmem" where
  "kmalloc_init heap_start heap_size s =
     s\<lparr>g_heap_base := heap_start, g_heap_size := heap_size, g_used := 0,
       g_heap_start := heap_start,
       bytes := set_free heap_start 1 (set_next heap_start 0
                  (set_size heap_start (heap_size - 24) (bytes s)))\<rparr>"

text \<open>
  The first-fit walk, shared by \<open>kmalloc_locked\<close> and \<open>kheap_alloc\<close>: follow
  \<open>next\<close> until the list ends (result 0), a header fails its check, or a free block is
  large enough. A cyclic list never returns.
\<close>

partial_function (option) find_fit ::
  "(mem \<Rightarrow> u64 \<Rightarrow> bool) \<Rightarrow> mem \<Rightarrow> u64 \<Rightarrow> u64 \<Rightarrow> u64 option" where
  "find_fit ok m sz cur =
     (if cur = 0 then Some 0
      else if \<not> ok m cur then Some cur
      else if h_free m cur \<noteq> 0 \<and> h_size m cur \<ge> sz then Some cur
      else find_fit ok m sz (h_next m cur))"

definition split_block :: "u64 \<Rightarrow> u64 \<Rightarrow> mem \<Rightarrow> mem" where
  "split_block cur sz m =
     (if h_size m cur > sz + 24 + 8 then
        let new_block = cur + 24 + sz;
            m = set_size new_block (h_size m cur - sz - 24) m;
            m = set_next new_block (h_next m cur) m;
            m = set_free new_block 1 m;
            m = set_size cur sz m;
            m = set_next cur new_block m
        in m
      else m)"

definition kmalloc_locked :: "u64 \<Rightarrow> kmem \<Rightarrow> (u64 \<times> kmem) option" where
  "kmalloc_locked sz s =
     (let sz = (sz + 7) AND NOT 7 in
      case find_fit (block_in_heap s) (bytes s) sz (g_heap_start s) of
        None \<Rightarrow> None
      | Some cur \<Rightarrow>
          if cur = 0 then Some (0, s)
          else
            let m = set_free cur 0 (split_block cur sz (bytes s))
            in Some (cur + 24, s\<lparr>bytes := m, g_used := g_used s + h_size m cur\<rparr>))"

partial_function (option) coalesce_loop ::
  "(mem \<Rightarrow> u64 \<Rightarrow> bool) \<Rightarrow> mem \<Rightarrow> u64 \<Rightarrow> mem option" where
  "coalesce_loop ok m cur =
     (if cur = 0 \<or> h_next m cur = 0 then Some m
      else if \<not> ok m cur \<or> \<not> ok m (h_next m cur) then Some m
      else if h_free m cur \<noteq> 0 \<and> h_free m (h_next m cur) \<noteq> 0 \<and>
              block_phys_next m cur = h_next m cur then
        let m1 = set_size cur (h_size m cur + (24 + h_size m (h_next m cur))) m
        in coalesce_loop ok (set_next cur (h_next m1 (h_next m1 cur)) m1) cur
      else coalesce_loop ok m (h_next m cur))"

definition kfree_locked :: "u64 \<Rightarrow> kmem \<Rightarrow> kmem option" where
  "kfree_locked ptr s =
     (if ptr = 0 then Some s
      else
        let block = ptr - 24 in
        if \<not> block_in_heap s (bytes s) block then Some s
        else if h_free (bytes s) block \<noteq> 0 then Some s
        else
          let m = set_free block 1 (bytes s);
              used = (if g_used s \<ge> h_size m block then g_used s - h_size m block else 0)
          in case coalesce_loop (block_in_heap s) m (g_heap_start s) of
               None \<Rightarrow> None
             | Some m' \<Rightarrow> Some (s\<lparr>bytes := m', g_used := used\<rparr>))"

text \<open>The exported entry points take the heap lock around the core.\<close>

definition kmalloc :: "u64 \<Rightarrow> kmem \<Rightarrow> (u64 \<times> kmem) option" where
  "kmalloc sz s = kmalloc_locked sz s"

definition kfree :: "u64 \<Rightarrow> kmem \<Rightarrow> kmem option" where
  "kfree ptr s = kfree_locked ptr s"

partial_function (option) get_free_walk ::
  "(mem \<Rightarrow> u64 \<Rightarrow> bool) \<Rightarrow> mem \<Rightarrow> u64 \<Rightarrow> u64 \<Rightarrow> u64 option" where
  "get_free_walk ok m cur free_bytes =
     (if cur = 0 then Some free_bytes
      else if \<not> ok m cur then Some free_bytes
      else get_free_walk ok m (h_next m cur)
             (if h_free m cur \<noteq> 0 then free_bytes + (h_size m cur + 24) else free_bytes))"

definition kmalloc_get_free :: "kmem \<Rightarrow> u64 option" where
  "kmalloc_get_free s = get_free_walk (block_in_heap s) (bytes s) (g_heap_start s) 0"

definition kmalloc_get_total :: "kmem \<Rightarrow> u64" where
  "kmalloc_get_total s = g_heap_size s"

definition kmalloc_get_used :: "kmem \<Rightarrow> u64" where
  "kmalloc_get_used s = g_used s"

definition kmalloc_set_physical_total :: "u64 \<Rightarrow> kmem \<Rightarrow> kmem" where
  "kmalloc_set_physical_total t s = s\<lparr>g_physical_total := t\<rparr>"

definition kmalloc_get_physical_total :: "kmem \<Rightarrow> u64" where
  "kmalloc_get_physical_total s =
     (if g_physical_total s \<noteq> 0 then g_physical_total s else g_heap_size s)"

definition kmalloc_get_physical_used :: "kmem \<Rightarrow> u64" where
  "kmalloc_get_physical_used s =
     (if g_physical_total s = 0 then g_used s
      else if g_heap_base s > g_physical_total s then g_physical_total s
      else if g_used s > g_physical_total s - g_heap_base s then g_physical_total s
      else g_heap_base s + g_used s)"

section \<open>The auxiliary heaps\<close>

definition kheap_block_ok :: "kheap \<Rightarrow> mem \<Rightarrow> u64 \<Rightarrow> bool" where
  "kheap_block_ok h m p = block_in_range (kh_base h) (kh_base h + kh_size h) m p"

definition kheap_init :: "u64 \<Rightarrow> u64 \<Rightarrow> mem \<Rightarrow> kheap \<times> mem" where
  "kheap_init base sz m =
     (\<lparr>kh_start = base, kh_base = base, kh_size = sz\<rparr>,
      set_free base 1 (set_next base 0 (set_size base (sz - 24) m)))"

definition kheap_alloc :: "kheap \<Rightarrow> u64 \<Rightarrow> mem \<Rightarrow> (u64 \<times> mem) option" where
  "kheap_alloc h sz m =
     (if kh_start h = 0 then Some (0, m)
      else
        let sz = (sz + 7) AND ucast (NOT 7 :: u32) in
        case find_fit (kheap_block_ok h) m sz (kh_start h) of
          None \<Rightarrow> None
        | Some cur \<Rightarrow>
            if cur = 0 \<or> \<not> kheap_block_ok h m cur then Some (0, m)
            else Some (cur + 24, set_free cur 0 (split_block cur sz m)))"

definition kheap_free :: "kheap \<Rightarrow> u64 \<Rightarrow> mem \<Rightarrow> mem option" where
  "kheap_free h ptr m =
     (if ptr = 0 then Some m
      else
        let block = ptr - 24 in
        if \<not> kheap_block_ok h m block \<or> h_free m block \<noteq> 0 then Some m
        else coalesce_loop (kheap_block_ok h) (set_free block 1 m) (kh_start h))"

definition gfx_heap_init :: "u64 \<Rightarrow> u64 \<Rightarrow> kmem \<Rightarrow> kmem" where
  "gfx_heap_init base sz s =
     (case kheap_init base sz (bytes s) of (h, m) \<Rightarrow> s\<lparr>g_gfx_heap := h, bytes := m\<rparr>)"

definition gfx_alloc :: "u64 \<Rightarrow> kmem \<Rightarrow> (u64 \<times> kmem) option" where
  "gfx_alloc sz s =
     map_option (\<lambda>(p, m). (p, s\<lparr>bytes := m\<rparr>)) (kheap_alloc (g_gfx_heap s) sz (bytes s))"

definition gfx_free :: "u64 \<Rightarrow> kmem \<Rightarrow> kmem option" where
  "gfx_free ptr s =
     map_option (\<lambda>m. s\<lparr>bytes := m\<rparr>) (kheap_free (g_gfx_heap s) ptr (bytes s))"

definition image_heap_init :: "u64 \<Rightarrow> u64 \<Rightarrow> kmem \<Rightarrow> kmem" where
  "image_heap_init base sz s =
     (case kheap_init base sz (bytes s) of (h, m) \<Rightarrow> s\<lparr>g_img_heap := h, bytes := m\<rparr>)"

definition image_alloc :: "u64 \<Rightarrow> kmem \<Rightarrow> (u64 \<times> kmem) option" where
  "image_alloc sz s =
     map_option (\<lambda>(p, m). (p, s\<lparr>bytes := m\<rparr>)) (kheap_alloc (g_img_heap s) sz (bytes s))"

definition image_free :: "u64 \<Rightarrow> kmem \<Rightarrow> kmem option" where
  "image_free ptr s =
     map_option (\<lambda>m. s\<lparr>bytes := m\<rparr>) (kheap_free (g_img_heap s) ptr (bytes s))"

definition image_heap_ready :: "kmem \<Rightarrow> bool" where
  "image_heap_ready s \<longleftrightarrow> kh_start (g_img_heap s) \<noteq> 0"

end
