(* ===== verification/KAlloc_Correct.thy ===== *)
theory KAlloc_Correct
  imports KAlloc
begin

text \<open>
  Correctness of the kernel heap of \<open>kernel/src/alloc.c\<close> (modelled in theory KAlloc).
  A heap is abstracted to the list of its blocks: \<open>seg\<close> says the headers in memory form
  that list, \<open>tiles\<close> that the blocks cover the region without gaps, \<open>heap_rep\<close> both.
  First-fit allocation, splitting, release and coalescing are related to list functions;
  the contract clients rely on is the locale \<open>allocator\<close>, which the main heap and every
  auxiliary heap interpret. The properties of the component are at the end.
\<close>

section \<open>Header fields\<close>

named_theorems hdr_simps

lemma unat_hdr_off:
  assumes "unat (p :: u64) + 24 \<le> 2 ^ 64"
  shows "unat (p + 8) = unat p + 8" and "unat (p + 16) = unat p + 16"
  using assms by (simp_all add: unat_add_numeral_exact)

lemma hdr_same [hdr_simps]:
  "h_size (set_size p v m) p = v" "h_next (set_next p v m) p = v" "h_free (set_free p w m) p = w"
  by (simp_all add: h_size_def set_size_def h_next_def set_next_def h_free_def set_free_def mem_simps)

lemma hdr_other_field [hdr_simps]:
  assumes "unat p + 24 \<le> 2 ^ 64"
  shows "h_size (set_next p v m) p = h_size m p" "h_size (set_free p w m) p = h_size m p"
    and "h_next (set_size p v m) p = h_next m p" "h_next (set_free p w m) p = h_next m p"
    and "h_free (set_size p v m) p = h_free m p" "h_free (set_next p v m) p = h_free m p"
  using assms unat_hdr_off [OF assms]
  by (simp_all add: h_size_def set_size_def h_next_def set_next_def h_free_def set_free_def
      mem_simps apart_def)

lemma apart_hdr:
  assumes "apart a n p 24"
  shows "apart a n p 8" "apart a n (p + 8) 8" "apart a n (p + 16) 4"
  using assms unat_hdr_off [of p] by (auto simp: apart_def)

lemma apart_commute: "apart a n b k \<longleftrightarrow> apart b k a n"
  by (auto simp: apart_def)

lemma hdr_write_apart [hdr_simps]:
  assumes "apart a (length bs) p 24"
  shows "h_size (mem_write m a bs) p = h_size m p" "h_next (mem_write m a bs) p = h_next m p"
    "h_free (mem_write m a bs) p = h_free m p"
  using apart_hdr [OF assms] by (simp_all add: h_size_def h_next_def h_free_def mem_simps)

lemma hdr_set_apart [hdr_simps]:
  assumes "apart q 24 p 24"
  shows "h_size (set_size q v m) p = h_size m p" "h_size (set_next q v m) p = h_size m p"
    "h_size (set_free q w m) p = h_size m p"
    and "h_next (set_size q v m) p = h_next m p" "h_next (set_next q v m) p = h_next m p"
    "h_next (set_free q w m) p = h_next m p"
    and "h_free (set_size q v m) p = h_free m p" "h_free (set_next q v m) p = h_free m p"
    "h_free (set_free q w m) p = h_free m p"
proof -
  have q: "apart q 8 p 24" "apart (q + 8) 8 p 24" "apart (q + 16) 4 p 24"
    using assms apart_hdr [of p 24 q] by (simp_all add: apart_commute [of p])
  show "h_size (set_size q v m) p = h_size m p" "h_size (set_next q v m) p = h_size m p"
    "h_size (set_free q w m) p = h_size m p"
    and "h_next (set_size q v m) p = h_next m p" "h_next (set_next q v m) p = h_next m p"
    "h_next (set_free q w m) p = h_next m p"
    and "h_free (set_size q v m) p = h_free m p" "h_free (set_next q v m) p = h_free m p"
    "h_free (set_free q w m) p = h_free m p"
    using q by (simp_all add: set_size_def set_next_def set_free_def st64_def st32_def hdr_simps)
qed

section \<open>The block list of a heap\<close>

text \<open>
  A block is its header address, its payload size and whether it is free. \<open>seg m p bs q\<close>
  says that following \<open>next\<close> from \<open>p\<close> visits exactly the blocks \<open>bs\<close> and arrives
  at \<open>q\<close>; \<open>tiles a bs e\<close> that the blocks cover the bytes from \<open>a\<close> to \<open>e\<close> without
  a gap or an overlap.
\<close>

type_synonym blk = "u64 \<times> u64 \<times> bool"

fun seg :: "mem \<Rightarrow> u64 \<Rightarrow> blk list \<Rightarrow> u64 \<Rightarrow> bool" where
  "seg m p [] q \<longleftrightarrow> p = q"
| "seg m p ((a, n, f) # bs) q \<longleftrightarrow>
     p = a \<and> a \<noteq> 0 \<and> h_size m a = n \<and> (h_free m a \<noteq> 0) = f \<and> seg m (h_next m a) bs q"

fun tiles :: "nat \<Rightarrow> blk list \<Rightarrow> nat \<Rightarrow> bool" where
  "tiles x [] e \<longleftrightarrow> x = e"
| "tiles x ((a, n, f) # bs) e \<longleftrightarrow> unat a = x \<and> tiles (x + 24 + unat n) bs e"

lemma seg_append [simp]: "seg m p (bs @ cs) q \<longleftrightarrow> (\<exists>r. seg m p bs r \<and> seg m r cs q)"
  by (induction bs arbitrary: p) auto

lemma tiles_append [simp]: "tiles x (bs @ cs) e \<longleftrightarrow> (\<exists>y. tiles x bs y \<and> tiles y cs e)"
  by (induction bs arbitrary: x) auto

lemma tiles_le: "tiles x bs e \<Longrightarrow> x \<le> e"
  by (induction bs arbitrary: x) (auto, fastforce)

lemma tiles_block:
  "tiles x bs e \<Longrightarrow> (a, n, f) \<in> set bs \<Longrightarrow> x \<le> unat a \<and> unat a + 24 + unat n \<le> e"
proof (induction bs arbitrary: x)
  case (Cons b bs)
  obtain c k g where b: "b = (c, k, g)" by (cases b)
  show ?case
    using Cons.IH [of "x + 24 + unat k"] Cons.prems tiles_le [of "x + 24 + unat k" bs e]
    by (auto simp: b)
qed simp

text \<open>A store that misses every header of a segment leaves the segment alone.\<close>

definition misses :: "u64 \<Rightarrow> nat \<Rightarrow> blk list \<Rightarrow> bool" where
  "misses w k bs \<longleftrightarrow> (\<forall>(a, n, f) \<in> set bs. apart w k a 24)"

lemma misses_simps [simp]:
  "misses w k []" "misses w k ((a, n, f) # bs) \<longleftrightarrow> apart w k a 24 \<and> misses w k bs"
  "misses w k (bs @ cs) \<longleftrightarrow> misses w k bs \<and> misses w k cs"
  by (auto simp: misses_def)

lemma seg_write: "misses w (length xs) bs \<Longrightarrow> seg (mem_write m w xs) p bs q = seg m p bs q"
  by (induction bs arbitrary: p) (auto simp: hdr_simps)

lemma seg_set:
  assumes "misses w 24 bs"
  shows "seg (set_size w v m) p bs q = seg m p bs q" "seg (set_next w v m) p bs q = seg m p bs q"
    "seg (set_free w u m) p bs q = seg m p bs q"
  using assms by (induction bs arbitrary: p) (auto simp: hdr_simps)

text \<open>Addresses below or above a tiled region miss its headers.\<close>

lemma misses_above:
  "tiles x bs e \<Longrightarrow> e \<le> unat w \<Longrightarrow> unat w + k \<le> 2 ^ 64 \<Longrightarrow> misses w k bs"
  using tiles_block [of x bs e] by (fastforce simp: misses_def apart_def)

lemma misses_below:
  "tiles x bs e \<Longrightarrow> e \<le> 2 ^ 64 \<Longrightarrow> unat w + k \<le> x \<Longrightarrow> misses w k bs"
  using tiles_block [of x bs e] by (fastforce simp: misses_def apart_def)

text \<open>
  The bytes the allocator may write: every header and the payload of every free block.
\<close>

definition owned :: "blk list \<Rightarrow> u64 set" where
  "owned bs = {x. \<exists>(a, n, f) \<in> set bs.
     unat a \<le> unat x \<and> unat x < unat a + 24 + (if f then unat n else 0)}"

definition same_off :: "u64 set \<Rightarrow> mem \<Rightarrow> mem \<Rightarrow> bool" where
  "same_off X m m' \<longleftrightarrow> (\<forall>x. x \<notin> X \<longrightarrow> m' x = m x)"

lemma same_off_refl [simp]: "same_off X m m"
  by (simp add: same_off_def)

lemma same_off_trans: "same_off X m m1 \<Longrightarrow> same_off Y m1 m2 \<Longrightarrow> X \<subseteq> Z \<Longrightarrow> Y \<subseteq> Z \<Longrightarrow> same_off Z m m2"
  unfolding same_off_def by (metis subsetD)

lemma offset_in_range:
  assumes "unat (x - a :: u64) < n" and "unat a + n \<le> 2 ^ 64"
  shows "unat a \<le> unat x \<and> unat x < unat a + n"
  using assms unat_lt_exp [of x] unat_lt_exp [of a] by (auto simp: unat_sub_if' split: if_splits)

lemma same_off_hdr:
  assumes "unat a + 24 \<le> 2 ^ 64" and "{x. unat a \<le> unat x \<and> unat x < unat a + 24} \<subseteq> X"
  shows "same_off X m (set_size a v m)" "same_off X m (set_next a v m)" "same_off X m (set_free a u m)"
proof -
  have off: "unat (a + 8) = unat a + 8" "unat (a + 16) = unat a + 16"
    using unat_hdr_off [of a] assms(1) by simp_all
  have "unat (x - a) < 8 \<Longrightarrow> x \<in> X" "unat (x - (a + 8)) < 8 \<Longrightarrow> x \<in> X"
    "unat (x - (a + 16)) < 4 \<Longrightarrow> x \<in> X" for x
    using offset_in_range [of x a 8] offset_in_range [of x "a + 8" 8]
      offset_in_range [of x "a + 16" 4] assms off by auto
  then show "same_off X m (set_size a v m)" "same_off X m (set_next a v m)"
    "same_off X m (set_free a u m)"
    by (auto simp: same_off_def set_size_def set_next_def set_free_def st64_def st32_def mem_write_def)
qed

lemma same_off_step:
  assumes "same_off X m m1"
    and "unat a + 24 \<le> 2 ^ 64" "{x. unat a \<le> unat x \<and> unat x < unat a + 24} \<subseteq> X"
  shows "same_off X m (set_size a v m1)" "same_off X m (set_next a v m1)"
    "same_off X m (set_free a u m1)"
  using same_off_hdr [OF assms(2,3), of m1] assms(1) by (simp_all add: same_off_def)

lemma owned_simps:
  "owned [] = {}"
  "owned ((a, n, f) # bs) =
     {x. unat a \<le> unat x \<and> unat x < unat a + 24 + (if f then unat n else 0)} \<union> owned bs"
  "owned (bs @ cs) = owned bs \<union> owned cs"
  by (auto simp: owned_def)

section \<open>Heap representation\<close>

definition heap_rep :: "mem \<Rightarrow> u64 \<Rightarrow> u64 \<Rightarrow> u64 \<Rightarrow> blk list \<Rightarrow> bool" where
  "heap_rep m base sz start bs \<longleftrightarrow>
     start = base \<and> 32 \<le> unat base \<and> unat base + unat sz < 2 ^ 64 \<and>
     seg m start bs 0 \<and> tiles (unat base) bs (unat base + unat sz)"

lemma block_in_range_iff:
  assumes "unat base \<le> unat a" and "unat a + 24 + unat (h_size m a) \<le> unat base + unat sz"
    and "unat base + unat sz < 2 ^ 64"
  shows "block_in_range base (base + sz) m a"
proof -
  have e: "unat (base + sz) = unat base + unat sz"
    using assms(3) by (simp add: unat_add_exact)
  have a: "unat (a + 24) = unat a + 24"
    using assms by (simp add: unat_add_numeral_exact)
  have "unat (base + sz - a - 24) = unat base + unat sz - unat a - 24"
    using assms e by (simp add: unat_sub_if')
  then show ?thesis
    using assms e a by (auto simp: block_in_range_def word_less_nat_alt not_less)
qed

lemma seg_h_size: "seg m p bs q \<Longrightarrow> (a, n, f) \<in> set bs \<Longrightarrow> h_size m a = n \<and> (h_free m a \<noteq> 0) = f \<and> a \<noteq> 0"
  by (induction bs arbitrary: p) auto

fun first_fit :: "u64 \<Rightarrow> blk list \<Rightarrow> (blk list \<times> (u64 \<times> u64) \<times> blk list) option" where
  "first_fit n [] = None"
| "first_fit n ((a, k, f) # bs) =
     (if f \<and> n \<le> k then Some ([], (a, k), bs)
      else map_option (\<lambda>(pre, b, post). ((a, k, f) # pre, b, post)) (first_fit n bs))"

lemma first_fit_Some:
  "first_fit n bs = Some (pre, (a, k), post) \<Longrightarrow> bs = pre @ (a, k, True) # post \<and> n \<le> k"
  by (induction bs arbitrary: pre) (auto split: if_splits)

lemma first_fit_None:
  "first_fit n bs = None \<longleftrightarrow> (\<forall>(a, k, f) \<in> set bs. \<not> (f \<and> n \<le> k))"
  by (induction bs) (auto split: if_splits)

lemma find_fit_seg:
  assumes "seg m p bs 0" and "\<And>a k f. (a, k, f) \<in> set bs \<Longrightarrow> ok m a"
  shows "find_fit ok m n p =
     Some (case first_fit n bs of None \<Rightarrow> 0 | Some (pre, (a, k), post) \<Rightarrow> a)"
  using assms
proof (induction bs arbitrary: p)
  case Nil
  then show ?case by (simp add: find_fit.simps)
next
  case (Cons b bs)
  obtain a k f where b: "b = (a, k, f)" by (cases b)
  have "find_fit ok m n (h_next m a) =
     Some (case first_fit n bs of None \<Rightarrow> 0 | Some (pre, (a, k), post) \<Rightarrow> a)"
    using Cons by (auto simp: b)
  then show ?case
    using Cons.prems by (auto simp: b find_fit.simps [of ok m n a] split: option.splits)
qed

text \<open>What an allocation leaves of the block it takes.\<close>

definition carve :: "u64 \<Rightarrow> u64 \<Rightarrow> u64 \<Rightarrow> blk list" where
  "carve n a k = (if n + 24 + 8 < k then [(a, n, False), (a + 24 + n, k - n - 24, True)]
                  else [(a, k, False)])"

lemma carve_addr:
  assumes "32 \<le> unat (a :: u64)" and "unat a + 24 + unat k < 2 ^ 64" and "n \<le> k" and "n + 24 + 8 < k"
  shows "unat (a + 24 + n) = unat a + 24 + unat n" and "unat (k - n - 24) = unat k - unat n - 24"
    and "unat n + 32 < unat k"
proof -
  have nk: "unat n \<le> unat k" using assms(3) by (simp add: word_le_nat_alt)
  then have n32: "unat (n + 24 + 8) = unat n + 32"
    using assms(1,2) by (simp add: unat_word_ariths)
  then show k: "unat n + 32 < unat k" using assms(4) by (simp add: word_less_nat_alt)
  show "unat (a + 24 + n) = unat a + 24 + unat n"
    using assms(2) nk by (simp add: unat_word_ariths)
  show "unat (k - n - 24) = unat k - unat n - 24"
    using k nk by (simp add: unat_sub_if')
qed

lemma seg_carve:
  assumes pre: "tiles x pre (unat a)" "seg m p pre a"
    and post: "tiles (unat a + 24 + unat k) post e" "seg m (h_next m a) post 0"
    and a: "32 \<le> unat a" "h_size m a = k" and e: "e < 2 ^ 64" and n: "n \<le> k"
  defines "m' \<equiv> set_free a 0 (split_block a n m)"
  shows "seg m' p (pre @ carve n a k @ post) 0"
    and "tiles x (pre @ carve n a k @ post) e"
    and "same_off {z. unat a \<le> unat z \<and> unat z < unat a + 24 + unat k} m m'"
    and "h_size m' a = (if n + 24 + 8 < k then n else k)"
proof -
  let ?b = "a + 24 + n"
  have ae: "unat a + 24 + unat k < 2 ^ 64" using tiles_le [OF post(1)] e by simp
  have anz: "a \<noteq> 0" using a(1) by auto
  have ma: "misses a 24 pre" "misses a 24 post"
    using misses_above [OF pre(1), of a 24] misses_below [OF post(1), of a 24] ae e by simp_all
  have all: "seg m' p (pre @ carve n a k @ post) 0 \<and> tiles x (pre @ carve n a k @ post) e \<and>
    same_off {z. unat a \<le> unat z \<and> unat z < unat a + 24 + unat k} m m' \<and>
    h_size m' a = (if n + 24 + 8 < k then n else k)"
  proof (cases "n + 24 + 8 < k")
    case True
    note addr = carve_addr [OF a(1) ae n True]
    have bnz: "?b \<noteq> 0" using addr(1) a(1) by (metis add_is_0 not_numeral_le_zero unat_0)
    have mb: "misses ?b 24 pre" "misses ?b 24 post"
      using misses_above [OF pre(1), of ?b 24] misses_below [OF post(1), of ?b 24] addr ae e by simp_all
    have ab: "apart ?b 24 a 24" "apart a 24 ?b 24"
      using addr ae by (simp_all add: apart_def)
    have hs: "unat a + 24 \<le> 2 ^ 64" "unat ?b + 24 \<le> 2 ^ 64" using addr ae by simp_all
    have m': "m' = set_free a 0 (set_next a ?b (set_size a n (set_free ?b 1
        (set_next ?b (h_next m a) (set_size ?b (k - n - 24) m)))))"
      using True ab by (simp add: m'_def split_block_def Let_def a(2) hdr_simps)
    have "seg m' p pre a" "seg m' (h_next m a) post 0"
      using pre post ma mb by (simp_all add: m' seg_set)
    moreover have fields: "h_size m' a = n" "h_free m' a = 0" "h_next m' a = ?b"
      "h_size m' ?b = k - n - 24" "h_free m' ?b = 1" "h_next m' ?b = h_next m a"
      using ab hs by (simp_all add: m' hdr_simps)
    moreover have "same_off {z. unat a \<le> unat z \<and> unat z < unat a + 24 + unat k} m m'"
      unfolding m' by (intro same_off_step same_off_refl hs) (use addr in auto)
    ultimately show ?thesis
      using True pre post addr anz bnz by (auto simp: carve_def add_ac)
  next
    case False
    then have m': "m' = set_free a 0 m"
      by (simp add: m'_def split_block_def a(2))
    have "seg m' p pre a" "seg m' (h_next m a) post 0"
      using pre post ma by (simp_all add: m' seg_set)
    moreover have "h_size m' a = k" "h_free m' a = 0" "h_next m' a = h_next m a"
      using ae a by (simp_all add: m' hdr_simps)
    moreover have "same_off {z. unat a \<le> unat z \<and> unat z < unat a + 24 + unat k} m m'"
      unfolding m' by (rule same_off_hdr) (use ae in auto)
    ultimately show ?thesis using False pre post anz by (auto simp: carve_def)
  qed
  then show "seg m' p (pre @ carve n a k @ post) 0" "tiles x (pre @ carve n a k @ post) e"
    "same_off {z. unat a \<le> unat z \<and> unat z < unat a + 24 + unat k} m m'"
    "h_size m' a = (if n + 24 + 8 < k then n else k)"
    by simp_all
qed

section \<open>Coalescing\<close>

text \<open>The reference: merge every run of neighbouring free blocks.\<close>

fun coalesce :: "blk list \<Rightarrow> blk list" where
  "coalesce [] = []"
| "coalesce [b] = [b]"
| "coalesce ((a, n, f) # (c, k, g) # bs) =
     (if f \<and> g then coalesce ((a, n + (24 + k), True) # bs)
      else (a, n, f) # coalesce ((c, k, g) # bs))"

fun no_free_pair :: "blk list \<Rightarrow> bool" where
  "no_free_pair ((a, n, f) # (c, k, g) # bs) \<longleftrightarrow> \<not> (f \<and> g) \<and> no_free_pair ((c, k, g) # bs)"
| "no_free_pair bs = True"

lemma coalesce_head:
  "\<exists>n' f' cs. coalesce ((a, n, f) # bs) = (a, n', f') # cs \<and> (\<not> f \<longrightarrow> n' = n) \<and> f' = f"
proof (induction "(a, n, f) # bs" arbitrary: n f bs rule: coalesce.induct)
  case (3 n f c k g bs)
  then show ?case by (cases "f \<and> g") auto
qed simp

lemma no_free_pair_coalesce: "no_free_pair (coalesce bs)"
proof (induction bs rule: coalesce.induct)
  case (3 a n f c k g bs)
  then show ?case using coalesce_head [of c k g bs] by auto
qed simp_all

lemma merged_size:
  assumes "unat (a :: u64) + 24 + unat n + 24 + unat k < 2 ^ 64"
  shows "unat (n + (24 + k) :: u64) = unat n + 24 + unat k"
  using assms by (simp add: unat_word_ariths)

lemma tiles_coalesce: "tiles x bs e \<Longrightarrow> e < 2 ^ 64 \<Longrightarrow> tiles x (coalesce bs) e"
proof (induction bs arbitrary: x rule: coalesce.induct)
  case (3 a n f c k g bs)
  from 3(3,4) have "unat a + 24 + unat n + 24 + unat k < 2 ^ 64"
    using tiles_le [of "x + 24 + unat n + 24 + unat k" bs e] by simp
  from merged_size [OF this] 3 show ?case by (auto simp: add_ac)
qed simp_all

lemma live_coalesce:
  "(a, n, False) \<in> set (coalesce bs) \<longleftrightarrow> (a, n, False) \<in> set bs"
  by (induction bs rule: coalesce.induct) auto

lemma mem_read_same_off:
  assumes "same_off X m m'" and "unat b + k \<le> 2 ^ 64"
    and "\<And>x. unat b \<le> unat x \<Longrightarrow> unat x < unat b + k \<Longrightarrow> x \<notin> X"
  shows "mem_read m' b k = mem_read m b k"
proof -
  have "m' (b + of_nat i) = m (b + of_nat i)" if "i < k" for i
  proof -
    have "unat (b + of_nat i) = unat b + i"
      using that assms(2) by (simp add: unat_word_ariths unat_of_nat)
    then show ?thesis using assms(1,3) that by (simp add: same_off_def)
  qed
  then show ?thesis by (simp add: mem_read_def)
qed

lemma hdr_same_off:
  assumes "same_off X m m'" and "unat a + 24 \<le> 2 ^ 64"
    and "\<And>x. unat a \<le> unat x \<Longrightarrow> unat x < unat a + 24 \<Longrightarrow> x \<notin> X"
  shows "h_size m' a = h_size m a" "h_next m' a = h_next m a" "h_free m' a = h_free m a"
  using mem_read_same_off [OF assms(1), of a 8] mem_read_same_off [OF assms(1), of "a + 8" 8]
    mem_read_same_off [OF assms(1), of "a + 16" 4] unat_hdr_off [OF assms(2)] assms(2,3)
  by (simp_all add: h_size_def h_next_def h_free_def ld64_def ld32_def)

lemma seg_same_off:
  assumes "same_off X m m'" and "tiles x bs e" and "e \<le> 2 ^ 64"
    and "\<And>y. x \<le> unat y \<Longrightarrow> unat y < e \<Longrightarrow> y \<notin> X"
  shows "seg m' p bs q = seg m p bs q"
  using assms(2,4)
proof (induction bs arbitrary: p x)
  case (Cons b bs)
  obtain a n f where b: "b = (a, n, f)" by (cases b)
  have ae: "unat a + 24 + unat n \<le> e" and t: "tiles (x + 24 + unat n) bs e" and x: "unat a = x"
    using Cons.prems(1) tiles_le [of "x + 24 + unat n" bs e] by (simp_all add: b)
  have "h_size m' a = h_size m a \<and> h_next m' a = h_next m a \<and> h_free m' a = h_free m a"
    using hdr_same_off [OF assms(1), of a] ae x assms(3) Cons.prems(2) by auto
  moreover have "seg m' r bs q = seg m r bs q" for r
    using Cons.IH [OF t] Cons.prems(2) by simp
  ultimately show ?case by (simp add: b)
qed simp

lemma coalesce_loop_seg:
  assumes "seg m a ((a, n, f) # bs) 0" and "tiles x ((a, n, f) # bs) (unat base + unat sz)"
    and "unat base \<le> x" and "unat base + unat sz < 2 ^ 64"
  shows "\<exists>m'. coalesce_loop (block_in_range base (base + sz)) m a = Some m' \<and>
     seg m' a (coalesce ((a, n, f) # bs)) 0 \<and> same_off (owned ((a, n, f) # bs)) m m'"
  using assms
proof (induction "(a, n, f) # bs" arbitrary: a n f bs m x rule: coalesce.induct)
  case (2 a n f)
  then show ?case by (intro exI [of _ m]) (simp add: coalesce_loop.simps)
next
  case (3 a n f c k g bs)
  let ?ok = "block_in_range base (base + sz)"
  have seg: "h_size m a = n" "(h_free m a \<noteq> 0) = f" "h_next m a = c" "a \<noteq> 0" "c \<noteq> 0"
    "h_size m c = k" "(h_free m c \<noteq> 0) = g" "seg m (h_next m c) bs 0"
    using 3(3) by auto
  have til: "unat a = x" "unat c = x + 24 + unat n"
    "tiles (x + 24 + unat n + 24 + unat k) bs (unat base + unat sz)"
    using 3(4) by auto
  have lim: "x + 24 + unat n + 24 + unat k \<le> unat base + unat sz"
    by (rule tiles_le [OF til(3)])
  have ok: "?ok m a" "?ok m c"
    using block_in_range_iff [of base a m sz] block_in_range_iff [of base c m sz] seg til lim 3(5,6)
    by simp_all
  have "a + 24 + n = c"
    unfolding word_unat_eq_iff using lim til 3(6) by (simp add: unat_word_ariths)
  then have phys: "block_phys_next m a = c"
    using seg by (simp add: block_phys_next_def)
  have hs: "unat a + 24 \<le> 2 ^ 64" using lim til 3(6) by simp
  show ?case
  proof (cases "f \<and> g")
    case True
    define m1 where "m1 = set_size a (n + (24 + k)) m"
    define m2 where "m2 = set_next a (h_next m1 (h_next m1 a)) m1"
    have ac: "apart a 24 c 24" using til lim 3(6) by (simp add: apart_def)
    have n1: "h_next m1 a = c" "h_next m1 c = h_next m c"
      using hs ac seg by (simp_all add: m1_def hdr_simps)
    have mi: "misses a 24 bs"
      using misses_below [OF til(3), of a 24] til 3(6) by simp
    have sz: "unat (n + (24 + k)) = unat n + 24 + unat k"
      using merged_size [of a n k] lim til 3(6) by simp
    have "seg m2 a ((a, n + (24 + k), True) # bs) 0"
      using seg mi hs True n1 by (simp add: m2_def m1_def hdr_simps seg_set)
    moreover have "tiles x ((a, n + (24 + k), True) # bs) (unat base + unat sz)"
      using til sz by (simp add: add_ac)
    ultimately obtain m' where m': "coalesce_loop ?ok m2 a = Some m'"
      "seg m' a (coalesce ((a, n + (24 + k), True) # bs)) 0"
      "same_off (owned ((a, n + (24 + k), True) # bs)) m2 m'"
      using 3(1) [OF True] 3(5,6) by blast
    have "coalesce_loop ?ok m a = coalesce_loop ?ok m2 a"
      using True seg ok phys by (simp add: coalesce_loop.simps [of ?ok m a] Let_def m2_def m1_def)
    moreover have "same_off (owned ((a, n, f) # (c, k, g) # bs)) m m2"
      unfolding m2_def m1_def by (intro same_off_step same_off_refl hs) (auto simp: owned_simps)
    then have "same_off (owned ((a, n, f) # (c, k, g) # bs)) m m'"
      using m'(3) by (rule same_off_trans) (use True sz til in \<open>auto simp: owned_simps\<close>)
    ultimately show ?thesis using m' True by auto
  next
    case False
    obtain m' where m': "coalesce_loop ?ok m c = Some m'"
      "seg m' c (coalesce ((c, k, g) # bs)) 0" "same_off (owned ((c, k, g) # bs)) m m'"
      using 3(2) [OF False, of m "x + 24 + unat n"] seg til 3(5,6) by auto
    have "coalesce_loop ?ok m a = coalesce_loop ?ok m c"
      using False seg ok by (auto simp: coalesce_loop.simps [of ?ok m a])
    moreover have "y \<notin> owned ((c, k, g) # bs)" if "unat y < unat a + 24" for y
      using that tiles_block [OF til(3)] til by (fastforce simp: owned_def)
    then have "h_size m' a = n \<and> h_next m' a = c \<and> h_free m' a = h_free m a"
      using hdr_same_off [OF m'(3) hs] seg by auto
    moreover have "same_off (owned ((a, n, f) # (c, k, g) # bs)) m m'"
      using m'(3) by (auto simp: same_off_def owned_simps)
    ultimately show ?thesis using m' False seg by auto
  qed
qed

section \<open>Allocation and release on a region\<close>

text \<open>The live allocations of a block list: payload pointer and payload size.\<close>

definition live_of :: "blk list \<Rightarrow> (u64 \<times> u64) set" where
  "live_of bs = {(a + 24, n) | a n. (a, n, False) \<in> set bs}"

definition region :: "u64 \<Rightarrow> u64 \<Rightarrow> u64 set" where
  "region base sz = {x. unat base \<le> unat x \<and> unat x < unat base + unat sz}"

lemma owned_region:
  assumes "heap_rep m base sz start bs"
  shows "owned bs \<subseteq> region base sz"
  using assms tiles_block [of "unat base" bs "unat base + unat sz"]
  by (fastforce simp: heap_rep_def owned_def region_def split: if_splits)

lemma tiles_distinct:
  assumes "tiles x (pre @ (a, n, f) # post) e"
  shows "(a, k, g) \<notin> set pre" and "(a, k, g) \<notin> set post"
proof -
  from assms have t: "tiles x pre (unat a)" "tiles (unat a + 24 + unat n) post e"
    by auto
  show "(a, k, g) \<notin> set pre" "(a, k, g) \<notin> set post"
    using tiles_block [OF t(1), of a k g] tiles_block [OF t(2), of a k g] by auto
qed

lemma heap_rep_ok:
  assumes "heap_rep m base sz start bs" and "(a, n, f) \<in> set bs"
  shows "block_in_range base (base + sz) m a"
  using assms seg_h_size [of m start bs 0 a n f] tiles_block [of "unat base" bs _ a n f]
    block_in_range_iff [of base a m sz]
  by (auto simp: heap_rep_def)

lemma heap_rep_find:
  assumes "heap_rep m base sz start bs"
  shows "find_fit (block_in_range base (base + sz)) m n start =
     Some (case first_fit n bs of None \<Rightarrow> 0 | Some (pre, (a, k), post) \<Rightarrow> a)"
  using assms heap_rep_ok [OF assms] find_fit_seg by (auto simp: heap_rep_def)

lemma heap_rep_alloc:
  assumes rep: "heap_rep m base sz start (pre @ (a, k, True) # post)" and n: "n \<le> k"
  defines "m' \<equiv> set_free a 0 (split_block a n m)"
  shows "heap_rep m' base sz start (pre @ carve n a k @ post)"
    and "same_off (owned (pre @ (a, k, True) # post)) m m'"
    and "h_size m' a = (if n + 24 + 8 < k then n else k)"
proof -
  let ?e = "unat base + unat sz"
  have seg: "seg m start pre a" "seg m (h_next m a) post 0" "h_size m a = k"
    and til: "tiles (unat base) pre (unat a)" "tiles (unat a + 24 + unat k) post ?e"
    and lim: "32 \<le> unat base" "?e < 2 ^ 64"
    using rep by (auto simp: heap_rep_def)
  have "32 \<le> unat a" using lim(1) tiles_le [OF til(1)] by simp
  note c = seg_carve [OF til(1) seg(1) til(2) seg(2) this seg(3) lim(2) n, folded m'_def]
  show "heap_rep m' base sz start (pre @ carve n a k @ post)"
    using rep c(1,2) by (simp add: heap_rep_def)
  show "same_off (owned (pre @ (a, k, True) # post)) m m'"
    using c(3) by (auto simp: same_off_def owned_simps)
  show "h_size m' a = (if n + 24 + 8 < k then n else k)" by (rule c(4))
qed

lemma live_carve:
  "live_of (pre @ carve n a k @ post) =
     insert (a + 24, if n + 24 + 8 < k then n else k) (live_of (pre @ (a, k, True) # post))"
  by (auto simp: live_of_def carve_def)

fun used_of :: "blk list \<Rightarrow> nat" where
  "used_of [] = 0"
| "used_of ((a, n, f) # bs) = (if f then 0 else unat n) + used_of bs"

lemma used_of_append [simp]: "used_of (bs @ cs) = used_of bs + used_of cs"
  by (induction bs rule: used_of.induct) auto

lemma used_of_coalesce: "used_of (coalesce bs) = used_of bs"
  by (induction bs rule: coalesce.induct) auto

lemma used_of_le: "tiles x bs e \<Longrightarrow> x + used_of bs \<le> e"
proof (induction bs arbitrary: x rule: used_of.induct)
  case (2 a n f bs)
  from 2(2) have "tiles (x + 24 + unat n) bs e" by simp
  from 2(1) [OF this] show ?case by simp
qed simp

lemma heap_rep_release:
  assumes rep: "heap_rep m base sz start bs" and mem: "(a, n, False) \<in> set bs"
  obtains m' bs' where
    "coalesce_loop (block_in_range base (base + sz)) (set_free a 1 m) start = Some m'"
    "heap_rep m' base sz start bs'" "no_free_pair bs'"
    "live_of bs' = live_of bs - {(a + 24, n)}" "used_of bs = used_of bs' + unat n"
    "same_off (owned bs \<union> {x. unat (a + 24) \<le> unat x \<and> unat x < unat (a + 24) + unat n}) m m'"
proof -
  let ?e = "unat base + unat sz"
  obtain pre post where bs: "bs = pre @ (a, n, False) # post"
    using mem by (auto simp: in_set_conv_decomp)
  let ?bs = "pre @ (a, n, True) # post"
  have seg: "seg m start pre a" "seg m (h_next m a) post 0" "h_size m a = n" "a \<noteq> 0"
    and til: "tiles (unat base) pre (unat a)" "tiles (unat a + 24 + unat n) post ?e"
    and st: "start = base" and lim: "32 \<le> unat base" "?e < 2 ^ 64"
    using rep by (auto simp: heap_rep_def bs)
  have ae: "unat a + 24 + unat n \<le> ?e" by (rule tiles_le [OF til(2)])
  have hs: "unat a + 24 \<le> 2 ^ 64" using ae lim by simp
  have "misses a 24 pre" "misses a 24 post"
    using misses_above [OF til(1), of a 24] misses_below [OF til(2), of a 24] hs lim by simp_all
  then have seg1: "seg (set_free a 1 m) start ?bs 0"
    using seg hs by (auto simp: seg_set hdr_simps)
  have til1: "tiles (unat base) ?bs ?e" using til by auto
  obtain c k g cs where cs: "?bs = (c, k, g) # cs" by (metis append_is_Nil_conv list.exhaust list.distinct(1) prod_cases3)
  then have "c = start" using seg1 by auto
  with coalesce_loop_seg [of "set_free a 1 m" c k g cs "unat base" base sz] seg1 til1 lim cs
  obtain m' where m': "coalesce_loop (block_in_range base (base + sz)) (set_free a 1 m) start = Some m'"
    "seg m' start (coalesce ?bs) 0" "same_off (owned ?bs) (set_free a 1 m) m'"
    by auto
  have a24: "unat (a + 24) = unat a + 24"
    using ae lim by (simp add: unat_add_numeral_exact)
  show ?thesis
  proof
    show "coalesce_loop (block_in_range base (base + sz)) (set_free a 1 m) start = Some m'"
      by (rule m'(1))
    show "heap_rep m' base sz start (coalesce ?bs)"
      using m'(2) st lim tiles_coalesce [OF til1] by (simp add: heap_rep_def)
    show "no_free_pair (coalesce ?bs)" by (rule no_free_pair_coalesce)
    show "live_of (coalesce ?bs) = live_of bs - {(a + 24, n)}"
      using tiles_distinct [of "unat base" pre a n True post ?e] til1
      by (auto simp: live_of_def live_coalesce bs)
    show "used_of bs = used_of (coalesce ?bs) + unat n"
      by (simp add: used_of_coalesce bs)
    have "same_off (owned ?bs) m (set_free a 1 m)"
      by (rule same_off_hdr [OF hs]) (auto simp: owned_simps)
    from same_off_trans [OF this m'(3) order_refl order_refl]
    show "same_off (owned bs \<union> {x. unat (a + 24) \<le> unat x \<and> unat x < unat (a + 24) + unat n}) m m'"
      by (auto simp: same_off_def bs owned_simps a24)
  qed
qed

section \<open>The allocator interface\<close>

text \<open>
  What a client of an allocator may rely on: allocation and release always return, an
  allocation adds exactly one live block (or fails and changes nothing), releasing a live
  block removes exactly that block, live blocks never overlap, and neither operation
  changes a byte of a block that stays live.
\<close>

definition payload :: "u64 \<times> u64 \<Rightarrow> u64 set" where
  "payload b = {x. unat (fst b) \<le> unat x \<and> unat x < unat (fst b) + unat (snd b)}"

locale allocator =
  fixes alloc :: "u64 \<Rightarrow> 's \<Rightarrow> (u64 \<times> 's) option"
    and free :: "u64 \<Rightarrow> 's \<Rightarrow> 's option"
    and wf :: "'s \<Rightarrow> bool"
    and live :: "'s \<Rightarrow> (u64 \<times> u64) set"
    and mem_of :: "'s \<Rightarrow> mem"
    and rnd :: "u64 \<Rightarrow> u64"
  assumes alloc_total: "wf s \<Longrightarrow> \<exists>p s'. alloc n s = Some (p, s') \<and> wf s' \<and>
        (p = 0 \<and> s' = s \<or>
         (\<exists>k. rnd n \<le> k \<and> (p, k) \<notin> live s \<and> live s' = insert (p, k) (live s)))"
    and free_total: "wf s \<Longrightarrow> (p, k) \<in> live s \<Longrightarrow>
        \<exists>s'. free p s = Some s' \<and> wf s' \<and> live s' = live s - {(p, k)}"
    and live_disjoint: "wf s \<Longrightarrow> b \<in> live s \<Longrightarrow> c \<in> live s \<Longrightarrow> b \<noteq> c \<Longrightarrow> payload b \<inter> payload c = {}"
    and alloc_keeps: "wf s \<Longrightarrow> alloc n s = Some (p, s') \<Longrightarrow> b \<in> live s \<Longrightarrow> x \<in> payload b \<Longrightarrow>
        mem_of s' x = mem_of s x"
    and free_keeps: "wf s \<Longrightarrow> (p, k) \<in> live s \<Longrightarrow> free p s = Some s' \<Longrightarrow> b \<in> live s \<Longrightarrow>
        b \<noteq> (p, k) \<Longrightarrow> x \<in> payload b \<Longrightarrow> mem_of s' x = mem_of s x"

text \<open>
  Any interleaving of allocations and of releases of live blocks, none of which releases
  the block \<open>b\<close>.
\<close>

inductive heap_trace ::
  "(u64 \<Rightarrow> 's \<Rightarrow> (u64 \<times> 's) option) \<Rightarrow> (u64 \<Rightarrow> 's \<Rightarrow> 's option) \<Rightarrow> ('s \<Rightarrow> (u64 \<times> u64) set) \<Rightarrow>
   u64 \<times> u64 \<Rightarrow> 's \<Rightarrow> 's \<Rightarrow> bool"
  for alloc free live b where
  ht_start: "heap_trace alloc free live b s s"
| ht_alloc: "heap_trace alloc free live b s s1 \<Longrightarrow> alloc n s1 = Some (p, s2) \<Longrightarrow>
     heap_trace alloc free live b s s2"
| ht_free: "heap_trace alloc free live b s s1 \<Longrightarrow> (p, k) \<in> live s1 \<Longrightarrow> (p, k) \<noteq> b \<Longrightarrow>
     free p s1 = Some s2 \<Longrightarrow> heap_trace alloc free live b s s2"

context allocator
begin

lemma alloc_wf: "wf s \<Longrightarrow> alloc n s = Some (p, s') \<Longrightarrow> wf s' \<and> live s \<subseteq> live s'"
  using alloc_total [of s n] by auto

lemma trace_keeps:
  assumes "heap_trace alloc free live b s s'" and "wf s" and "b \<in> live s"
  shows "wf s' \<and> b \<in> live s' \<and> (\<forall>x \<in> payload b. mem_of s' x = mem_of s x)"
  using assms
proof (induction rule: heap_trace.induct)
  case (ht_alloc s s1 n p s2)
  then show ?case using alloc_wf [of s1 n p s2] alloc_keeps [of s1 n p s2 b] by auto
next
  case (ht_free s s1 p k s2)
  then show ?case using free_total [of s1 p k] free_keeps [of s1 p k s2 b] by auto
qed simp

lemma scratch_buffer:
  assumes "wf s" and "alloc n s = Some (p, s1)" and "p \<noteq> 0"
  shows "\<exists>s2. free p s1 = Some s2 \<and> wf s2 \<and> live s2 = live s \<and>
     (\<forall>b \<in> live s. \<forall>x \<in> payload b. mem_of s2 x = mem_of s x)"
proof -
  obtain k where k: "(p, k) \<notin> live s" "live s1 = insert (p, k) (live s)" "wf s1"
    using alloc_total [OF assms(1), of n] assms(2,3) by auto
  then obtain s2 where s2: "free p s1 = Some s2" "wf s2" "live s2 = live s1 - {(p, k)}"
    using free_total [of s1 p k] by auto
  have "mem_of s2 x = mem_of s x" if "b \<in> live s" "x \<in> payload b" for b x
    using free_keeps [OF k(3) _ s2(1), of k b x] alloc_keeps [OF assms(1,2), of b x] that k by auto
  with s2 k show ?thesis by auto
qed

end

lemma tiles_order:
  assumes "tiles x bs e" and "(a, n, f) \<in> set bs" and "(c, k, g) \<in> set bs"
    and "(a, n, f) \<noteq> (c, k, g)"
  shows "unat a + 24 + unat n \<le> unat c \<or> unat c + 24 + unat k \<le> unat a"
  using assms
proof (induction bs arbitrary: x)
  case (Cons b bs)
  obtain d j h where b: "b = (d, j, h)" by (cases b)
  have t: "tiles (x + 24 + unat j) bs e" and d: "unat d = x" using Cons.prems(1) by (simp_all add: b)
  show ?case
    using Cons.IH [OF t] Cons.prems(2-4) tiles_block [OF t] d by (fastforce simp: b)
qed simp

lemma heap_rep_payload:
  assumes "heap_rep m base sz start bs" and "(a, n, f) \<in> set bs"
  shows "payload (a + 24, n) = {x. unat a + 24 \<le> unat x \<and> unat x < unat a + 24 + unat n}"
    and "unat a + 24 + unat n \<le> unat base + unat sz" and "unat base \<le> unat a"
proof -
  show b: "unat a + 24 + unat n \<le> unat base + unat sz" "unat base \<le> unat a"
    using assms tiles_block [of "unat base" bs "unat base + unat sz" a n f]
    by (auto simp: heap_rep_def)
  then have "unat (a + 24) = unat a + 24"
    using assms by (simp add: unat_add_numeral_exact heap_rep_def)
  then show "payload (a + 24, n) = {x. unat a + 24 \<le> unat x \<and> unat x < unat a + 24 + unat n}"
    by (simp add: payload_def)
qed

lemma heap_rep_disjoint:
  assumes "heap_rep m base sz start bs" and "b \<in> live_of bs" and "c \<in> live_of bs" and "b \<noteq> c"
  shows "payload b \<inter> payload c = {}"
proof -
  obtain a n where b: "b = (a + 24, n)" "(a, n, False) \<in> set bs"
    using assms(2) by (auto simp: live_of_def)
  obtain d k where c: "c = (d + 24, k)" "(d, k, False) \<in> set bs"
    using assms(3) by (auto simp: live_of_def)
  have "unat a + 24 + unat n \<le> unat d \<or> unat d + 24 + unat k \<le> unat a"
    using tiles_order [of "unat base" bs "unat base + unat sz" a n False d k False] assms b c
    by (auto simp: heap_rep_def)
  then show ?thesis
    using heap_rep_payload(1) [OF assms(1) b(2)] heap_rep_payload(1) [OF assms(1) c(2)] b c by auto
qed

lemma heap_rep_live_owned:
  assumes "heap_rep m base sz start bs" and "b \<in> live_of bs" and "x \<in> payload b"
  shows "x \<notin> owned bs"
proof
  assume "x \<in> owned bs"
  then obtain d k g where d: "(d, k, g) \<in> set bs" "unat d \<le> unat x"
    "unat x < unat d + 24 + (if g then unat k else 0)"
    by (auto simp: owned_def)
  obtain a n where b: "b = (a + 24, n)" "(a, n, False) \<in> set bs"
    using assms(2) by (auto simp: live_of_def)
  have x: "unat a + 24 \<le> unat x" "unat x < unat a + 24 + unat n"
    using heap_rep_payload(1) [OF assms(1) b(2)] assms(3) b(1) by auto
  show False
  proof (cases "(a, n, False) = (d, k, g)")
    case True
    then show False using d x by auto
  next
    case False
    then show False
      using tiles_order [of "unat base" bs "unat base + unat sz" a n False d k g] assms(1) b d x
      by (auto simp: heap_rep_def split: if_splits)
  qed
qed

lemma heap_rep_unique:
  "heap_rep m base sz start bs \<Longrightarrow> heap_rep m base sz start cs \<Longrightarrow> bs = cs"
proof -
  have "seg m p bs 0 \<Longrightarrow> seg m p cs 0 \<Longrightarrow> bs = cs" for p
  proof (induction bs arbitrary: p cs)
    case Nil
    then show ?case by (cases cs) auto
  next
    case (Cons b bs)
    then show ?case by (cases cs; cases b) auto
  qed
  then show "heap_rep m base sz start bs \<Longrightarrow> heap_rep m base sz start cs \<Longrightarrow> bs = cs"
    by (auto simp: heap_rep_def)
qed

text \<open>Bytes written inside a live payload leave the block list alone.\<close>

lemma heap_rep_client_write:
  assumes rep: "heap_rep m base sz start bs" and b: "(p, n) \<in> live_of bs"
    and w: "unat p \<le> unat w" "unat w + length xs \<le> unat p + unat n"
  shows "heap_rep (mem_write m w xs) base sz start bs"
proof -
  obtain a where a: "p = a + 24" "(a, n, False) \<in> set bs"
    using b by (auto simp: live_of_def)
  have bnd: "unat a + 24 + unat n \<le> unat base + unat sz" "unat base + unat sz < 2 ^ 64"
    using heap_rep_payload [OF rep a(2)] rep by (simp_all add: heap_rep_def)
  then have a24: "unat p = unat a + 24" by (simp add: a unat_add_numeral_exact)
  have "apart w (length xs) d 24" if "(d, k, g) \<in> set bs" for d k g
  proof (cases "(a, n, False) = (d, k, g)")
    case True
    then show ?thesis using w a24 bnd by (auto simp: apart_def)
  next
    case False
    have "unat d + 24 + unat k \<le> unat base + unat sz"
      using heap_rep_payload [OF rep that] by simp
    then show ?thesis
      using False tiles_order [of "unat base" bs "unat base + unat sz" a n False d k g] rep that a
        w a24 bnd by (auto simp: heap_rep_def apart_def)
  qed
  then have "misses w (length xs) bs" by (auto simp: misses_def)
  then show ?thesis using rep by (auto simp: heap_rep_def seg_write)
qed

section \<open>The main heap\<close>

definition heap_inv :: "kmem \<Rightarrow> blk list \<Rightarrow> bool" where
  "heap_inv s bs \<longleftrightarrow>
     heap_rep (bytes s) (g_heap_base s) (g_heap_size s) (g_heap_start s) bs \<and>
     unat (g_used s) = used_of bs"

definition round8 :: "u64 \<Rightarrow> u64" where
  "round8 n = (n + 7) AND NOT 7"

lemma block_in_heap_eq:
  "block_in_heap s = block_in_range (g_heap_base s) (g_heap_base s + g_heap_size s)"
  by (simp add: fun_eq_iff block_in_heap_def heap_end_addr_def)

lemma kmalloc_init_inv:
  assumes "32 \<le> unat base" and "24 \<le> unat sz" and "unat base + unat sz < 2 ^ 64"
  shows "heap_inv (kmalloc_init base sz s) [(base, sz - 24, True)]"
proof -
  have "base \<noteq> 0" using assms(1) by auto
  then show ?thesis
    using assms by (simp add: heap_inv_def heap_rep_def kmalloc_init_def hdr_simps unat_sub_if')
qed

lemma kmalloc_round8:
  "kmalloc n s =
     (case find_fit (block_in_range (g_heap_base s) (g_heap_base s + g_heap_size s)) (bytes s)
            (round8 n) (g_heap_start s) of
        None \<Rightarrow> None
      | Some cur \<Rightarrow>
          if cur = 0 then Some (0, s)
          else let m = set_free cur 0 (split_block cur (round8 n) (bytes s))
               in Some (cur + 24, s\<lparr>bytes := m, g_used := g_used s + h_size m cur\<rparr>))"
  unfolding kmalloc_def kmalloc_locked_def round8_def Let_def block_in_heap_eq by (rule refl)

lemma kmalloc_fail:
  assumes "heap_inv s bs" and "first_fit (round8 n) bs = None"
  shows "kmalloc n s = Some (0, s)"
  using assms heap_rep_find [of "bytes s" "g_heap_base s" "g_heap_size s" "g_heap_start s" bs]
  by (simp add: kmalloc_round8 heap_inv_def)

lemma kmalloc_ok:
  assumes inv: "heap_inv s bs" and ff: "first_fit (round8 n) bs = Some (pre, (a, k), post)"
  defines "j \<equiv> (if round8 n + 24 + 8 < k then round8 n else k)"
  obtains s' where "kmalloc n s = Some (a + 24, s')"
    "heap_inv s' (pre @ carve (round8 n) a k @ post)"
    "same_off (owned bs) (bytes s) (bytes s')" "live_of (pre @ carve (round8 n) a k @ post) =
       insert (a + 24, j) (live_of bs)"
    "(a + 24, j) \<notin> live_of bs" "round8 n \<le> j" "a + 24 \<noteq> 0"
proof -
  let ?n = "round8 n" and ?b = "g_heap_base s" and ?z = "g_heap_size s"
  let ?bs' = "pre @ carve ?n a k @ post"
  have bs: "bs = pre @ (a, k, True) # post" and nk: "?n \<le> k"
    using first_fit_Some [OF ff] by simp_all
  have rep: "heap_rep (bytes s) ?b ?z (g_heap_start s) (pre @ (a, k, True) # post)"
    using inv by (simp add: heap_inv_def bs)
  define m' where "m' = set_free a 0 (split_block a ?n (bytes s))"
  note al = heap_rep_alloc [OF rep nk, folded m'_def]
  have til: "tiles (unat ?b) ?bs' (unat ?b + unat ?z)" "unat ?b + unat ?z < 2 ^ 64" "32 \<le> unat ?b"
    using al(1) by (simp_all add: heap_rep_def)
  have bnd: "unat ?b \<le> unat a" "unat a + 24 + unat k \<le> unat ?b + unat ?z"
    using heap_rep_payload [OF rep, of a k True] by simp_all
  have anz: "a \<noteq> 0" using bnd til by auto
  have used': "used_of ?bs' = used_of bs + unat j"
    by (simp add: bs carve_def j_def)
  have "used_of ?bs' < 2 ^ 64" using used_of_le [OF til(1)] til(2) by simp
  then have "unat (g_used s + h_size m' a) = used_of ?bs'"
    using inv al(3) used' by (simp add: heap_inv_def unat_word_ariths j_def)
  then have "heap_inv (s\<lparr>bytes := m', g_used := g_used s + h_size m' a\<rparr>) ?bs'"
    using al(1) by (simp add: heap_inv_def)
  moreover have "kmalloc n s = Some (a + 24, s\<lparr>bytes := m', g_used := g_used s + h_size m' a\<rparr>)"
    using heap_rep_find [OF rep, of ?n] ff anz by (simp add: kmalloc_round8 bs m'_def Let_def)
  moreover have "(a + 24, j) \<notin> live_of bs"
    using tiles_distinct [of "unat ?b" pre a k True post] rep by (auto simp: live_of_def bs heap_rep_def)
  moreover have "a + 24 \<noteq> 0"
  proof -
    have "unat (a + 24) = unat a + 24" using bnd til by (simp add: unat_add_numeral_exact)
    then show ?thesis by (metis add_is_0 unat_0 zero_neq_numeral)
  qed
  ultimately show ?thesis
    using that al(2) nk live_carve [of pre ?n a k post] by (simp add: bs j_def)
qed

lemma kfree_ok:
  assumes inv: "heap_inv s bs" and mem: "(p, n) \<in> live_of bs"
  obtains s' bs' where "kfree p s = Some s'" "heap_inv s' bs'" "no_free_pair bs'"
    "live_of bs' = live_of bs - {(p, n)}"
    "same_off (owned bs \<union> payload (p, n)) (bytes s) (bytes s')"
proof -
  let ?b = "g_heap_base s" and ?z = "g_heap_size s"
  obtain a where a: "p = a + 24" "(a, n, False) \<in> set bs"
    using mem by (auto simp: live_of_def)
  have rep: "heap_rep (bytes s) ?b ?z (g_heap_start s) bs" and used: "unat (g_used s) = used_of bs"
    using inv by (simp_all add: heap_inv_def)
  obtain m' bs' where r:
    "coalesce_loop (block_in_range ?b (?b + ?z)) (set_free a 1 (bytes s)) (g_heap_start s) = Some m'"
    "heap_rep m' ?b ?z (g_heap_start s) bs'" "no_free_pair bs'" "live_of bs' = live_of bs - {(a + 24, n)}"
    "used_of bs = used_of bs' + unat n"
    "same_off (owned bs \<union> {x. unat (a + 24) \<le> unat x \<and> unat x < unat (a + 24) + unat n}) (bytes s) m'"
    by (rule heap_rep_release [OF rep a(2)])
  have hdr: "h_size (bytes s) a = n" "h_free (bytes s) a = 0" "block_in_range ?b (?b + ?z) (bytes s) a"
    using seg_h_size [of "bytes s" "g_heap_start s" bs 0 a n False] rep a(2) heap_rep_ok [OF rep a(2)]
    by (auto simp: heap_rep_def)
  have bnd: "unat a + 24 + unat n \<le> unat ?b + unat ?z" "unat ?b + unat ?z < 2 ^ 64"
    using heap_rep_payload [OF rep a(2)] rep by (simp_all add: heap_rep_def)
  then have a24: "unat (a + 24) = unat a + 24" by (simp add: unat_add_numeral_exact)
  then have pnz: "p \<noteq> 0" using a(1) by (metis add_is_0 unat_0 zero_neq_numeral)
  have hs: "h_size (set_free a 1 (bytes s)) a = n"
    using hdr(1) bnd by (simp add: hdr_simps)
  have "n \<le> g_used s" using used r(5) by (simp add: word_le_nat_alt)
  then have "kfree p s = Some (s\<lparr>bytes := m', g_used := g_used s - n\<rparr>)"
    using hdr r(1) pnz hs by (simp add: kfree_def kfree_locked_def a(1) block_in_heap_eq Let_def)
  moreover have "heap_inv (s\<lparr>bytes := m', g_used := g_used s - n\<rparr>) bs'"
    using r(2,5) used by (simp add: heap_inv_def unat_sub_if')
  ultimately show ?thesis
    using that r(3,4,6) by (simp add: a(1) payload_def)
qed

definition heap_wf :: "kmem \<Rightarrow> bool" where
  "heap_wf s \<longleftrightarrow> (\<exists>bs. heap_inv s bs)"

definition heap_live :: "kmem \<Rightarrow> (u64 \<times> u64) set" where
  "heap_live s = {b. \<exists>bs. heap_inv s bs \<and> b \<in> live_of bs}"

lemma heap_inv_unique: "heap_inv s bs \<Longrightarrow> heap_inv s cs \<Longrightarrow> bs = cs"
  using heap_rep_unique [of "bytes s" "g_heap_base s" "g_heap_size s" "g_heap_start s" bs cs]
  by (simp add: heap_inv_def)

lemma heap_live_eq: "heap_inv s bs \<Longrightarrow> heap_live s = live_of bs"
  by (auto simp: heap_live_def dest: heap_inv_unique)

text \<open>The two outcomes of an allocation, and the release of a live block, in one fact each.\<close>

lemma kmalloc_cases:
  assumes inv: "heap_inv s bs"
  shows "\<exists>p s' bs'. kmalloc n s = Some (p, s') \<and> heap_inv s' bs' \<and>
     same_off (owned bs) (bytes s) (bytes s') \<and>
     (p = 0 \<and> s' = s \<and> (\<forall>(a, k, f) \<in> set bs. f \<longrightarrow> k < round8 n) \<or>
      p \<noteq> 0 \<and> (\<exists>k. round8 n \<le> k \<and> (p, k) \<notin> live_of bs \<and> live_of bs' = insert (p, k) (live_of bs)))"
proof (cases "first_fit (round8 n) bs")
  case None
  then have "\<forall>(a, k, f) \<in> set bs. f \<longrightarrow> k < round8 n"
    by (auto simp: first_fit_None not_le)
  with kmalloc_fail [OF inv None] inv show ?thesis by auto
next
  case (Some r)
  then obtain pre a k post where "first_fit (round8 n) bs = Some (pre, (a, k), post)"
    by (cases r) auto
  then show ?thesis by (rule kmalloc_ok [OF inv]) blast
qed

lemma kfree_cases:
  assumes "heap_inv s bs" and "(p, n) \<in> live_of bs"
  shows "\<exists>s' bs'. kfree p s = Some s' \<and> heap_inv s' bs' \<and> no_free_pair bs' \<and>
     live_of bs' = live_of bs - {(p, n)} \<and>
     same_off (owned bs \<union> payload (p, n)) (bytes s) (bytes s')"
  by (rule kfree_ok [OF assms]) blast

interpretation km: allocator kmalloc kfree heap_wf heap_live bytes round8
proof
  fix s n
  assume "heap_wf s"
  then obtain bs where inv: "heap_inv s bs" by (auto simp: heap_wf_def)
  from kmalloc_cases [OF inv, of n] obtain p s' bs' where r: "kmalloc n s = Some (p, s')"
    "heap_inv s' bs'" "p = 0 \<and> s' = s \<or>
       (\<exists>k. round8 n \<le> k \<and> (p, k) \<notin> live_of bs \<and> live_of bs' = insert (p, k) (live_of bs))"
    by blast
  then show "\<exists>p s'. kmalloc n s = Some (p, s') \<and> heap_wf s' \<and>
      (p = 0 \<and> s' = s \<or> (\<exists>k. round8 n \<le> k \<and> (p, k) \<notin> heap_live s \<and>
         heap_live s' = insert (p, k) (heap_live s)))"
    using heap_live_eq [OF inv] heap_live_eq [OF r(2)] by (auto simp: heap_wf_def)
next
  fix s p k
  assume "heap_wf s" and mem: "(p, k) \<in> heap_live s"
  then obtain bs where inv: "heap_inv s bs" by (auto simp: heap_wf_def)
  with mem have "(p, k) \<in> live_of bs" by (simp add: heap_live_eq)
  from kfree_cases [OF inv this] obtain s' bs' where "kfree p s = Some s'" "heap_inv s' bs'"
    "live_of bs' = live_of bs - {(p, k)}" by blast
  then show "\<exists>s'. kfree p s = Some s' \<and> heap_wf s' \<and> heap_live s' = heap_live s - {(p, k)}"
    using heap_live_eq [OF inv] heap_live_eq [of s' bs'] by (auto simp: heap_wf_def)
next
  fix s b c
  assume "heap_wf s" and bc: "b \<in> heap_live s" "c \<in> heap_live s" "b \<noteq> c"
  then obtain bs where inv: "heap_inv s bs" by (auto simp: heap_wf_def)
  then have "heap_rep (bytes s) (g_heap_base s) (g_heap_size s) (g_heap_start s) bs"
    by (simp add: heap_inv_def)
  from heap_rep_disjoint [OF this, of b c] bc show "payload b \<inter> payload c = {}"
    by (simp add: heap_live_eq [OF inv])
next
  fix s n p s' b x
  assume "heap_wf s" and k: "kmalloc n s = Some (p, s')" and b: "b \<in> heap_live s" "x \<in> payload b"
  then obtain bs where inv: "heap_inv s bs" by (auto simp: heap_wf_def)
  then have "heap_rep (bytes s) (g_heap_base s) (g_heap_size s) (g_heap_start s) bs"
    by (simp add: heap_inv_def)
  then have "x \<notin> owned bs"
    using b by (auto simp: heap_live_eq [OF inv] dest: heap_rep_live_owned)
  then show "bytes s' x = bytes s x"
    using kmalloc_cases [OF inv, of n] k by (auto simp: same_off_def)
next
  fix s p k s' b x
  assume "heap_wf s" and p: "(p, k) \<in> heap_live s" and f: "kfree p s = Some s'"
    and b: "b \<in> heap_live s" "b \<noteq> (p, k)" "x \<in> payload b"
  then obtain bs where inv: "heap_inv s bs" by (auto simp: heap_wf_def)
  then have rep: "heap_rep (bytes s) (g_heap_base s) (g_heap_size s) (g_heap_start s) bs"
    by (simp add: heap_inv_def)
  note live = heap_live_eq [OF inv]
  have x: "x \<notin> owned bs \<union> payload (p, k)"
    using heap_rep_live_owned [OF rep] heap_rep_disjoint [OF rep] p b live by blast
  from p live have "(p, k) \<in> live_of bs" by simp
  from kfree_cases [OF inv this] f x show "bytes s' x = bytes s x"
    by (auto simp: same_off_def)
qed

section \<open>The auxiliary heaps\<close>

definition kheap_rep :: "kheap \<Rightarrow> mem \<Rightarrow> blk list \<Rightarrow> bool" where
  "kheap_rep h m bs = heap_rep m (kh_base h) (kh_size h) (kh_start h) bs"

definition kheap_wf :: "kheap \<Rightarrow> mem \<Rightarrow> bool" where
  "kheap_wf h m \<longleftrightarrow> (\<exists>bs. kheap_rep h m bs)"

definition kheap_live :: "kheap \<Rightarrow> mem \<Rightarrow> (u64 \<times> u64) set" where
  "kheap_live h m = {b. \<exists>bs. kheap_rep h m bs \<and> b \<in> live_of bs}"

text \<open>The mask \<open>~7u\<close> of \<open>kheap_alloc\<close> is a 32-bit constant.\<close>

definition kheap_round :: "u64 \<Rightarrow> u64" where
  "kheap_round n = (n + 7) AND ucast (NOT 7 :: u32)"

lemma kheap_live_eq: "kheap_rep h m bs \<Longrightarrow> kheap_live h m = live_of bs"
  by (auto simp: kheap_live_def kheap_rep_def dest: heap_rep_unique)

lemma kheap_block_ok_eq: "kheap_block_ok h = block_in_range (kh_base h) (kh_base h + kh_size h)"
  by (simp add: fun_eq_iff kheap_block_ok_def)

lemma kheap_alloc_round:
  "kheap_alloc h n m =
     (if kh_start h = 0 then Some (0, m)
      else
        case find_fit (block_in_range (kh_base h) (kh_base h + kh_size h)) m (kheap_round n) (kh_start h) of
          None \<Rightarrow> None
        | Some cur \<Rightarrow>
            if cur = 0 \<or> \<not> block_in_range (kh_base h) (kh_base h + kh_size h) m cur then Some (0, m)
            else Some (cur + 24, set_free cur 0 (split_block cur (kheap_round n) m)))"
  unfolding kheap_alloc_def kheap_round_def Let_def kheap_block_ok_eq by (rule refl)

lemma kheap_alloc_cases:
  assumes rep: "kheap_rep h m bs"
  shows "\<exists>p m' bs'. kheap_alloc h n m = Some (p, m') \<and> kheap_rep h m' bs' \<and>
     same_off (owned bs) m m' \<and>
     (p = 0 \<and> m' = m \<and> (\<forall>(a, k, f) \<in> set bs. f \<longrightarrow> k < kheap_round n) \<or>
      p \<noteq> 0 \<and> (\<exists>k. kheap_round n \<le> k \<and> (p, k) \<notin> live_of bs \<and> live_of bs' = insert (p, k) (live_of bs)))"
proof -
  let ?n = "kheap_round n" and ?b = "kh_base h" and ?z = "kh_size h"
  have rep': "heap_rep m ?b ?z (kh_start h) bs" using rep by (simp add: kheap_rep_def)
  then have st: "kh_start h \<noteq> 0" by (auto simp: heap_rep_def)
  note find = heap_rep_find [OF rep', of ?n]
  show ?thesis
  proof (cases "first_fit ?n bs")
    case None
    then have "\<forall>(a, k, f) \<in> set bs. f \<longrightarrow> k < ?n" by (auto simp: first_fit_None not_le)
    with find None st rep show ?thesis by (auto simp: kheap_alloc_round)
  next
    case (Some r)
    then obtain pre a k post where ff: "first_fit ?n bs = Some (pre, (a, k), post)"
      by (cases r) auto
    then have bs: "bs = pre @ (a, k, True) # post" and nk: "?n \<le> k"
      using first_fit_Some by blast+
    have r: "heap_rep m ?b ?z (kh_start h) (pre @ (a, k, True) # post)" using rep' bs by simp
    have pay: "unat ?b \<le> unat a" "unat a + 24 + unat k \<le> unat ?b + unat ?z"
      "unat ?b + unat ?z < 2 ^ 64" "32 \<le> unat ?b"
      using heap_rep_payload [OF r, of a k True] r by (simp_all add: heap_rep_def)
    have "unat (a + 24) = unat a + 24" using pay by (simp add: unat_add_numeral_exact)
    then have nz: "a + 24 \<noteq> 0" by (metis add_is_0 unat_0 zero_neq_numeral)
    have "a \<noteq> 0" using pay by auto
    then have "kheap_alloc h n m = Some (a + 24, set_free a 0 (split_block a ?n m))"
      using find ff st heap_rep_ok [OF r, of a k True] by (simp add: kheap_alloc_round)
    moreover have "(a + 24, j) \<notin> live_of bs" for j
      using tiles_distinct [of "unat ?b" pre a k True post] r by (auto simp: live_of_def bs heap_rep_def)
    ultimately show ?thesis
      using heap_rep_alloc [OF r nk] live_carve [of pre ?n a k post] nk nz
      by (intro exI [of _ "a + 24"] exI [of _ "set_free a 0 (split_block a ?n m)"]
          exI [of _ "pre @ carve ?n a k @ post"]) (auto simp: kheap_rep_def bs)
  qed
qed

lemma kheap_free_cases:
  assumes rep: "kheap_rep h m bs" and mem: "(p, n) \<in> live_of bs"
  shows "\<exists>m' bs'. kheap_free h p m = Some m' \<and> kheap_rep h m' bs' \<and> no_free_pair bs' \<and>
     live_of bs' = live_of bs - {(p, n)} \<and> same_off (owned bs \<union> payload (p, n)) m m'"
proof -
  obtain a where a: "p = a + 24" "(a, n, False) \<in> set bs"
    using mem by (auto simp: live_of_def)
  have rep': "heap_rep m (kh_base h) (kh_size h) (kh_start h) bs" using rep by (simp add: kheap_rep_def)
  have hdr: "h_free m a = 0" "block_in_range (kh_base h) (kh_base h + kh_size h) m a"
    using seg_h_size [of m "kh_start h" bs 0 a n False] rep' a(2) heap_rep_ok [OF rep' a(2)]
    by (auto simp: heap_rep_def)
  have "unat (a + 24) = unat a + 24"
    using heap_rep_payload [OF rep' a(2)] rep' by (simp add: heap_rep_def unat_add_numeral_exact)
  then have "a + 24 \<noteq> 0" by (metis add_is_0 unat_0 zero_neq_numeral)
  then have eq: "kheap_free h (a + 24) m = coalesce_loop (block_in_range (kh_base h) (kh_base h + kh_size h))
      (set_free a 1 m) (kh_start h)"
    using hdr by (simp add: kheap_free_def kheap_block_ok_eq Let_def)
  show ?thesis
    by (rule heap_rep_release [OF rep' a(2)]) (auto simp: eq kheap_rep_def a(1) payload_def)
qed

interpretation kh: allocator "kheap_alloc h" "kheap_free h" "kheap_wf h" "kheap_live h" "\<lambda>m. m" kheap_round
  for h :: kheap
proof
  fix m n
  assume "kheap_wf h m"
  then obtain bs where inv: "kheap_rep h m bs" by (auto simp: kheap_wf_def)
  from kheap_alloc_cases [OF inv, of n] obtain p m' bs' where r: "kheap_alloc h n m = Some (p, m')"
    "kheap_rep h m' bs'" "p = 0 \<and> m' = m \<or>
       (\<exists>k. kheap_round n \<le> k \<and> (p, k) \<notin> live_of bs \<and> live_of bs' = insert (p, k) (live_of bs))"
    by blast
  then show "\<exists>p s'. kheap_alloc h n m = Some (p, s') \<and> kheap_wf h s' \<and>
      (p = 0 \<and> s' = m \<or> (\<exists>k. kheap_round n \<le> k \<and> (p, k) \<notin> kheap_live h m \<and>
         kheap_live h s' = insert (p, k) (kheap_live h m)))"
    using kheap_live_eq [OF inv] kheap_live_eq [OF r(2)] by (auto simp: kheap_wf_def)
next
  fix m p k
  assume "kheap_wf h m" and mem: "(p, k) \<in> kheap_live h m"
  then obtain bs where inv: "kheap_rep h m bs" by (auto simp: kheap_wf_def)
  with mem have "(p, k) \<in> live_of bs" by (simp add: kheap_live_eq)
  from kheap_free_cases [OF inv this] obtain m' bs' where "kheap_free h p m = Some m'" "kheap_rep h m' bs'"
    "live_of bs' = live_of bs - {(p, k)}" by blast
  then show "\<exists>s'. kheap_free h p m = Some s' \<and> kheap_wf h s' \<and> kheap_live h s' = kheap_live h m - {(p, k)}"
    using kheap_live_eq [OF inv] kheap_live_eq [of h m' bs'] by (auto simp: kheap_wf_def)
next
  fix m b c
  assume "kheap_wf h m" and bc: "b \<in> kheap_live h m" "c \<in> kheap_live h m" "b \<noteq> c"
  then obtain bs where inv: "kheap_rep h m bs" by (auto simp: kheap_wf_def)
  from heap_rep_disjoint [OF inv [unfolded kheap_rep_def], of b c] bc show "payload b \<inter> payload c = {}"
    by (simp add: kheap_live_eq [OF inv])
next
  fix m n p m' b x
  assume "kheap_wf h m" and k: "kheap_alloc h n m = Some (p, m')" and b: "b \<in> kheap_live h m" "x \<in> payload b"
  then obtain bs where inv: "kheap_rep h m bs" by (auto simp: kheap_wf_def)
  have "x \<notin> owned bs"
    using b heap_rep_live_owned [OF inv [unfolded kheap_rep_def], of b x] by (simp add: kheap_live_eq [OF inv])
  then show "m' x = m x" using kheap_alloc_cases [OF inv, of n] k by (auto simp: same_off_def)
next
  fix m p k m' b x
  assume "kheap_wf h m" and p: "(p, k) \<in> kheap_live h m" and f: "kheap_free h p m = Some m'"
    and b: "b \<in> kheap_live h m" "b \<noteq> (p, k)" "x \<in> payload b"
  then obtain bs where inv: "kheap_rep h m bs" by (auto simp: kheap_wf_def)
  note rep = inv [unfolded kheap_rep_def] and live = kheap_live_eq [OF inv]
  have x: "x \<notin> owned bs \<union> payload (p, k)"
    using heap_rep_live_owned [OF rep] heap_rep_disjoint [OF rep] p b live by blast
  from p live have "(p, k) \<in> live_of bs" by simp
  from kheap_free_cases [OF inv this] f x show "m' x = m x" by (auto simp: same_off_def)
qed

section \<open>Accounting\<close>

fun free_of :: "blk list \<Rightarrow> nat" where
  "free_of [] = 0"
| "free_of ((a, n, f) # bs) = (if f then unat n + 24 else 0) + free_of bs"

definition live_count :: "blk list \<Rightarrow> nat" where
  "live_count bs = length (filter (\<lambda>(a, n, f). \<not> f) bs)"

lemma tiles_sum: "tiles x bs e \<Longrightarrow> x + free_of bs + used_of bs + 24 * live_count bs = e"
proof (induction bs arbitrary: x)
  case (Cons b bs)
  obtain a n f where b: "b = (a, n, f)" by (cases b)
  from Cons.prems have "tiles (x + 24 + unat n) bs e" by (simp add: b)
  from Cons.IH [OF this] show ?case by (simp add: b live_count_def)
qed (simp add: live_count_def)

lemma get_free_walk_seg:
  assumes "seg m p bs 0" and "\<And>a n f. (a, n, f) \<in> set bs \<Longrightarrow> ok m a"
    and "unat acc + free_of bs < 2 ^ 64"
  shows "\<exists>r. get_free_walk ok m p acc = Some r \<and> unat r = unat acc + free_of bs"
  using assms
proof (induction bs arbitrary: p acc)
  case Nil
  then show ?case by (simp add: get_free_walk.simps)
next
  case (Cons b bs)
  obtain a n f where b: "b = (a, n, f)" by (cases b)
  let ?acc = "if f then acc + (n + 24) else acc"
  have u: "unat ?acc = unat acc + (if f then unat n + 24 else 0)"
    using Cons.prems(3) by (auto simp: b unat_word_ariths)
  have step: "get_free_walk ok m p acc = get_free_walk ok m (h_next m a) ?acc"
    using Cons.prems(1,2) by (auto simp: b get_free_walk.simps [of ok m a])
  have "\<exists>r. get_free_walk ok m (h_next m a) ?acc = Some r \<and> unat r = unat ?acc + free_of bs"
    using Cons.prems u by (intro Cons.IH) (auto simp: b)
  then show ?case using step u by (cases f) (auto simp: b add_ac)
qed

section \<open>The three heaps together\<close>

datatype heap_op = KMalloc u64 | KFree u64 | GfxAlloc u64 | GfxFree u64 | ImgAlloc u64 | ImgFree u64

fun exec_heap_op :: "heap_op \<Rightarrow> kmem \<Rightarrow> kmem option" where
  "exec_heap_op (KMalloc n) s = map_option snd (kmalloc n s)"
| "exec_heap_op (KFree p) s = kfree p s"
| "exec_heap_op (GfxAlloc n) s = map_option snd (gfx_alloc n s)"
| "exec_heap_op (GfxFree p) s = gfx_free p s"
| "exec_heap_op (ImgAlloc n) s = map_option snd (image_alloc n s)"
| "exec_heap_op (ImgFree p) s = image_free p s"

definition gfx_live :: "kmem \<Rightarrow> (u64 \<times> u64) set" where
  "gfx_live s = kheap_live (g_gfx_heap s) (bytes s)"

definition img_live :: "kmem \<Rightarrow> (u64 \<times> u64) set" where
  "img_live s = kheap_live (g_img_heap s) (bytes s)"

fun frees_live :: "heap_op \<Rightarrow> kmem \<Rightarrow> bool" where
  "frees_live (KFree p) s \<longleftrightarrow> (\<exists>k. (p, k) \<in> heap_live s)"
| "frees_live (GfxFree p) s \<longleftrightarrow> (\<exists>k. (p, k) \<in> gfx_live s)"
| "frees_live (ImgFree p) s \<longleftrightarrow> (\<exists>k. (p, k) \<in> img_live s)"
| "frees_live _ s \<longleftrightarrow> True"

definition kregion :: "kheap \<Rightarrow> u64 set" where
  "kregion h = region (kh_base h) (kh_size h)"

definition heaps_ok :: "kmem \<Rightarrow> bool" where
  "heaps_ok s \<longleftrightarrow> heap_wf s \<and> kheap_wf (g_gfx_heap s) (bytes s) \<and> kheap_wf (g_img_heap s) (bytes s) \<and>
     region (g_heap_base s) (g_heap_size s) \<inter> kregion (g_gfx_heap s) = {} \<and>
     region (g_heap_base s) (g_heap_size s) \<inter> kregion (g_img_heap s) = {} \<and>
     kregion (g_gfx_heap s) \<inter> kregion (g_img_heap s) = {}"

lemma heap_rep_frame:
  assumes "same_off X m m'" and "X \<inter> region base sz = {}" and "heap_rep m base sz start bs"
  shows "heap_rep m' base sz start bs"
  using assms seg_same_off [OF assms(1), of "unat base" bs "unat base + unat sz" start 0]
  by (auto simp: heap_rep_def region_def)

lemma kheap_frame:
  assumes "same_off X m m'" and "X \<inter> kregion h = {}" and "kheap_wf h m"
  shows "kheap_wf h m'" "kheap_live h m' = kheap_live h m"
proof -
  obtain bs where bs: "kheap_rep h m bs" using assms(3) by (auto simp: kheap_wf_def)
  then have bs': "kheap_rep h m' bs"
    using heap_rep_frame [OF assms(1)] assms(2) by (auto simp: kheap_rep_def kregion_def)
  show "kheap_wf h m'" "kheap_live h m' = kheap_live h m"
    using bs' kheap_live_eq [OF bs] kheap_live_eq [OF bs'] by (auto simp: kheap_wf_def)
qed

lemma heap_frame:
  assumes "same_off X (bytes s) m'" and "X \<inter> region (g_heap_base s) (g_heap_size s) = {}" and "heap_wf s"
  shows "heap_wf (s\<lparr>bytes := m'\<rparr>)" "heap_live (s\<lparr>bytes := m'\<rparr>) = heap_live s"
proof -
  obtain bs where bs: "heap_inv s bs" using assms(3) by (auto simp: heap_wf_def)
  then have bs': "heap_inv (s\<lparr>bytes := m'\<rparr>) bs"
    using heap_rep_frame [OF assms(1,2)] by (auto simp: heap_inv_def)
  show "heap_wf (s\<lparr>bytes := m'\<rparr>)" "heap_live (s\<lparr>bytes := m'\<rparr>) = heap_live s"
    using bs' heap_live_eq [OF bs] heap_live_eq [OF bs'] by (auto simp: heap_wf_def)
qed

lemma payload_region:
  assumes "heap_rep m base sz start bs" and "b \<in> live_of bs"
  shows "payload b \<subseteq> region base sz"
proof -
  obtain a n where b: "b = (a + 24, n)" "(a, n, False) \<in> set bs"
    using assms(2) by (auto simp: live_of_def)
  show ?thesis using heap_rep_payload [OF assms(1) b(2)] by (auto simp: b(1) region_def)
qed

text \<open>Each operation writes inside its own region only.\<close>

lemma kmalloc_confined:
  assumes "heap_wf s" and "kmalloc n s = Some (p, s')"
  shows "same_off (region (g_heap_base s) (g_heap_size s)) (bytes s) (bytes s')"
    and "g_gfx_heap s' = g_gfx_heap s" "g_img_heap s' = g_img_heap s"
    "g_heap_base s' = g_heap_base s" "g_heap_size s' = g_heap_size s"
proof -
  obtain bs where bs: "heap_inv s bs" using assms(1) by (auto simp: heap_wf_def)
  have "same_off (owned bs) (bytes s) (bytes s')"
    using kmalloc_cases [OF bs, of n] assms(2) by auto
  then show "same_off (region (g_heap_base s) (g_heap_size s)) (bytes s) (bytes s')"
    using owned_region [of "bytes s" "g_heap_base s" "g_heap_size s" "g_heap_start s" bs] bs
    by (auto simp: heap_inv_def same_off_def)
  show "g_gfx_heap s' = g_gfx_heap s" "g_img_heap s' = g_img_heap s"
    "g_heap_base s' = g_heap_base s" "g_heap_size s' = g_heap_size s"
    using assms(2) by (auto simp: kmalloc_round8 Let_def split: option.splits if_splits)
qed

lemma kfree_confined:
  assumes "heap_wf s" and "(p, k) \<in> heap_live s" and "kfree p s = Some s'"
  shows "same_off (region (g_heap_base s) (g_heap_size s)) (bytes s) (bytes s')"
    and "g_gfx_heap s' = g_gfx_heap s" "g_img_heap s' = g_img_heap s"
    "g_heap_base s' = g_heap_base s" "g_heap_size s' = g_heap_size s"
proof -
  obtain bs where bs: "heap_inv s bs" using assms(1) by (auto simp: heap_wf_def)
  then have rep: "heap_rep (bytes s) (g_heap_base s) (g_heap_size s) (g_heap_start s) bs"
    by (simp add: heap_inv_def)
  have b: "(p, k) \<in> live_of bs" using assms(2) heap_live_eq [OF bs] by simp
  have "same_off (owned bs \<union> payload (p, k)) (bytes s) (bytes s')"
    using kfree_cases [OF bs b] assms(3) by auto
  then show "same_off (region (g_heap_base s) (g_heap_size s)) (bytes s) (bytes s')"
    using owned_region [OF rep] payload_region [OF rep b] by (auto simp: same_off_def)
  show "g_gfx_heap s' = g_gfx_heap s" "g_img_heap s' = g_img_heap s"
    "g_heap_base s' = g_heap_base s" "g_heap_size s' = g_heap_size s"
    using assms(3) by (auto simp: kfree_def kfree_locked_def Let_def split: option.splits if_splits)
qed

lemma kheap_alloc_confined:
  assumes "kheap_wf h m" and "kheap_alloc h n m = Some (p, m')"
  shows "same_off (kregion h) m m'"
proof -
  obtain bs where bs: "kheap_rep h m bs" using assms(1) by (auto simp: kheap_wf_def)
  then have "same_off (owned bs) m m'" "owned bs \<subseteq> kregion h"
    using kheap_alloc_cases [OF bs, of n] assms(2) owned_region by (auto simp: kheap_rep_def kregion_def)
  then show ?thesis by (auto simp: same_off_def)
qed

lemma kheap_free_confined:
  assumes "kheap_wf h m" and "(p, k) \<in> kheap_live h m" and "kheap_free h p m = Some m'"
  shows "same_off (kregion h) m m'"
proof -
  obtain bs where bs: "kheap_rep h m bs" using assms(1) by (auto simp: kheap_wf_def)
  then have rep: "heap_rep m (kh_base h) (kh_size h) (kh_start h) bs" by (simp add: kheap_rep_def)
  have b: "(p, k) \<in> live_of bs" using assms(2) kheap_live_eq [OF bs] by simp
  have "same_off (owned bs \<union> payload (p, k)) m m'"
    using kheap_free_cases [OF bs b] assms(3) by auto
  then show ?thesis
    using owned_region [OF rep] payload_region [OF rep b] by (auto simp: same_off_def kregion_def)
qed

lemma unat_and_not7: "unat ((n :: u64) AND NOT 7) = 8 * (unat n div 8)"
  using unat_and_not_mask [of n 3] by (simp add: mask_eq_exp_minus_1)

lemma unat_round8: "unat n + 7 < 2 ^ 64 \<Longrightarrow> unat (round8 n) = 8 * ((unat n + 7) div 8)"
  unfolding round8_def unat_and_not7 by (simp add: unat_add_numeral_exact)

lemma le_round8: "unat n + 7 < 2 ^ 64 \<Longrightarrow> n \<le> round8 n"
  by (simp add: word_le_nat_alt unat_round8)

lemma round8_wraps: "2 ^ 64 \<le> unat n + 7 \<Longrightarrow> round8 n = 0"
proof -
  assume a: "2 ^ 64 \<le> unat n + 7"
  have "unat (n + 7) < 7" using a unat_lt_exp [of n] by (simp add: unat_plus_if')
  then have "unat (round8 n) = 0" unfolding round8_def unat_and_not7 by simp
  then show "round8 n = 0" by (simp add: unat_eq_zero)
qed

lemma heaps_ok_main:
  assumes "heaps_ok s" and "same_off (region (g_heap_base s) (g_heap_size s)) (bytes s) (bytes s')"
    and "g_gfx_heap s' = g_gfx_heap s" "g_img_heap s' = g_img_heap s"
    "g_heap_base s' = g_heap_base s" "g_heap_size s' = g_heap_size s" and "heap_wf s'"
  shows "heaps_ok s'" "gfx_live s' = gfx_live s" "img_live s' = img_live s"
  using assms kheap_frame [OF assms(2), of "g_gfx_heap s"] kheap_frame [OF assms(2), of "g_img_heap s"]
  by (auto simp: heaps_ok_def gfx_live_def img_live_def)

lemma heaps_ok_gfx:
  assumes "heaps_ok s" and "same_off (kregion (g_gfx_heap s)) (bytes s) m'" and "kheap_wf (g_gfx_heap s) m'"
  shows "heaps_ok (s\<lparr>bytes := m'\<rparr>)" "heap_live (s\<lparr>bytes := m'\<rparr>) = heap_live s"
    "img_live (s\<lparr>bytes := m'\<rparr>) = img_live s"
  using assms kheap_frame [OF assms(2), of "g_img_heap s"] heap_frame [OF assms(2)]
  by (auto simp: heaps_ok_def img_live_def Int_commute)

lemma heaps_ok_img:
  assumes "heaps_ok s" and "same_off (kregion (g_img_heap s)) (bytes s) m'" and "kheap_wf (g_img_heap s) m'"
  shows "heaps_ok (s\<lparr>bytes := m'\<rparr>)" "heap_live (s\<lparr>bytes := m'\<rparr>) = heap_live s"
    "gfx_live (s\<lparr>bytes := m'\<rparr>) = gfx_live s"
  using assms kheap_frame [OF assms(2), of "g_gfx_heap s"] heap_frame [OF assms(2)]
  by (auto simp: heaps_ok_def gfx_live_def Int_commute)

text \<open>Each operation on one heap, seen from all three.\<close>

lemma kmalloc_heaps:
  assumes "heaps_ok s"
  shows "\<exists>p s'. kmalloc n s = Some (p, s') \<and> heaps_ok s' \<and> gfx_live s' = gfx_live s \<and> img_live s' = img_live s \<and>
     (p = 0 \<and> s' = s \<or> (\<exists>k. round8 n \<le> k \<and> (p, k) \<notin> heap_live s \<and> heap_live s' = insert (p, k) (heap_live s)))"
proof -
  have wf: "heap_wf s" using assms by (simp add: heaps_ok_def)
  obtain p s' where a: "kmalloc n s = Some (p, s')" "heap_wf s'" "p = 0 \<and> s' = s \<or>
      (\<exists>k. round8 n \<le> k \<and> (p, k) \<notin> heap_live s \<and> heap_live s' = insert (p, k) (heap_live s))"
    using km.alloc_total [OF wf, of n] by blast
  with heaps_ok_main [OF assms kmalloc_confined [OF wf a(1)] a(2)] show ?thesis by auto
qed

lemma kfree_heaps:
  assumes "heaps_ok s" and "(p, k) \<in> heap_live s"
  shows "\<exists>s'. kfree p s = Some s' \<and> heaps_ok s' \<and> heap_live s' = heap_live s - {(p, k)} \<and>
     gfx_live s' = gfx_live s \<and> img_live s' = img_live s"
proof -
  have wf: "heap_wf s" using assms(1) by (simp add: heaps_ok_def)
  obtain s' where a: "kfree p s = Some s'" "heap_wf s'" "heap_live s' = heap_live s - {(p, k)}"
    using km.free_total [OF wf assms(2)] by blast
  with heaps_ok_main [OF assms(1) kfree_confined [OF wf assms(2) a(1)] a(2)] show ?thesis by auto
qed

lemma gfx_alloc_heaps:
  assumes "heaps_ok s"
  shows "\<exists>p s'. gfx_alloc n s = Some (p, s') \<and> heaps_ok s' \<and> heap_live s' = heap_live s \<and> img_live s' = img_live s"
proof -
  have wf: "kheap_wf (g_gfx_heap s) (bytes s)" using assms by (simp add: heaps_ok_def)
  obtain p m' where a: "kheap_alloc (g_gfx_heap s) n (bytes s) = Some (p, m')" "kheap_wf (g_gfx_heap s) m'"
    using kh.alloc_total [OF wf, of n] by blast
  with heaps_ok_gfx [OF assms kheap_alloc_confined [OF wf a(1)] a(2)] show ?thesis by (auto simp: gfx_alloc_def)
qed

lemma gfx_free_heaps:
  assumes "heaps_ok s" and "(p, k) \<in> gfx_live s"
  shows "\<exists>s'. gfx_free p s = Some s' \<and> heaps_ok s' \<and> heap_live s' = heap_live s \<and> img_live s' = img_live s"
proof -
  have wf: "kheap_wf (g_gfx_heap s) (bytes s)" using assms(1) by (simp add: heaps_ok_def)
  have k: "(p, k) \<in> kheap_live (g_gfx_heap s) (bytes s)" using assms(2) by (simp add: gfx_live_def)
  obtain m' where a: "kheap_free (g_gfx_heap s) p (bytes s) = Some m'" "kheap_wf (g_gfx_heap s) m'"
    using kh.free_total [OF wf k] by blast
  with heaps_ok_gfx [OF assms(1) kheap_free_confined [OF wf k a(1)] a(2)] show ?thesis by (auto simp: gfx_free_def)
qed

lemma image_alloc_heaps:
  assumes "heaps_ok s"
  shows "\<exists>p s'. image_alloc n s = Some (p, s') \<and> heaps_ok s' \<and> heap_live s' = heap_live s \<and> gfx_live s' = gfx_live s"
proof -
  have wf: "kheap_wf (g_img_heap s) (bytes s)" using assms by (simp add: heaps_ok_def)
  obtain p m' where a: "kheap_alloc (g_img_heap s) n (bytes s) = Some (p, m')" "kheap_wf (g_img_heap s) m'"
    using kh.alloc_total [OF wf, of n] by blast
  with heaps_ok_img [OF assms kheap_alloc_confined [OF wf a(1)] a(2)] show ?thesis by (auto simp: image_alloc_def)
qed

lemma image_free_heaps:
  assumes "heaps_ok s" and "(p, k) \<in> img_live s"
  shows "\<exists>s'. image_free p s = Some s' \<and> heaps_ok s' \<and> heap_live s' = heap_live s \<and> gfx_live s' = gfx_live s \<and>
     img_live s' = img_live s - {(p, k)}"
proof -
  have wf: "kheap_wf (g_img_heap s) (bytes s)" using assms(1) by (simp add: heaps_ok_def)
  have k: "(p, k) \<in> kheap_live (g_img_heap s) (bytes s)" using assms(2) by (simp add: img_live_def)
  obtain m' where a: "kheap_free (g_img_heap s) p (bytes s) = Some m'" "kheap_wf (g_img_heap s) m'"
    "kheap_live (g_img_heap s) m' = kheap_live (g_img_heap s) (bytes s) - {(p, k)}"
    using kh.free_total [OF wf k] by blast
  with heaps_ok_img [OF assms(1) kheap_free_confined [OF wf k a(1)] a(2)] show ?thesis
    by (auto simp: image_free_def img_live_def)
qed

text \<open>
  C12: the main, graphics and image heaps never interfere. From any state in which the three
  regions are disjoint and well formed, every allocation, and every release of a live block,
  on any of the three heaps returns and leaves all three well formed; the live blocks of the
  two heaps it does not address are exactly the ones that were live before.
\<close>

theorem heaps_do_not_interfere:
  assumes "heaps_ok s" and "frees_live op s"
  shows "\<exists>s'. exec_heap_op op s = Some s' \<and> heaps_ok s' \<and>
     (heap_live s' = heap_live s \<or> (\<exists>n. op = KMalloc n \<or> op = KFree n)) \<and>
     (gfx_live s' = gfx_live s \<or> (\<exists>n. op = GfxAlloc n \<or> op = GfxFree n)) \<and>
     (img_live s' = img_live s \<or> (\<exists>n. op = ImgAlloc n \<or> op = ImgFree n))"
proof (cases op)
  case (KMalloc n)
  then show ?thesis using kmalloc_heaps [OF assms(1), of n] by auto
next
  case (KFree p)
  then show ?thesis using kfree_heaps [OF assms(1)] assms(2) by fastforce
next
  case (GfxAlloc n)
  then show ?thesis using gfx_alloc_heaps [OF assms(1), of n] by auto
next
  case (GfxFree p)
  then show ?thesis using gfx_free_heaps [OF assms(1)] assms(2) by fastforce
next
  case (ImgAlloc n)
  then show ?thesis using image_alloc_heaps [OF assms(1), of n] by auto
next
  case (ImgFree p)
  then show ?thesis using image_free_heaps [OF assms(1)] assms(2) by fastforce
qed

definition demo_kmem :: kmem where
  "demo_kmem = image_heap_init 0x3000 0x100 (gfx_heap_init 0x2000 0x100 (kmalloc_init 0x1000 0x100
     \<lparr>bytes = (\<lambda>_. 0), g_heap_start = 0, g_heap_base = 0, g_heap_size = 0, g_used = 0,
      g_physical_total = 0,
      g_gfx_heap = \<lparr>kh_start = 0, kh_base = 0, kh_size = 0\<rparr>,
      g_img_heap = \<lparr>kh_start = 0, kh_base = 0, kh_size = 0\<rparr>\<rparr>))"

lemma kheap_init_rep:
  assumes "32 \<le> unat base" and "24 \<le> unat sz" and "unat base + unat sz < 2 ^ 64"
  shows "kheap_rep (fst (kheap_init base sz m)) (snd (kheap_init base sz m)) [(base, sz - 24, True)]"
proof -
  have "base \<noteq> 0" using assms(1) by auto
  then show ?thesis
    using assms by (simp add: kheap_rep_def heap_rep_def kheap_init_def hdr_simps unat_sub_if')
qed

lemmas demo_kmem_simps = demo_kmem_def kmalloc_init_def gfx_heap_init_def image_heap_init_def kheap_init_def

lemma demo_reps:
  "heap_inv demo_kmem [(0x1000, 0xe8, True)]"
  "kheap_rep (g_gfx_heap demo_kmem) (bytes demo_kmem) [(0x2000, 0xe8, True)]"
  "kheap_rep (g_img_heap demo_kmem) (bytes demo_kmem) [(0x3000, 0xe8, True)]"
  by (simp_all add: demo_kmem_simps heap_inv_def kheap_rep_def heap_rep_def hdr_simps apart_def)

lemma demo_heaps_ok: "heaps_ok demo_kmem"
proof -
  have "heap_wf demo_kmem" "kheap_wf (g_gfx_heap demo_kmem) (bytes demo_kmem)"
    "kheap_wf (g_img_heap demo_kmem) (bytes demo_kmem)"
    using demo_reps by (auto simp: heap_wf_def kheap_wf_def)
  then show ?thesis
    by (auto simp: heaps_ok_def kregion_def region_def demo_kmem_simps)
qed

theorem heaps_do_not_interfere_witness:
  "\<exists>s'. exec_heap_op (GfxAlloc 40) demo_kmem = Some s' \<and> heaps_ok s' \<and> heap_live s' = heap_live demo_kmem"
  using heaps_do_not_interfere [OF demo_heaps_ok, of "GfxAlloc 40"] by auto

text \<open>
  C1: \<open>kmalloc\<close> on a well-formed heap always returns. Either it reports failure, changes
  nothing, and no free block holds the rounded request; or it returns a non-null pointer to
  a new live block at least as large as the request (requests within 7 of \<open>SIZE_MAX\<close> apart),
  inside the heap region and disjoint from every block that was live before, all of which
  stay live with their bytes unchanged, and the heap is well formed again.
\<close>

theorem kmalloc_correct:
  assumes "heap_inv s bs"
  shows "\<exists>p s' bs'. kmalloc n s = Some (p, s') \<and> heap_inv s' bs' \<and>
    (if p = 0 then s' = s \<and> (\<forall>(a, k, f) \<in> set bs. f \<longrightarrow> k < round8 n)
     else \<exists>k. round8 n \<le> k \<and> (unat n + 7 < 2 ^ 64 \<longrightarrow> n \<le> k) \<and>
       payload (p, k) \<subseteq> region (g_heap_base s) (g_heap_size s) \<and>
       live_of bs' = insert (p, k) (live_of bs) \<and>
       (\<forall>b \<in> live_of bs. payload b \<inter> payload (p, k) = {} \<and>
          (\<forall>x \<in> payload b. bytes s' x = bytes s x)))"
proof -
  obtain p s' bs' where r: "kmalloc n s = Some (p, s')" "heap_inv s' bs'"
    and c: "p = 0 \<and> s' = s \<and> (\<forall>(a, k, f) \<in> set bs. f \<longrightarrow> k < round8 n) \<or>
      p \<noteq> 0 \<and> (\<exists>k. round8 n \<le> k \<and> (p, k) \<notin> live_of bs \<and> live_of bs' = insert (p, k) (live_of bs))"
    using kmalloc_cases [OF assms, of n] by blast
  have wf: "heap_wf s" using assms by (auto simp: heap_wf_def)
  have rep': "heap_rep (bytes s') (g_heap_base s) (g_heap_size s) (g_heap_start s') bs'"
    using r(2) kmalloc_confined(4,5) [OF wf r(1)] by (simp add: heap_inv_def)
  show ?thesis
  proof (cases "p = 0")
    case True
    then show ?thesis using r c by auto
  next
    case False
    then obtain k where k: "round8 n \<le> k" "(p, k) \<notin> live_of bs" "live_of bs' = insert (p, k) (live_of bs)"
      using c by auto
    have "payload (p, k) \<subseteq> region (g_heap_base s) (g_heap_size s)"
      using payload_region [OF rep'] k(3) by simp
    moreover have "payload b \<inter> payload (p, k) = {}" if "b \<in> live_of bs" for b
      using heap_rep_disjoint [OF rep', of b "(p, k)"] that k by auto
    moreover have "bytes s' x = bytes s x" if "b \<in> live_of bs" "x \<in> payload b" for b x
      using km.alloc_keeps [OF wf r(1) _ that(2)] that heap_live_eq [OF assms] by simp
    moreover have "unat n + 7 < 2 ^ 64 \<Longrightarrow> n \<le> k"
      using k(1) le_round8 [of n] by (rule_tac order_trans)
    ultimately show ?thesis
      using r k False by (intro exI [of _ p] exI [of _ s'] exI [of _ bs'] conjI) (auto intro!: exI [of _ k])
  qed
qed

theorem kmalloc_correct_witness:
  "\<exists>p s' bs' k. kmalloc 20 demo_kmem = Some (p, s') \<and> heap_inv s' bs' \<and> p \<noteq> 0 \<and> 20 \<le> k \<and>
     live_of bs' = {(p, k)}"
  using kmalloc_correct [OF demo_reps(1), of 20]
  by (fastforce simp: round8_def live_of_def split: if_splits)

lemma demo_live: "\<exists>p s' k. kmalloc 20 demo_kmem = Some (p, s') \<and> heap_wf s' \<and> (p, k) \<in> heap_live s'"
proof -
  obtain p s' bs' where r: "kmalloc 20 demo_kmem = Some (p, s')" "heap_inv s' bs'" "p \<noteq> 0"
    using kmalloc_cases [OF demo_reps(1), of 20] by (fastforce simp: round8_def)
  obtain k where "live_of bs' = insert (p, k) (live_of [(0x1000, 0xe8, True)])"
    using kmalloc_cases [OF demo_reps(1), of 20] r heap_inv_unique by fastforce
  then show ?thesis using r heap_live_eq [OF r(2)] by (auto simp: heap_wf_def)
qed

text \<open>
  C2: \<open>kfree\<close> of a live block of a well-formed heap always returns. Afterwards the heap is
  well formed, exactly that block is no longer live, no two neighbouring blocks are both
  free, and every byte of every other live block is unchanged.
\<close>

theorem kfree_correct:
  assumes "heap_inv s bs" and "(p, k) \<in> live_of bs"
  shows "\<exists>s' bs'. kfree p s = Some s' \<and> heap_inv s' bs' \<and> live_of bs' = live_of bs - {(p, k)} \<and>
    no_free_pair bs' \<and>
    (\<forall>b \<in> live_of bs - {(p, k)}. \<forall>x \<in> payload b. bytes s' x = bytes s x)"
proof -
  have wf: "heap_wf s" and l: "(p, k) \<in> heap_live s" "heap_live s = live_of bs"
    using assms heap_live_eq [OF assms(1)] by (auto simp: heap_wf_def)
  obtain s' bs' where r: "kfree p s = Some s'" "heap_inv s' bs'" "no_free_pair bs'"
    "live_of bs' = live_of bs - {(p, k)}"
    using kfree_cases [OF assms] by blast
  moreover have "bytes s' x = bytes s x" if "b \<in> live_of bs - {(p, k)}" "x \<in> payload b" for b x
    using km.free_keeps [OF wf l(1) r(1), of b x] that l(2) by simp
  ultimately show ?thesis by blast
qed

theorem kfree_correct_witness:
  "\<exists>p s s' bs'. kmalloc 20 demo_kmem = Some (p, s) \<and> kfree p s = Some s' \<and> heap_inv s' bs' \<and> no_free_pair bs'"
proof -
  obtain p s k bs where "kmalloc 20 demo_kmem = Some (p, s)" and b: "heap_inv s bs" "(p, k) \<in> live_of bs"
    using demo_live heap_live_eq unfolding heap_wf_def by blast
  then show ?thesis using kfree_correct [OF b] by blast
qed

text \<open>
  C11: a live block belongs to its owner. Whatever sequence of allocations, and of releases
  of other live blocks, the rest of the kernel performs, the block stays live and its
  contents never change.
\<close>

theorem live_block_survives:
  assumes "heap_wf s" and "b \<in> heap_live s" and "heap_trace kmalloc kfree heap_live b s s'"
  shows "heap_wf s' \<and> b \<in> heap_live s' \<and> (\<forall>x \<in> payload b. bytes s' x = bytes s x)"
  using km.trace_keeps [OF assms(3,1,2)] by blast

theorem live_block_survives_witness:
  "\<exists>p s k q s'. kmalloc 20 demo_kmem = Some (p, s) \<and> kmalloc 64 s = Some (q, s') \<and>
     (p, k) \<in> heap_live s' \<and> (\<forall>x \<in> payload (p, k). bytes s' x = bytes s x)"
proof -
  obtain p s k where b: "kmalloc 20 demo_kmem = Some (p, s)" "heap_wf s" "(p, k) \<in> heap_live s"
    using demo_live by blast
  obtain q s' where a: "kmalloc 64 s = Some (q, s')" using km.alloc_total [OF b(2), of 64] by blast
  have "heap_trace kmalloc kfree heap_live (p, k) s s'" by (rule ht_alloc, rule ht_start, rule a)
  from live_block_survives [OF b(2,3) this] show ?thesis using a b(1) by blast
qed

text \<open>
  C15: the memory statistics add up. On a well-formed heap \<open>kmalloc_get_free\<close> returns the
  bytes of the free blocks with their headers, and free bytes, used bytes and the headers of
  the live blocks together are the size of the heap.
\<close>

theorem heap_accounting:
  assumes "heap_inv s bs"
  shows "\<exists>free. kmalloc_get_free s = Some free \<and> unat free = free_of bs \<and>
    unat free + unat (kmalloc_get_used s) + 24 * live_count bs = unat (kmalloc_get_total s)"
proof -
  have rep: "heap_rep (bytes s) (g_heap_base s) (g_heap_size s) (g_heap_start s) bs"
    using assms by (simp add: heap_inv_def)
  have sum: "free_of bs + used_of bs + 24 * live_count bs = unat (g_heap_size s)"
    using tiles_sum [of "unat (g_heap_base s)" bs "unat (g_heap_base s) + unat (g_heap_size s)"] rep
    by (simp add: heap_rep_def)
  have "\<exists>r. kmalloc_get_free s = Some r \<and> unat r = unat (0 :: u64) + free_of bs"
    unfolding kmalloc_get_free_def
  proof (rule get_free_walk_seg)
    show "unat (0 :: u64) + free_of bs < 2 ^ 64"
      using sum unat_lt_exp [of "g_heap_size s"] by simp
  qed (use rep heap_rep_ok [OF rep] in \<open>auto simp: heap_rep_def block_in_heap_eq\<close>)
  with sum assms show ?thesis
    by (auto simp: kmalloc_get_used_def kmalloc_get_total_def heap_inv_def)
qed

theorem heap_accounting_witness:
  "\<exists>free. kmalloc_get_free demo_kmem = Some free \<and> unat free = 256"
  using heap_accounting [OF demo_reps(1)] by auto

text \<open>
  The auxiliary heaps see only the low 32 bits of a request (the mask \<open>~7u\<close> is an
  \<open>unsigned int\<close>), so a request of 4 GiB or more is served as the much smaller one.
\<close>

theorem kheap_alloc_truncates: "kheap_alloc h n m = kheap_alloc h (take_bit 32 n) m"
proof -
  have low: "x AND take_bit 32 M = take_bit 32 x AND take_bit 32 M" for x M :: u64
    by (rule bit_word_eqI) (auto simp: bit_simps)
  have "take_bit 32 (n + 7) = take_bit 32 (take_bit 32 n + 7)"
    by (simp add: word_unat_eq_iff unsigned_take_bit_eq take_bit_eq_mod unat_word_ariths mod_mod_cancel mod_simps)
  then have "(n + 7) AND take_bit 32 (NOT 7) = (take_bit 32 n + 7) AND take_bit 32 (NOT 7)"
    using low [of "n + 7" "NOT 7"] low [of "take_bit 32 n + 7" "NOT 7"] by (simp only:)
  moreover have "ucast (NOT 7 :: u32) = (take_bit 32 (NOT 7) :: u64)" by simp
  ultimately have "(n + 7) AND ucast (NOT 7 :: u32) = (take_bit 32 n + 7) AND ucast (NOT 7 :: u32)"
    by (simp only:)
  then show ?thesis unfolding kheap_alloc_def by (simp only:)
qed

text \<open>
  C28: \<open>kmalloc\<close> does not reject a corrupt header. If the first header fails the bounds check
  the walk stops there, and the block is handed out even when it is not free, whereas the
  auxiliary heaps return the null pointer in the same situation.
\<close>

theorem kmalloc_hands_out_corrupt_block:
  assumes "g_heap_start s \<noteq> 0" and "\<not> block_in_heap s (bytes s) (g_heap_start s)"
  shows "(\<exists>s'. kmalloc n s = Some (g_heap_start s + 24, s')) \<and>
    kheap_alloc \<lparr>kh_start = g_heap_start s, kh_base = g_heap_base s, kh_size = g_heap_size s\<rparr> n (bytes s)
      = Some (0, bytes s)"
  using assms
  by (simp add: kmalloc_def kmalloc_locked_def kheap_alloc_def find_fit.simps [of _ _ _ "g_heap_start s"]
      kheap_block_ok_def block_in_heap_def heap_end_addr_def Let_def)

theorem kmalloc_hands_out_corrupt_block_witness:
  "\<exists>s'. kmalloc 8 (demo_kmem\<lparr>g_heap_size := 0x80\<rparr>) = Some (0x1018, s')"
proof -
  have d: "g_heap_start demo_kmem = 0x1000" "g_heap_base demo_kmem = 0x1000"
    by (simp_all add: demo_kmem_simps)
  moreover have "h_size (bytes demo_kmem) 0x1000 = 0xe8"
    using demo_reps(1) by (simp add: heap_inv_def heap_rep_def)
  ultimately show ?thesis
    using kmalloc_hands_out_corrupt_block [of "demo_kmem\<lparr>g_heap_size := 0x80\<rparr>" 8]
    by (simp add: block_in_heap_def block_in_range_def heap_end_addr_def)
qed

end
