(* ===== verification/Errno.thy ===== *)
theory Errno
  imports Prelude
begin

text \<open>
  The error numbers of \<open>kernel/include/syscall.h\<close>. Handlers return them negated.
\<close>

datatype syscall_error =
  SYSCALL_EPERM | SYSCALL_ENOENT | SYSCALL_EIO | SYSCALL_EBADF | SYSCALL_ENOMEM | SYSCALL_EACCES |
  SYSCALL_EFAULT | SYSCALL_EEXIST | SYSCALL_ENOTDIR | SYSCALL_EISDIR | SYSCALL_EINVAL |
  SYSCALL_EMFILE | SYSCALL_EFBIG | SYSCALL_ENOSPC | SYSCALL_EROFS | SYSCALL_ENOSYS |
  SYSCALL_ENAMETOOLONG

fun errno :: "syscall_error \<Rightarrow> int" where
  "errno SYSCALL_EPERM = 1"
| "errno SYSCALL_ENOENT = 2"
| "errno SYSCALL_EIO = 5"
| "errno SYSCALL_EBADF = 9"
| "errno SYSCALL_ENOMEM = 12"
| "errno SYSCALL_EACCES = 13"
| "errno SYSCALL_EFAULT = 14"
| "errno SYSCALL_EEXIST = 17"
| "errno SYSCALL_ENOTDIR = 20"
| "errno SYSCALL_EISDIR = 21"
| "errno SYSCALL_EINVAL = 22"
| "errno SYSCALL_EMFILE = 24"
| "errno SYSCALL_EFBIG = 27"
| "errno SYSCALL_ENOSPC = 28"
| "errno SYSCALL_EROFS = 30"
| "errno SYSCALL_ENOSYS = 38"
| "errno SYSCALL_ENAMETOOLONG = 36"

lemma errno_pos [simp]: "0 < errno e"
  by (cases e) auto

lemma errno_inject [simp]: "errno a = errno b \<longleftrightarrow> a = b"
  by (cases a; cases b) auto

end
