(* ===== verification/Fd.thy ===== *)
theory Fd
  imports Errno
begin

text \<open>
  The file descriptor table of \<open>kernel/src/fd.c\<close>. A descriptor refers to an operations
  table by pointer; \<open>'o\<close> is the type of such pointers and a function \<open>deref\<close> reads the
  table a pointer refers to. \<open>'obj\<close> is the type of the objects, \<open>'w\<close> the state the
  operations work on. Null pointers are \<open>None\<close>. The table is related to a finite map from
  descriptors to open files at the end of the theory.
\<close>

definition FD_TABLE_CAPACITY :: nat where
  "FD_TABLE_CAPACITY = 16"

record ('obj, 'w) fd_ops =
  op_read :: "('obj option \<Rightarrow> u8 list option \<Rightarrow> u64 \<Rightarrow> 'w \<Rightarrow> int \<times> u8 list option \<times> 'w) option"
  op_write :: "('obj option \<Rightarrow> u8 list option \<Rightarrow> u64 \<Rightarrow> 'w \<Rightarrow> int \<times> 'w) option"
  op_ioctl :: "('obj option \<Rightarrow> u32 \<Rightarrow> u64 \<Rightarrow> 'w \<Rightarrow> int \<times> 'w) option"

record ('o, 'obj) fd_entry =
  e_ops :: "'o option"
  e_object :: "'obj option"
  e_used :: u8

type_synonym ('o, 'obj) fd_table = "('o, 'obj) fd_entry list"

definition fd_closed :: "('o, 'obj) fd_entry" where
  "fd_closed = \<lparr>e_ops = None, e_object = None, e_used = 0\<rparr>"

fun fd_init_loop :: "nat \<Rightarrow> nat \<Rightarrow> ('o, 'obj) fd_table \<Rightarrow> ('o, 'obj) fd_table" where
  "fd_init_loop 0 i t = t"
| "fd_init_loop (Suc n) i t = fd_init_loop n (i + 1) (t[i := fd_closed])"

definition fd_table_init :: "('o, 'obj) fd_table \<Rightarrow> ('o, 'obj) fd_table" where
  "fd_table_init t = fd_init_loop FD_TABLE_CAPACITY 0 t"

definition fd_bind ::
  "('o, 'obj) fd_table option \<Rightarrow> int \<Rightarrow> 'o option \<Rightarrow> 'obj option \<Rightarrow> int \<times> ('o, 'obj) fd_table option" where
  "fd_bind table fd ops object =
     (case table of
        None \<Rightarrow> (- errno SYSCALL_EINVAL, None)
      | Some t \<Rightarrow>
          if ops = None \<or> fd < 0 \<or> fd \<ge> int FD_TABLE_CAPACITY then (- errno SYSCALL_EINVAL, Some t)
          else (fd, Some (t[nat fd := \<lparr>e_ops = ops, e_object = object, e_used = 1\<rparr>])))"

function fd_alloc_loop ::
  "('o, 'obj) fd_table \<Rightarrow> 'o option \<Rightarrow> 'obj option \<Rightarrow> int \<Rightarrow> int \<times> ('o, 'obj) fd_table" where
  "fd_alloc_loop t ops object fd =
     (if fd < int FD_TABLE_CAPACITY then
        if e_used (t ! nat fd) = 0 then (fd, t[nat fd := \<lparr>e_ops = ops, e_object = object, e_used = 1\<rparr>])
        else fd_alloc_loop t ops object (fd + 1)
      else (- errno SYSCALL_EMFILE, t))"
  by pat_completeness auto
termination
  by (relation "measure (\<lambda>(t, ops, object, fd). nat (int FD_TABLE_CAPACITY - fd))") auto

declare fd_alloc_loop.simps [simp del]

definition fd_alloc ::
  "('o, 'obj) fd_table option \<Rightarrow> 'o option \<Rightarrow> 'obj option \<Rightarrow> int \<Rightarrow> int \<times> ('o, 'obj) fd_table option" where
  "fd_alloc table ops object start_fd =
     (case table of
        None \<Rightarrow> (- errno SYSCALL_EINVAL, None)
      | Some t \<Rightarrow>
          if ops = None \<or> start_fd < 0 then (- errno SYSCALL_EINVAL, Some t)
          else map_prod id Some (fd_alloc_loop t ops object start_fd))"

definition fd_close :: "('o, 'obj) fd_table option \<Rightarrow> int \<Rightarrow> int \<times> ('o, 'obj) fd_table option" where
  "fd_close table fd =
     (case table of
        None \<Rightarrow> (- errno SYSCALL_EBADF, None)
      | Some t \<Rightarrow>
          if fd < 0 \<or> fd \<ge> int FD_TABLE_CAPACITY \<or> e_used (t ! nat fd) = 0
          then (- errno SYSCALL_EBADF, Some t)
          else (0, Some (t[nat fd := fd_closed])))"

text \<open>The guard of the three dispatchers: the entry's operation, or nothing.\<close>

definition fd_entry_op ::
  "('o \<Rightarrow> ('obj, 'w) fd_ops) \<Rightarrow> (('obj, 'w) fd_ops \<Rightarrow> 'f option) \<Rightarrow> ('o, 'obj) fd_table option \<Rightarrow> int \<Rightarrow>
   ('f \<times> 'obj option) option" where
  "fd_entry_op deref sel table fd =
     (case table of
        None \<Rightarrow> None
      | Some t \<Rightarrow>
          if fd < 0 \<or> fd \<ge> int FD_TABLE_CAPACITY \<or> e_used (t ! nat fd) = 0 then None
          else case e_ops (t ! nat fd) of
            None \<Rightarrow> None
          | Some p \<Rightarrow> map_option (\<lambda>f. (f, e_object (t ! nat fd))) (sel (deref p)))"

definition fd_read ::
  "('o \<Rightarrow> ('obj, 'w) fd_ops) \<Rightarrow> ('o, 'obj) fd_table option \<Rightarrow> int \<Rightarrow> u8 list option \<Rightarrow> u64 \<Rightarrow> 'w \<Rightarrow>
   int \<times> u8 list option \<times> 'w" where
  "fd_read deref table fd buffer count w =
     (case fd_entry_op deref op_read table fd of
        None \<Rightarrow> (- errno SYSCALL_EBADF, buffer, w)
      | Some (f, obj) \<Rightarrow> f obj buffer count w)"

definition fd_write ::
  "('o \<Rightarrow> ('obj, 'w) fd_ops) \<Rightarrow> ('o, 'obj) fd_table option \<Rightarrow> int \<Rightarrow> u8 list option \<Rightarrow> u64 \<Rightarrow> 'w \<Rightarrow> int \<times> 'w" where
  "fd_write deref table fd buffer count w =
     (case fd_entry_op deref op_write table fd of
        None \<Rightarrow> (- errno SYSCALL_EBADF, w)
      | Some (f, obj) \<Rightarrow> f obj buffer count w)"

definition fd_ioctl ::
  "('o \<Rightarrow> ('obj, 'w) fd_ops) \<Rightarrow> ('o, 'obj) fd_table option \<Rightarrow> int \<Rightarrow> u32 \<Rightarrow> u64 \<Rightarrow> 'w \<Rightarrow> int \<times> 'w" where
  "fd_ioctl deref table fd request arg w =
     (case fd_entry_op deref op_ioctl table fd of
        None \<Rightarrow> (- errno SYSCALL_EBADF, w)
      | Some (f, obj) \<Rightarrow> f obj request arg w)"

section \<open>The table as a finite map\<close>

definition fd_ok :: "('o, 'obj) fd_table \<Rightarrow> bool" where
  "fd_ok t \<longleftrightarrow> length t = FD_TABLE_CAPACITY \<and> (\<forall>e \<in> set t. e_used e \<noteq> 0 \<longrightarrow> e_ops e \<noteq> None)"

definition open_files :: "('o, 'obj) fd_table \<Rightarrow> int \<rightharpoonup> 'o \<times> 'obj option" where
  "open_files t fd =
     (if 0 \<le> fd \<and> fd < int FD_TABLE_CAPACITY \<and> e_used (t ! nat fd) \<noteq> 0
      then Some (the (e_ops (t ! nat fd)), e_object (t ! nat fd)) else None)"

lemma fd_ok_update: "fd_ok t \<Longrightarrow> p \<noteq> None \<or> u = 0 \<Longrightarrow> fd_ok (t[i := \<lparr>e_ops = p, e_object = x, e_used = u\<rparr>])"
  by (auto simp: fd_ok_def dest!: set_update_subset_insert [THEN subsetD])

lemma open_files_update:
  assumes "fd_ok t" and "0 \<le> fd" and "fd < int FD_TABLE_CAPACITY"
  shows "open_files (t[nat fd := e]) =
    (open_files t)(fd := if e_used e = 0 then None else Some (the (e_ops e), e_object e))"
  using assms by (auto simp: open_files_def fd_ok_def nth_list_update fun_eq_iff)

lemma fd_init_loop_simps:
  "length (fd_init_loop n i t) = length t"
  "i + n \<le> length t \<Longrightarrow> j < length t \<Longrightarrow>
     fd_init_loop n i t ! j = (if i \<le> j \<and> j < i + n then fd_closed else t ! j)"
  by (induction n i t rule: fd_init_loop.induct) (auto simp: nth_list_update)

lemma open_files_bound:
  assumes "open_files t fd \<noteq> None"
  shows "0 \<le> fd" "fd < int FD_TABLE_CAPACITY" "e_used (t ! nat fd) \<noteq> 0"
  using assms by (auto simp: open_files_def split: if_splits)

lemma fd_entry_op_closed: "e_used (t ! nat fd) = 0 \<Longrightarrow> fd_entry_op deref sel (Some t) fd = None"
  by (simp add: fd_entry_op_def)

lemma fd_alloc_loop_free:
  assumes "0 \<le> fd" and "fd \<le> k" and "k < int FD_TABLE_CAPACITY" and "open_files t k = None"
    and "\<And>j. fd \<le> j \<Longrightarrow> j < k \<Longrightarrow> open_files t j \<noteq> None"
  shows "fd_alloc_loop t p x fd = (k, t[nat k := \<lparr>e_ops = p, e_object = x, e_used = 1\<rparr>])"
  using assms
proof (induction "nat (k - fd)" arbitrary: fd)
  case 0
  then have "fd = k" by simp
  with 0 show ?case by (subst fd_alloc_loop.simps) (simp add: open_files_def split: if_splits)
next
  case (Suc n)
  then have "fd < k" by linarith
  with Suc.prems(5) [of fd] have "e_used (t ! nat fd) \<noteq> 0" by (intro open_files_bound) simp
  moreover have "fd_alloc_loop t p x (fd + 1) = (k, t[nat k := \<lparr>e_ops = p, e_object = x, e_used = 1\<rparr>])"
    using Suc.hyps(2) Suc.prems \<open>fd < k\<close> by (intro Suc.hyps(1)) simp_all
  ultimately show ?case using Suc.prems(3) \<open>fd < k\<close> by (subst fd_alloc_loop.simps) simp
qed

lemma fd_alloc_loop_full:
  assumes "0 \<le> fd" and "\<And>j. fd \<le> j \<Longrightarrow> j < int FD_TABLE_CAPACITY \<Longrightarrow> open_files t j \<noteq> None"
  shows "fd_alloc_loop t p x fd = (- errno SYSCALL_EMFILE, t)"
  using assms
proof (induction "nat (int FD_TABLE_CAPACITY - fd)" arbitrary: fd)
  case 0
  then show ?case by (subst fd_alloc_loop.simps) simp
next
  case (Suc n)
  then have "fd < int FD_TABLE_CAPACITY" by linarith
  moreover from this Suc.prems(2) [of fd] have "e_used (t ! nat fd) \<noteq> 0"
    by (intro open_files_bound) simp
  moreover have "fd_alloc_loop t p x (fd + 1) = (- errno SYSCALL_EMFILE, t)"
    using Suc.hyps(2) Suc.prems by (intro Suc.hyps(1)) simp_all
  ultimately show ?case by (subst fd_alloc_loop.simps) simp
qed

lemma least_int:
  assumes "P k" and "lo \<le> k"
  obtains m :: int where "lo \<le> m" "m \<le> k" "P m" "\<And>j. lo \<le> j \<Longrightarrow> j < m \<Longrightarrow> \<not> P j"
proof -
  let ?m = "LEAST n. P (lo + int n)"
  have ex: "P (lo + int (nat (k - lo)))" using assms by simp
  have "P (lo + int ?m)" using ex by (rule LeastI [of "\<lambda>n. P (lo + int n)"])
  moreover have "?m \<le> nat (k - lo)" using ex by (rule Least_le [of "\<lambda>n. P (lo + int n)"])
  moreover have "\<not> P j" if "lo \<le> j" "j < lo + int ?m" for j
    using not_less_Least [of "nat (j - lo)" "\<lambda>n. P (lo + int n)"] that by simp
  ultimately show thesis using assms(2) by (intro that [of "lo + int ?m"]) linarith+
qed

text \<open>
  C16: the descriptor table is a finite map with lowest-number allocation. On a well-formed
  table \<open>fd_alloc\<close> binds the smallest free descriptor not below \<open>start_fd\<close> and nothing else,
  and reports \<open>EMFILE\<close>, leaving the table alone, exactly when there is none.
\<close>

theorem fd_alloc_lowest:
  assumes "fd_ok t" and "0 \<le> start" and "fd_alloc (Some t) (Some p) x start = (k, Some t')"
  shows "fd_ok t' \<and>
    (if \<exists>j. start \<le> j \<and> j < int FD_TABLE_CAPACITY \<and> open_files t j = None
     then start \<le> k \<and> k < int FD_TABLE_CAPACITY \<and> open_files t k = None \<and>
       (\<forall>j. start \<le> j \<and> j < k \<longrightarrow> open_files t j \<noteq> None) \<and> open_files t' = (open_files t)(k \<mapsto> (p, x))
     else k = - errno SYSCALL_EMFILE \<and> t' = t)"
proof -
  have r: "fd_alloc_loop t (Some p) x start = (k, t')"
    using assms(2,3) by (auto simp: fd_alloc_def map_prod_def split: prod.splits)
  show ?thesis
  proof (cases "\<exists>j. start \<le> j \<and> j < int FD_TABLE_CAPACITY \<and> open_files t j = None")
    case True
    then obtain j where j: "start \<le> j" "j < int FD_TABLE_CAPACITY" "open_files t j = None" by blast
    obtain m where m: "start \<le> m" "m \<le> j" "open_files t m = None"
      "\<And>i. start \<le> i \<Longrightarrow> i < m \<Longrightarrow> open_files t i \<noteq> None"
      using least_int [of "\<lambda>i. open_files t i = None" j start] j by blast
    then have "k = m" "t' = t[nat m := \<lparr>e_ops = Some p, e_object = x, e_used = 1\<rparr>]"
      using r fd_alloc_loop_free [of start m t "Some p" x] assms(2) j(2) by auto
    then show ?thesis
      using True m j(2) assms fd_ok_update [OF assms(1), of "Some p" 1 "nat m" x]
        open_files_update [OF assms(1), of m "\<lparr>e_ops = Some p, e_object = x, e_used = 1\<rparr>"] by simp
  next
    case False
    then have "k = - errno SYSCALL_EMFILE" "t' = t"
      using r fd_alloc_loop_full [of start t "Some p" x] assms(2) by auto
    then show ?thesis using False assms(1) by auto
  qed
qed

definition fd_demo :: "(nat, nat) fd_table" where
  "fd_demo = fd_table_init (replicate FD_TABLE_CAPACITY \<lparr>e_ops = None, e_object = None, e_used = 7\<rparr>)"

theorem fd_alloc_lowest_witness:
  "\<exists>t'. fd_alloc (Some fd_demo) (Some 5) None 3 = (3, Some t') \<and> open_files t' = (open_files fd_demo)(3 \<mapsto> (5, None))"
proof -
  have "fd_ok fd_demo" by (simp add: fd_demo_def fd_ok_def fd_table_init_def FD_TABLE_CAPACITY_def numeral_eq_Suc fd_closed_def)
  moreover have a: "fd_alloc (Some fd_demo) (Some 5) None 3 = (3, Some (fd_demo[3 := \<lparr>e_ops = Some 5, e_object = None, e_used = 1\<rparr>]))"
    by (simp add: fd_alloc_def fd_alloc_loop.simps [of _ _ _ 3] fd_demo_def fd_table_init_def FD_TABLE_CAPACITY_def numeral_eq_Suc fd_closed_def)
  ultimately show ?thesis using fd_alloc_lowest [OF _ _ a] by (auto split: if_splits)
qed

text \<open>
  C17: closing a descriptor makes exactly that descriptor unusable: \<open>fd_close\<close> of an open
  descriptor removes it from the map, and afterwards reading, writing, control and a second
  close report \<open>EBADF\<close> without touching the state.
\<close>

theorem fd_close_then_bad:
  assumes "fd_ok t" and "open_files t fd \<noteq> None" and "fd_close (Some t) fd = (r, Some t')"
  shows "r = 0 \<and> fd_ok t' \<and> open_files t' = (open_files t)(fd := None) \<and>
    fd_read deref (Some t') fd buf n w = (- errno SYSCALL_EBADF, buf, w) \<and>
    fd_write deref (Some t') fd buf n w = (- errno SYSCALL_EBADF, w) \<and>
    fd_ioctl deref (Some t') fd req arg w = (- errno SYSCALL_EBADF, w) \<and>
    fd_close (Some t') fd = (- errno SYSCALL_EBADF, Some t')"
proof -
  have b: "0 \<le> fd" "fd < int FD_TABLE_CAPACITY" "e_used (t ! nat fd) \<noteq> 0"
    using open_files_bound [OF assms(2)] by simp_all
  then have t': "r = 0" "t' = t[nat fd := fd_closed]" using assms(3) by (auto simp: fd_close_def)
  then have "nat fd < length t" "e_used (t' ! nat fd) = 0"
    using b assms(1) by (auto simp: fd_ok_def fd_closed_def)
  then show ?thesis
    using t' b assms(1) open_files_update [OF assms(1) b(1,2), of fd_closed]
      fd_ok_update [OF assms(1), of None 0 "nat fd" None]
    by (simp add: fd_read_def fd_write_def fd_ioctl_def fd_close_def fd_entry_op_closed fd_closed_def)
qed

theorem fd_close_then_bad_witness:
  "\<exists>t t'. fd_alloc (Some fd_demo) (Some 5) None 3 = (3, Some t) \<and> fd_close (Some t) 3 = (0, Some t') \<and>
     fd_close (Some t') 3 = (- errno SYSCALL_EBADF, Some t')"
proof -
  let ?t = "fd_demo[3 := \<lparr>e_ops = Some 5, e_object = None, e_used = 1\<rparr>]"
  note demo = fd_demo_def fd_table_init_def FD_TABLE_CAPACITY_def numeral_eq_Suc fd_closed_def
  have a: "fd_alloc (Some fd_demo) (Some 5) None 3 = (3, Some ?t)"
    by (simp add: fd_alloc_def fd_alloc_loop.simps [of _ _ _ 3] demo)
  have "fd_ok ?t" "open_files ?t 3 \<noteq> None" 
    and c: "fd_close (Some ?t) 3 = (0, Some (?t[3 := fd_closed]))"
    by (simp_all add: fd_ok_def open_files_def fd_close_def demo)
  from fd_close_then_bad [OF this, of "\<lambda>_. \<lparr>op_read = None, op_write = None, op_ioctl = None\<rparr>" None 0 "()" 0 0]
  have "fd_close (Some (?t[3 := fd_closed])) 3 = (- errno SYSCALL_EBADF, Some (?t[3 := fd_closed]))"
    by blast
  with a c show ?thesis by blast
qed

end
