(* ===== verification/Pty.thy ===== *)
theory Pty
  imports Fd
begin

text \<open>
  The pseudo-terminals of \<open>kernel/src/pty.c\<close>: a pool of four, each with one byte ring per
  direction and a raw-mode flag, and the operations tables of the two endpoints. The ring
  indices are free-running 64-bit counters reduced by a mask on access. The contract of a
  byte queue is the locale \<open>byte_fifo\<close>; the ring is an interpretation of it, so every
  interleaving of reads and writes delivers the accepted bytes once and in order.
\<close>

section \<open>The ring\<close>

definition PTY_POOL_SIZE :: nat where
  "PTY_POOL_SIZE = 4"

definition PTY_RING_SIZE :: u64 where
  "PTY_RING_SIZE = 16384"

definition PTY_RING_MASK :: u64 where
  "PTY_RING_MASK = PTY_RING_SIZE - 1"

record pty_ring =
  pr_data :: "u8 list"
  pr_head :: u64
  pr_tail :: u64

record pty =
  pty_in :: pty_ring
  pty_out :: pty_ring
  pty_used :: u8
  raw_mode :: u8

definition ring_reset :: "pty_ring \<Rightarrow> pty_ring" where
  "ring_reset r = r\<lparr>pr_head := 0, pr_tail := 0\<rparr>"

definition ring_used :: "pty_ring \<Rightarrow> u64" where
  "ring_used r = pr_head r - pr_tail r"

fun ring_put :: "u8 list \<Rightarrow> pty_ring \<Rightarrow> pty_ring" where
  "ring_put [] r = r"
| "ring_put (b # bs) r =
     ring_put bs (r\<lparr>pr_data := (pr_data r)[unat (pr_head r AND PTY_RING_MASK) := b], pr_head := pr_head r + 1\<rparr>)"

definition ring_write :: "pty_ring \<Rightarrow> u8 list \<Rightarrow> u64 \<Rightarrow> u64 \<times> pty_ring" where
  "ring_write r src count =
     (let free_space = PTY_RING_SIZE - ring_used r;
          count = (if count > free_space then free_space else count)
      in (count, ring_put (take (unat count) src) r))"

fun ring_get :: "nat \<Rightarrow> pty_ring \<Rightarrow> u8 list \<times> pty_ring" where
  "ring_get 0 r = ([], r)"
| "ring_get (Suc n) r =
     (let b = pr_data r ! unat (pr_tail r AND PTY_RING_MASK);
          (bs, r') = ring_get n (r\<lparr>pr_tail := pr_tail r + 1\<rparr>)
      in (b # bs, r'))"

definition ring_read :: "pty_ring \<Rightarrow> u8 list \<Rightarrow> u64 \<Rightarrow> u64 \<times> u8 list \<times> pty_ring" where
  "ring_read r dst count =
     (let avail = ring_used r;
          count = (if count > avail then avail else count);
          (bs, r') = ring_get (unat count) r
      in (count, bs @ drop (length bs) dst, r'))"

section \<open>The pool and the endpoints\<close>

text \<open>A \<open>struct pty *\<close> is an index into the pool. \<open>umem\<close> is the memory \<open>ioctl\<close> stores to.\<close>

record pty_state =
  g_ptys :: "pty list"
  umem :: mem

function pty_alloc_loop :: "pty list \<Rightarrow> nat \<Rightarrow> nat option \<times> pty list" where
  "pty_alloc_loop ps i =
     (if i < PTY_POOL_SIZE then
        if pty_used (ps ! i) = 0 then
          (Some i, ps[i := (ps ! i)\<lparr>pty_used := 1, pty_in := ring_reset (pty_in (ps ! i)),
                                     pty_out := ring_reset (pty_out (ps ! i))\<rparr>])
        else pty_alloc_loop ps (i + 1)
      else (None, ps))"
  by pat_completeness auto
termination
  by (relation "measure (\<lambda>(ps, i). PTY_POOL_SIZE - i)") auto

declare pty_alloc_loop.simps [simp del]

definition pty_alloc :: "pty_state \<Rightarrow> nat option \<times> pty_state" where
  "pty_alloc w = (case pty_alloc_loop (g_ptys w) 0 of (p, ps) \<Rightarrow> (p, w\<lparr>g_ptys := ps\<rparr>))"

definition pty_release :: "nat option \<Rightarrow> pty_state \<Rightarrow> pty_state" where
  "pty_release p w =
     (case p of
        None \<Rightarrow> w
      | Some i \<Rightarrow> w\<lparr>g_ptys := (g_ptys w)[i := (g_ptys w ! i)\<lparr>pty_used := 0\<rparr>]\<rparr>)"

text \<open>
  The four transfer operations differ in the ring they use; \<open>sel\<close> reads it from a pty and
  \<open>upd\<close> stores it back.
\<close>

definition pty_read_from ::
  "(pty \<Rightarrow> pty_ring) \<Rightarrow> (pty_ring \<Rightarrow> pty \<Rightarrow> pty) \<Rightarrow> nat option \<Rightarrow> u8 list option \<Rightarrow> u64 \<Rightarrow> pty_state \<Rightarrow>
   int \<times> u8 list option \<times> pty_state" where
  "pty_read_from sel upd object buffer count w =
     (case (object, buffer) of
        (Some i, Some dst) \<Rightarrow>
          if count = 0 then (0, buffer, w)
          else (case ring_read (sel (g_ptys w ! i)) dst count of
                  (n, dst', r) \<Rightarrow> (sint n, Some dst', w\<lparr>g_ptys := (g_ptys w)[i := upd r (g_ptys w ! i)]\<rparr>))
      | _ \<Rightarrow> (0, buffer, w))"

definition pty_write_to ::
  "(pty \<Rightarrow> pty_ring) \<Rightarrow> (pty_ring \<Rightarrow> pty \<Rightarrow> pty) \<Rightarrow> nat option \<Rightarrow> u8 list option \<Rightarrow> u64 \<Rightarrow> pty_state \<Rightarrow>
   int \<times> pty_state" where
  "pty_write_to sel upd object buffer count w =
     (case (object, buffer) of
        (Some i, Some src) \<Rightarrow>
          (case ring_write (sel (g_ptys w ! i)) src count of
             (n, r) \<Rightarrow> (sint n, w\<lparr>g_ptys := (g_ptys w)[i := upd r (g_ptys w ! i)]\<rparr>))
      | _ \<Rightarrow> (- errno SYSCALL_EINVAL, w))"

definition set_in :: "pty_ring \<Rightarrow> pty \<Rightarrow> pty" where
  "set_in r p = p\<lparr>pty_in := r\<rparr>"

definition set_out :: "pty_ring \<Rightarrow> pty \<Rightarrow> pty" where
  "set_out r p = p\<lparr>pty_out := r\<rparr>"

definition pty_master_read :: "nat option \<Rightarrow> u8 list option \<Rightarrow> u64 \<Rightarrow> pty_state \<Rightarrow> int \<times> u8 list option \<times> pty_state" where
  "pty_master_read = pty_read_from pty_out set_out"

definition pty_master_write :: "nat option \<Rightarrow> u8 list option \<Rightarrow> u64 \<Rightarrow> pty_state \<Rightarrow> int \<times> pty_state" where
  "pty_master_write = pty_write_to pty_in set_in"

definition pty_slave_read :: "nat option \<Rightarrow> u8 list option \<Rightarrow> u64 \<Rightarrow> pty_state \<Rightarrow> int \<times> u8 list option \<times> pty_state" where
  "pty_slave_read = pty_read_from pty_in set_in"

definition pty_slave_write :: "nat option \<Rightarrow> u8 list option \<Rightarrow> u64 \<Rightarrow> pty_state \<Rightarrow> int \<times> pty_state" where
  "pty_slave_write = pty_write_to pty_out set_out"

definition TTY_IOCTL_CLEAR :: u32 where "TTY_IOCTL_CLEAR = 1"
definition TTY_IOCTL_SET_RAW :: u32 where "TTY_IOCTL_SET_RAW = 2"
definition TTY_IOCTL_GET_RAW :: u32 where "TTY_IOCTL_GET_RAW = 3"

definition pty_ioctl :: "nat option \<Rightarrow> u32 \<Rightarrow> u64 \<Rightarrow> pty_state \<Rightarrow> int \<times> pty_state" where
  "pty_ioctl object request arg w =
     (case object of
        None \<Rightarrow> (- errno SYSCALL_EINVAL, w)
      | Some i \<Rightarrow>
          let p = g_ptys w ! i in
          if request = TTY_IOCTL_SET_RAW then
            (0, w\<lparr>g_ptys := (g_ptys w)[i := p\<lparr>raw_mode := if arg \<noteq> 0 then 1 else 0\<rparr>]\<rparr>)
          else if request = TTY_IOCTL_GET_RAW then
            if arg \<noteq> 0 then (0, w\<lparr>umem := st32 (umem w) arg (if raw_mode p \<noteq> 0 then 1 else 0)\<rparr>)
            else (- errno SYSCALL_EINVAL, w)
          else if request = TTY_IOCTL_CLEAR then (0, w)
          else (- errno SYSCALL_ENOSYS, w))"

definition PTY_MASTER_FD_OPS :: "(nat, pty_state) fd_ops" where
  "PTY_MASTER_FD_OPS =
     \<lparr>op_read = Some pty_master_read, op_write = Some pty_master_write, op_ioctl = Some pty_ioctl\<rparr>"

definition PTY_SLAVE_FD_OPS :: "(nat, pty_state) fd_ops" where
  "PTY_SLAVE_FD_OPS =
     \<lparr>op_read = Some pty_slave_read, op_write = Some pty_slave_write, op_ioctl = Some pty_ioctl\<rparr>"

section \<open>The contract of a byte queue\<close>

datatype fifo_op = Put "u8 list" u64 | Get u64

text \<open>Running a sequence of operations: the accepted bytes, the delivered bytes, the queue.\<close>

fun fifo_run ::
  "('r \<Rightarrow> u8 list \<Rightarrow> u64 \<Rightarrow> u64 \<times> 'r) \<Rightarrow> ('r \<Rightarrow> u8 list \<Rightarrow> u64 \<Rightarrow> u64 \<times> u8 list \<times> 'r) \<Rightarrow>
   fifo_op list \<Rightarrow> 'r \<Rightarrow> u8 list \<times> u8 list \<times> 'r" where
  "fifo_run put get [] r = ([], [], r)"
| "fifo_run put get (Put src n # cs) r =
     (case put r src n of (k, r1) \<Rightarrow>
      case fifo_run put get cs r1 of (a, d, r2) \<Rightarrow> (take (unat k) src @ a, d, r2))"
| "fifo_run put get (Get n # cs) r =
     (case get r [] n of (k, dst, r1) \<Rightarrow>
      case fifo_run put get cs r1 of (a, d, r2) \<Rightarrow> (a, dst @ d, r2))"

fun fifo_op_ok :: "fifo_op \<Rightarrow> bool" where
  "fifo_op_ok (Put src n) \<longleftrightarrow> unat n \<le> length src"
| "fifo_op_ok (Get n) \<longleftrightarrow> True"

locale byte_fifo =
  fixes put :: "'r \<Rightarrow> u8 list \<Rightarrow> u64 \<Rightarrow> u64 \<times> 'r"
    and get :: "'r \<Rightarrow> u8 list \<Rightarrow> u64 \<Rightarrow> u64 \<times> u8 list \<times> 'r"
    and ok :: "'r \<Rightarrow> bool"
    and contents :: "'r \<Rightarrow> u8 list"
    and cap :: nat
  assumes put_law: "ok r \<Longrightarrow> unat n \<le> length src \<Longrightarrow> put r src n = (k, r') \<Longrightarrow>
      ok r' \<and> unat k = min (unat n) (cap - length (contents r)) \<and>
      contents r' = contents r @ take (unat k) src"
    and get_law: "ok r \<Longrightarrow> get r dst n = (k, dst', r') \<Longrightarrow>
      ok r' \<and> unat k = min (unat n) (length (contents r)) \<and>
      dst' = take (unat k) (contents r) @ drop (unat k) dst \<and>
      contents r' = drop (unat k) (contents r)"
    and cap_law: "ok r \<Longrightarrow> length (contents r) \<le> cap"
begin

lemma run_stream:
  "ok r \<Longrightarrow> list_all fifo_op_ok cs \<Longrightarrow> fifo_run put get cs r = (a, d, r') \<Longrightarrow>
     ok r' \<and> contents r @ a = d @ contents r'"
proof (induction cs arbitrary: r a d r')
  case (Cons c cs)
  show ?case
  proof (cases c)
    case (Put src n)
    obtain k r1 where p: "put r src n = (k, r1)" by (cases "put r src n")
    obtain a1 d1 r2 where s: "fifo_run put get cs r1 = (a1, d1, r2)" by (cases "fifo_run put get cs r1")
    have "ok r1" "contents r1 = contents r @ take (unat k) src"
      using put_law [OF _ _ p] Cons.prems by (simp_all add: Put)
    moreover have "ok r2 \<and> contents r1 @ a1 = d1 @ contents r2"
      using Cons.IH [OF \<open>ok r1\<close> _ s] Cons.prems(2) by simp
    moreover have "a = take (unat k) src @ a1" "d = d1" "r' = r2"
      using Cons.prems(3) p s by (simp_all add: Put)
    ultimately show ?thesis by simp
  next
    case (Get n)
    obtain k dst r1 where p: "get r [] n = (k, dst, r1)" by (cases "get r [] n")
    obtain a1 d1 r2 where s: "fifo_run put get cs r1 = (a1, d1, r2)" by (cases "fifo_run put get cs r1")
    have "ok r1" and c: "contents r = dst @ contents r1"
      using get_law [OF Cons.prems(1) p] by simp_all
    moreover have "ok r2 \<and> contents r1 @ a1 = d1 @ contents r2"
      using Cons.IH [OF \<open>ok r1\<close> _ s] Cons.prems(2) by simp
    moreover have "a = a1" "d = dst @ d1" "r' = r2"
      using Cons.prems(3) p s by (simp_all add: Get)
    ultimately show ?thesis by simp
  qed
qed simp

end

section \<open>The ring is a byte queue\<close>

definition ring_ok :: "pty_ring \<Rightarrow> bool" where
  "ring_ok r \<longleftrightarrow> length (pr_data r) = 16384 \<and> unat (ring_used r) \<le> 16384"

definition ring_bytes :: "pty_ring \<Rightarrow> u8 list" where
  "ring_bytes r = map (\<lambda>i. pr_data r ! (unat (pr_tail r + of_nat i) mod 16384)) [0..<unat (ring_used r)]"

lemma ring_mask: "unat (x AND PTY_RING_MASK) = unat x mod 16384"
proof -
  have "x AND PTY_RING_MASK = take_bit 14 x"
    by (simp add: PTY_RING_MASK_def PTY_RING_SIZE_def take_bit_eq_mask mask_eq_exp_minus_1)
  moreover have "unat (take_bit 14 x) = take_bit 14 (unat x)" by (rule unsigned_take_bit_eq)
  moreover have "take_bit 14 (unat x) = unat x mod 16384" by (simp add: take_bit_eq_mod)
  ultimately show ?thesis by (simp only:)
qed

lemma length_ring_bytes [simp]: "length (ring_bytes r) = unat (ring_used r)"
  by (simp add: ring_bytes_def)

text \<open>Two offsets below the ring size never collide, even when the counters wrap.\<close>

lemma ring_slot:
  fixes t :: u64
  shows "unat (t + of_nat i) mod 16384 = (unat t + i) mod 16384"
  by (simp add: unat_word_ariths unat_of_nat mod_mod_cancel mod_simps)

text \<open>Storing a byte at the head appends it; taking one at the tail removes the first.\<close>

lemma ring_push:
  fixes r :: pty_ring and b :: u8
  assumes "ring_ok r" and "unat (ring_used r) < 16384"
  defines "r' \<equiv> r\<lparr>pr_data := (pr_data r)[unat (pr_head r AND PTY_RING_MASK) := b], pr_head := pr_head r + 1\<rparr>"
  shows "ring_ok r' \<and> unat (ring_used r') = unat (ring_used r) + 1 \<and> ring_bytes r' = ring_bytes r @ [b]"
proof -
  let ?n = "unat (ring_used r)"
  have u: "ring_used r' = ring_used r + 1" by (simp add: r'_def ring_used_def)
  then have n: "unat (ring_used r') = ?n + 1" using assms(2) by (simp add: unat_add_numeral_exact unat_word_ariths)
  have head: "pr_head r = pr_tail r + of_nat ?n" by (simp add: ring_used_def)
  have slot: "unat (pr_head r AND PTY_RING_MASK) = (unat (pr_tail r) + ?n) mod 16384"
    unfolding ring_mask by (subst head) (rule ring_slot)
  have "pr_data r' ! (unat (pr_tail r' + of_nat i) mod 16384) =
     (if i = ?n then b else pr_data r ! (unat (pr_tail r + of_nat i) mod 16384))" if "i \<le> ?n" for i
    using that assms(1,2) mod_offset_inj [of i 16384 ?n "unat (pr_tail r)"]
    by (auto simp: r'_def slot ring_slot ring_ok_def nth_list_update)
  from this [of ?n] this have "ring_bytes r' = ring_bytes r @ [b]"
    by (simp add: ring_bytes_def n)
  then show ?thesis using n assms by (simp add: ring_ok_def r'_def)
qed

lemma ring_pop:
  assumes "ring_ok r" and "0 < unat (ring_used r)"
  defines "r' \<equiv> r\<lparr>pr_tail := pr_tail r + 1\<rparr>"
  shows "ring_ok r' \<and> unat (ring_used r') = unat (ring_used r) - 1 \<and>
    ring_bytes r = pr_data r ! unat (pr_tail r AND PTY_RING_MASK) # ring_bytes r'"
proof -
  have "ring_used r' = ring_used r - 1" by (simp add: r'_def ring_used_def)
  then have n: "unat (ring_used r') = unat (ring_used r) - 1"
    using assms(2) by (simp add: unat_sub_if' word_le_nat_alt)
  obtain k where k: "unat (ring_used r) = Suc k" using assms(2) gr0_conv_Suc by blast
  have "ring_bytes r = pr_data r ! unat (pr_tail r AND PTY_RING_MASK) # ring_bytes r'"
    unfolding ring_bytes_def n k upt_rec [of 0 "Suc k"]
    by (auto simp: r'_def ring_mask map_Suc_upt [symmetric] add_ac simp del: upt_Suc)
  moreover have "length (pr_data r') = 16384" "unat (ring_used r) - 1 \<le> 16384"
    using assms(1) by (auto simp: ring_ok_def r'_def)
  ultimately show ?thesis using n by (simp add: ring_ok_def)
qed

lemma ring_put_spec:
  "ring_ok r \<Longrightarrow> unat (ring_used r) + length bs \<le> 16384 \<Longrightarrow>
     ring_ok (ring_put bs r) \<and> ring_bytes (ring_put bs r) = ring_bytes r @ bs"
proof (induction bs arbitrary: r)
  case (Cons b bs)
  let ?r = "r\<lparr>pr_data := (pr_data r)[unat (pr_head r AND PTY_RING_MASK) := b], pr_head := pr_head r + 1\<rparr>"
  have "ring_ok ?r \<and> unat (ring_used ?r) = unat (ring_used r) + 1 \<and> ring_bytes ?r = ring_bytes r @ [b]"
    using Cons.prems by (intro ring_push) simp_all
  with Cons.IH [of ?r] Cons.prems show ?case by simp
qed simp

lemma ring_get_spec:
  "ring_ok r \<Longrightarrow> n \<le> unat (ring_used r) \<Longrightarrow> ring_get n r = (bs, r') \<Longrightarrow>
     ring_ok r' \<and> bs = take n (ring_bytes r) \<and> ring_bytes r' = drop n (ring_bytes r)"
proof (induction n arbitrary: r bs)
  case (Suc n)
  let ?r = "r\<lparr>pr_tail := pr_tail r + 1\<rparr>"
  have pop: "ring_ok ?r" "unat (ring_used ?r) = unat (ring_used r) - 1"
    "ring_bytes r = pr_data r ! unat (pr_tail r AND PTY_RING_MASK) # ring_bytes ?r"
    using ring_pop [of r] Suc.prems(1,2) by simp_all
  obtain cs where cs: "ring_get n ?r = (cs, r')" "bs = pr_data r ! unat (pr_tail r AND PTY_RING_MASK) # cs"
    using Suc.prems(3) by (auto simp: Let_def split: prod.splits)
  from Suc.IH [OF pop(1) _ cs(1)] pop(2) Suc.prems(2) cs(2) show ?case by (simp add: pop(3))
qed simp

interpretation pr: byte_fifo ring_write ring_read ring_ok ring_bytes 16384
proof
  fix r n src k r'
  assume r: "ring_ok r" and n: "unat n \<le> length src" and w: "ring_write r src n = (k, r')"
  have sz: "unat (PTY_RING_SIZE - ring_used r) = 16384 - unat (ring_used r)"
    using r by (simp add: PTY_RING_SIZE_def ring_ok_def unat_sub_if' word_le_nat_alt)
  then have k: "unat k = min (unat n) (16384 - unat (ring_used r))" "r' = ring_put (take (unat k) src) r"
    using w by (auto simp: ring_write_def Let_def word_less_nat_alt split: if_splits)
  moreover have "unat (ring_used r) + length (take (unat k) src) \<le> 16384"
    using r k(1) by (auto simp: ring_ok_def)
  ultimately show "ring_ok r' \<and> unat k = min (unat n) (16384 - length (ring_bytes r)) \<and>
      ring_bytes r' = ring_bytes r @ take (unat k) src"
    using ring_put_spec [OF r, of "take (unat k) src"] by (simp only: length_ring_bytes simp_thms)
next
  fix r dst n k dst' r'
  assume r: "ring_ok r" and g: "ring_read r dst n = (k, dst', r')"
  then have k: "unat k = min (unat n) (unat (ring_used r))"
    and s: "case ring_get (unat k) r of (bs, r1) \<Rightarrow> dst' = bs @ drop (length bs) dst \<and> r' = r1"
    by (auto simp: ring_read_def Let_def word_less_nat_alt split: prod.splits if_splits)
  obtain bs where bs: "ring_get (unat k) r = (bs, r')" "dst' = bs @ drop (length bs) dst"
    using s by (auto split: prod.splits)
  with ring_get_spec [OF r _ bs(1)] k
  show "ring_ok r' \<and> unat k = min (unat n) (length (ring_bytes r)) \<and>
      dst' = take (unat k) (ring_bytes r) @ drop (unat k) dst \<and> ring_bytes r' = drop (unat k) (ring_bytes r)"
    by simp
next
  fix r assume "ring_ok r"
  then show "length (ring_bytes r) \<le> 16384" by (simp add: ring_ok_def)
qed

section \<open>Transfers between the endpoints\<close>

datatype pty_op = MasterWrite "u8 list" | SlaveRead u64 | SlaveWrite "u8 list" | MasterRead u64

definition pty_ok :: "pty \<Rightarrow> bool" where
  "pty_ok p \<longleftrightarrow> ring_ok (pty_in p) \<and> ring_ok (pty_out p)"

text \<open>
  Running a sequence of endpoint operations on pty \<open>i\<close>: the bytes accepted by and delivered
  from the input ring, the same for the output ring, and the final state.
\<close>

fun pty_run :: "nat \<Rightarrow> pty_op list \<Rightarrow> pty_state \<Rightarrow>
    (u8 list \<times> u8 list) \<times> (u8 list \<times> u8 list) \<times> pty_state" where
  "pty_run i [] w = (([], []), ([], []), w)"
| "pty_run i (MasterWrite src # cs) w =
     (case pty_master_write (Some i) (Some src) (of_nat (length src)) w of (n, w1) \<Rightarrow>
      case pty_run i cs w1 of ((a, d), q, w2) \<Rightarrow> ((take (nat n) src @ a, d), q, w2))"
| "pty_run i (SlaveRead k # cs) w =
     (case pty_slave_read (Some i) (Some []) k w of (n, buf, w1) \<Rightarrow>
      case pty_run i cs w1 of ((a, d), q, w2) \<Rightarrow> ((a, take (nat n) (the buf) @ d), q, w2))"
| "pty_run i (SlaveWrite src # cs) w =
     (case pty_slave_write (Some i) (Some src) (of_nat (length src)) w of (n, w1) \<Rightarrow>
      case pty_run i cs w1 of (p, (a, d), w2) \<Rightarrow> (p, (take (nat n) src @ a, d), w2))"
| "pty_run i (MasterRead k # cs) w =
     (case pty_master_read (Some i) (Some []) k w of (n, buf, w1) \<Rightarrow>
      case pty_run i cs w1 of (p, (a, d), w2) \<Rightarrow> (p, (a, take (nat n) (the buf) @ d), w2))"

fun pty_op_ok :: "pty_op \<Rightarrow> bool" where
  "pty_op_ok (MasterWrite src) \<longleftrightarrow> length src < 2 ^ 64"
| "pty_op_ok (SlaveWrite src) \<longleftrightarrow> length src < 2 ^ 64"
| "pty_op_ok _ \<longleftrightarrow> True"

lemma nat_sint_small: "unat (k :: u64) \<le> 16384 \<Longrightarrow> nat (sint k) = unat k"
  by (simp add: sint_unat)

lemma pty_write_to_law:
  assumes "ring_ok (sel (g_ptys w ! i))" and "length src < 2 ^ 64"
    and "pty_write_to sel upd (Some i) (Some src) (of_nat (length src)) w = (n, w1)"
  shows "\<exists>r. w1 = w\<lparr>g_ptys := (g_ptys w)[i := upd r (g_ptys w ! i)]\<rparr> \<and> ring_ok r \<and>
    ring_bytes r = ring_bytes (sel (g_ptys w ! i)) @ take (nat n) src"
proof -
  obtain k r where w: "ring_write (sel (g_ptys w ! i)) src (of_nat (length src)) = (k, r)"
    by (cases "ring_write (sel (g_ptys w ! i)) src (of_nat (length src))")
  have len: "unat (of_nat (length src) :: u64) = length src"
    using assms(2) by (simp add: unat_of_nat)
  have law: "ring_ok r" "unat k = min (length src) (16384 - length (ring_bytes (sel (g_ptys w ! i))))"
    "ring_bytes r = ring_bytes (sel (g_ptys w ! i)) @ take (unat k) src"
    using pr.put_law [OF assms(1) _ w] len by simp_all
  then have "nat (sint k) = unat k" by (intro nat_sint_small) simp
  then show ?thesis using assms(3) w law by (auto simp: pty_write_to_def)
qed

lemma pty_read_from_law:
  assumes "ring_ok (sel (g_ptys w ! i))"
    and "pty_read_from sel upd (Some i) (Some []) k w = (n, buf, w1)"
    and "upd (sel (g_ptys w ! i)) (g_ptys w ! i) = g_ptys w ! i"
  shows "\<exists>r. w1 = w\<lparr>g_ptys := (g_ptys w)[i := upd r (g_ptys w ! i)]\<rparr> \<and> ring_ok r \<and>
    ring_bytes (sel (g_ptys w ! i)) = take (nat n) (the buf) @ ring_bytes r"
proof (cases "k = 0")
  case True
  then show ?thesis using assms by (auto simp: pty_read_from_def intro!: exI [of _ "sel (g_ptys w ! i)"])
next
  case False
  obtain c dst r where g: "ring_read (sel (g_ptys w ! i)) [] k = (c, dst, r)"
    by (cases "ring_read (sel (g_ptys w ! i)) [] k")
  have law: "ring_ok r" "unat c = min (unat k) (length (ring_bytes (sel (g_ptys w ! i))))"
    "dst = take (unat c) (ring_bytes (sel (g_ptys w ! i)))"
    "ring_bytes r = drop (unat c) (ring_bytes (sel (g_ptys w ! i)))"
    using pr.get_law [OF assms(1) g] by simp_all
  then have "nat (sint c) = unat c"
    using pr.cap_law [OF assms(1)] by (intro nat_sint_small) simp
  then show ?thesis using assms(2) g law False by (auto simp: pty_read_from_def)
qed

lemmas pty_endpoint_defs = pty_master_read_def pty_master_write_def pty_slave_read_def pty_slave_write_def

lemma pty_set_ring_simps [simp]:
  "pty_in (set_in r p) = r" "pty_out (set_in r p) = pty_out p"
  "pty_out (set_out r p) = r" "pty_in (set_out r p) = pty_in p"
  "set_in (pty_in p) p = p" "set_out (pty_out p) p = p"
  by (simp_all add: set_in_def set_out_def)

text \<open>What one operation does: the streams grow by what it moves, and a state is left in which the rest runs.\<close>

definition stream_step ::
  "nat \<Rightarrow> pty_op list \<Rightarrow> (u8 list \<times> u8 list) \<times> (u8 list \<times> u8 list) \<times> pty_state \<Rightarrow> pty_state \<Rightarrow> pty_state \<Rightarrow> bool" where
  "stream_step i cs res w w1 \<longleftrightarrow>
     (\<exists>a d ao e ai1 di1 ao1 do1 w'. res = ((a @ ai1, d @ di1), (ao @ ao1, e @ do1), w') \<and>
        pty_run i cs w1 = ((ai1, di1), (ao1, do1), w') \<and> pty_ok (g_ptys w1 ! i) \<and>
        ring_bytes (pty_in (g_ptys w ! i)) @ a = d @ ring_bytes (pty_in (g_ptys w1 ! i)) \<and>
        ring_bytes (pty_out (g_ptys w ! i)) @ ao = e @ ring_bytes (pty_out (g_ptys w1 ! i)) \<and>
        length (g_ptys w1) = length (g_ptys w) \<and> (\<forall>j. j \<noteq> i \<longrightarrow> g_ptys w1 ! j = g_ptys w ! j))"

lemma stream_stepI:
  assumes "pty_run i cs w1 = ((ai1, di1), (ao1, do1), w')" "pty_ok (g_ptys w1 ! i)"
    "ring_bytes (pty_in (g_ptys w ! i)) @ a = d @ ring_bytes (pty_in (g_ptys w1 ! i))"
    "ring_bytes (pty_out (g_ptys w ! i)) @ ao = e @ ring_bytes (pty_out (g_ptys w1 ! i))"
    "length (g_ptys w1) = length (g_ptys w)" "\<forall>j. j \<noteq> i \<longrightarrow> g_ptys w1 ! j = g_ptys w ! j"
  shows "stream_step i cs ((a @ ai1, d @ di1), (ao @ ao1, e @ do1), w') w w1"
  using assms unfolding stream_step_def by blast

lemma write_step:
  assumes "i < length (g_ptys w)" "pty_ok (g_ptys w ! i)" "pty_op_ok c"
    and "c = MasterWrite src \<or> c = SlaveWrite src"
  shows "\<exists>w1. stream_step i cs (pty_run i (c # cs) w) w w1"
  using assms(4)
proof
  assume c: "c = MasterWrite src"
  obtain n w1 where p: "pty_master_write (Some i) (Some src) (of_nat (length src)) w = (n, w1)" by force
  obtain r where r: "w1 = w\<lparr>g_ptys := (g_ptys w)[i := set_in r (g_ptys w ! i)]\<rparr>" "ring_ok r"
    "ring_bytes r = ring_bytes (pty_in (g_ptys w ! i)) @ take (nat n) src"
    using pty_write_to_law [OF _ _ p [unfolded pty_endpoint_defs]] assms(2,3) by (auto simp: c pty_ok_def)
  obtain ai1 di1 ao1 do1 w' where "pty_run i cs w1 = ((ai1, di1), (ao1, do1), w')" by (metis prod.exhaust)
  with stream_stepI [OF this, of w "take (nat n) src" "[]" "[]" "[]"] p r assms(1,2) show ?thesis
    by (auto simp: c pty_ok_def)
next
  assume c: "c = SlaveWrite src"
  obtain n w1 where p: "pty_slave_write (Some i) (Some src) (of_nat (length src)) w = (n, w1)" by force
  obtain r where r: "w1 = w\<lparr>g_ptys := (g_ptys w)[i := set_out r (g_ptys w ! i)]\<rparr>" "ring_ok r"
    "ring_bytes r = ring_bytes (pty_out (g_ptys w ! i)) @ take (nat n) src"
    using pty_write_to_law [OF _ _ p [unfolded pty_endpoint_defs]] assms(2,3) by (auto simp: c pty_ok_def)
  obtain ai1 di1 ao1 do1 w' where "pty_run i cs w1 = ((ai1, di1), (ao1, do1), w')" by (metis prod.exhaust)
  with stream_stepI [OF this, of w "[]" "[]" "take (nat n) src" "[]"] p r assms(1,2) show ?thesis
    by (auto simp: c pty_ok_def)
qed

lemma read_step:
  assumes "i < length (g_ptys w)" "pty_ok (g_ptys w ! i)" and "c = SlaveRead k \<or> c = MasterRead k"
  shows "\<exists>w1. stream_step i cs (pty_run i (c # cs) w) w w1"
  using assms(3)
proof
  assume c: "c = SlaveRead k"
  obtain n buf w1 where p: "pty_slave_read (Some i) (Some []) k w = (n, buf, w1)" by (metis prod.exhaust)
  obtain r where r: "w1 = w\<lparr>g_ptys := (g_ptys w)[i := set_in r (g_ptys w ! i)]\<rparr>" "ring_ok r"
    "ring_bytes (pty_in (g_ptys w ! i)) = take (nat n) (the buf) @ ring_bytes r"
    using pty_read_from_law [OF _ p [unfolded pty_endpoint_defs]] assms(2) by (auto simp: pty_ok_def)
  obtain ai1 di1 ao1 do1 w' where "pty_run i cs w1 = ((ai1, di1), (ao1, do1), w')" by (metis prod.exhaust)
  with stream_stepI [OF this, of w "[]" "take (nat n) (the buf)" "[]" "[]"] p r assms(1,2) show ?thesis
    by (auto simp: c pty_ok_def)
next
  assume c: "c = MasterRead k"
  obtain n buf w1 where p: "pty_master_read (Some i) (Some []) k w = (n, buf, w1)" by (metis prod.exhaust)
  obtain r where r: "w1 = w\<lparr>g_ptys := (g_ptys w)[i := set_out r (g_ptys w ! i)]\<rparr>" "ring_ok r"
    "ring_bytes (pty_out (g_ptys w ! i)) = take (nat n) (the buf) @ ring_bytes r"
    using pty_read_from_law [OF _ p [unfolded pty_endpoint_defs]] assms(2) by (auto simp: pty_ok_def)
  obtain ai1 di1 ao1 do1 w' where "pty_run i cs w1 = ((ai1, di1), (ao1, do1), w')" by (metis prod.exhaust)
  with stream_stepI [OF this, of w "[]" "[]" "[]" "take (nat n) (the buf)"] p r assms(1,2) show ?thesis
    by (auto simp: c pty_ok_def)
qed

lemma op_step:
  assumes "i < length (g_ptys w)" "pty_ok (g_ptys w ! i)" "pty_op_ok c"
  shows "\<exists>w1. stream_step i cs (pty_run i (c # cs) w) w w1"
  using write_step [OF assms] read_step [OF assms(1,2)] by (cases c) blast+

text \<open>
  C10: a pseudo-terminal is a pair of independent, loss-free byte streams. Whatever sequence
  of reads and writes the two endpoints perform, on each direction the bytes pending at the
  start followed by the bytes the writes accepted are the bytes the reads delivered followed
  by the bytes still pending; no other pseudo-terminal changes.
\<close>

theorem pty_streams:
  assumes "i < length (g_ptys w)" and "pty_ok (g_ptys w ! i)" and "list_all pty_op_ok cs"
    and "pty_run i cs w = ((ai, di), (ao, dout), w')"
  shows "pty_ok (g_ptys w' ! i) \<and>
    ring_bytes (pty_in (g_ptys w ! i)) @ ai = di @ ring_bytes (pty_in (g_ptys w' ! i)) \<and>
    ring_bytes (pty_out (g_ptys w ! i)) @ ao = dout @ ring_bytes (pty_out (g_ptys w' ! i)) \<and>
    length (g_ptys w') = length (g_ptys w) \<and>
    (\<forall>j. j \<noteq> i \<longrightarrow> g_ptys w' ! j = g_ptys w ! j)"
  using assms
proof (induction cs arbitrary: w ai di ao dout)
  case Nil
  then show ?case by simp
next
  case (Cons c cs)
  obtain w1 where "stream_step i cs (pty_run i (c # cs) w) w w1"
    using op_step [OF Cons.prems(1,2)] Cons.prems(3) by auto
  then obtain a d b e ai1 di1 ao1 do1 where step: "ai = a @ ai1" "di = d @ di1" "ao = b @ ao1" "dout = e @ do1"
    "pty_run i cs w1 = ((ai1, di1), (ao1, do1), w')" "pty_ok (g_ptys w1 ! i)"
    "ring_bytes (pty_in (g_ptys w ! i)) @ a = d @ ring_bytes (pty_in (g_ptys w1 ! i))"
    "ring_bytes (pty_out (g_ptys w ! i)) @ b = e @ ring_bytes (pty_out (g_ptys w1 ! i))"
    "length (g_ptys w1) = length (g_ptys w)" "\<forall>j. j \<noteq> i \<longrightarrow> g_ptys w1 ! j = g_ptys w ! j"
    unfolding stream_step_def Cons.prems(4) by blast
  have "pty_ok (g_ptys w' ! i) \<and>
      ring_bytes (pty_in (g_ptys w1 ! i)) @ ai1 = di1 @ ring_bytes (pty_in (g_ptys w' ! i)) \<and>
      ring_bytes (pty_out (g_ptys w1 ! i)) @ ao1 = do1 @ ring_bytes (pty_out (g_ptys w' ! i)) \<and>
      length (g_ptys w') = length (g_ptys w1) \<and> (\<forall>j. j \<noteq> i \<longrightarrow> g_ptys w' ! j = g_ptys w1 ! j)"
    using Cons.IH [OF _ step(6) _ step(5)] Cons.prems(1,3) step(9) by simp
  with step show ?case by (metis append_assoc)
qed

definition pty_zero :: pty where
  "pty_zero = \<lparr>pty_in = \<lparr>pr_data = replicate 16384 0, pr_head = 0, pr_tail = 0\<rparr>,
     pty_out = \<lparr>pr_data = replicate 16384 0, pr_head = 0, pr_tail = 0\<rparr>, pty_used = 0, raw_mode = 0\<rparr>"

definition pty_demo :: pty_state where
  "pty_demo = \<lparr>g_ptys = replicate PTY_POOL_SIZE pty_zero, umem = (\<lambda>_. 0)\<rparr>"

theorem pty_streams_witness:
  "\<exists>ai di ao dout w'. pty_run 1 [MasterWrite [104, 105], SlaveRead 1, SlaveRead 5] pty_demo = ((ai, di), (ao, dout), w') \<and>
     ai = di @ ring_bytes (pty_in (g_ptys w' ! 1))"
proof -
  obtain ai di ao dout w' where
    r: "pty_run 1 [MasterWrite [104, 105], SlaveRead 1, SlaveRead 5] pty_demo = ((ai, di), (ao, dout), w')"
    by (metis prod.exhaust)
  have "pty_ok (g_ptys pty_demo ! 1)" "1 < length (g_ptys pty_demo)"
    "ring_bytes (pty_in (g_ptys pty_demo ! 1)) = []"
    by (simp_all add: pty_demo_def PTY_POOL_SIZE_def pty_ok_def ring_ok_def ring_used_def ring_bytes_def pty_zero_def)
  with pty_streams [OF _ _ _ r] show ?thesis using r by fastforce
qed

text \<open>
  \<open>pty_alloc\<close> reserves the first unused entry of the pool with both rings empty and
  leaves the others alone, but it does not reset the raw-mode flag: a terminal starts in
  whatever mode the previous user of the entry left behind.
\<close>

theorem pty_alloc_keeps_raw_mode:
  assumes "pty_alloc w = (Some i, w')" and "length (g_ptys w) = PTY_POOL_SIZE"
    and "length (pr_data (pty_in (g_ptys w ! i))) = 16384" "length (pr_data (pty_out (g_ptys w ! i))) = 16384"
  shows "i < PTY_POOL_SIZE \<and> pty_used (g_ptys w ! i) = 0 \<and> (\<forall>j < i. pty_used (g_ptys w ! j) \<noteq> 0) \<and>
    pty_used (g_ptys w' ! i) \<noteq> 0 \<and> pty_ok (g_ptys w' ! i) \<and>
    ring_bytes (pty_in (g_ptys w' ! i)) = [] \<and> ring_bytes (pty_out (g_ptys w' ! i)) = [] \<and>
    (\<forall>j. j \<noteq> i \<longrightarrow> g_ptys w' ! j = g_ptys w ! j) \<and>
    raw_mode (g_ptys w' ! i) = raw_mode (g_ptys w ! i)"
proof -
  have loop: "k \<le> i \<and> i < PTY_POOL_SIZE \<and> pty_used (ps ! i) = 0 \<and> (\<forall>j. k \<le> j \<and> j < i \<longrightarrow> pty_used (ps ! j) \<noteq> 0) \<and>
      ps' = ps[i := (ps ! i)\<lparr>pty_used := 1, pty_in := ring_reset (pty_in (ps ! i)), pty_out := ring_reset (pty_out (ps ! i))\<rparr>]"
    if "pty_alloc_loop ps k = (Some i, ps')" for ps k ps'
    using that
  proof (induction ps k rule: pty_alloc_loop.induct)
    case (1 ps k)
    show ?case
    proof (cases "k < PTY_POOL_SIZE \<and> pty_used (ps ! k) \<noteq> 0")
      case True
      then have "pty_alloc_loop ps (k + 1) = (Some i, ps')"
        using "1.prems" by (subst (asm) pty_alloc_loop.simps) simp
      with "1.IH" True show ?thesis using Suc_leI le_neq_implies_less by (auto simp: Suc_le_eq order_le_less)
    next
      case False
      then show ?thesis using "1.prems" by (subst (asm) pty_alloc_loop.simps) (auto split: if_splits)
    qed
  qed
  obtain ps' where a: "pty_alloc_loop (g_ptys w) 0 = (Some i, ps')" "w' = w\<lparr>g_ptys := ps'\<rparr>"
    using assms(1) by (auto simp: pty_alloc_def split: prod.splits)
  from loop [OF a(1)] a(2) assms(2-4) show ?thesis
    by (simp add: pty_ok_def ring_ok_def ring_bytes_def ring_used_def ring_reset_def)
qed

theorem pty_alloc_keeps_raw_mode_witness:
  "\<exists>i w'. pty_alloc (pty_release (Some 0) (snd (pty_ioctl (Some 0) TTY_IOCTL_SET_RAW 1 pty_demo))) = (Some i, w') \<and>
     raw_mode (g_ptys w' ! i) = 1"
proof -
  let ?w = "pty_release (Some 0) (snd (pty_ioctl (Some 0) TTY_IOCTL_SET_RAW 1 pty_demo))"
  have w: "g_ptys ?w = (replicate PTY_POOL_SIZE pty_zero)[0 := pty_zero\<lparr>raw_mode := 1\<rparr>]"
    by (simp add: pty_release_def pty_ioctl_def pty_demo_def PTY_POOL_SIZE_def pty_zero_def)
  have "pty_alloc_loop (g_ptys ?w) 0 = (Some 0, (g_ptys ?w)[0 := pty_zero\<lparr>raw_mode := 1, pty_used := 1\<rparr>])"
    by (subst pty_alloc_loop.simps) (simp add: w PTY_POOL_SIZE_def pty_zero_def ring_reset_def)
  then obtain w' where a: "pty_alloc ?w = (Some 0, w')" by (simp add: pty_alloc_def)
  show ?thesis
    using pty_alloc_keeps_raw_mode [OF a] a by (simp add: w PTY_POOL_SIZE_def pty_zero_def)
qed

end
