(* ===== verification/Journal.thy ===== *)
theory Journal
  imports Prelude "HOL-Library.Monad_Syntax"
begin

text \<open>
  The kernel event journal of \<open>kernel/src/journal.c\<close>: a ring of the last 256 records, the
  flag that asks for persistence, and the rendering of the ring as text. The timer values
  the code reads through \<open>timer_tick_count\<close> and \<open>timer_frequency_hz\<close> are a record passed in;
  the mirror on the serial port is not modelled. A write outside a buffer is the value
  \<open>None\<close>.
\<close>

section \<open>Records and the ring\<close>

definition JOURNAL_MSG_MAX :: nat where
  "JOURNAL_MSG_MAX = 96"

definition JOURNAL_CAPACITY :: u64 where
  "JOURNAL_CAPACITY = 256"

datatype journal_level = JOURNAL_INFO | JOURNAL_WARN | JOURNAL_ERROR | JOURNAL_FAULT | JOURNAL_APP

fun level_num :: "journal_level \<Rightarrow> u32" where
  "level_num JOURNAL_INFO = 0"
| "level_num JOURNAL_WARN = 1"
| "level_num JOURNAL_ERROR = 2"
| "level_num JOURNAL_FAULT = 3"
| "level_num JOURNAL_APP = 4"

record journal_entry =
  je_seq :: u64
  je_tick :: u64
  je_boot_id :: u64
  je_hz :: u32
  je_level :: u32
  je_pid :: u32
  je_msg :: "u8 list"

record journal =
  g_ring :: "journal_entry list"
  g_next_seq :: u64
  g_boot_id :: u64
  g_persist_pending :: bool

record ktimer =
  tick_count :: u64
  frequency_hz :: u32

text \<open>A message may be a null pointer.\<close>

definition cstr_opt :: "u8 list option \<Rightarrow> u8 list" where
  "cstr_opt s = (case s of None \<Rightarrow> [] | Some s \<Rightarrow> cstr s)"

definition journal_init :: "u64 \<Rightarrow> ktimer \<Rightarrow> journal \<Rightarrow> journal" where
  "journal_init stack_sample t j =
     j\<lparr>g_next_seq := 0, g_boot_id := (0x564942454f530000 XOR stack_sample) XOR tick_count t,
       g_persist_pending := False\<rparr>"

definition journal_persist_pending :: "journal \<Rightarrow> bool" where
  "journal_persist_pending j = g_persist_pending j"

definition journal_persist_clear :: "journal \<Rightarrow> journal" where
  "journal_persist_clear j = j\<lparr>g_persist_pending := False\<rparr>"

definition copy_msg :: "u8 list \<Rightarrow> u8 list option \<Rightarrow> u8 list" where
  "copy_msg dst src =
     (let s = take (JOURNAL_MSG_MAX - 1) (cstr_opt src) in s @ 0 # drop (length s + 1) dst)"

definition journal_log :: "ktimer \<Rightarrow> journal_level \<Rightarrow> u32 \<Rightarrow> u8 list option \<Rightarrow> journal \<Rightarrow> journal" where
  "journal_log t level pid msg j =
     (let i = unat (g_next_seq j mod JOURNAL_CAPACITY);
          e = \<lparr>je_seq = g_next_seq j, je_tick = tick_count t, je_boot_id = g_boot_id j,
               je_hz = frequency_hz t, je_level = level_num level, je_pid = pid,
               je_msg = copy_msg (je_msg (g_ring j ! i)) msg\<rparr>
      in j\<lparr>g_ring := (g_ring j)[i := e], g_next_seq := g_next_seq j + 1,
           g_persist_pending :=
             (if level = JOURNAL_WARN \<or> level = JOURNAL_ERROR \<or> level = JOURNAL_FAULT \<or> level = JOURNAL_APP
              then True else g_persist_pending j)\<rparr>)"

definition hex_char :: "u64 \<Rightarrow> u8" where
  "hex_char d = ascii ''0123456789abcdef'' ! unat (d AND 0xf)"

text \<open>The digits of a number, least significant first, at most \<open>n\<close> of them.\<close>

fun hex_digits :: "nat \<Rightarrow> u64 \<Rightarrow> u8 list" where
  "hex_digits 0 v = []"
| "hex_digits (Suc n) v = (if v = 0 then [] else hex_char v # hex_digits n (drop_bit 4 v))"

fun dec_digits :: "nat \<Rightarrow> u64 \<Rightarrow> u8 list" where
  "dec_digits 0 v = []"
| "dec_digits (Suc n) v = (if v = 0 then [] else (48 + ucast (v mod 10)) # dec_digits n (v div 10))"

definition journal_log_hex ::
  "ktimer \<Rightarrow> journal_level \<Rightarrow> u32 \<Rightarrow> u8 list option \<Rightarrow> u64 \<Rightarrow> journal \<Rightarrow> journal" where
  "journal_log_hex t level pid msg v j =
     (let buf = take (JOURNAL_MSG_MAX - 1) (cstr_opt msg);
          buf = (if length buf + 3 < JOURNAL_MSG_MAX then buf @ ascii ''0x'' else buf);
          tmp = (if v = 0 then ascii ''0'' else hex_digits 16 v);
          buf = buf @ take (JOURNAL_MSG_MAX - 1 - length buf) (rev tmp)
      in journal_log t level pid (Some buf) j)"

definition journal_total :: "journal \<Rightarrow> u64" where
  "journal_total j = g_next_seq j"

definition journal_get :: "u64 \<Rightarrow> journal \<Rightarrow> journal_entry option" where
  "journal_get seq j =
     (if seq \<ge> g_next_seq j then None
      else if g_next_seq j > JOURNAL_CAPACITY \<and> seq < g_next_seq j - JOURNAL_CAPACITY then None
      else Some (g_ring j ! unat (seq mod JOURNAL_CAPACITY)))"

section \<open>Rendering\<close>

text \<open>A buffer under construction: its bytes and the write position.\<close>

type_synonym outbuf = "u8 list \<times> nat"

definition put_byte :: "u8 \<Rightarrow> outbuf \<Rightarrow> outbuf option" where
  "put_byte c = (\<lambda>(b, pos). if pos < length b then Some (b[pos := c], pos + 1) else None)"

fun put_bytes :: "u8 list \<Rightarrow> nat \<Rightarrow> outbuf \<Rightarrow> outbuf option" where
  "put_bytes [] cap q = Some q"
| "put_bytes (c # cs) cap q = (if snd q + 1 < cap then put_byte c q \<bind> put_bytes cs cap else Some q)"

definition put_str :: "u8 list \<Rightarrow> nat \<Rightarrow> outbuf \<Rightarrow> outbuf option" where
  "put_str s cap q = put_bytes (cstr s) cap q"

definition put_dec :: "u64 \<Rightarrow> nat \<Rightarrow> outbuf \<Rightarrow> outbuf option" where
  "put_dec v cap q =
     (if v = 0 then if snd q + 1 < cap then put_byte 48 q else Some q
      else put_bytes (rev (dec_digits 24 v)) cap q)"

definition put_hex :: "u64 \<Rightarrow> nat \<Rightarrow> outbuf \<Rightarrow> outbuf option" where
  "put_hex v cap q =
     do { q \<leftarrow> (if snd q + 2 < cap then put_byte 48 q \<bind> put_byte 120 else Some q);
          if v = 0 then if snd q + 1 < cap then put_byte 48 q else Some q
          else put_bytes (rev (hex_digits 16 v)) cap q }"

definition level_tags :: "string list" where
  "level_tags = [''INFO '', ''WARN '', ''ERROR'', ''FAULT'', ''APP  '']"

definition format_entry :: "ktimer \<Rightarrow> journal_entry \<Rightarrow> nat \<Rightarrow> outbuf \<Rightarrow> outbuf option" where
  "format_entry t e cap q =
     (let hz = (if je_hz e \<noteq> 0 then je_hz e else frequency_hz t);
          ms = (if hz \<noteq> 0 then ((je_tick e mod ucast hz) * 1000) div ucast hz else 0)
      in do { q \<leftarrow> put_str (ascii ''[boot='') cap q;
              q \<leftarrow> put_hex (je_boot_id e) cap q;
              q \<leftarrow> put_str (ascii '' seq='') cap q;
              q \<leftarrow> put_dec (je_seq e) cap q;
              q \<leftarrow> put_str (ascii '' tick='') cap q;
              q \<leftarrow> put_dec (je_tick e) cap q;
              q \<leftarrow> put_str (ascii '' t='') cap q;
              q \<leftarrow> put_dec (if hz \<noteq> 0 then je_tick e div ucast hz else je_tick e) cap q;
              q \<leftarrow> put_str (ascii ''.'') cap q;
              q \<leftarrow> (if ms < 100 then put_str (ascii ''0'') cap q else Some q);
              q \<leftarrow> (if ms < 10 then put_str (ascii ''0'') cap q else Some q);
              q \<leftarrow> put_dec ms cap q;
              q \<leftarrow> put_str (ascii ''s] '') cap q;
              q \<leftarrow> put_str (ascii (if je_level e < 5 then level_tags ! unat (je_level e) else ''?????'')) cap q;
              q \<leftarrow> put_str (ascii '' pid='') cap q;
              q \<leftarrow> put_dec (ucast (je_pid e)) cap q;
              q \<leftarrow> put_str (ascii ''  '') cap q;
              q \<leftarrow> put_str (je_msg e) cap q;
              put_str [10] cap q })"

fun format_loop :: "nat \<Rightarrow> ktimer \<Rightarrow> journal \<Rightarrow> u64 \<Rightarrow> nat \<Rightarrow> outbuf \<Rightarrow> outbuf option" where
  "format_loop 0 t j s cap q = Some q"
| "format_loop (Suc n) t j s cap q =
     (if s < g_next_seq j \<and> snd q + 1 < cap then
        format_entry t (g_ring j ! unat (s mod JOURNAL_CAPACITY)) cap q \<bind> format_loop n t j (s + 1) cap
      else Some q)"

text \<open>The loop runs once for every record from \<open>start\<close> up to \<open>g_next_seq\<close> while there is room.\<close>

definition journal_format_all :: "ktimer \<Rightarrow> journal \<Rightarrow> u8 list \<Rightarrow> nat \<Rightarrow> (u8 list \<times> nat) option" where
  "journal_format_all t j buf cap =
     (let start = (if g_next_seq j > JOURNAL_CAPACITY then g_next_seq j - JOURNAL_CAPACITY else 0) in
      do { q \<leftarrow> put_str (ascii ''# VibeOS journal boot='') cap (buf, 0);
           q \<leftarrow> put_hex (g_boot_id j) cap q;
           q \<leftarrow> put_str (ascii '' hz='') cap q;
           q \<leftarrow> put_dec (ucast (frequency_hz t)) cap q;
           q \<leftarrow> put_str (ascii '' total='') cap q;
           q \<leftarrow> put_dec (g_next_seq j) cap q;
           q \<leftarrow> put_str [10] cap q;
           (b, pos) \<leftarrow> format_loop (unat (g_next_seq j - start)) t j start cap q;
           let i = (if pos < cap then int pos else int cap - 1) in
           if 0 \<le> i \<and> nat i < length b then Some (b[nat i := 0], pos) else None })"

section \<open>The ring keeps the last 256 records\<close>

type_synonym log_call = "ktimer \<times> journal_level \<times> u32 \<times> u8 list option"

definition log_one :: "log_call \<Rightarrow> journal \<Rightarrow> journal" where
  "log_one c j = (case c of (t, level, pid, msg) \<Rightarrow> journal_log t level pid msg j)"

text \<open>What a record has to say about the call that made it.\<close>

definition records :: "u64 \<Rightarrow> nat \<Rightarrow> log_call \<Rightarrow> journal_entry \<Rightarrow> bool" where
  "records boot i c e \<longleftrightarrow> (case c of (t, level, pid, msg) \<Rightarrow>
     je_seq e = of_nat i \<and> je_tick e = tick_count t \<and> je_boot_id e = boot \<and> je_hz e = frequency_hz t \<and>
     je_level e = level_num level \<and> je_pid e = pid \<and> cstr (je_msg e) = take 95 (cstr_opt msg))"

definition journal_inv :: "u64 \<Rightarrow> log_call list \<Rightarrow> journal \<Rightarrow> bool" where
  "journal_inv boot cs j \<longleftrightarrow> length (g_ring j) = 256 \<and> g_boot_id j = boot \<and>
     unat (g_next_seq j) = length cs \<and>
     (\<forall>i < length cs. length cs \<le> i + 256 \<longrightarrow> records boot i (cs ! i) (g_ring j ! (i mod 256)))"

lemma cstr_copy_msg: "cstr (copy_msg dst src) = take 95 (cstr_opt src)"
proof -
  have "0 \<notin> set (take 95 (cstr_opt src))"
    by (auto simp: cstr_opt_def zero_notin_cstr dest!: in_set_takeD split: option.splits)
  then show ?thesis by (simp add: copy_msg_def JOURNAL_MSG_MAX_def cstr_id)
qed

lemma unat_mod_capacity: "unat (s mod JOURNAL_CAPACITY) = unat s mod 256"
  by (simp add: JOURNAL_CAPACITY_def unat_mod)

lemma journal_log_inv:
  assumes "journal_inv boot cs j" and "length cs + 1 < 2 ^ 64"
  shows "journal_inv boot (cs @ [c]) (log_one c j)"
proof -
  obtain t level pid msg where c: "c = (t, level, pid, msg)" by (cases c)
  let ?i = "length cs mod 256"
  have n: "unat (g_next_seq j) = length cs" "length (g_ring j) = 256" "g_boot_id j = boot"
    using assms(1) by (simp_all add: journal_inv_def)
  then have next': "unat (g_next_seq j + 1) = length cs + 1"
    using assms(2) by (simp add: unat_add_numeral_exact unat_word_ariths)
  have seq: "g_next_seq j = of_nat (length cs)" by (simp flip: n(1))
  have new: "records boot (length cs) c (g_ring (log_one c j) ! ?i)"
    by (simp add: c records_def log_one_def journal_log_def Let_def unat_mod_capacity n cstr_copy_msg)
      (simp add: seq)
  have old: "g_ring (log_one c j) ! (i mod 256) = g_ring j ! (i mod 256)"
    if "i < length cs" "length cs + 1 \<le> i + 256" for i
  proof -
    have "i mod 256 \<noteq> ?i" using that by (intro mod_window) simp_all
    then show ?thesis by (simp add: c log_one_def journal_log_def Let_def unat_mod_capacity n)
  qed
  show ?thesis
    unfolding journal_inv_def
  proof (intro conjI allI impI)
    fix i assume i: "i < length (cs @ [c])" "length (cs @ [c]) \<le> i + 256"
    show "records boot i ((cs @ [c]) ! i) (g_ring (log_one c j) ! (i mod 256))"
    proof (cases "i = length cs")
      case True
      then show ?thesis using new by simp
    next
      case False
      then show ?thesis using i old [of i] assms(1) by (auto simp: journal_inv_def nth_append)
    qed
  qed (use n next' in \<open>simp_all add: c log_one_def journal_log_def Let_def\<close>)
qed

lemma journal_logs_inv:
  "journal_inv boot cs j \<Longrightarrow> length cs + length ds < 2 ^ 64 \<Longrightarrow>
     journal_inv boot (cs @ ds) (fold log_one ds j)"
proof (induction ds arbitrary: cs j)
  case (Cons d ds)
  then have "journal_inv boot (cs @ [d]) (log_one d j)" by (intro journal_log_inv) simp_all
  from Cons.IH [OF this] Cons.prems(2) show ?case by simp
qed simp

text \<open>
  C13: after any sequence of \<open>journal_log\<close> calls since \<open>journal_init\<close>, \<open>journal_get seq\<close>
  returns a record exactly when \<open>seq\<close> is one of the last 256 sequence numbers, and the record
  is the one the call number \<open>seq\<close> made: its number, tick, boot id, frequency, level, pid, and
  its message cut to 95 bytes.
\<close>

theorem journal_keeps_last_256:
  assumes "length (g_ring j0) = 256" and "length cs < 2 ^ 64" and "j = fold log_one cs (journal_init st t j0)"
  shows "journal_total j = of_nat (length cs) \<and>
    (case journal_get seq j of
       None \<Rightarrow> length cs \<le> unat seq \<or> unat seq + 256 < length cs
     | Some e \<Rightarrow> unat seq < length cs \<and> length cs \<le> unat seq + 256 \<and>
         records (g_boot_id j) (unat seq) (cs ! unat seq) e)"
proof -
  have "journal_inv (g_boot_id (journal_init st t j0)) [] (journal_init st t j0)"
    using assms(1) by (simp add: journal_inv_def journal_init_def)
  from journal_logs_inv [OF this, of cs] assms(2,3)
  have inv: "journal_inv (g_boot_id (journal_init st t j0)) cs j" by simp
  then have n: "unat (g_next_seq j) = length cs" by (simp add: journal_inv_def)
  have lt: "seq < g_next_seq j \<longleftrightarrow> unat seq < length cs" by (simp add: word_less_nat_alt n)
  have "JOURNAL_CAPACITY < g_next_seq j \<longleftrightarrow> 256 < length cs"
    by (simp add: word_less_nat_alt n JOURNAL_CAPACITY_def)
  moreover have "unat (g_next_seq j - JOURNAL_CAPACITY) = length cs - 256" if "256 < length cs"
    using that n by (simp add: unat_sub_if' JOURNAL_CAPACITY_def)
  ultimately have scrolled: "(JOURNAL_CAPACITY < g_next_seq j \<and> seq < g_next_seq j - JOURNAL_CAPACITY)
      \<longleftrightarrow> unat seq + 256 < length cs"
    by (auto simp: word_less_nat_alt)
  have boot: "g_boot_id j = g_boot_id (journal_init st t j0)" using inv by (simp add: journal_inv_def)
  have "g_next_seq j = of_nat (length cs)" by (simp flip: n)
  moreover have "records (g_boot_id j) (unat seq) (cs ! unat seq) (g_ring j ! (unat seq mod 256))"
    if "unat seq < length cs" "length cs \<le> unat seq + 256"
    using inv that by (simp add: journal_inv_def)
  ultimately show ?thesis
    using lt scrolled by (auto simp: journal_get_def unat_mod_capacity journal_total_def not_less)
qed

definition journal_demo :: journal where
  "journal_demo = \<lparr>g_ring = replicate 256 \<lparr>je_seq = 0, je_tick = 0, je_boot_id = 0, je_hz = 0, je_level = 0,
     je_pid = 0, je_msg = replicate 96 0\<rparr>, g_next_seq = 0, g_boot_id = 0, g_persist_pending = False\<rparr>"

theorem journal_keeps_last_256_witness:
  "\<exists>e. journal_get 0 (fold log_one [(\<lparr>tick_count = 7, frequency_hz = 100\<rparr>, JOURNAL_WARN, 3, Some (ascii ''disk''))]
       (journal_init 5 \<lparr>tick_count = 2, frequency_hz = 100\<rparr> journal_demo)) = Some e \<and>
     je_tick e = 7 \<and> cstr (je_msg e) = ascii ''disk''"
proof -
  let ?c = "(\<lparr>tick_count = 7, frequency_hz = 100\<rparr>, JOURNAL_WARN, 3, Some (ascii ''disk''))"
  let ?j = "fold log_one [?c] (journal_init 5 \<lparr>tick_count = 2, frequency_hz = 100\<rparr> journal_demo)"
  have "length (g_ring journal_demo) = 256" by (simp add: journal_demo_def)
  from journal_keeps_last_256 [OF this _ refl, of "[?c]" 5 "\<lparr>tick_count = 2, frequency_hz = 100\<rparr>" 0]
  show ?thesis by (auto simp: records_def cstr_opt_def cstr_def ascii_def split: option.splits)
qed

section \<open>Rendering stays inside the buffer\<close>

text \<open>
  \<open>emits cap txt f\<close>: from any position below \<open>cap\<close> of a large enough buffer, \<open>f\<close> succeeds,
  leaves what was written and everything from \<open>cap\<close> on unchanged, stops below \<open>cap\<close>, and
  appends \<open>txt\<close> if there is room for it.
\<close>

definition emits :: "nat \<Rightarrow> u8 list \<Rightarrow> (outbuf \<Rightarrow> outbuf option) \<Rightarrow> bool" where
  "emits cap txt f \<longleftrightarrow> (\<forall>b pos. cap \<le> length b \<longrightarrow> pos < cap \<longrightarrow>
     (\<exists>b' pos'. f (b, pos) = Some (b', pos') \<and> pos \<le> pos' \<and> pos' < cap \<and> length b' = length b \<and>
        take pos b' = take pos b \<and> drop cap b' = drop cap b \<and>
        (pos + length txt < cap \<longrightarrow> pos' = pos + length txt \<and> take pos' b' = take pos b @ txt)))"

lemma emitsE:
  assumes "emits cap txt f" and "cap \<le> length b" and "pos < cap"
  obtains b' pos' where "f (b, pos) = Some (b', pos')" "pos \<le> pos'" "pos' < cap" "length b' = length b"
    "take pos b' = take pos b" "drop cap b' = drop cap b"
    "pos + length txt < cap \<Longrightarrow> pos' = pos + length txt \<and> take pos' b' = take pos b @ txt"
  using assms unfolding emits_def by blast

lemma emits_skip: "emits cap [] Some"
  by (auto simp: emits_def)

lemma emits_bind:
  assumes "emits cap s f" and "emits cap t g"
  shows "emits cap (s @ t) (\<lambda>q. f q \<bind> g)"
  unfolding emits_def
proof (intro allI impI)
  fix b :: "u8 list" and pos
  assume b: "cap \<le> length b" "pos < cap"
  obtain b1 p1 where 1: "f (b, pos) = Some (b1, p1)" "pos \<le> p1" "p1 < cap" "length b1 = length b"
    "take pos b1 = take pos b" "drop cap b1 = drop cap b"
    "pos + length s < cap \<Longrightarrow> p1 = pos + length s \<and> take p1 b1 = take pos b @ s"
    using emitsE [OF assms(1) b] by blast
  obtain b2 p2 where 2: "g (b1, p1) = Some (b2, p2)" "p1 \<le> p2" "p2 < cap" "length b2 = length b1"
    "take p1 b2 = take p1 b1" "drop cap b2 = drop cap b1"
    "p1 + length t < cap \<Longrightarrow> p2 = p1 + length t \<and> take p2 b2 = take p1 b1 @ t"
    using emitsE [OF assms(2), of b1 p1] b(1) 1(3,4) by metis
  have "take pos b2 = take pos b"
    using 1(2,5) arg_cong [OF 2(5), of "take pos"] by (simp add: min_absorb1)
  then show "\<exists>b' pos'. f (b, pos) \<bind> g = Some (b', pos') \<and> pos \<le> pos' \<and> pos' < cap \<and> length b' = length b \<and>
      take pos b' = take pos b \<and> drop cap b' = drop cap b \<and>
      (pos + length (s @ t) < cap \<longrightarrow> pos' = pos + length (s @ t) \<and> take pos' b' = take pos b @ s @ t)"
    using 1 2 by auto
qed

lemma emits_byte: "emits cap [c] (\<lambda>q. if snd q + 1 < cap then put_byte c q else Some q)"
  by (auto simp: emits_def put_byte_def take_Suc_conv_app_nth)

lemma emits_bytes: "emits cap cs (put_bytes cs cap)"
proof (induction cs)
  case (Cons c cs)
  have "put_bytes (c # cs) cap q = (if snd q + 1 < cap then put_byte c q else Some q) \<bind> put_bytes cs cap" for q
    by (cases cs) auto
  then have "put_bytes (c # cs) cap = (\<lambda>q. (if snd q + 1 < cap then put_byte c q else Some q) \<bind> put_bytes cs cap)"
    by blast
  then show ?case using emits_bind [OF emits_byte Cons.IH, of c] by simp
qed (simp add: emits_skip [unfolded emits_def] emits_def)

lemma emits_str: "emits cap (cstr s) (put_str s cap)"
  using emits_bytes [of cap "cstr s"] by (simp add: emits_def put_str_def)

definition dec_str :: "u64 \<Rightarrow> u8 list" where
  "dec_str v = (if v = 0 then [48] else rev (dec_digits 24 v))"

definition hex_str :: "u64 \<Rightarrow> u8 list" where
  "hex_str v = [48, 120] @ (if v = 0 then [48] else rev (hex_digits 16 v))"

lemma emits_dec: "emits cap (dec_str v) (put_dec v cap)"
  using emits_bytes [of cap "rev (dec_digits 24 v)"] emits_byte [of cap 48]
  by (cases "v = 0") (simp_all add: emits_def put_dec_def dec_str_def)

lemma emits_0x: "emits cap [48, 120] (\<lambda>q. if snd q + 2 < cap then put_byte 48 q \<bind> put_byte 120 else Some q)"
  by (auto simp: emits_def put_byte_def take_Suc_conv_app_nth)

lemma emits_hex: "emits cap (hex_str v) (put_hex v cap)"
proof -
  have "emits cap (if v = 0 then [48] else rev (hex_digits 16 v))
      (\<lambda>q. if v = 0 then if snd q + 1 < cap then put_byte 48 q else Some q else put_bytes (rev (hex_digits 16 v)) cap q)"
    using emits_bytes [of cap "rev (hex_digits 16 v)"] emits_byte [of cap 48]
    by (cases "v = 0") (simp_all add: emits_def)
  from emits_bind [OF emits_0x this] show ?thesis by (simp add: put_hex_def [abs_def] hex_str_def emits_def)
qed

definition entry_text :: "ktimer \<Rightarrow> journal_entry \<Rightarrow> u8 list" where
  "entry_text t e =
     (let hz = (if je_hz e \<noteq> 0 then je_hz e else frequency_hz t);
          ms = (if hz \<noteq> 0 then ((je_tick e mod ucast hz) * 1000) div ucast hz else 0)
      in ascii ''[boot='' @ hex_str (je_boot_id e) @ ascii '' seq='' @ dec_str (je_seq e) @
         ascii '' tick='' @ dec_str (je_tick e) @
         ascii '' t='' @ dec_str (if hz \<noteq> 0 then je_tick e div ucast hz else je_tick e) @ ascii ''.'' @
         (if ms < 100 then ascii ''0'' else []) @ (if ms < 10 then ascii ''0'' else []) @ dec_str ms @
         ascii ''s] '' @ ascii (if je_level e < 5 then level_tags ! unat (je_level e) else ''?????'') @
         ascii '' pid='' @ dec_str (ucast (je_pid e)) @ ascii ''  '' @ cstr (je_msg e) @ [10])"

lemma emits_ascii: "list_all (\<lambda>c. of_char c \<noteq> (0 :: u8)) s \<Longrightarrow> emits cap (ascii s) (put_str (ascii s) cap)"
proof -
  assume "list_all (\<lambda>c. of_char c \<noteq> (0 :: u8)) s"
  then have "cstr (ascii s) = ascii s"
    by (auto simp: ascii_def cstr_def takeWhile_eq_all_conv list_all_iff)
  with emits_str [of cap "ascii s"] show ?thesis by simp
qed

lemma emits_if:
  "emits cap s f \<Longrightarrow> emits cap (if c then s else []) (\<lambda>q. if c then f q else Some q)"
  by (auto simp: emits_def)

lemma emits_newline: "emits cap [10] (put_str [10] cap)"
  using emits_str [of cap "[10]"] by (simp add: cstr_def)

lemma level_tag_ok: "i < 5 \<Longrightarrow> list_all (\<lambda>c. of_char c \<noteq> (0 :: u8)) (level_tags ! unat (i :: u32))"
proof -
  assume "i < 5"
  then have "unat i < length level_tags" by (simp add: word_less_nat_alt level_tags_def)
  moreover have "list_all (list_all (\<lambda>c. of_char c \<noteq> (0 :: u8))) level_tags" by (simp add: level_tags_def)
  ultimately show ?thesis by (simp add: list_all_length)
qed

lemma emits_entry: "emits cap (entry_text t e) (format_entry t e cap)"
proof -
  have tag: "list_all (\<lambda>c. of_char c \<noteq> (0 :: u8)) (if je_level e < 5 then level_tags ! unat (je_level e) else ''?????'')"
    using level_tag_ok [of "je_level e"] by auto
  show ?thesis
    unfolding format_entry_def [abs_def] entry_text_def Let_def
    by (intro emits_bind emits_ascii emits_dec emits_hex emits_if emits_str emits_newline tag) simp_all
qed

fun window_text :: "nat \<Rightarrow> ktimer \<Rightarrow> journal \<Rightarrow> u64 \<Rightarrow> u8 list" where
  "window_text 0 t j s = []"
| "window_text (Suc n) t j s = entry_text t (g_ring j ! unat (s mod JOURNAL_CAPACITY)) @ window_text n t j (s + 1)"

lemma emits_guard:
  assumes "emits cap txt f" and "0 < length txt"
  shows "emits cap txt (\<lambda>q. if snd q + 1 < cap then f q else Some q)"
  unfolding emits_def
proof (intro allI impI)
  fix b :: "u8 list" and pos
  assume b: "cap \<le> length b" "pos < cap"
  have "pos + length txt < cap \<Longrightarrow> pos + 1 < cap" using assms(2) by linarith
  then show "\<exists>b' pos'. (if snd (b, pos) + 1 < cap then f (b, pos) else Some (b, pos)) = Some (b', pos') \<and> pos \<le> pos' \<and>
      pos' < cap \<and> length b' = length b \<and> take pos b' = take pos b \<and> drop cap b' = drop cap b \<and>
      (pos + length txt < cap \<longrightarrow> pos' = pos + length txt \<and> take pos' b' = take pos b @ txt)"
    using assms(1) [unfolded emits_def, rule_format, OF b] b(2) by (cases "pos + 1 < cap") auto
qed

lemma emits_loop:
  "unat s + n \<le> unat (g_next_seq j) \<Longrightarrow> emits cap (window_text n t j s) (format_loop n t j s cap)"
proof (induction n arbitrary: s)
  case 0
  then show ?case by (simp add: emits_def)
next
  case (Suc n)
  have lt: "s < g_next_seq j" using Suc.prems by (simp add: word_less_nat_alt)
  have "unat (s + 1) = unat s + 1"
    using Suc.prems unat_lt_exp [of "g_next_seq j"] by (simp add: unat_add_numeral_exact unat_word_ariths)
  then have "emits cap (window_text n t j (s + 1)) (format_loop n t j (s + 1) cap)"
    using Suc.prems by (intro Suc.IH) simp
  from emits_bind [OF emits_entry this, of t "g_ring j ! unat (s mod JOURNAL_CAPACITY)"] lt
  have e: "emits cap (window_text (Suc n) t j s)
     (\<lambda>q. format_entry t (g_ring j ! unat (s mod JOURNAL_CAPACITY)) cap q \<bind> format_loop n t j (s + 1) cap)" by simp
  have "0 < length (entry_text t (g_ring j ! unat (s mod JOURNAL_CAPACITY)))"
    by (simp add: entry_text_def Let_def)
  from emits_guard [OF e] this lt show ?case by (simp add: emits_def)
qed

text \<open>The whole text of the journal: a header line and the records still in the ring.\<close>

definition journal_text :: "ktimer \<Rightarrow> journal \<Rightarrow> u8 list" where
  "journal_text t j =
     (let start = (if g_next_seq j > JOURNAL_CAPACITY then g_next_seq j - JOURNAL_CAPACITY else 0)
      in ascii ''# VibeOS journal boot='' @ hex_str (g_boot_id j) @ ascii '' hz='' @ dec_str (ucast (frequency_hz t)) @
         ascii '' total='' @ dec_str (g_next_seq j) @ [10] @ window_text (unat (g_next_seq j - start)) t j start)"

definition format_body :: "ktimer \<Rightarrow> journal \<Rightarrow> nat \<Rightarrow> outbuf \<Rightarrow> outbuf option" where
  "format_body t j cap q =
     (let start = (if g_next_seq j > JOURNAL_CAPACITY then g_next_seq j - JOURNAL_CAPACITY else 0) in
      do { q \<leftarrow> put_str (ascii ''# VibeOS journal boot='') cap q;
           q \<leftarrow> put_hex (g_boot_id j) cap q;
           q \<leftarrow> put_str (ascii '' hz='') cap q;
           q \<leftarrow> put_dec (ucast (frequency_hz t)) cap q;
           q \<leftarrow> put_str (ascii '' total='') cap q;
           q \<leftarrow> put_dec (g_next_seq j) cap q;
           q \<leftarrow> put_str [10] cap q;
           format_loop (unat (g_next_seq j - start)) t j start cap q })"

lemma emits_body: "emits cap (journal_text t j) (format_body t j cap)"
proof -
  let ?start = "if g_next_seq j > JOURNAL_CAPACITY then g_next_seq j - JOURNAL_CAPACITY else 0"
  have "?start \<le> g_next_seq j"
    by (auto simp: word_le_nat_alt word_less_nat_alt unat_sub_if')
  then have "unat ?start + unat (g_next_seq j - ?start) \<le> unat (g_next_seq j)"
    by (simp only: unat_sub_if' word_le_nat_alt if_True)
  from emits_loop [OF this] show ?thesis
    unfolding format_body_def [abs_def] journal_text_def Let_def
    by (intro emits_bind emits_ascii emits_dec emits_hex emits_newline) simp_all
qed

text \<open>
  C18: \<open>journal_format_all\<close> never writes outside its buffer. For every journal and every
  non-zero capacity within the buffer it returns, the bytes from \<open>cap\<close> on are untouched, the
  result is zero-terminated at the returned length, which is below \<open>cap\<close>, and if the whole
  text fits it is exactly the header and the records still in the ring, in order.
\<close>

theorem journal_format_all_safe:
  assumes "0 < cap" and "cap \<le> length buf"
  shows "\<exists>b n. journal_format_all t j buf cap = Some (b, n) \<and> n < cap \<and> length b = length buf \<and>
    drop cap b = drop cap buf \<and> b ! n = 0 \<and>
    (length (journal_text t j) < cap \<longrightarrow> take n b = journal_text t j)"
proof -
  obtain b n where f: "format_body t j cap (buf, 0) = Some (b, n)" "n < cap" "length b = length buf"
    "drop cap b = drop cap buf" "0 + length (journal_text t j) < cap \<Longrightarrow> take n b = journal_text t j"
    using emits_body [unfolded emits_def, rule_format, OF assms(2,1), of t j] by auto
  have "journal_format_all t j buf cap = format_body t j cap (buf, 0) \<bind> (\<lambda>(b, pos).
      let i = (if pos < cap then int pos else int cap - 1) in
      if 0 \<le> i \<and> nat i < length b then Some (b[nat i := 0], pos) else None)"
    by (simp add: journal_format_all_def format_body_def Let_def)
  then have "journal_format_all t j buf cap = Some (b[n := 0], n)"
    using f assms by simp
  with f show ?thesis using assms by auto
qed

theorem journal_format_all_safe_witness:
  "\<exists>b n. journal_format_all \<lparr>tick_count = 0, frequency_hz = 100\<rparr> journal_demo (replicate 64 1) 16 = Some (b, n) \<and> n < 16 \<and>
     b ! n = 0 \<and> drop 16 b = replicate 48 1"
  using journal_format_all_safe [of 16 "replicate 64 1" "\<lparr>tick_count = 0, frequency_hz = 100\<rparr>" journal_demo] by auto

text \<open>
  With a capacity of zero \<open>journal_format_all\<close> stores its terminating zero in front of
  the buffer, at index \<open>cap - 1\<close>.
\<close>

theorem journal_format_all_zero_cap: "journal_format_all t j buf 0 = None"
proof -
  have "put_bytes cs 0 q = Some q" for cs q by (cases cs) simp_all
  then have "put_str s 0 q = Some q" "put_dec v 0 q = Some q" "put_hex v 0 q = Some q" for s v q
    by (simp_all add: put_str_def put_dec_def put_hex_def)
  moreover have "format_loop n t j s 0 q = Some q" for n s q by (cases n) simp_all
  ultimately show ?thesis by (simp add: journal_format_all_def)
qed

text \<open>Reading a decimal number back.\<close>

definition dec_value :: "u8 list \<Rightarrow> nat" where
  "dec_value ds = foldl (\<lambda>a d. 10 * a + (unat d - 48)) 0 ds"

lemma dec_digit: "unat (48 + ucast ((v :: u64) mod 10) :: u8) = 48 + unat v mod 10"
proof -
  have "unat (ucast (v mod 10) :: u8) = unat v mod 10"
    by (simp add: unsigned_ucast_eq unat_mod take_bit_eq_mod)
  then show ?thesis by (simp add: unat_word_ariths)
qed

lemma dec_digits_value: "unat v < 10 ^ n \<Longrightarrow> dec_value (rev (dec_digits n v)) = unat v"
proof (induction n arbitrary: v)
  case (Suc n)
  have "unat (v div 10) < 10 ^ n" using Suc.prems by (simp add: unat_div less_mult_imp_div_less mult.commute)
  from Suc.IH [OF this] show ?case
    by (auto simp: dec_value_def unat_div dec_digit unat_eq_zero)
qed (simp add: dec_value_def)

lemma dec_digits_length: "unat v < 10 ^ k \<Longrightarrow> length (dec_digits n v) \<le> k"
proof (induction n arbitrary: v k)
  case (Suc n)
  show ?case
  proof (cases k)
    case 0
    then show ?thesis using Suc.prems by (simp add: unat_eq_zero)
  next
    case (Suc k')
    then have "unat (v div 10) < 10 ^ k'"
      using Suc.prems by (simp add: unat_div less_mult_imp_div_less mult.commute)
    then show ?thesis using Suc Suc.IH by simp
  qed
qed simp

lemma dec_str_props: "dec_value (dec_str v) = unat v" "length (dec_str v) \<le> 20"
proof -
  have "unat v < 2 ^ 64" using unat_lt_exp [of v] by simp
  then have "unat v < 10 ^ 20" "unat v < 10 ^ 24" by simp_all
  then show "dec_value (dec_str v) = unat v" "length (dec_str v) \<le> 20"
    using dec_digits_value [of v 24] dec_digits_length [of v 20 24]
    by (auto simp: dec_str_def dec_value_def)
qed

text \<open>
  C19: numbers are rendered faithfully: the digits \<open>put_dec\<close> appends when there is room,
  read as a decimal number, are the value, for every 64-bit value.
\<close>

theorem put_dec_roundtrip:
  assumes "cap \<le> length b" and "pos + 20 < cap"
  shows "\<exists>b' n. put_dec v cap (b, pos) = Some (b', pos + n) \<and> take pos b' = take pos b \<and>
    dec_value (take n (drop pos b')) = unat v"
proof -
  have "pos < cap" "pos + length (dec_str v) < cap" using assms(2) dec_str_props(2) [of v] by simp_all
  then obtain b' where b: "put_dec v cap (b, pos) = Some (b', pos + length (dec_str v))" "length b' = length b"
    "take pos b' = take pos b" "take (pos + length (dec_str v)) b' = take pos b @ dec_str v"
    using emits_dec [unfolded emits_def, rule_format, OF assms(1), of pos v] by auto
  have "take (length (dec_str v)) (drop pos b') = drop pos (take (pos + length (dec_str v)) b')"
    by (simp add: drop_take)
  also have "\<dots> = dec_str v" using b(4) assms by (simp del: take_append)
  finally show ?thesis using b dec_str_props(1) by auto
qed

theorem put_dec_roundtrip_witness:
  "\<exists>b' n. put_dec 4096 32 (replicate 32 0, 3) = Some (b', 3 + n) \<and> dec_value (take n (drop 3 b')) = 4096"
  using put_dec_roundtrip [of 32 "replicate 32 0" 3 4096] by auto

end
