(* ===== verification/Ramdisk.thy ===== *)
theory Ramdisk
  imports Prelude "HOL-Library.Monad_Syntax"
begin

text \<open>
  The block device of \<open>kernel/src/ramdisk.c\<close>. A device is either memory-backed or forwards
  to the functions of a driver, which are parameters: \<open>read_fn\<close> delivers a result code and
  the bytes it stored at the start of the buffer, \<open>write_fn\<close> a result code and a new driver
  context. Pointers to memory are byte lists, null is \<open>None\<close>, and a copy that leaves its
  source or destination is the value \<open>None\<close>. The contract of a store of equal-sized blocks
  is the locale \<open>block_store\<close>, which the memory-backed device interprets.
\<close>

record 'c ramdisk_device =
  rd_data :: "u8 list option"
  rd_size :: u64
  rd_block_size :: u32
  rd_block_count :: u64
  read_fn :: "('c \<Rightarrow> u64 \<Rightarrow> u64 \<Rightarrow> int \<times> u8 list) option"
  write_fn :: "('c \<Rightarrow> u64 \<Rightarrow> u8 list \<Rightarrow> int \<times> 'c) option"
  io_context :: 'c

text \<open>Copying \<open>bs\<close> over the bytes of a buffer from an offset on.\<close>

definition blit :: "u8 list \<Rightarrow> nat \<Rightarrow> u8 list \<Rightarrow> u8 list option" where
  "blit dst off bs = (if off + length bs \<le> length dst then Some (take off dst @ bs @ drop (off + length bs) dst) else None)"

definition slice :: "u8 list \<Rightarrow> nat \<Rightarrow> nat \<Rightarrow> u8 list option" where
  "slice src off n = (if off + n \<le> length src then Some (take n (drop off src)) else None)"

lemma length_blit: "blit dst off bs = Some d \<Longrightarrow> length d = length dst"
  by (auto simp: blit_def split: if_splits)

lemma slice_blit_same: "blit dst off bs = Some d \<Longrightarrow> take (length bs) (drop off d) = bs"
  by (auto simp: blit_def split: if_splits)

lemma slice_blit_other:
  assumes "blit dst off bs = Some d" and "off + length bs \<le> i \<or> i + n \<le> off"
  shows "take n (drop i d) = take n (drop i dst)"
proof -
  have d: "d = take off dst @ bs @ drop (off + length bs) dst" "off + length bs \<le> length dst"
    using assms(1) by (auto simp: blit_def split: if_splits)
  from assms(2) show ?thesis
  proof
    assume "off + length bs \<le> i"
    with d show ?thesis by simp
  next
    assume a: "i + n \<le> off"
    with d have "take n (drop i d) = take n (drop i (take off dst))" by (simp add: min_def)
    also have "\<dots> = take n (drop i dst)" using a by (simp add: drop_take min_def)
    finally show ?thesis .
  qed
qed

text \<open>
  \<open>ramdisk_init\<close> asks \<open>kmalloc\<close> for the storage; \<open>mem\<close> is what it returned for the given size:
  memory with some contents, or nothing.
\<close>

definition ramdisk_init :: "(u64 \<Rightarrow> u8 list option) \<Rightarrow> u64 \<Rightarrow> 'c ramdisk_device \<Rightarrow> int \<times> 'c ramdisk_device" where
  "ramdisk_init mem size_mb dev =
     (let dev = dev\<lparr>rd_block_size := 4096\<rparr>;
          dev = dev\<lparr>rd_block_count := (size_mb * 1024 * 1024) div ucast (rd_block_size dev)\<rparr>;
          dev = dev\<lparr>rd_size := rd_block_count dev * ucast (rd_block_size dev)\<rparr>
      in case mem (rd_size dev) of
           None \<Rightarrow> (-1, dev\<lparr>rd_data := None\<rparr>)
         | Some m \<Rightarrow> (0, dev\<lparr>rd_data := Some (replicate (length m) 0)\<rparr>))"

definition ramdisk_destroy :: "'c ramdisk_device \<Rightarrow> 'c ramdisk_device" where
  "ramdisk_destroy dev = dev\<lparr>rd_data := None, rd_size := 0, rd_block_count := 0\<rparr>"

definition ramdisk_read :: "'c ramdisk_device \<Rightarrow> u64 \<Rightarrow> u8 list \<Rightarrow> u64 \<Rightarrow> (int \<times> u8 list) option" where
  "ramdisk_read dev block_num buffer count =
     (case read_fn dev of
        None \<Rightarrow>
          let off = block_num * ucast (rd_block_size dev) in
          if block_num \<ge> rd_block_count dev then Some (-1, buffer)
          else do { dat \<leftarrow> rd_data dev;
                    bs \<leftarrow> slice dat (unat off) (unat count);
                    buffer \<leftarrow> blit buffer 0 bs;
                    Some (0, buffer) }
      | Some f \<Rightarrow>
          (case f (io_context dev) block_num count of
             (r, bs) \<Rightarrow> do { buffer \<leftarrow> blit buffer 0 bs; Some (r, buffer) }))"

definition ramdisk_write :: "'c ramdisk_device \<Rightarrow> u64 \<Rightarrow> u8 list \<Rightarrow> u64 \<Rightarrow> (int \<times> 'c ramdisk_device) option" where
  "ramdisk_write dev block_num buffer count =
     do { bs \<leftarrow> slice buffer 0 (unat count);
          case write_fn dev of
            Some f \<Rightarrow>
              (case f (io_context dev) block_num bs of (r, c) \<Rightarrow> Some (r, dev\<lparr>io_context := c\<rparr>))
          | None \<Rightarrow>
              if block_num \<ge> rd_block_count dev then Some (-1, dev)
              else do { dat \<leftarrow> rd_data dev;
                        dat \<leftarrow> blit dat (unat (block_num * ucast (rd_block_size dev))) bs;
                        Some (0, dev\<lparr>rd_data := Some dat\<rparr>) } }"

text \<open>The static one-megabyte disk of \<open>kernel/src/ramdisk_demo.c\<close>.\<close>

definition RAMDISK_SIZE :: u64 where
  "RAMDISK_SIZE = 1024 * 1024"

definition ramdisk_demo_init :: "u8 list \<Rightarrow> 'c ramdisk_device \<Rightarrow> 'c \<Rightarrow> 'c ramdisk_device" where
  "ramdisk_demo_init storage dev null =
     dev\<lparr>rd_data := Some storage, rd_size := RAMDISK_SIZE, rd_block_size := 4096,
         rd_block_count := RAMDISK_SIZE div 4096, read_fn := None, write_fn := None, io_context := null\<rparr>"

section \<open>Stores of equal-sized blocks\<close>

text \<open>
  A client that keeps blocks of \<open>bs\<close> bytes on a device addresses block \<open>n\<close> by its byte
  offset divided by the device's own block size. The contract: a good device returns the
  contents of each of its first \<open>cnt\<close> blocks, and a write replaces exactly one of them.
\<close>

definition dev_index :: "'c ramdisk_device \<Rightarrow> nat \<Rightarrow> nat \<Rightarrow> u64" where
  "dev_index d bs n = of_nat (n * bs) div ucast (rd_block_size d)"

locale block_store =
  fixes good :: "nat \<Rightarrow> nat \<Rightarrow> 'c ramdisk_device \<Rightarrow> bool"
    and blk :: "nat \<Rightarrow> 'c ramdisk_device \<Rightarrow> nat \<Rightarrow> u8 list"
  assumes read_law: "good bs cnt d \<Longrightarrow> n < cnt \<Longrightarrow> length buf = bs \<Longrightarrow>
      ramdisk_read d (dev_index d bs n) buf (of_nat bs) = Some (0, blk bs d n)"
    and write_law: "good bs cnt d \<Longrightarrow> n < cnt \<Longrightarrow> length buf = bs \<Longrightarrow>
      \<exists>d'. ramdisk_write d (dev_index d bs n) buf (of_nat bs) = Some (0, d') \<and> good bs cnt d' \<and>
        blk bs d' = (blk bs d)(n := buf) \<and> rd_block_size d' = rd_block_size d \<and> rd_size d' = rd_size d"
    and blk_length: "good bs cnt d \<Longrightarrow> n < cnt \<Longrightarrow> length (blk bs d n) = bs"
    and good_size: "good bs cnt d \<Longrightarrow>
      0 < bs \<and> cnt * bs < 2 ^ 64 \<and> rd_block_size d \<noteq> 0 \<and> unat (rd_block_size d) dvd bs"

text \<open>The memory-backed device is such a store when its block size divides the client's.\<close>

definition ram_good :: "nat \<Rightarrow> nat \<Rightarrow> 'c ramdisk_device \<Rightarrow> bool" where
  "ram_good bs cnt d \<longleftrightarrow>
     read_fn d = None \<and> write_fn d = None \<and> 0 < bs \<and> rd_block_size d \<noteq> 0 \<and> unat (rd_block_size d) dvd bs \<and>
     cnt * bs \<le> unat (rd_block_count d) * unat (rd_block_size d) \<and> cnt * bs < 2 ^ 64 \<and>
     (\<exists>dat. rd_data d = Some dat \<and> cnt * bs \<le> length dat)"

definition ram_blk :: "nat \<Rightarrow> 'c ramdisk_device \<Rightarrow> nat \<Rightarrow> u8 list" where
  "ram_blk bs d n = take bs (drop (n * bs) (the (rd_data d)))"

lemma dev_index_bytes:
  assumes "ram_good bs cnt d" and "n < cnt"
  shows "unat (dev_index d bs n * ucast (rd_block_size d)) = n * bs" (is ?t)
    and "dev_index d bs n < rd_block_count d" (is ?l)
    and "n * bs + bs \<le> cnt * bs"
proof -
  have d: "rd_block_size d \<noteq> 0" "unat (rd_block_size d) dvd bs" "cnt * bs < 2 ^ 64" "0 < bs"
    "cnt * bs \<le> unat (rd_block_count d) * unat (rd_block_size d)"
    using assms(1) by (auto simp: ram_good_def)
  have "Suc n * bs \<le> cnt * bs" using assms(2) by (intro mult_le_mono1) simp
  then show le: "n * bs + bs \<le> cnt * bs" by simp
  let ?k = "unat (rd_block_size d)"
  have k: "unat (ucast (rd_block_size d) :: u64) = ?k"
    using unat_lt_exp [of "rd_block_size d"] by (simp add: unsigned_ucast_eq take_bit_nat_eq_self)
  have kpos: "0 < ?k" using d(1) by (simp add: unat_gt_0)
  have nb: "unat (of_nat (n * bs) :: u64) = n * bs"
    using le d(3) by (simp add: unat_of_nat del: of_nat_mult)
  then have i: "unat (dev_index d bs n) = n * bs div ?k"
    by (simp add: dev_index_def unat_div k del: of_nat_mult)
  have m: "n * bs div ?k * ?k = n * bs" using d(2) by (simp add: dvd_mult)
  then show ?t
    using le d(3) by (simp add: unat_word_ariths i k)
  have "n * bs div ?k * ?k < unat (rd_block_count d) * ?k" using m le d(4,5) by linarith
  then show ?l by (simp add: word_less_nat_alt i)
qed

interpretation ram: block_store ram_good ram_blk
proof
  fix bs cnt n and d :: "'c ramdisk_device" and buf :: "u8 list"
  assume g: "ram_good bs cnt d" and n: "n < cnt" and b: "length buf = bs"
  obtain dat where dat: "rd_data d = Some dat" "cnt * bs \<le> length dat" "read_fn d = None" "write_fn d = None"
    using g by (auto simp: ram_good_def)
  have bs: "unat (of_nat bs :: u64) = bs"
    using dev_index_bytes(3) [OF g n] g by (simp add: ram_good_def unat_of_nat)
  note idx = dev_index_bytes [OF g n]
  have nbs: "n * bs + bs \<le> length dat" using idx(3) dat(2) by linarith
  show "ramdisk_read d (dev_index d bs n) buf (of_nat bs) = Some (0, ram_blk bs d n)"
    using idx nbs dat b by (simp add: ramdisk_read_def Let_def slice_def blit_def bs ram_blk_def)
  obtain dat' where dat': "blit dat (n * bs) buf = Some dat'" using nbs b by (simp add: blit_def)
  let ?d = "d\<lparr>rd_data := Some dat'\<rparr>"
  have "ramdisk_write d (dev_index d bs n) buf (of_nat bs) = Some (0, ?d)"
    using idx dat dat' b by (simp add: ramdisk_write_def slice_def bs)
  moreover have "ram_good bs cnt ?d"
    using g length_blit [OF dat'] dat by (auto simp: ram_good_def)
  moreover have "ram_blk bs ?d m = (if m = n then buf else ram_blk bs d m)" for m
  proof (cases "m = n")
    case True
    then show ?thesis using slice_blit_same [OF dat'] b by (simp add: ram_blk_def)
  next
    case False
    then have "n * bs + length buf \<le> m * bs \<or> m * bs + bs \<le> n * bs"
      using b mult_le_mono1 [of "Suc n" m bs] mult_le_mono1 [of "Suc m" n bs]
      by (cases "n < m") (auto simp: add.commute Suc_le_eq)
    then show ?thesis using False slice_blit_other [OF dat'] dat(1) by (simp add: ram_blk_def)
  qed
  ultimately show "\<exists>d'. ramdisk_write d (dev_index d bs n) buf (of_nat bs) = Some (0, d') \<and> ram_good bs cnt d' \<and>
      ram_blk bs d' = (ram_blk bs d)(n := buf) \<and> rd_block_size d' = rd_block_size d \<and> rd_size d' = rd_size d"
    by (intro exI [of _ ?d]) auto
next
  fix bs cnt n and d :: "'c ramdisk_device"
  assume g: "ram_good bs cnt d" and n: "n < cnt"
  then show "length (ram_blk bs d n) = bs"
    using dev_index_bytes(3) [OF g n] by (auto simp: ram_good_def ram_blk_def)
next
  fix bs cnt and d :: "'c ramdisk_device"
  assume "ram_good bs cnt d"
  then show "0 < bs \<and> cnt * bs < 2 ^ 64 \<and> rd_block_size d \<noteq> 0 \<and> unat (rd_block_size d) dvd bs" by (simp add: ram_good_def)
qed

end
