(* ===== verification/Ext2_Layout.thy ===== *)
theory Ext2_Layout
  imports Ramdisk
begin

text \<open>
  The on-disk structures of \<open>kernel/include/ext2_fs.h\<close>: inode, superblock and directory
  entry, with the byte layout a C compiler gives them (little-endian; the inode is packed,
  the superblock has no padding). Copying such a structure to or from a block is
  encoding or decoding it; both directions are inverse to each other.
\<close>

section \<open>Arrays and fields\<close>

definition enc_array :: "nat \<Rightarrow> 'a::len word list \<Rightarrow> u8 list" where
  "enc_array w xs = concat (map (le_enc w) xs)"

fun dec_array :: "nat \<Rightarrow> nat \<Rightarrow> u8 list \<Rightarrow> 'a::len word list" where
  "dec_array w 0 bs = []"
| "dec_array w (Suc n) bs = le_dec (take w bs) # dec_array w n (drop w bs)"

definition field :: "nat \<Rightarrow> nat \<Rightarrow> u8 list \<Rightarrow> 'a::len word" where
  "field w off bs = le_dec (take w (drop off bs))"

lemma length_enc_array [simp]: "length (enc_array w xs) = w * length xs"
  by (induction xs) (simp_all add: enc_array_def)

lemma dec_enc_array [enc_simps]:
  "LENGTH('a) \<le> 8 * w \<Longrightarrow> n = length xs \<Longrightarrow> dec_array w n (enc_array w (xs :: 'a::len word list) @ r) = xs"
  by (induction xs arbitrary: n) (simp_all add: enc_array_def enc_simps)

lemma dec_enc_array_end [enc_simps]:
  "LENGTH('a) \<le> 8 * w \<Longrightarrow> n = length xs \<Longrightarrow> dec_array w n (enc_array w (xs :: 'a::len word list)) = xs"
  using dec_enc_array [of w n xs "[]"] by simp

lemma length_dec_array [simp]: "length (dec_array w n bs) = n"
  by (induction n arbitrary: bs) simp_all

lemma enc_dec_array:
  "length bs = w * n \<Longrightarrow> 8 * w \<le> LENGTH('a) \<Longrightarrow> enc_array w (dec_array w n bs :: 'a::len word list) = bs"
proof (induction n arbitrary: bs)
  case (Suc n)
  then have "enc_array w (dec_array w n (drop w bs) :: 'a word list) = drop w bs" by (intro Suc.IH) simp_all
  with Suc.prems show ?case by (simp add: enc_array_def enc_simps)
qed (simp add: enc_array_def)

section \<open>Inodes\<close>

record ext2_inode =
  i_mode :: u16
  i_uid :: u16
  i_size :: u32
  i_atime :: u32
  i_ctime :: u32
  i_mtime :: u32
  i_dtime :: u32
  i_gid :: u16
  i_links_count :: u16
  i_blocks :: u32
  i_flags :: u32
  i_osd1 :: u32
  i_block :: "u32 list"
  i_file_acl :: u32
  i_dir_acl :: u32
  i_faddr :: u32
  i_frag_num :: u8
  i_frag_size :: u8
  i_reserved2 :: u16
  i_reserved3 :: "u32 list"
  i_atime_extra :: u32
  i_ctime_extra :: u32
  i_mtime_extra :: u32
  i_dtime_extra :: u32
  i_version :: u32
  i_blocks_hi :: u32
  i_reserved4 :: "u32 list"
  i_reserved5 :: "u32 list"

definition ext2_inode_bytes :: "ext2_inode \<Rightarrow> u8 list" where
  "ext2_inode_bytes x =
     le_enc 2 (i_mode x) @ le_enc 2 (i_uid x) @ le_enc 4 (i_size x) @ le_enc 4 (i_atime x) @
     le_enc 4 (i_ctime x) @ le_enc 4 (i_mtime x) @ le_enc 4 (i_dtime x) @ le_enc 2 (i_gid x) @
     le_enc 2 (i_links_count x) @ le_enc 4 (i_blocks x) @ le_enc 4 (i_flags x) @
     le_enc 4 (i_osd1 x) @ enc_array 4 (i_block x) @ le_enc 4 (i_file_acl x) @
     le_enc 4 (i_dir_acl x) @ le_enc 4 (i_faddr x) @ le_enc 1 (i_frag_num x) @
     le_enc 1 (i_frag_size x) @ le_enc 2 (i_reserved2 x) @ enc_array 4 (i_reserved3 x) @
     le_enc 4 (i_atime_extra x) @ le_enc 4 (i_ctime_extra x) @ le_enc 4 (i_mtime_extra x) @
     le_enc 4 (i_dtime_extra x) @ le_enc 4 (i_version x) @ le_enc 4 (i_blocks_hi x) @
     enc_array 4 (i_reserved4 x) @ enc_array 4 (i_reserved5 x)"

definition ext2_inode_of :: "u8 list \<Rightarrow> ext2_inode" where
  "ext2_inode_of bs =
     \<lparr>i_mode = field 2 0 bs, i_uid = field 2 2 bs, i_size = field 4 4 bs,
      i_atime = field 4 8 bs, i_ctime = field 4 12 bs, i_mtime = field 4 16 bs,
      i_dtime = field 4 20 bs, i_gid = field 2 24 bs, i_links_count = field 2 26 bs,
      i_blocks = field 4 28 bs, i_flags = field 4 32 bs, i_osd1 = field 4 36 bs,
      i_block = dec_array 4 15 (drop 40 bs), i_file_acl = field 4 100 bs,
      i_dir_acl = field 4 104 bs, i_faddr = field 4 108 bs, i_frag_num = field 1 112 bs,
      i_frag_size = field 1 113 bs, i_reserved2 = field 2 114 bs,
      i_reserved3 = dec_array 4 2 (drop 116 bs), i_atime_extra = field 4 124 bs,
      i_ctime_extra = field 4 128 bs, i_mtime_extra = field 4 132 bs,
      i_dtime_extra = field 4 136 bs, i_version = field 4 140 bs, i_blocks_hi = field 4 144 bs,
      i_reserved4 = dec_array 4 16 (drop 148 bs), i_reserved5 = dec_array 4 11 (drop 212 bs)\<rparr>"

definition ext2_inode_ok :: "ext2_inode \<Rightarrow> bool" where
  "ext2_inode_ok x \<longleftrightarrow> length (i_block x) = 15 \<and> length (i_reserved3 x) = 2 \<and> length (i_reserved4 x) = 16 \<and> length (i_reserved5 x) = 11"

section \<open>The superblock\<close>

record ext2_superblock =
  sb_inodes_count :: u32
  sb_blocks_count :: u32
  sb_reserved_blocks :: u32
  sb_free_blocks :: u32
  sb_free_inodes :: u32
  sb_first_data_block :: u32
  sb_log_block_size :: u32
  sb_blocks_per_group :: u32
  sb_inodes_per_group :: u32
  sb_mtime :: u32
  sb_wtime :: u32
  sb_mnt_count :: u16
  sb_max_mnt_count :: u16
  sb_pad_magic :: u16
  sb_state :: u16
  sb_errors :: u16
  sb_minor_rev_level :: u16
  sb_magic :: u16
  sb_pad2 :: u16
  sb_first_inode :: u32
  sb_inode_size :: u16
  sb_block_group_nr :: u16
  sb_feature_compat :: u32
  sb_feature_incompat :: u32
  sb_feature_ro_compat :: u32
  sb_uuid :: "u8 list"
  sb_volume_name :: "u8 list"
  sb_block_size :: u32
  sb_version :: u32
  sb_pad :: "u8 list"

definition ext2_superblock_bytes :: "ext2_superblock \<Rightarrow> u8 list" where
  "ext2_superblock_bytes x =
     le_enc 4 (sb_inodes_count x) @ le_enc 4 (sb_blocks_count x) @
     le_enc 4 (sb_reserved_blocks x) @ le_enc 4 (sb_free_blocks x) @
     le_enc 4 (sb_free_inodes x) @ le_enc 4 (sb_first_data_block x) @
     le_enc 4 (sb_log_block_size x) @ le_enc 4 (sb_blocks_per_group x) @
     le_enc 4 (sb_inodes_per_group x) @ le_enc 4 (sb_mtime x) @ le_enc 4 (sb_wtime x) @
     le_enc 2 (sb_mnt_count x) @ le_enc 2 (sb_max_mnt_count x) @ le_enc 2 (sb_pad_magic x) @
     le_enc 2 (sb_state x) @ le_enc 2 (sb_errors x) @ le_enc 2 (sb_minor_rev_level x) @
     le_enc 2 (sb_magic x) @ le_enc 2 (sb_pad2 x) @ le_enc 4 (sb_first_inode x) @
     le_enc 2 (sb_inode_size x) @ le_enc 2 (sb_block_group_nr x) @
     le_enc 4 (sb_feature_compat x) @ le_enc 4 (sb_feature_incompat x) @
     le_enc 4 (sb_feature_ro_compat x) @ enc_array 1 (sb_uuid x) @
     enc_array 1 (sb_volume_name x) @ le_enc 4 (sb_block_size x) @ le_enc 4 (sb_version x) @
     enc_array 1 (sb_pad x)"

definition ext2_superblock_of :: "u8 list \<Rightarrow> ext2_superblock" where
  "ext2_superblock_of bs =
     \<lparr>sb_inodes_count = field 4 0 bs, sb_blocks_count = field 4 4 bs,
      sb_reserved_blocks = field 4 8 bs, sb_free_blocks = field 4 12 bs,
      sb_free_inodes = field 4 16 bs, sb_first_data_block = field 4 20 bs,
      sb_log_block_size = field 4 24 bs, sb_blocks_per_group = field 4 28 bs,
      sb_inodes_per_group = field 4 32 bs, sb_mtime = field 4 36 bs, sb_wtime = field 4 40 bs,
      sb_mnt_count = field 2 44 bs, sb_max_mnt_count = field 2 46 bs, sb_pad_magic = field 2 48 bs,
      sb_state = field 2 50 bs, sb_errors = field 2 52 bs, sb_minor_rev_level = field 2 54 bs,
      sb_magic = field 2 56 bs, sb_pad2 = field 2 58 bs, sb_first_inode = field 4 60 bs,
      sb_inode_size = field 2 64 bs, sb_block_group_nr = field 2 66 bs,
      sb_feature_compat = field 4 68 bs, sb_feature_incompat = field 4 72 bs,
      sb_feature_ro_compat = field 4 76 bs, sb_uuid = dec_array 1 16 (drop 80 bs),
      sb_volume_name = dec_array 1 16 (drop 96 bs), sb_block_size = field 4 112 bs,
      sb_version = field 4 116 bs, sb_pad = dec_array 1 896 (drop 120 bs)\<rparr>"

definition ext2_superblock_ok :: "ext2_superblock \<Rightarrow> bool" where
  "ext2_superblock_ok x \<longleftrightarrow> length (sb_uuid x) = 16 \<and> length (sb_volume_name x) = 16 \<and> length (sb_pad x) = 896"

section \<open>Round trips\<close>

lemma length_inode_bytes: "ext2_inode_ok x \<Longrightarrow> length (ext2_inode_bytes x) = 256"
  by (simp add: ext2_inode_ok_def ext2_inode_bytes_def)

lemma length_superblock_bytes: "ext2_superblock_ok x \<Longrightarrow> length (ext2_superblock_bytes x) = 1016"
  by (simp add: ext2_superblock_ok_def ext2_superblock_bytes_def)

lemma inode_of_bytes: "ext2_inode_ok x \<Longrightarrow> ext2_inode_of (ext2_inode_bytes x @ r) = x"
  by (simp add: ext2_inode_ok_def ext2_inode_bytes_def ext2_inode_of_def field_def enc_simps)

lemma superblock_of_bytes: "ext2_superblock_ok x \<Longrightarrow> ext2_superblock_of (ext2_superblock_bytes x @ r) = x"
  by (simp add: ext2_superblock_ok_def ext2_superblock_bytes_def ext2_superblock_of_def field_def enc_simps)

end
