(* ===== verification/Ext2.thy ===== *)
theory Ext2
  imports Ext2_Layout
begin

text \<open>
  The file system of \<open>kernel/src/ext2_fs.c\<close>. Operations take the state of the mounted file
  system and return a result with the new state; \<open>None\<close> stands for undefined behaviour (an
  access outside a buffer, an array or the inode table, a division by zero) and for a loop
  that does not end. The kernel heap is represented by the replies \<open>kmalloc\<close> will give:
  each is either a failure or memory with arbitrary contents; when the list is used up,
  requests succeed with zeroed memory. Releasing memory has no effect on this state, and
  diagnostic output is not modelled. A null array pointer is the empty list.
\<close>

section \<open>State\<close>

record 'c ext2_filesystem =
  fs_device :: "'c ramdisk_device"
  fs_sb :: ext2_superblock
  block_bitmap :: "u8 list"
  inode_bitmap :: "u8 list"
  inode_table :: "ext2_inode list"
  heap_replies :: "u8 list option list"
  g_ext2_sb_buffer :: "u8 list"

definition EXT2_ROOT_INODE :: u32 where "EXT2_ROOT_INODE = 2"
definition EXT2_MAGIC :: u16 where "EXT2_MAGIC = 0xEF53"
definition EXT2_BLOCK_SIZE :: u32 where "EXT2_BLOCK_SIZE = 1024"
definition EXT2_S_IFMT :: u16 where "EXT2_S_IFMT = 0xF000"
definition EXT2_S_IFREG :: u16 where "EXT2_S_IFREG = 0x8000"
definition EXT2_S_IFDIR :: u16 where "EXT2_S_IFDIR = 0x4000"

abbreviation fs_bs :: "'c ext2_filesystem \<Rightarrow> u32" where
  "fs_bs fs \<equiv> sb_block_size (fs_sb fs)"

definition fs_kmalloc :: "nat \<Rightarrow> 'c ext2_filesystem \<Rightarrow> u8 list option \<times> 'c ext2_filesystem" where
  "fs_kmalloc n fs =
     (case heap_replies fs of
        [] \<Rightarrow> (Some (replicate n 0), fs)
      | r # rs \<Rightarrow> (map_option (\<lambda>g. take n (g @ replicate n 0)) r, fs\<lparr>heap_replies := rs\<rparr>))"

definition upd_sb :: "(ext2_superblock \<Rightarrow> ext2_superblock) \<Rightarrow> 'c ext2_filesystem \<Rightarrow> 'c ext2_filesystem" where
  "upd_sb f fs = fs\<lparr>fs_sb := f (fs_sb fs)\<rparr>"

text \<open>\<open>&fs->inode_table[n - 1]\<close>, with the index computed in 32 bits.\<close>

definition inode_at :: "'c ext2_filesystem \<Rightarrow> u32 \<Rightarrow> ext2_inode option" where
  "inode_at fs n = (if unat (n - 1) < length (inode_table fs) then Some (inode_table fs ! unat (n - 1)) else None)"

definition upd_inode ::
  "u32 \<Rightarrow> (ext2_inode \<Rightarrow> ext2_inode) \<Rightarrow> 'c ext2_filesystem \<Rightarrow> 'c ext2_filesystem option" where
  "upd_inode n f fs =
     (if unat (n - 1) < length (inode_table fs)
      then Some (fs\<lparr>inode_table := (inode_table fs)[unat (n - 1) := f (inode_table fs ! unat (n - 1))]\<rparr>) else None)"

definition is_dir :: "ext2_inode \<Rightarrow> bool" where
  "is_dir i \<longleftrightarrow> i_mode i AND EXT2_S_IFMT = EXT2_S_IFDIR"

definition div_chk :: "'a::len word \<Rightarrow> 'a word \<Rightarrow> 'a word option" where
  "div_chk a b = (if b = 0 then None else Some (a div b))"

section \<open>Blocks and bitmaps\<close>

definition ext2_read_block :: "'c ext2_filesystem \<Rightarrow> u32 \<Rightarrow> u8 list \<Rightarrow> (int \<times> u8 list) option" where
  "ext2_read_block fs block_num buffer =
     do { n \<leftarrow> div_chk (ucast block_num * ucast (fs_bs fs)) (ucast (rd_block_size (fs_device fs)));
          ramdisk_read (fs_device fs) n buffer (ucast (fs_bs fs)) }"

definition ext2_write_block ::
  "'c ext2_filesystem \<Rightarrow> u32 \<Rightarrow> u8 list \<Rightarrow> (int \<times> 'c ext2_filesystem) option" where
  "ext2_write_block fs block_num buffer =
     do { n \<leftarrow> div_chk (ucast block_num * ucast (fs_bs fs)) (ucast (rd_block_size (fs_device fs)));
          (r, dev) \<leftarrow> ramdisk_write (fs_device fs) n buffer (ucast (fs_bs fs));
          Some (r, fs\<lparr>fs_device := dev\<rparr>) }"

definition bit_mask :: "u32 \<Rightarrow> u8" where
  "bit_mask i = push_bit (unat (i mod 8)) 1"

text \<open>The search for a clear bit from \<open>i\<close> on, below \<open>cnt\<close>.\<close>

partial_function (option) bitmap_scan :: "u8 list \<Rightarrow> u32 \<Rightarrow> u32 \<Rightarrow> u32 option option" where
  "bitmap_scan bm cnt i =
     (if i < cnt then
        if unat (i div 8) < length bm then
          if bm ! unat (i div 8) AND bit_mask i = 0 then Some (Some i) else bitmap_scan bm cnt (i + 1)
        else None
      else Some None)"

definition bitmap_set :: "u8 list \<Rightarrow> u32 \<Rightarrow> u8 list option" where
  "bitmap_set bm i =
     (if unat (i div 8) < length bm then Some (bm[unat (i div 8) := bm ! unat (i div 8) OR bit_mask i]) else None)"

definition bitmap_clear :: "u8 list \<Rightarrow> u32 \<Rightarrow> u8 list option" where
  "bitmap_clear bm i =
     (if unat (i div 8) < length bm then Some (bm[unat (i div 8) := bm ! unat (i div 8) AND NOT (bit_mask i)]) else None)"

definition ext2_alloc_block :: "'c ext2_filesystem \<Rightarrow> (u32 \<times> 'c ext2_filesystem) option" where
  "ext2_alloc_block fs =
     (let start_block = sb_first_data_block (fs_sb fs);
          start_block = (if start_block < 1 then 1 else start_block)
      in do { r \<leftarrow> bitmap_scan (block_bitmap fs) (sb_blocks_count (fs_sb fs)) start_block;
              case r of
                None \<Rightarrow> Some (0, fs)
              | Some i \<Rightarrow> do {
                  bm \<leftarrow> bitmap_set (block_bitmap fs) i;
                  Some (i, upd_sb (\<lambda>sb. sb\<lparr>sb_free_blocks := sb_free_blocks sb - 1\<rparr>) (fs\<lparr>block_bitmap := bm\<rparr>)) } })"

definition ext2_free_block :: "u32 \<Rightarrow> 'c ext2_filesystem \<Rightarrow> 'c ext2_filesystem option" where
  "ext2_free_block block_num fs =
     (if block_num < sb_blocks_count (fs_sb fs) then do {
        bm \<leftarrow> bitmap_clear (block_bitmap fs) block_num;
        Some (upd_sb (\<lambda>sb. sb\<lparr>sb_free_blocks := sb_free_blocks sb + 1\<rparr>) (fs\<lparr>block_bitmap := bm\<rparr>)) }
      else Some fs)"

definition ext2_alloc_inode_num :: "'c ext2_filesystem \<Rightarrow> (u32 \<times> 'c ext2_filesystem) option" where
  "ext2_alloc_inode_num fs =
     do { r \<leftarrow> bitmap_scan (inode_bitmap fs) (sb_inodes_count (fs_sb fs)) 11;
          case r of
            None \<Rightarrow> Some (0, fs)
          | Some i \<Rightarrow> do {
              bm \<leftarrow> bitmap_set (inode_bitmap fs) i;
              Some (i + 1, upd_sb (\<lambda>sb. sb\<lparr>sb_free_inodes := sb_free_inodes sb - 1\<rparr>) (fs\<lparr>inode_bitmap := bm\<rparr>)) } }"

definition ext2_free_inode_num :: "u32 \<Rightarrow> 'c ext2_filesystem \<Rightarrow> 'c ext2_filesystem option" where
  "ext2_free_inode_num inode_num fs =
     (if inode_num > 0 \<and> inode_num \<le> sb_inodes_count (fs_sb fs) then do {
        bm \<leftarrow> bitmap_clear (inode_bitmap fs) (inode_num - 1);
        Some (upd_sb (\<lambda>sb. sb\<lparr>sb_free_inodes := sb_free_inodes sb + 1\<rparr>) (fs\<lparr>inode_bitmap := bm\<rparr>)) }
      else Some fs)"

section \<open>Writing metadata back\<close>

definition bb_blks :: "'c ext2_filesystem \<Rightarrow> u32 option" where
  "bb_blks fs = div_chk (sb_blocks_count (fs_sb fs) + 8 * fs_bs fs - 1) (8 * fs_bs fs)"

definition ext2_write_inode :: "u32 \<Rightarrow> 'c ext2_filesystem \<Rightarrow> (int \<times> 'c ext2_filesystem) option" where
  "ext2_write_inode inode_num fs =
     (if inode_num = 0 \<or> inode_num > sb_inodes_count (fs_sb fs) then Some (-1, fs)
      else do {
        bb \<leftarrow> bb_blks fs;
        q \<leftarrow> div_chk (ucast (inode_num - 1) * 256) (ucast (fs_bs fs) :: u64);
        let inode_block_num = ucast (ucast (2 + bb + 1) + q);
            inode_offset = ucast ((ucast (inode_num - 1) * 256) mod (ucast (fs_bs fs) :: u64)) :: u32;
            (p, fs) = fs_kmalloc (unat (fs_bs fs)) fs
        in case p of
             None \<Rightarrow> Some (-1, fs)
           | Some block \<Rightarrow> do {
               (_, block) \<leftarrow> ext2_read_block fs inode_block_num block;
               i \<leftarrow> inode_at fs inode_num;
               block \<leftarrow> blit block (unat inode_offset) (ext2_inode_bytes i);
               (_, fs) \<leftarrow> ext2_write_block fs inode_block_num block;
               Some (0, fs) } })"

definition ext2_write_superblock :: "'c ext2_filesystem \<Rightarrow> (int \<times> 'c ext2_filesystem) option" where
  "ext2_write_superblock fs =
     (case fs_kmalloc (unat (fs_bs fs)) fs of
        (None, fs) \<Rightarrow> Some (-1, fs)
      | (Some _, fs) \<Rightarrow> do {
          block \<leftarrow> blit (replicate (unat (fs_bs fs)) 0) 0 (ext2_superblock_bytes (fs_sb fs));
          ext2_write_block fs 1 block })"

fun write_bb_loop :: "nat \<Rightarrow> u32 \<Rightarrow> u32 \<Rightarrow> 'c ext2_filesystem \<Rightarrow> 'c ext2_filesystem option" where
  "write_bb_loop 0 i sz fs = Some fs"
| "write_bb_loop (Suc n) i sz fs =
     (let off = i * fs_bs fs;
          len = (if off + fs_bs fs > sz then sz - off else fs_bs fs)
      in do { bs \<leftarrow> slice (block_bitmap fs) (unat off) (unat len);
              block \<leftarrow> blit (replicate (unat (fs_bs fs)) 0) 0 bs;
              (_, fs) \<leftarrow> ext2_write_block fs (2 + i) block;
              write_bb_loop n (i + 1) sz fs })"

definition ext2_write_bitmaps :: "'c ext2_filesystem \<Rightarrow> (int \<times> 'c ext2_filesystem) option" where
  "ext2_write_bitmaps fs =
     do { bb \<leftarrow> bb_blks fs;
          let ib_blk = 2 + bb;
              block_bitmap_size = (sb_blocks_count (fs_sb fs) + 7) div 8;
              inode_bitmap_size = (sb_inodes_count (fs_sb fs) + 7) div 8;
              (p, fs) = fs_kmalloc (unat (fs_bs fs)) fs
          in case p of
               None \<Rightarrow> Some (-1, fs)
             | Some _ \<Rightarrow> do {
                 fs \<leftarrow> write_bb_loop (unat bb) 0 block_bitmap_size fs;
                 bs \<leftarrow> slice (inode_bitmap fs) 0 (unat inode_bitmap_size);
                 block \<leftarrow> blit (replicate (unat (fs_bs fs)) 0) 0 bs;
                 (_, fs) \<leftarrow> ext2_write_block fs ib_blk block;
                 Some (0, fs) } }"

section \<open>Directory entries\<close>

text \<open>
  A directory entry at an offset of a block: the inode number at 0, \<open>rec_len\<close> at 4,
  \<open>name_len\<close> at 6, \<open>file_type\<close> at 7 and the name from 8 on.
\<close>

definition de_inode :: "u8 list \<Rightarrow> nat \<Rightarrow> u32 option" where
  "de_inode b off = map_option le_dec (slice b off 4)"

definition de_rec_len :: "u8 list \<Rightarrow> nat \<Rightarrow> u16 option" where
  "de_rec_len b off = map_option le_dec (slice b (off + 4) 2)"

definition de_name_len :: "u8 list \<Rightarrow> nat \<Rightarrow> u8 option" where
  "de_name_len b off = map_option le_dec (slice b (off + 6) 1)"

definition de_file_type :: "u8 list \<Rightarrow> nat \<Rightarrow> u8 option" where
  "de_file_type b off = map_option le_dec (slice b (off + 7) 1)"

definition de_name :: "u8 list \<Rightarrow> nat \<Rightarrow> nat \<Rightarrow> u8 list option" where
  "de_name b off n = slice b (off + 8) n"

definition set_de_inode :: "nat \<Rightarrow> u32 \<Rightarrow> u8 list \<Rightarrow> u8 list option" where
  "set_de_inode off v b = blit b off (le_enc 4 v)"

definition set_de_rec_len :: "nat \<Rightarrow> u16 \<Rightarrow> u8 list \<Rightarrow> u8 list option" where
  "set_de_rec_len off v b = blit b (off + 4) (le_enc 2 v)"

definition set_de_name_len :: "nat \<Rightarrow> u8 \<Rightarrow> u8 list \<Rightarrow> u8 list option" where
  "set_de_name_len off v b = blit b (off + 6) (le_enc 1 v)"

definition set_de_file_type :: "nat \<Rightarrow> u8 \<Rightarrow> u8 list \<Rightarrow> u8 list option" where
  "set_de_file_type off v b = blit b (off + 7) (le_enc 1 v)"

definition set_de_name :: "nat \<Rightarrow> u8 list \<Rightarrow> u8 list \<Rightarrow> u8 list option" where
  "set_de_name off nm b = blit b (off + 8) nm"

section \<open>Looking up names\<close>

definition SLASH :: u8 where "SLASH = 47"

text \<open>The component read, if any, and the rest of the path.\<close>

definition parse_path_component :: "u8 list \<Rightarrow> nat \<Rightarrow> u8 list option \<times> u8 list" where
  "parse_path_component path max_len =
     (let p = dropWhile (\<lambda>c. c = SLASH) path in
      if p = [] then (None, p)
      else let c = take (max_len - 1) (takeWhile (\<lambda>c. c \<noteq> SLASH) p) in (Some c, drop (length c) p))"

text \<open>
  One directory block: the inode number of the entry with the given name, if the walk over
  the entries meets it.
\<close>

partial_function (option) find_scan :: "u8 list \<Rightarrow> u32 \<Rightarrow> u32 \<Rightarrow> u8 list \<Rightarrow> u32 \<Rightarrow> u32 option option" where
  "find_scan b sz bs name offset =
     (if offset < sz \<and> offset < bs then do {
        ino \<leftarrow> de_inode b (unat offset);
        nl \<leftarrow> de_name_len b (unat offset);
        hit \<leftarrow> (if ino \<noteq> 0 \<and> nl > 0
                then map_option (\<lambda>nm. cstr nm = name) (de_name b (unat offset) (unat nl)) else Some False);
        if hit then Some (Some ino)
        else do {
          rl \<leftarrow> de_rec_len b (unat offset);
          if rl = 0 then Some None else find_scan b sz bs name (offset + ucast rl) } }
      else Some None)"

fun find_blocks :: "'c ext2_filesystem \<Rightarrow> u32 \<Rightarrow> u8 list \<Rightarrow> u32 list \<Rightarrow> u8 list \<Rightarrow> u32 option" where
  "find_blocks fs sz name [] buf = Some 0"
| "find_blocks fs sz name (b # bs) buf =
     (if b = 0 then Some 0
      else do { (_, buf) \<leftarrow> ext2_read_block fs b buf;
                r \<leftarrow> find_scan buf sz (fs_bs fs) name 0;
                case r of Some i \<Rightarrow> Some i | None \<Rightarrow> find_blocks fs sz name bs buf })"

definition find_entry_in_dir ::
  "u32 \<Rightarrow> u8 list \<Rightarrow> 'c ext2_filesystem \<Rightarrow> (u32 \<times> 'c ext2_filesystem) option" where
  "find_entry_in_dir dir_inode_num name fs =
     (if dir_inode_num \<ge> sb_inodes_count (fs_sb fs) then Some (0, fs)
      else do {
        dir_inode \<leftarrow> inode_at fs dir_inode_num;
        if \<not> is_dir dir_inode then Some (0, fs)
        else case fs_kmalloc (unat (fs_bs fs)) fs of
               (None, fs) \<Rightarrow> Some (0, fs)
             | (Some block, fs) \<Rightarrow> do {
                 r \<leftarrow> find_blocks fs (i_size dir_inode) name (take 12 (i_block dir_inode)) block;
                 Some (r, fs) } })"

partial_function (option) lookup_loop ::
  "u8 list \<Rightarrow> u32 \<Rightarrow> 'c ext2_filesystem \<Rightarrow> (u32 \<times> 'c ext2_filesystem) option" where
  "lookup_loop path current_inode fs =
     (case parse_path_component path 256 of
        (None, _) \<Rightarrow> Some (current_inode, fs)
      | (Some c, rest) \<Rightarrow> do {
          (i, fs) \<leftarrow> find_entry_in_dir current_inode c fs;
          if i = 0 then Some (0, fs) else lookup_loop rest i fs })"

definition ext2_lookup_inode ::
  "u8 list option \<Rightarrow> 'c ext2_filesystem \<Rightarrow> (u32 \<times> 'c ext2_filesystem) option" where
  "ext2_lookup_inode path fs =
     (case path of
        None \<Rightarrow> Some (0, fs)
      | Some p \<Rightarrow>
          if p = [] then Some (0, fs)
          else if p = [SLASH] then Some (EXT2_ROOT_INODE, fs)
          else lookup_loop p EXT2_ROOT_INODE fs)"

section \<open>Adding an entry\<close>

definition align4 :: "u32 \<Rightarrow> u32" where
  "align4 n = (8 + n + 3) AND NOT 3"

text \<open>The fields a new entry gets, apart from \<open>rec_len\<close>.\<close>

definition fill_entry :: "nat \<Rightarrow> u32 \<Rightarrow> u8 \<Rightarrow> u8 list \<Rightarrow> u8 list \<Rightarrow> u8 list option" where
  "fill_entry off ino ft name b =
     do { b \<leftarrow> set_de_inode off ino b;
          b \<leftarrow> set_de_name_len off (of_nat (length name)) b;
          b \<leftarrow> set_de_file_type off ft b;
          set_de_name off name b }"

partial_function (option) add_scan ::
  "u8 list \<Rightarrow> u32 \<Rightarrow> u32 \<Rightarrow> u8 \<Rightarrow> u8 list \<Rightarrow> u32 \<Rightarrow> u8 list option option" where
  "add_scan b bs ino ft name offset =
     (if offset < bs then do {
        ei \<leftarrow> de_inode b (unat offset);
        nl \<leftarrow> de_name_len b (unat offset);
        rl \<leftarrow> de_rec_len b (unat offset);
        let used_len = align4 (ucast nl);
            needed_len = align4 (of_nat (length name))
        in if ei = 0 \<and> ucast rl \<ge> needed_len then
             map_option Some (fill_entry (unat offset) ino ft name b)
           else if ei \<noteq> 0 \<and> ucast rl \<ge> used_len + needed_len then do {
             b \<leftarrow> set_de_rec_len (unat offset) (ucast used_len) b;
             b \<leftarrow> set_de_rec_len (unat (offset + used_len)) (ucast (ucast rl - used_len)) b;
             map_option Some (fill_entry (unat (offset + used_len)) ino ft name b) }
           else if rl = 0 then Some None
           else add_scan b bs ino ft name (offset + ucast rl) }
      else Some None)"

text \<open>The loop over the twelve direct blocks, with \<open>n\<close> of them left from \<open>i\<close> on.\<close>

fun add_blocks ::
  "nat \<Rightarrow> nat \<Rightarrow> u32 \<Rightarrow> u32 \<Rightarrow> u8 \<Rightarrow> u8 list \<Rightarrow> u8 list \<Rightarrow> 'c ext2_filesystem \<Rightarrow> (int \<times> 'c ext2_filesystem) option" where
  "add_blocks 0 i dir ino ft name buf fs = Some (-1, fs)"
| "add_blocks (Suc n) i dir ino ft name buf fs =
     do { di \<leftarrow> inode_at fs dir;
          if i_block di ! i = 0 then do {
            (new_block, fs) \<leftarrow> ext2_alloc_block fs;
            if new_block = 0 then Some (-1, fs)
            else do {
              fs \<leftarrow> upd_inode dir (\<lambda>d. d\<lparr>i_block := (i_block d)[i := new_block], i_size := i_size d + fs_bs fs,
                                         i_blocks := i_blocks d + fs_bs fs div 512\<rparr>) fs;
              b \<leftarrow> set_de_rec_len 0 (ucast (fs_bs fs)) (replicate (unat (fs_bs fs)) 0);
              b \<leftarrow> fill_entry 0 ino ft name b;
              (_, fs) \<leftarrow> ext2_write_block fs new_block b;
              (_, fs) \<leftarrow> ext2_write_inode dir fs;
              Some (0, fs) } }
          else do {
            (_, buf) \<leftarrow> ext2_read_block fs (i_block di ! i) buf;
            r \<leftarrow> add_scan buf (fs_bs fs) ino ft name 0;
            case r of
              Some b \<Rightarrow> do { (_, fs) \<leftarrow> ext2_write_block fs (i_block di ! i) b; Some (0, fs) }
            | None \<Rightarrow> add_blocks n (i + 1) dir ino ft name buf fs } }"

definition add_entry_to_dir ::
  "u32 \<Rightarrow> u32 \<Rightarrow> u8 list \<Rightarrow> u8 \<Rightarrow> 'c ext2_filesystem \<Rightarrow> (int \<times> 'c ext2_filesystem) option" where
  "add_entry_to_dir dir ino name ft fs =
     (if dir = 0 \<or> dir \<ge> sb_inodes_count (fs_sb fs) then Some (-1, fs)
      else do {
        di \<leftarrow> inode_at fs dir;
        if \<not> is_dir di then Some (-1, fs)
        else case fs_kmalloc (unat (fs_bs fs)) fs of
               (None, fs) \<Rightarrow> Some (-1, fs)
             | (Some block, fs) \<Rightarrow> add_blocks 12 0 dir ino ft name block fs })"

section \<open>Creating files and directories\<close>

text \<open>
  Splitting a path at its last slash into the 256-byte buffers \<open>parent_path\<close> and \<open>name\<close>;
  a part that does not fit overruns its buffer.
\<close>

definition last_slash :: "u8 list \<Rightarrow> nat" where
  "last_slash path = length path - Suc (length (takeWhile (\<lambda>c. c \<noteq> SLASH) (rev path)))"

definition split_path :: "u8 list \<Rightarrow> (u8 list \<times> u8 list) option" where
  "split_path path =
     (let k = last_slash path;
          parent_path = (if k = 0 then [SLASH] else take k path);
          name = drop (k + 1) path
      in if length parent_path < 256 \<and> length name < 256 then Some (parent_path, name) else None)"

definition ext2_create :: "u8 list option \<Rightarrow> u16 \<Rightarrow> 'c ext2_filesystem \<Rightarrow> (u32 \<times> 'c ext2_filesystem) option" where
  "ext2_create path mode fs =
     (case path of
        None \<Rightarrow> Some (0, fs)
      | Some path \<Rightarrow>
          if path = [] \<or> hd path \<noteq> SLASH then Some (0, fs)
          else do {
            (parent_path, name) \<leftarrow> split_path path;
            if name = [] then Some (0, fs)
            else do {
              (parent_inode, fs) \<leftarrow> ext2_lookup_inode (Some parent_path) fs;
              if parent_inode = 0 then Some (0, fs)
              else do {
                (found, fs) \<leftarrow> find_entry_in_dir parent_inode name fs;
                if found \<noteq> 0 then Some (0, fs)
                else do {
                  (new_inode_num, fs) \<leftarrow> ext2_alloc_inode_num fs;
                  if new_inode_num = 0 then Some (0, fs)
                  else do {
                    fs \<leftarrow> upd_inode new_inode_num (\<lambda>i. i\<lparr>i_mode := (mode AND NOT EXT2_S_IFMT) OR EXT2_S_IFREG,
                            i_uid := 0, i_gid := 0, i_size := 0, i_links_count := 1, i_blocks := 0,
                            i_block := (i_block i)[0 := 0]\<rparr>) fs;
                    (r, fs) \<leftarrow> add_entry_to_dir parent_inode new_inode_num name 1 fs;
                    if r < 0 then do { fs \<leftarrow> ext2_free_inode_num new_inode_num fs; Some (0, fs) }
                    else do {
                      (_, fs) \<leftarrow> ext2_write_inode new_inode_num fs;
                      (_, fs) \<leftarrow> ext2_write_superblock fs;
                      (_, fs) \<leftarrow> ext2_write_bitmaps fs;
                      Some (new_inode_num, fs) } } } } } })"

text \<open>The first block of a directory: the entries for itself and for its parent.\<close>

definition dot_block :: "u32 \<Rightarrow> u32 \<Rightarrow> u32 \<Rightarrow> u8 list option" where
  "dot_block bs self parent =
     do { b \<leftarrow> fill_entry 0 self 2 [46] (replicate (unat bs) 0);
          b \<leftarrow> set_de_rec_len 0 12 b;
          b \<leftarrow> fill_entry 12 parent 2 [46, 46] b;
          set_de_rec_len 12 (ucast (bs - 12)) b }"

text \<open>Trailing slashes are dropped, except that a leading one stays.\<close>

definition strip_slashes :: "u8 list \<Rightarrow> u8 list" where
  "strip_slashes path =
     (case path of [] \<Rightarrow> [] | c # cs \<Rightarrow> c # rev (dropWhile (\<lambda>c. c = SLASH) (rev cs)))"

definition ext2_mkdir :: "u8 list option \<Rightarrow> u16 \<Rightarrow> 'c ext2_filesystem \<Rightarrow> (u32 \<times> 'c ext2_filesystem) option" where
  "ext2_mkdir path mode fs =
     (case path of
        None \<Rightarrow> Some (0, fs)
      | Some path \<Rightarrow>
          if path = [] \<or> hd path \<noteq> SLASH then Some (0, fs)
          else let p = strip_slashes path in
          if length p \<ge> 256 then Some (0, fs)
          else do {
            (parent_path, name) \<leftarrow> split_path p;
            if name = [] then Some (0, fs)
            else do {
              (parent_inode, fs) \<leftarrow> ext2_lookup_inode (Some parent_path) fs;
              if parent_inode = 0 then Some (0, fs)
              else do {
                (found, fs) \<leftarrow> find_entry_in_dir parent_inode name fs;
                if found \<noteq> 0 then Some (0, fs)
                else do {
                  (new_inode_num, fs) \<leftarrow> ext2_alloc_inode_num fs;
                  if new_inode_num = 0 then Some (0, fs)
                  else do {
                    (new_block, fs) \<leftarrow> ext2_alloc_block fs;
                    if new_block = 0 then do { fs \<leftarrow> ext2_free_inode_num new_inode_num fs; Some (0, fs) }
                    else do {
                      fs \<leftarrow> upd_inode new_inode_num (\<lambda>i. i\<lparr>i_mode := (mode AND NOT EXT2_S_IFMT) OR EXT2_S_IFDIR,
                              i_uid := 0, i_gid := 0, i_size := fs_bs fs, i_links_count := 2,
                              i_blocks := fs_bs fs div 512, i_block := (i_block i)[0 := new_block]\<rparr>) fs;
                      case fs_kmalloc (unat (fs_bs fs)) fs of
                        (None, fs) \<Rightarrow> do {
                          fs \<leftarrow> ext2_free_block new_block fs;
                          fs \<leftarrow> ext2_free_inode_num new_inode_num fs;
                          Some (0, fs) }
                      | (Some _, fs) \<Rightarrow> do {
                          block \<leftarrow> dot_block (fs_bs fs) new_inode_num parent_inode;
                          (_, fs) \<leftarrow> ext2_write_block fs new_block block;
                          (r, fs) \<leftarrow> add_entry_to_dir parent_inode new_inode_num name 2 fs;
                          if r < 0 then do {
                            fs \<leftarrow> ext2_free_block new_block fs;
                            fs \<leftarrow> ext2_free_inode_num new_inode_num fs;
                            Some (0, fs) }
                          else do {
                            fs \<leftarrow> upd_inode parent_inode (\<lambda>i. i\<lparr>i_links_count := i_links_count i + 1\<rparr>) fs;
                            (_, fs) \<leftarrow> ext2_write_inode new_inode_num fs;
                            (_, fs) \<leftarrow> ext2_write_inode parent_inode fs;
                            (_, fs) \<leftarrow> ext2_write_superblock fs;
                            (_, fs) \<leftarrow> ext2_write_bitmaps fs;
                            Some (new_inode_num, fs) } } } } } } } })"

section \<open>Removing\<close>

text \<open>
  The walk of \<open>ext2_unlink\<close> over one block; \<open>prev\<close> is the offset of the entry before. On a
  hit it yields the target's inode number and the block with the entry removed.
\<close>

partial_function (option) unlink_scan ::
  "u8 list \<Rightarrow> u32 \<Rightarrow> u8 list \<Rightarrow> u32 option \<Rightarrow> u32 \<Rightarrow> (u32 \<times> u8 list) option option" where
  "unlink_scan b bs name prev offset =
     (if offset < bs then do {
        rl \<leftarrow> de_rec_len b (unat offset);
        if rl = 0 then Some None
        else do {
          ei \<leftarrow> de_inode b (unat offset);
          nl \<leftarrow> de_name_len b (unat offset);
          hit \<leftarrow> (if ei \<noteq> 0 \<and> unat nl = length name
                  then map_option (\<lambda>nm. nm = name) (de_name b (unat offset) (unat nl)) else Some False);
          if hit then
            (case prev of
               Some p \<Rightarrow> do {
                 pl \<leftarrow> de_rec_len b (unat p);
                 b \<leftarrow> set_de_rec_len (unat p) (pl + rl) b;
                 Some (Some (ei, b)) }
             | None \<Rightarrow> do { b \<leftarrow> set_de_inode (unat offset) 0 b; Some (Some (ei, b)) })
          else unlink_scan b bs name (Some offset) (offset + ucast rl) } }
      else Some None)"

fun unlink_blocks ::
  "u32 list \<Rightarrow> u8 list \<Rightarrow> u8 list \<Rightarrow> 'c ext2_filesystem \<Rightarrow> (u32 \<times> u8 list \<times> 'c ext2_filesystem) option" where
  "unlink_blocks [] name buf fs = Some (0, buf, fs)"
| "unlink_blocks (b # bs) name buf fs =
     (if b = 0 then unlink_blocks bs name buf fs
      else do {
        (_, buf) \<leftarrow> ext2_read_block fs b buf;
        r \<leftarrow> unlink_scan buf (fs_bs fs) name None 0;
        case r of
          Some (target, buf) \<Rightarrow> do { (_, fs) \<leftarrow> ext2_write_block fs b buf; Some (target, buf, fs) }
        | None \<Rightarrow> unlink_blocks bs name buf fs })"

partial_function (option) count_scan :: "u8 list \<Rightarrow> u32 \<Rightarrow> u32 \<Rightarrow> nat \<Rightarrow> nat option" where
  "count_scan b bs offset n =
     (if offset < bs then do {
        rl \<leftarrow> de_rec_len b (unat offset);
        if rl = 0 then Some n
        else do { ei \<leftarrow> de_inode b (unat offset);
                  count_scan b bs (offset + ucast rl) (if ei \<noteq> 0 then n + 1 else n) } }
      else Some n)"

fun free_direct :: "nat \<Rightarrow> nat \<Rightarrow> u32 \<Rightarrow> 'c ext2_filesystem \<Rightarrow> 'c ext2_filesystem option" where
  "free_direct 0 i target fs = Some fs"
| "free_direct (Suc n) i target fs =
     do { ti \<leftarrow> inode_at fs target;
          fs \<leftarrow> (if i_block ti ! i \<noteq> 0 then do {
                   fs \<leftarrow> ext2_free_block (i_block ti ! i) fs;
                   upd_inode target (\<lambda>t. t\<lparr>i_block := (i_block t)[i := 0]\<rparr>) fs }
                 else Some fs);
          free_direct n (i + 1) target fs }"

definition ext2_unlink :: "u8 list option \<Rightarrow> 'c ext2_filesystem \<Rightarrow> (int \<times> 'c ext2_filesystem) option" where
  "ext2_unlink path fs =
     (case path of
        None \<Rightarrow> Some (-1, fs)
      | Some path \<Rightarrow>
          if path = [] \<or> hd path \<noteq> SLASH then Some (-1, fs)
          else do {
            (parent_path, name) \<leftarrow> split_path path;
            if name = [] then Some (-1, fs)
            else do {
              (parent_inode, fs) \<leftarrow> ext2_lookup_inode (Some parent_path) fs;
              if parent_inode = 0 then Some (-1, fs)
              else case fs_kmalloc (unat (fs_bs fs)) fs of
                (None, fs) \<Rightarrow> Some (-1, fs)
              | (Some block, fs) \<Rightarrow> do {
                  dir \<leftarrow> inode_at fs parent_inode;
                  (target_inode, block, fs) \<leftarrow> unlink_blocks (take 12 (i_block dir)) name block fs;
                  if target_inode = 0 then Some (-1, fs)
                  else do {
                    ti \<leftarrow> inode_at fs target_inode;
                    entries \<leftarrow> (if is_dir ti \<and> i_block ti ! 0 \<noteq> 0 then do {
                                  (_, block) \<leftarrow> ext2_read_block fs (i_block ti ! 0) block;
                                  count_scan block (fs_bs fs) 0 0 }
                                else Some 0);
                    if is_dir ti \<and> entries > 2 then Some (-2, fs)
                    else do {
                      fs \<leftarrow> free_direct 12 0 target_inode fs;
                      fs \<leftarrow> upd_inode target_inode (\<lambda>t. t\<lparr>i_links_count := 0, i_size := 0, i_blocks := 0\<rparr>) fs;
                      (_, fs) \<leftarrow> ext2_write_inode target_inode fs;
                      fs \<leftarrow> ext2_free_inode_num target_inode fs;
                      (_, fs) \<leftarrow> ext2_write_superblock fs;
                      (_, fs) \<leftarrow> ext2_write_bitmaps fs;
                      Some (0, fs) } } } } })"

section \<open>File data\<close>

text \<open>\<open>((uint32_t * )t)[idx]\<close> of a table block.\<close>

definition tab_get :: "u8 list \<Rightarrow> u32 \<Rightarrow> u32 option" where
  "tab_get t idx = map_option le_dec (slice t (4 * unat idx) 4)"

definition tab_set :: "u8 list \<Rightarrow> u32 \<Rightarrow> u32 \<Rightarrow> u8 list option" where
  "tab_set t idx v = blit t (4 * unat idx) (le_enc 4 v)"

text \<open>The local variables of \<open>ext2_read\<close> that change in its loop.\<close>

record read_vars =
  rv_buffer :: "u8 list"
  rv_read :: u64
  rv_indirect :: "u8 list option"
  rv_dind :: "u8 list option"
  rv_dind_l2 :: "u8 list option"
  rv_l2_cached :: u32

text \<open>
  The physical block of a logical index, with the table blocks kept between iterations.
  Block 0 stands for every case in which the code fills the rest with zeros and stops.
\<close>

definition read_map ::
  "ext2_inode \<Rightarrow> u32 \<Rightarrow> read_vars \<Rightarrow> 'c ext2_filesystem \<Rightarrow> (u32 \<times> read_vars \<times> 'c ext2_filesystem) option" where
  "read_map inode bi v fs =
     (let ptrs = fs_bs fs div 4 in
      if bi < 12 then Some (i_block inode ! unat bi, v, fs)
      else if bi < 12 + ptrs \<and> i_block inode ! 12 \<noteq> 0 then do {
        (r, v, fs) \<leftarrow>
          (case rv_indirect v of
             Some _ \<Rightarrow> Some (0, v, fs)
           | None \<Rightarrow>
               (case fs_kmalloc (unat (fs_bs fs)) fs of
                  (None, fs) \<Rightarrow> Some (-1, v, fs)
                | (Some t, fs) \<Rightarrow> do {
                    (r, t) \<leftarrow> ext2_read_block fs (i_block inode ! 12) t;
                    Some (r, v\<lparr>rv_indirect := Some t\<rparr>, fs) }));
        if r < 0 then Some (0, v, fs)
        else do { b \<leftarrow> tab_get (the (rv_indirect v)) (bi - 12); Some (b, v, fs) } }
      else if bi < 12 + ptrs + ptrs * ptrs \<and> i_block inode ! 13 \<noteq> 0 then do {
        let di = bi - 12 - ptrs;
        l1 \<leftarrow> div_chk di ptrs;
        let l2 = di mod ptrs;
        (r, v, fs) \<leftarrow>
          (case rv_dind v of
             Some _ \<Rightarrow> Some (0, v, fs)
           | None \<Rightarrow>
               (case fs_kmalloc (unat (fs_bs fs)) fs of
                  (None, fs) \<Rightarrow> Some (-1, v, fs)
                | (Some t, fs) \<Rightarrow> do {
                    (r, t) \<leftarrow> ext2_read_block fs (i_block inode ! 13) t;
                    Some (r, v\<lparr>rv_dind := Some t\<rparr>, fs) }));
        if r < 0 then Some (0, v, fs)
        else do {
          l2_block \<leftarrow> tab_get (the (rv_dind v)) l1;
          if l2_block = 0 then Some (0, v, fs)
          else let (p, fs) = (case rv_dind_l2 v of
                                Some t \<Rightarrow> (Some t, fs)
                              | None \<Rightarrow> fs_kmalloc (unat (fs_bs fs)) fs)
               in case p of
                    None \<Rightarrow> Some (0, v, fs)
                  | Some t \<Rightarrow> do {
                      let v = v\<lparr>rv_dind_l2 := Some t\<rparr>;
                      (r, v) \<leftarrow> (if rv_l2_cached v \<noteq> l2_block then do {
                                   (r, t) \<leftarrow> ext2_read_block fs l2_block t;
                                   Some (r, v\<lparr>rv_dind_l2 := Some t,
                                             rv_l2_cached := if r < 0 then rv_l2_cached v else l2_block\<rparr>) }
                                 else Some (0, v));
                      if r < 0 then Some (0, v, fs)
                      else do { b \<leftarrow> tab_get (the (rv_dind_l2 v)) l2; Some (b, v, fs) } } } }
      else Some (0, v, fs))"

partial_function (option) read_loop ::
  "ext2_inode \<Rightarrow> u32 \<Rightarrow> u64 \<Rightarrow> u8 list \<Rightarrow> read_vars \<Rightarrow> 'c ext2_filesystem \<Rightarrow> (read_vars \<times> 'c ext2_filesystem) option" where
  "read_loop inode offset sz block_buffer v fs =
     (if rv_read v < sz then do {
        bi \<leftarrow> div_chk (ucast offset + rv_read v) (ucast (fs_bs fs));
        let block_offset = (ucast ((ucast offset + rv_read v) mod ucast (fs_bs fs)) :: u32);
        (data_block, v, fs) \<leftarrow> read_map inode (ucast bi) v fs;
        if data_block = 0 then do {
          buf \<leftarrow> blit (rv_buffer v) (unat (rv_read v)) (replicate (unat (sz - rv_read v)) 0);
          Some (v\<lparr>rv_buffer := buf\<rparr>, fs) }
        else do {
          (r, block_buffer) \<leftarrow> ext2_read_block fs data_block block_buffer;
          if r < 0 then Some (v, fs)
          else do {
            let room = ucast (fs_bs fs - block_offset);
            let chunk = (if sz - rv_read v > room then room else sz - rv_read v);
            bs \<leftarrow> slice block_buffer (unat block_offset) (unat chunk);
            buf \<leftarrow> blit (rv_buffer v) (unat (rv_read v)) bs;
            read_loop inode offset sz block_buffer (v\<lparr>rv_buffer := buf, rv_read := rv_read v + chunk\<rparr>) fs } } }
      else Some (v, fs))"

definition ext2_read ::
  "u32 \<Rightarrow> u32 \<Rightarrow> u64 \<Rightarrow> u8 list \<Rightarrow> 'c ext2_filesystem \<Rightarrow> (int \<times> u8 list \<times> 'c ext2_filesystem) option" where
  "ext2_read inode_num offset sz buffer fs =
     (if inode_num \<ge> sb_inodes_count (fs_sb fs) then Some (-1, buffer, fs)
      else do {
        inode \<leftarrow> inode_at fs inode_num;
        if offset \<ge> i_size inode then Some (0, buffer, fs)
        else let sz = (if ucast offset + sz > ucast (i_size inode) then ucast (i_size inode - offset) else sz) in
          case fs_kmalloc (unat (fs_bs fs)) fs of
            (None, fs) \<Rightarrow> Some (-1, buffer, fs)
          | (Some block_buffer, fs) \<Rightarrow> do {
              (v, fs) \<leftarrow> read_loop inode offset sz block_buffer
                 \<lparr>rv_buffer = buffer, rv_read = 0, rv_indirect = None, rv_dind = None, rv_dind_l2 = None, rv_l2_cached = 0\<rparr> fs;
              Some (sint (rv_read v), rv_buffer v, fs) } })"

definition ext2_ptr_get :: "u32 \<Rightarrow> u32 \<Rightarrow> 'c ext2_filesystem \<Rightarrow> (u32 \<times> 'c ext2_filesystem) option" where
  "ext2_ptr_get table_block idx fs =
     (case fs_kmalloc (unat (fs_bs fs)) fs of
        (None, fs) \<Rightarrow> Some (0, fs)
      | (Some t, fs) \<Rightarrow> do {
          (r, t) \<leftarrow> ext2_read_block fs table_block t;
          if r < 0 then Some (0, fs) else do { v \<leftarrow> tab_get t idx; Some (v, fs) } })"

definition ext2_ptr_set :: "u32 \<Rightarrow> u32 \<Rightarrow> u32 \<Rightarrow> 'c ext2_filesystem \<Rightarrow> 'c ext2_filesystem option" where
  "ext2_ptr_set table_block idx val fs =
     (case fs_kmalloc (unat (fs_bs fs)) fs of
        (None, fs) \<Rightarrow> Some fs
      | (Some t, fs) \<Rightarrow> do {
          (r, t) \<leftarrow> ext2_read_block fs table_block t;
          let t = (if r < 0 then replicate (unat (fs_bs fs)) 0 else t);
          t \<leftarrow> tab_set t idx val;
          (_, fs) \<leftarrow> ext2_write_block fs table_block t;
          Some fs })"

definition zero_table :: "u32 \<Rightarrow> 'c ext2_filesystem \<Rightarrow> 'c ext2_filesystem option" where
  "zero_table nb fs =
     (case fs_kmalloc (unat (fs_bs fs)) fs of
        (None, fs) \<Rightarrow> Some fs
      | (Some _, fs) \<Rightarrow> do {
          (_, fs) \<leftarrow> ext2_write_block fs nb (replicate (unat (fs_bs fs)) 0);
          Some fs })"

text \<open>\<open>inode->block[k] = nb; inode->blocks += sectors\<close>, and the second half alone.\<close>

definition link_block :: "u32 \<Rightarrow> nat \<Rightarrow> u32 \<Rightarrow> 'c ext2_filesystem \<Rightarrow> 'c ext2_filesystem option" where
  "link_block n k nb fs =
     upd_inode n (\<lambda>i. i\<lparr>i_block := (i_block i)[k := nb], i_blocks := i_blocks i + fs_bs fs div 512\<rparr>) fs"

definition count_block :: "u32 \<Rightarrow> 'c ext2_filesystem \<Rightarrow> 'c ext2_filesystem option" where
  "count_block n fs = upd_inode n (\<lambda>i. i\<lparr>i_blocks := i_blocks i + fs_bs fs div 512\<rparr>) fs"

text \<open>The table block in slot \<open>k\<close> of the inode, allocated and cleared if there is none yet.\<close>

definition table_slot :: "u32 \<Rightarrow> nat \<Rightarrow> 'c ext2_filesystem \<Rightarrow> (u32 \<times> 'c ext2_filesystem) option" where
  "table_slot n k fs =
     do { i \<leftarrow> inode_at fs n;
          if i_block i ! k = 0 then do {
            (nb, fs) \<leftarrow> ext2_alloc_block fs;
            if nb = 0 then Some (0, fs)
            else do { fs \<leftarrow> zero_table nb fs; fs \<leftarrow> link_block n k nb fs; Some (nb, fs) } }
          else Some (i_block i ! k, fs) }"

text \<open>The data block in entry \<open>idx\<close> of a table, allocated if there is none yet.\<close>

definition data_slot :: "u32 \<Rightarrow> u32 \<Rightarrow> u32 \<Rightarrow> 'c ext2_filesystem \<Rightarrow> (u32 \<times> 'c ext2_filesystem) option" where
  "data_slot n tb idx fs =
     do { (db, fs) \<leftarrow> ext2_ptr_get tb idx fs;
          if db = 0 then do {
            (db, fs) \<leftarrow> ext2_alloc_block fs;
            if db = 0 then Some (0, fs)
            else do { fs \<leftarrow> ext2_ptr_set tb idx db fs; fs \<leftarrow> count_block n fs; Some (db, fs) } }
          else Some (db, fs) }"

definition ext2_bmap_alloc :: "u32 \<Rightarrow> u32 \<Rightarrow> 'c ext2_filesystem \<Rightarrow> (u32 \<times> 'c ext2_filesystem) option" where
  "ext2_bmap_alloc n bi fs =
     (let ptrs = fs_bs fs div 4 in
      if bi < 12 then do {
        i \<leftarrow> inode_at fs n;
        if i_block i ! unat bi = 0 then do {
          (nb, fs) \<leftarrow> ext2_alloc_block fs;
          if nb = 0 then Some (0, fs)
          else do { fs \<leftarrow> link_block n (unat bi) nb fs; Some (nb, fs) } }
        else Some (i_block i ! unat bi, fs) }
      else if bi < 12 + ptrs then do {
        (tb, fs) \<leftarrow> table_slot n 12 fs;
        if tb = 0 then Some (0, fs) else data_slot n tb (bi - 12) fs }
      else if bi < 12 + ptrs + ptrs * ptrs then do {
        let di = bi - 12 - ptrs;
        l1 \<leftarrow> div_chk di ptrs;
        (tb, fs) \<leftarrow> table_slot n 13 fs;
        if tb = 0 then Some (0, fs)
        else do {
          (l2blk, fs) \<leftarrow> ext2_ptr_get tb l1 fs;
          (l2blk, fs) \<leftarrow> (if l2blk = 0 then do {
                            (nb, fs) \<leftarrow> ext2_alloc_block fs;
                            if nb = 0 then Some (0, fs)
                            else do {
                              fs \<leftarrow> zero_table nb fs;
                              fs \<leftarrow> ext2_ptr_set tb l1 nb fs;
                              fs \<leftarrow> count_block n fs;
                              Some (nb, fs) } }
                          else Some (l2blk, fs));
          if l2blk = 0 then Some (0, fs) else data_slot n l2blk (di mod ptrs) fs } }
      else Some (0, fs))"

definition ext2_truncate :: "u8 list option \<Rightarrow> 'c ext2_filesystem \<Rightarrow> (int \<times> 'c ext2_filesystem) option" where
  "ext2_truncate path fs =
     do { (inode_num, fs) \<leftarrow> ext2_lookup_inode path fs;
          if inode_num = 0 \<or> inode_num \<ge> sb_inodes_count (fs_sb fs) then Some (-1, fs)
          else do {
            fs \<leftarrow> upd_inode inode_num (\<lambda>i. i\<lparr>i_size := 0\<rparr>) fs;
            (_, fs) \<leftarrow> ext2_write_inode inode_num fs;
            Some (0, fs) } }"

partial_function (option) write_loop ::
  "u32 \<Rightarrow> u32 \<Rightarrow> u64 \<Rightarrow> u8 list \<Rightarrow> u64 \<Rightarrow> u8 list \<Rightarrow> 'c ext2_filesystem \<Rightarrow> (u64 \<times> 'c ext2_filesystem) option" where
  "write_loop n offset sz buffer written block_buffer fs =
     (if written < sz then do {
        bi \<leftarrow> div_chk (ucast offset + written) (ucast (fs_bs fs));
        let block_offset = (ucast ((ucast offset + written) mod ucast (fs_bs fs)) :: u32);
        (data_block, fs) \<leftarrow> ext2_bmap_alloc n (ucast bi) fs;
        if data_block = 0 then Some (written, fs)
        else do {
          (_, block_buffer) \<leftarrow> (if block_offset \<noteq> 0 \<or> sz - written < ucast (fs_bs fs)
                                then ext2_read_block fs data_block block_buffer else Some (0, block_buffer));
          let room = ucast (fs_bs fs - block_offset);
          let chunk = (if sz - written > room then room else sz - written);
          bs \<leftarrow> slice buffer (unat written) (unat chunk);
          block_buffer \<leftarrow> blit block_buffer (unat block_offset) bs;
          (_, fs) \<leftarrow> ext2_write_block fs data_block block_buffer;
          write_loop n offset sz buffer (written + chunk) block_buffer fs } }
      else Some (written, fs))"

definition ext2_write ::
  "u32 \<Rightarrow> u32 \<Rightarrow> u64 \<Rightarrow> u8 list \<Rightarrow> 'c ext2_filesystem \<Rightarrow> (int \<times> 'c ext2_filesystem) option" where
  "ext2_write inode_num offset sz buffer fs =
     (if inode_num \<ge> sb_inodes_count (fs_sb fs) then Some (-1, fs)
      else do {
        inode \<leftarrow> inode_at fs inode_num;
        if is_dir inode then Some (-1, fs)
        else case fs_kmalloc (unat (fs_bs fs)) fs of
               (None, fs) \<Rightarrow> Some (-1, fs)
             | (Some block_buffer, fs) \<Rightarrow> do {
                 (written, fs) \<leftarrow> write_loop inode_num offset sz buffer 0 block_buffer fs;
                 fs \<leftarrow> upd_inode inode_num (\<lambda>i. if ucast offset + written > ucast (i_size i)
                         then i\<lparr>i_size := ucast (ucast offset + written)\<rparr> else i) fs;
                 (_, fs) \<leftarrow> ext2_write_inode inode_num fs;
                 (_, fs) \<leftarrow> ext2_write_superblock fs;
                 (_, fs) \<leftarrow> ext2_write_bitmaps fs;
                 Some (sint written, fs) } })"

section \<open>Listing, status, unmounting\<close>

record ext2_dir_entry =
  d_inode :: u32
  d_rec_len :: u16
  d_name_len :: u8
  d_file_type :: u8
  d_name :: "u8 list"

partial_function (option) readdir_scan ::
  "u8 list \<Rightarrow> u32 \<Rightarrow> u32 \<Rightarrow> int \<Rightarrow> u32 \<Rightarrow> ext2_dir_entry list \<Rightarrow> ext2_dir_entry list option" where
  "readdir_scan b sz bs max_entries offset es =
     (if offset < sz \<and> offset < bs \<and> int (length es) < max_entries then do {
        rl \<leftarrow> de_rec_len b (unat offset);
        if rl = 0 then Some es
        else do {
          ino \<leftarrow> de_inode b (unat offset);
          nl \<leftarrow> de_name_len b (unat offset);
          es \<leftarrow> (if ino \<noteq> 0 \<and> nl > 0 then do {
                   ft \<leftarrow> de_file_type b (unat offset);
                   nm \<leftarrow> de_name b (unat offset) (unat nl);
                   Some (es @ [\<lparr>d_inode = ino, d_rec_len = rl, d_name_len = nl, d_file_type = ft, d_name = nm\<rparr>]) }
                 else Some es);
          readdir_scan b sz bs max_entries (offset + ucast rl) es } }
      else Some es)"

fun readdir_blocks ::
  "'c ext2_filesystem \<Rightarrow> u32 \<Rightarrow> int \<Rightarrow> u32 list \<Rightarrow> u8 list \<Rightarrow> ext2_dir_entry list \<Rightarrow> ext2_dir_entry list option" where
  "readdir_blocks fs sz max_entries [] buf es = Some es"
| "readdir_blocks fs sz max_entries (b # bs) buf es =
     (if b \<noteq> 0 \<and> int (length es) < max_entries then do {
        (_, buf) \<leftarrow> ext2_read_block fs b buf;
        es \<leftarrow> readdir_scan buf sz (fs_bs fs) max_entries 0 es;
        readdir_blocks fs sz max_entries bs buf es }
      else Some es)"

definition ext2_readdir ::
  "u32 \<Rightarrow> int \<Rightarrow> 'c ext2_filesystem \<Rightarrow> (ext2_dir_entry list \<times> 'c ext2_filesystem) option" where
  "ext2_readdir inode_num max_entries fs =
     (if inode_num \<ge> sb_inodes_count (fs_sb fs) \<or> max_entries \<le> 0 then Some ([], fs)
      else do {
        inode \<leftarrow> inode_at fs inode_num;
        if \<not> is_dir inode then Some ([], fs)
        else case fs_kmalloc (unat (fs_bs fs)) fs of
               (None, fs) \<Rightarrow> Some ([], fs)
             | (Some block, fs) \<Rightarrow> do {
                 es \<leftarrow> readdir_blocks fs (i_size inode) max_entries (take 12 (i_block inode)) block [];
                 Some (es, fs) } })"

definition ext2_stat :: "u32 \<Rightarrow> 'c ext2_filesystem \<Rightarrow> (int \<times> ext2_inode option) option" where
  "ext2_stat inode_num fs =
     (if inode_num \<ge> sb_inodes_count (fs_sb fs) then Some (-1, None)
      else do { i \<leftarrow> inode_at fs inode_num; Some (0, Some i) })"

definition zero_sb :: ext2_superblock where
  "zero_sb = ext2_superblock_of (replicate 1016 0)"

definition zero_inode :: ext2_inode where
  "zero_inode = ext2_inode_of (replicate 256 0)"

text \<open>\<open>memset(fs, 0, sizeof( *fs))\<close>; \<open>dev\<close> is the device the next statement sets.\<close>

definition reset_fs :: "'c ramdisk_device \<Rightarrow> 'c ext2_filesystem \<Rightarrow> 'c ext2_filesystem" where
  "reset_fs dev fs =
     fs\<lparr>fs_device := dev, fs_sb := zero_sb, block_bitmap := [], inode_bitmap := [], inode_table := []\<rparr>"

text \<open>
  The null device pointer that \<open>ext2_unmount\<close> leaves behind: every access to the device first
  divides by its block size, so that a block size of zero makes it undefined, as the access
  through the null pointer is. The device itself is the one of the state before.
\<close>

definition null_device :: "'c ramdisk_device \<Rightarrow> 'c ramdisk_device" where
  "null_device d = d\<lparr>rd_data := None, rd_size := 0, rd_block_size := 0, rd_block_count := 0, read_fn := None, write_fn := None\<rparr>"

definition ext2_unmount :: "'c ext2_filesystem \<Rightarrow> 'c ext2_filesystem" where
  "ext2_unmount fs = reset_fs (null_device (fs_device fs)) fs"

section \<open>Formatting and mounting\<close>

fun mark_blocks :: "nat \<Rightarrow> u32 \<Rightarrow> u8 list \<Rightarrow> u8 list option" where
  "mark_blocks 0 i bm = Some bm"
| "mark_blocks (Suc n) i bm = do { bm \<leftarrow> bitmap_set bm i; mark_blocks n (i + 1) bm }"

fun write_table_loop :: "nat \<Rightarrow> u32 \<Rightarrow> u32 \<Rightarrow> 'c ext2_filesystem \<Rightarrow> 'c ext2_filesystem option" where
  "write_table_loop 0 i it_start fs = Some fs"
| "write_table_loop (Suc n) i it_start fs =
     do { bs \<leftarrow> slice (concat (map ext2_inode_bytes (inode_table fs))) (unat (i * fs_bs fs)) (unat (fs_bs fs));
          (_, fs) \<leftarrow> ext2_write_block fs (it_start + i) bs;
          write_table_loop n (i + 1) it_start fs }"

text \<open>The files seeded under \<open>/etc\<close>, with their contents and modes.\<close>

definition seeds :: "(string \<times> string \<times> u16) list" where
  "seeds =
     [(''/etc/passwd'', ''root:x:0:0:Root:/root:/bin/sh'' @ [CHR 0x0A], 0x1A4),
      (''/etc/shadow'', ''root:'' @ [CHR 0x0A], 0x180),
      (''/etc/group'', ''root:x:0:'' @ [CHR 0x0A], 0x1A4),
      (''/etc/hostname'', ''vibeos'' @ [CHR 0x0A], 0x1A4),
      (''/etc/issue'', ''VibeOS '' @ [CHR 0x5C] @ ''r (kernel '' @ [CHR 0x5C] @ ''v)'' @ [CHR 0x5C, CHR 0x0A, CHR 0x5C] @ ''n'', 0x1A4)]"

fun seed_files :: "(string \<times> string \<times> u16) list \<Rightarrow> 'c ext2_filesystem \<Rightarrow> 'c ext2_filesystem option" where
  "seed_files [] fs = Some fs"
| "seed_files ((path, dat, mode) # ss) fs =
     do { (ino, fs) \<leftarrow> ext2_create (Some (ascii path)) mode fs;
          fs \<leftarrow> (if ino \<noteq> 0 then do { (_, fs) \<leftarrow> ext2_write ino 0 (of_nat (length dat)) (ascii dat) fs; Some fs }
                else Some fs);
          seed_files ss fs }"

definition ext2_format :: "'c ramdisk_device \<Rightarrow> 'c ext2_filesystem \<Rightarrow> (int \<times> 'c ext2_filesystem) option" where
  "ext2_format device fs =
     do {
       let blocks_count = ucast (rd_size device div ucast EXT2_BLOCK_SIZE) :: u32;
           inodes_count = (if 1024 > blocks_count div 4 then blocks_count div 4 else 1024);
           inode_table_size = inodes_count * 256;
           inode_table_blocks = (inode_table_size + EXT2_BLOCK_SIZE - 1) div EXT2_BLOCK_SIZE;
           bb_blks_f = (blocks_count + 8 * EXT2_BLOCK_SIZE - 1) div (8 * EXT2_BLOCK_SIZE);
           it_start = 2 + bb_blks_f + 1;
           first_data = it_start + inode_table_blocks;
           fs = (reset_fs device fs)
             \<lparr>fs_sb := zero_sb\<lparr>sb_magic := EXT2_MAGIC, sb_version := 1, sb_block_size := EXT2_BLOCK_SIZE,
                sb_blocks_count := blocks_count, sb_free_blocks := blocks_count, sb_inodes_count := inodes_count,
                sb_free_inodes := inodes_count, sb_first_data_block := first_data,
                sb_blocks_per_group := 8192, sb_inodes_per_group := 2048\<rparr>\<rparr>;
           block_bitmap_size = (blocks_count + 7) div 8;
           inode_bitmap_size = (inodes_count + 7) div 8
       in case fs_kmalloc (unat block_bitmap_size) fs of
         (None, fs) \<Rightarrow> Some (-1, fs)
       | (Some _, fs) \<Rightarrow>
       (case fs_kmalloc (unat inode_bitmap_size) (fs\<lparr>block_bitmap := replicate (unat block_bitmap_size) 0\<rparr>) of
         (None, fs) \<Rightarrow> Some (-1, fs\<lparr>block_bitmap := []\<rparr>)
       | (Some _, fs) \<Rightarrow>
       (case fs_kmalloc (unat inode_table_size) (fs\<lparr>inode_bitmap := replicate (unat inode_bitmap_size) 0\<rparr>) of
         (None, fs) \<Rightarrow> Some (-1, fs\<lparr>block_bitmap := [], inode_bitmap := []\<rparr>)
       | (Some _, fs) \<Rightarrow> do {
           let fs = fs\<lparr>inode_table := replicate (unat inodes_count) zero_inode\<rparr>;
           bm \<leftarrow> mark_blocks (unat first_data) 0 (block_bitmap fs);
           let fs = upd_sb (\<lambda>sb. sb\<lparr>sb_free_blocks := sb_blocks_count sb - sb_first_data_block sb\<rparr>) (fs\<lparr>block_bitmap := bm\<rparr>);
           fs \<leftarrow> upd_inode EXT2_ROOT_INODE (\<lambda>i. i\<lparr>i_mode := EXT2_S_IFDIR OR 0x1ED, i_uid := 0, i_gid := 0,
                   i_size := EXT2_BLOCK_SIZE, i_links_count := 2\<rparr>) fs;
           ib \<leftarrow> bitmap_set (inode_bitmap fs) (EXT2_ROOT_INODE - 1);
           let fs = upd_sb (\<lambda>sb. sb\<lparr>sb_free_inodes := sb_free_inodes sb - 1\<rparr>) (fs\<lparr>inode_bitmap := ib\<rparr>);
           (root_block, fs) \<leftarrow> ext2_alloc_block fs;
           fs \<leftarrow> upd_inode EXT2_ROOT_INODE (\<lambda>i. i\<lparr>i_block := (i_block i)[0 := root_block],
                   i_blocks := EXT2_BLOCK_SIZE div 512\<rparr>) fs;
           case fs_kmalloc (unat EXT2_BLOCK_SIZE) fs of
             (None, fs) \<Rightarrow> None
           | (Some _, fs) \<Rightarrow> do {
               dir_block \<leftarrow> dot_block EXT2_BLOCK_SIZE EXT2_ROOT_INODE EXT2_ROOT_INODE;
               (_, fs) \<leftarrow> ext2_write_block fs root_block dir_block;
               (_, fs) \<leftarrow> ext2_write_superblock fs;
               (_, fs) \<leftarrow> ext2_write_bitmaps fs;
               fs \<leftarrow> write_table_loop (unat inode_table_blocks) 0 it_start fs;
               (_, fs) \<leftarrow> ext2_mkdir (Some (ascii ''/home'')) 0x1ED fs;
               (_, fs) \<leftarrow> ext2_mkdir (Some (ascii ''/bin'')) 0x1ED fs;
               (_, fs) \<leftarrow> ext2_mkdir (Some (ascii ''/etc'')) 0x1ED fs;
               fs \<leftarrow> seed_files seeds fs;
               Some (0, fs) } })) }"

text \<open>
  Loading the block bitmap: block \<open>2 + i\<close> is read into \<open>block\<close> and copied into place. The
  device block number is computed in 32 bits here.
\<close>

definition mount_read :: "'c ext2_filesystem \<Rightarrow> u32 \<Rightarrow> u8 list \<Rightarrow> u8 list option" where
  "mount_read fs blk block =
     do { n \<leftarrow> div_chk (blk * fs_bs fs) (rd_block_size (fs_device fs));
          (_, block) \<leftarrow> ramdisk_read (fs_device fs) (ucast n) block (ucast (fs_bs fs));
          Some block }"

fun load_bb_loop :: "nat \<Rightarrow> u32 \<Rightarrow> u32 \<Rightarrow> u8 list \<Rightarrow> 'c ext2_filesystem \<Rightarrow> (u8 list \<times> 'c ext2_filesystem) option" where
  "load_bb_loop 0 i sz block fs = Some (block, fs)"
| "load_bb_loop (Suc n) i sz block fs =
     (let off = ucast i * ucast (fs_bs fs) :: u64;
          len = (if off + ucast (fs_bs fs) > ucast sz then ucast sz - off else ucast (fs_bs fs))
      in do { block \<leftarrow> mount_read fs (2 + i) block;
              bs \<leftarrow> slice block 0 (unat len);
              bm \<leftarrow> blit (block_bitmap fs) (unat off) bs;
              load_bb_loop n (i + 1) sz block (fs\<lparr>block_bitmap := bm\<rparr>) })"

text \<open>Loading the inodes from \<open>i\<close> on; \<open>last_blk\<close> is the number of the block in the buffer.\<close>

fun load_inodes ::
  "nat \<Rightarrow> u32 \<Rightarrow> u32 \<Rightarrow> u32 \<Rightarrow> u8 list \<Rightarrow> 'c ext2_filesystem \<Rightarrow> ext2_inode list option" where
  "load_inodes 0 i it_start last_blk block fs = Some []"
| "load_inodes (Suc n) i it_start last_blk block fs =
     do { q \<leftarrow> div_chk (ucast i * 256) (ucast (fs_bs fs) :: u64);
          let num = ucast (ucast it_start + q) :: u32;
              off = ucast ((ucast i * 256) mod (ucast (fs_bs fs) :: u64)) :: u32
          in do {
            block \<leftarrow> (if num \<noteq> last_blk then mount_read fs num block else Some block);
            bs \<leftarrow> slice block (unat off) 256;
            is \<leftarrow> load_inodes n (i + 1) it_start num block fs;
            Some (ext2_inode_of bs # is) } }"

text \<open>
  The second half of \<open>ext2_mount\<close>: bitmaps and inode table, once the superblock is known. A bitmap
  that is freed again counts as absent. When the last allocation fails, the inode table stays
  allocated with whatever its memory held.
\<close>

definition raw_inodes :: "u8 list \<Rightarrow> ext2_inode list" where
  "raw_inodes bs = map (\<lambda>i. ext2_inode_of (take 256 (drop (256 * i) bs))) [0..<length bs div 256]"

definition load_metadata :: "'c ext2_filesystem \<Rightarrow> (int \<times> 'c ext2_filesystem) option" where
  "load_metadata fs =
     (let block_bitmap_size = (sb_blocks_count (fs_sb fs) + 7) div 8;
          inode_bitmap_size = (sb_inodes_count (fs_sb fs) + 7) div 8;
          inode_table_size = ucast (ucast (sb_inodes_count (fs_sb fs)) * 256 :: u64) :: u32
      in case fs_kmalloc (unat block_bitmap_size) fs of
        (None, fs) \<Rightarrow> Some (-1, fs)
      | (Some bm, fs) \<Rightarrow>
      (case fs_kmalloc (unat inode_bitmap_size) (fs\<lparr>block_bitmap := bm\<rparr>) of
        (None, fs) \<Rightarrow> Some (-1, fs\<lparr>block_bitmap := []\<rparr>)
      | (Some ib, fs) \<Rightarrow>
      (case fs_kmalloc (unat (fs_bs fs)) (fs\<lparr>inode_bitmap := ib\<rparr>) of
        (None, fs) \<Rightarrow> Some (-1, fs\<lparr>block_bitmap := [], inode_bitmap := []\<rparr>)
      | (Some block, fs) \<Rightarrow> do {
          bb \<leftarrow> bb_blks fs;
          (block, fs) \<leftarrow> load_bb_loop (unat bb) 0 block_bitmap_size block fs;
          block \<leftarrow> mount_read fs (2 + bb) block;
          bs \<leftarrow> slice block 0 (unat inode_bitmap_size);
          ib \<leftarrow> blit (inode_bitmap fs) 0 bs;
          case fs_kmalloc (unat inode_table_size) (fs\<lparr>inode_bitmap := ib\<rparr>) of
            (None, fs) \<Rightarrow> Some (-1, fs\<lparr>block_bitmap := [], inode_bitmap := []\<rparr>)
          | (Some raw, fs) \<Rightarrow>
          (case fs_kmalloc (unat (fs_bs fs)) fs of
            (None, fs) \<Rightarrow> Some (-1, fs\<lparr>inode_table := raw_inodes raw\<rparr>)
          | (Some inode_block, fs) \<Rightarrow>
              if unat inode_table_size < 256 * unat (sb_inodes_count (fs_sb fs)) then None
              else do {
                is \<leftarrow> load_inodes (unat (sb_inodes_count (fs_sb fs))) 0 (2 + bb + 1) 0xFFFFFFFF inode_block fs;
                Some (0, fs\<lparr>inode_table := is\<rparr>) }) })))"

definition ext2_mount :: "'c ramdisk_device \<Rightarrow> 'c ext2_filesystem \<Rightarrow> (int \<times> 'c ext2_filesystem) option" where
  "ext2_mount device fs =
     (let fs = reset_fs device fs in
      do {
        q \<leftarrow> div_chk 1024 (ucast (rd_block_size device) :: u64);
        let sb_block = (if q = 0 then 1 else q);
        (read_result, block) \<leftarrow> ramdisk_read device sb_block (g_ext2_sb_buffer fs) (ucast EXT2_BLOCK_SIZE);
        let fs = fs\<lparr>g_ext2_sb_buffer := block\<rparr>;
        if read_result < 0 then Some (-1, fs)
        else let sb = ext2_superblock_of block in
        if sb_magic sb \<noteq> EXT2_MAGIC then ext2_format device fs
        else if sb_log_block_size sb \<ge> 64 then None
        else load_metadata (fs\<lparr>fs_sb := sb\<lparr>sb_block_size := ucast (push_bit (unat (sb_log_block_size sb)) (1024 :: u64)),
                                            sb_version := 1\<rparr>\<rparr>) })"

end
