(* ===== verification/Vfs.thy ===== *)
theory Vfs
  imports Ext2 Errno
begin

text \<open>
  The virtual file system of \<open>kernel/src/vfs.c\<close>: files embedded in the kernel image, an
  in-memory overlay of up to 32 user files, and the mounted ext2 file system, tried in the
  order each operation has. A path is the list of its bytes before the terminating zero, and
  a null pointer is \<open>None\<close>. \<open>None\<close> as the value of an operation is undefined behaviour (a
  null pointer or an access outside an object). \<open>uid\<close> is the user of the running process. The
  results a caller passes a pointer for (\<open>stat\<close>, \<open>entry\<close>, \<open>ino_out\<close>) are results of the
  model; the early returns for a null pointer there are not modelled.
\<close>

section \<open>State\<close>

definition VFS_USER_MAX_FILES :: nat where "VFS_USER_MAX_FILES = 32"
definition VFS_USER_MAX_SIZE :: u64 where "VFS_USER_MAX_SIZE = 8192"

record vfs_user_file =
  uf_path :: "u8 list"
  uf_data :: "u8 list"
  uf_size :: u64
  uf_used :: bool

record vfs_file =
  f_path :: "u8 list"
  f_data :: "u8 list"

datatype vfs_node_kind = VFS_NODE_NONE | VFS_NODE_FILE | VFS_NODE_DIRECTORY

record vfs_stat =
  st_kind :: vfs_node_kind
  st_size :: u64
  st_mode :: u16
  st_uid :: u16
  st_gid :: u16

record vfs_dir_entry =
  ent_name :: "u8 list"
  ent_kind :: vfs_node_kind
  ent_size :: u64

text \<open>
  The globals; \<open>user_sh\<close> and \<open>user_edit\<close> are the program images the build links in.
\<close>

record 'c vfs =
  g_user_files :: "vfs_user_file list"
  g_ext2 :: "'c ext2_filesystem option"
  user_sh :: "u8 list"
  user_edit :: "u8 list"

definition vfs_set_ext2 :: "'c ext2_filesystem option \<Rightarrow> 'c vfs \<Rightarrow> 'c vfs" where
  "vfs_set_ext2 fs v = v\<lparr>g_ext2 := fs\<rparr>"

definition vfs_get_ext2 :: "'c vfs \<Rightarrow> 'c ext2_filesystem option" where
  "vfs_get_ext2 v = g_ext2 v"

section \<open>Embedded files\<close>

definition ascii_lower :: "u8 \<Rightarrow> u8" where
  "ascii_lower c = (if 65 \<le> c \<and> c \<le> 90 then c + 32 else c)"

fun string_equals_ci :: "u8 list \<Rightarrow> u8 list \<Rightarrow> bool" where
  "string_equals_ci (l # ls) (r # rs) = (if ascii_lower l \<noteq> ascii_lower r then False else string_equals_ci ls rs)"
| "string_equals_ci ls rs = (ls = [] \<and> rs = [])"

text \<open>The string literal of the source has a backslash and an \<open>n\<close> where it ends its lines.\<close>

definition g_motd_data :: "u8 list" where
  "g_motd_data = ascii ''WELCOME TO VIBEOS'' @ [92, 110] @ ascii ''READ ONLY VFS ONLINE'' @ [92, 110]"

definition g_vfs_files :: "'c vfs \<Rightarrow> vfs_file list" where
  "g_vfs_files v =
     [\<lparr>f_path = ascii ''/bin/sh'', f_data = user_sh v\<rparr>,
      \<lparr>f_path = ascii ''/bin/edit'', f_data = user_edit v\<rparr>,
      \<lparr>f_path = ascii ''/etc/motd'', f_data = g_motd_data\<rparr>]"

definition vfs_lookup :: "u8 list option \<Rightarrow> 'c vfs \<Rightarrow> vfs_file option" where
  "vfs_lookup path v =
     (case path of None \<Rightarrow> None | Some p \<Rightarrow> find (\<lambda>f. string_equals_ci p (f_path f)) (g_vfs_files v))"

definition vfs_file_size :: "vfs_file option \<Rightarrow> u64" where
  "vfs_file_size f = (case f of None \<Rightarrow> 0 | Some f \<Rightarrow> of_nat (length (f_data f)))"

section \<open>Status\<close>

text \<open>The result and the status record, which only a success fills in.\<close>

definition ext2_vfs_stat :: "u8 list \<Rightarrow> vfs_stat \<Rightarrow> 'c vfs \<Rightarrow> (int \<times> vfs_stat \<times> 'c vfs) option" where
  "ext2_vfs_stat path stat v =
     (case g_ext2 v of
        None \<Rightarrow> Some (0, stat, v)
      | Some fs \<Rightarrow> do {
          (ino, fs) \<leftarrow> ext2_lookup_inode (Some path) fs;
          let v = v\<lparr>g_ext2 := Some fs\<rparr>;
          if ino = 0 then Some (0, stat, v)
          else do {
            (r, inode) \<leftarrow> ext2_stat ino fs;
            case inode of
              None \<Rightarrow> Some (0, stat, v)
            | Some i \<Rightarrow>
                Some (1, \<lparr>st_kind = (if is_dir i then VFS_NODE_DIRECTORY else VFS_NODE_FILE), st_size = ucast (i_size i),
                          st_mode = i_mode i AND 0x1FF, st_uid = i_uid i, st_gid = i_gid i\<rparr>, v) } })"

text \<open>Is the path a proper directory prefix of a user file's path?\<close>

definition user_dir_prefix :: "u8 list \<Rightarrow> vfs_user_file \<Rightarrow> bool" where
  "user_dir_prefix p f \<longleftrightarrow> uf_used f \<and> length (uf_path f) > length p \<and> uf_path f ! length p = SLASH \<and>
     take (length p) (uf_path f) = p"

definition vfs_stat_path :: "u8 list option \<Rightarrow> vfs_stat \<Rightarrow> 'c vfs \<Rightarrow> (int \<times> vfs_stat \<times> 'c vfs) option" where
  "vfs_stat_path path stat v =
     (case path of
        None \<Rightarrow> Some (0, stat, v)
      | Some path \<Rightarrow>
          if length path \<ge> 64 then Some (0, stat, v)
          else let p = (if length path > 1 \<and> last path = SLASH then butlast path else path) in
          (case vfs_lookup (Some p) v of
             Some f \<Rightarrow> Some (1, stat\<lparr>st_kind := VFS_NODE_FILE, st_size := vfs_file_size (Some f)\<rparr>, v)
           | None \<Rightarrow> do {
               (r, stat, v) \<leftarrow> ext2_vfs_stat p stat v;
               if r \<noteq> 0 then Some (1, stat, v)
               else if string_equals_ci p (ascii ''/'') \<or> string_equals_ci p (ascii ''/bin'') \<or>
                       string_equals_ci p (ascii ''/etc'') \<or> string_equals_ci p (ascii ''/home'')
               then Some (1, stat\<lparr>st_kind := VFS_NODE_DIRECTORY, st_size := 0\<rparr>, v)
               else if \<exists>f \<in> set (g_user_files v). user_dir_prefix p f
               then Some (1, stat\<lparr>st_kind := VFS_NODE_DIRECTORY, st_size := 0\<rparr>, v)
               else Some (0, stat, v) }))"

section \<open>Listing\<close>

text \<open>A name directly under a directory: not empty and without a further slash.\<close>

definition leaf :: "u8 list \<Rightarrow> u8 list option" where
  "leaf name = (if name \<noteq> [] \<and> SLASH \<notin> set name then Some name else None)"

definition effective_dir :: "u8 list \<Rightarrow> u8 list" where
  "effective_dir dir = (if length dir > 1 \<and> last dir = SLASH then butlast dir else dir)"

text \<open>The rest of \<open>fpath\<close> below the directory, where \<open>key\<close> is what the comparison looks at.\<close>

definition below :: "(u8 \<Rightarrow> u8) \<Rightarrow> u8 list \<Rightarrow> u8 list \<Rightarrow> u8 list option" where
  "below key dir fpath =
     (let k = length dir in
      if k < length fpath \<and> map key (take k fpath) = map key dir \<and> fpath ! k = SLASH
      then leaf (drop (k + 1) fpath) else None)"

definition embedded_child :: "u8 list \<Rightarrow> vfs_file \<Rightarrow> vfs_dir_entry list" where
  "embedded_child dir f =
     (case (if effective_dir dir = [SLASH] then leaf (drop 1 (f_path f)) else below ascii_lower (effective_dir dir) (f_path f)) of
        None \<Rightarrow> [] | Some n \<Rightarrow> [\<lparr>ent_name = n, ent_kind = VFS_NODE_FILE, ent_size = vfs_file_size (Some f)\<rparr>])"

definition embedded_children :: "u8 list \<Rightarrow> nat \<Rightarrow> 'c vfs \<Rightarrow> vfs_dir_entry list" where
  "embedded_children dir max_n v = take max_n (concat (map (embedded_child dir) (g_vfs_files v)))"

definition g_overlay_dirs :: "u8 list list" where
  "g_overlay_dirs = [ascii ''bin'', ascii ''etc'', ascii ''home'']"

definition already_listed :: "u8 list \<Rightarrow> vfs_dir_entry list \<Rightarrow> bool" where
  "already_listed name prev \<longleftrightarrow> (\<exists>e \<in> set prev. string_equals_ci name (ent_name e))"

definition DOT :: u8 where "DOT = 46"

text \<open>One step of each of the four loops that build the merged list of at most 64 entries.\<close>

definition merge_ext2 :: "ext2_dir_entry \<Rightarrow> vfs_dir_entry list \<Rightarrow> vfs_dir_entry list" where
  "merge_ext2 e m =
     (if length m < 64 \<and> d_name e \<noteq> [DOT] \<and> d_name e \<noteq> [DOT, DOT]
      then m @ [\<lparr>ent_name = cstr (take 63 (d_name e)),
                 ent_kind = (if d_file_type e = 2 then VFS_NODE_DIRECTORY else VFS_NODE_FILE), ent_size = 0\<rparr>] else m)"

definition merge_new :: "vfs_dir_entry \<Rightarrow> vfs_dir_entry list \<Rightarrow> vfs_dir_entry list" where
  "merge_new e m = (if length m < 64 \<and> \<not> already_listed (ent_name e) m then m @ [e] else m)"

definition overlay_entry :: "u8 list \<Rightarrow> vfs_dir_entry" where
  "overlay_entry n = \<lparr>ent_name = n, ent_kind = VFS_NODE_DIRECTORY, ent_size = 0\<rparr>"

definition user_child :: "u8 list \<Rightarrow> vfs_user_file \<Rightarrow> vfs_dir_entry list" where
  "user_child dir f =
     (if uf_used f then
        (case (if effective_dir dir = [SLASH]
               then (if uf_path f \<noteq> [] \<and> hd (uf_path f) = SLASH then leaf (tl (uf_path f)) else None)
               else below id (effective_dir dir) (uf_path f)) of
           None \<Rightarrow> [] | Some n \<Rightarrow> [\<lparr>ent_name = n, ent_kind = VFS_NODE_FILE, ent_size = uf_size f\<rparr>])
      else [])"

definition ext2_entries :: "u8 list \<Rightarrow> 'c vfs \<Rightarrow> (ext2_dir_entry list \<times> 'c vfs) option" where
  "ext2_entries path v =
     (case g_ext2 v of
        None \<Rightarrow> Some ([], v)
      | Some fs \<Rightarrow> do {
          (ino, fs) \<leftarrow> ext2_lookup_inode (Some path) fs;
          if ino = 0 then Some ([], v\<lparr>g_ext2 := Some fs\<rparr>)
          else do {
            (es, fs) \<leftarrow> ext2_readdir ino 32 fs;
            Some (es, v\<lparr>g_ext2 := Some fs\<rparr>) } })"

definition merged :: "u8 list \<Rightarrow> ext2_dir_entry list \<Rightarrow> 'c vfs \<Rightarrow> vfs_dir_entry list" where
  "merged path es v =
     (let m = fold merge_ext2 es [];
          m = (if string_equals_ci path (ascii ''/'') then fold merge_new (map overlay_entry g_overlay_dirs) m else m);
          m = fold merge_new (embedded_children path 16 v) m
      in fold merge_new (concat (map (user_child path) (g_user_files v))) m)"

definition vfs_readdir :: "u8 list option \<Rightarrow> u32 \<Rightarrow> 'c vfs \<Rightarrow> (vfs_dir_entry option \<times> 'c vfs) option" where
  "vfs_readdir path index v =
     (case path of
        None \<Rightarrow> Some (None, v)
      | Some path \<Rightarrow> do {
          (es, v) \<leftarrow> ext2_entries path v;
          let m = merged path es v;
          Some (if unat index < length m then Some (m ! unat index) else None, v) })"

section \<open>Permissions\<close>

definition perm_ok :: "ext2_inode \<Rightarrow> u32 \<Rightarrow> u16 \<Rightarrow> bool" where
  "perm_ok inode uid want =
     (let mode = i_mode inode AND 0x1FF in
      if uid = 0 then True
      else let shift = (if uid = ucast (i_uid inode) then 6 else 0) in (drop_bit shift mode AND want) = want)"

definition vfs_access_ok :: "u32 \<Rightarrow> u8 list \<Rightarrow> u16 \<Rightarrow> 'c vfs \<Rightarrow> (bool \<times> 'c vfs) option" where
  "vfs_access_ok uid path want v =
     (case g_ext2 v of
        None \<Rightarrow> Some (True, v)
      | Some fs \<Rightarrow> do {
          (ino, fs) \<leftarrow> ext2_lookup_inode (Some path) fs;
          let v = v\<lparr>g_ext2 := Some fs\<rparr>;
          if ino = 0 then Some (True, v)
          else do {
            (r, inode) \<leftarrow> ext2_stat ino fs;
            Some (case inode of None \<Rightarrow> True | Some i \<Rightarrow> perm_ok i uid want, v) } })"

definition vfs_chmod :: "u32 \<Rightarrow> u8 list option \<Rightarrow> u16 \<Rightarrow> 'c vfs \<Rightarrow> (int \<times> 'c vfs) option" where
  "vfs_chmod caller_uid path mode v =
     (case (g_ext2 v, path) of
        (Some fs, Some p) \<Rightarrow> do {
          (ino, fs) \<leftarrow> ext2_lookup_inode (Some p) fs;
          if ino = 0 then Some (-2, v\<lparr>g_ext2 := Some fs\<rparr>)
          else do {
            ip \<leftarrow> inode_at fs ino;
            if caller_uid \<noteq> 0 \<and> caller_uid \<noteq> ucast (i_uid ip) then Some (-1, v\<lparr>g_ext2 := Some fs\<rparr>)
            else do {
              fs \<leftarrow> upd_inode ino (\<lambda>i. i\<lparr>i_mode := (i_mode i AND NOT 0x1FF) OR (mode AND 0x1FF)\<rparr>) fs;
              (_, fs) \<leftarrow> ext2_write_inode ino fs;
              Some (0, v\<lparr>g_ext2 := Some fs\<rparr>) } } }
      | _ \<Rightarrow> Some (-1, v))"

definition vfs_chown :: "u32 \<Rightarrow> u8 list option \<Rightarrow> u16 \<Rightarrow> u16 \<Rightarrow> 'c vfs \<Rightarrow> (int \<times> 'c vfs) option" where
  "vfs_chown caller_uid path uid gid v =
     (case (g_ext2 v, path) of
        (Some fs, Some p) \<Rightarrow> do {
          (ino, fs) \<leftarrow> ext2_lookup_inode (Some p) fs;
          if ino = 0 then Some (-2, v\<lparr>g_ext2 := Some fs\<rparr>)
          else if caller_uid \<noteq> 0 then Some (-1, v\<lparr>g_ext2 := Some fs\<rparr>)
          else do {
            fs \<leftarrow> upd_inode ino (\<lambda>i. i\<lparr>i_uid := uid, i_gid := gid\<rparr>) fs;
            (_, fs) \<leftarrow> ext2_write_inode ino fs;
            Some (0, v\<lparr>g_ext2 := Some fs\<rparr>) } }
      | _ \<Rightarrow> Some (-1, v))"

section \<open>Creating and removing\<close>

text \<open>
  The index of the overlay file with a path; comparing with a null path is undefined once
  there is a file to compare with.
\<close>

fun find_index :: "('a \<Rightarrow> bool) \<Rightarrow> 'a list \<Rightarrow> nat option" where
  "find_index P [] = None"
| "find_index P (x # xs) = (if P x then Some 0 else map_option Suc (find_index P xs))"

definition find_user_file :: "u8 list option \<Rightarrow> 'c vfs \<Rightarrow> nat option option" where
  "find_user_file path v =
     (case path of
        None \<Rightarrow> if \<exists>f \<in> set (g_user_files v). uf_used f then None else Some None
      | Some p \<Rightarrow> Some (find_index (\<lambda>f. uf_used f \<and> uf_path f = p) (g_user_files v)))"

text \<open>The directory part, cut to the capacity of the caller's buffer.\<close>

definition parent_dir :: "u8 list \<Rightarrow> nat \<Rightarrow> u8 list" where
  "parent_dir path cap =
     (let last_slash = (if SLASH \<in> set path then last_slash path else 0) in
      if last_slash = 0 then [SLASH]
      else let last_slash = (if last_slash \<ge> cap - 1 then cap - 2 else last_slash) in take last_slash path)"

text \<open>The overlay part of \<open>vfs_create\<close>: take the first unused entry.\<close>

definition create_user :: "u8 list \<Rightarrow> 'c vfs \<Rightarrow> (int \<times> 'c vfs) option" where
  "create_user path v =
     do { f \<leftarrow> find_user_file (Some path) v;
          case f of
            Some _ \<Rightarrow> Some (0, v)
          | None \<Rightarrow>
              (case find_index (\<lambda>f. \<not> uf_used f) (g_user_files v) of
                 None \<Rightarrow> Some (-1, v)
               | Some i \<Rightarrow> Some (0, v\<lparr>g_user_files := (g_user_files v)[i := (g_user_files v ! i)\<lparr>uf_path := path, uf_size := 0, uf_used := True\<rparr>]\<rparr>)) }"

definition vfs_create :: "u32 \<Rightarrow> u8 list option \<Rightarrow> 'c vfs \<Rightarrow> (int \<times> 'c vfs) option" where
  "vfs_create uid path v =
     (case path of
        None \<Rightarrow> Some (-1, v)
      | Some path \<Rightarrow>
          if length path \<ge> 64 then Some (-1, v)
          else do {
            (ok, v) \<leftarrow> (if g_ext2 v \<noteq> None then vfs_access_ok uid (parent_dir path 64) 6 v else Some (True, v));
            if \<not> ok then Some (- errno SYSCALL_EACCES, v)
            else case g_ext2 v of
              Some fs \<Rightarrow>
                if path \<noteq> [] \<and> hd path = SLASH then do {
                  (ino, fs) \<leftarrow> ext2_lookup_inode (Some path) fs;
                  if ino \<noteq> 0 then Some (0, v\<lparr>g_ext2 := Some fs\<rparr>)
                  else do {
                    (ino, fs) \<leftarrow> ext2_create (Some path) 0x1A4 fs;
                    Some (if ino \<noteq> 0 then 0 else -1, v\<lparr>g_ext2 := Some fs\<rparr>) } }
                else create_user path v
            | None \<Rightarrow> create_user path v })"

definition vfs_unlink :: "u32 \<Rightarrow> u8 list option \<Rightarrow> 'c vfs \<Rightarrow> (int \<times> 'c vfs) option" where
  "vfs_unlink uid path v =
     do { (ok, v) \<leftarrow> (case path of
              Some p \<Rightarrow> if g_ext2 v \<noteq> None then vfs_access_ok uid (parent_dir p 64) 6 v else Some (True, v)
            | None \<Rightarrow> Some (True, v));
          if \<not> ok then Some (- errno SYSCALL_EACCES, v)
          else do {
            (done, v) \<leftarrow> (case (g_ext2 v, path) of
                (Some fs, Some p) \<Rightarrow>
                  if p \<noteq> [] \<and> hd p = SLASH then do {
                    (r, fs) \<leftarrow> ext2_unlink (Some p) fs;
                    Some (r = 0, v\<lparr>g_ext2 := Some fs\<rparr>) }
                  else Some (False, v)
              | _ \<Rightarrow> Some (False, v));
            if done then Some (0, v)
            else do {
              f \<leftarrow> find_user_file path v;
              case f of
                None \<Rightarrow> Some (-1, v)
              | Some i \<Rightarrow> Some (0, v\<lparr>g_user_files := (g_user_files v)[i := (g_user_files v ! i)\<lparr>uf_used := False\<rparr>]\<rparr>) } } }"

definition vfs_mkdir :: "u32 \<Rightarrow> u8 list option \<Rightarrow> 'c vfs \<Rightarrow> (int \<times> 'c vfs) option" where
  "vfs_mkdir uid path v =
     (case path of
        None \<Rightarrow> Some (-1, v)
      | Some p \<Rightarrow>
          if p = [] \<or> hd p \<noteq> SLASH then Some (-1, v)
          else if g_ext2 v = None then Some (-1, v)
          else do {
            (ok, v) \<leftarrow> vfs_access_ok uid (parent_dir p 64) 6 v;
            if \<not> ok then Some (- errno SYSCALL_EACCES, v)
            else do {
              fs \<leftarrow> g_ext2 v;
              (ino, fs) \<leftarrow> ext2_mkdir (Some p) 0x1ED fs;
              Some (if ino \<noteq> 0 then 0 else -1, v\<lparr>g_ext2 := Some fs\<rparr>) } })"

section \<open>Reading and writing\<close>

text \<open>
  Writing through ext2: the file is created when the lookup fails. The value is \<open>None\<close> in the
  first component when the caller has to fall back to the overlay.
\<close>

definition ext2_path_write ::
  "u8 list \<Rightarrow> u32 \<Rightarrow> u8 list \<Rightarrow> u64 \<Rightarrow> 'c ext2_filesystem \<Rightarrow> (int option \<times> 'c ext2_filesystem) option" where
  "ext2_path_write path offset buf count fs =
     do { (ino, fs) \<leftarrow> ext2_lookup_inode (Some path) fs;
          (ino, fs) \<leftarrow> (if ino = 0 then ext2_create (Some path) 0x1A4 fs else Some (ino, fs));
          if ino \<noteq> 0 then do { (n, fs) \<leftarrow> ext2_write ino offset count buf fs; Some (Some n, fs) }
          else Some (None, fs) }"

text \<open>Writing into overlay file \<open>i\<close>.\<close>

definition user_write :: "nat \<Rightarrow> u64 \<Rightarrow> u8 list \<Rightarrow> u64 \<Rightarrow> 'c vfs \<Rightarrow> (int \<times> 'c vfs) option" where
  "user_write i offset buf count v =
     (let f = g_user_files v ! i;
          count = (if offset + count > VFS_USER_MAX_SIZE then VFS_USER_MAX_SIZE - offset else count)
      in do { bs \<leftarrow> slice buf 0 (unat count);
              dat \<leftarrow> blit (uf_data f) (unat offset) bs;
              let f = f\<lparr>uf_data := dat, uf_size := if offset + count > uf_size f then offset + count else uf_size f\<rparr>;
              Some (sint count, v\<lparr>g_user_files := (g_user_files v)[i := f]\<rparr>) })"

text \<open>The overlay entry to write to, created if need be; \<open>None\<close> inside when there is none.\<close>

definition user_target :: "u32 \<Rightarrow> u8 list option \<Rightarrow> 'c vfs \<Rightarrow> (nat option \<times> 'c vfs) option" where
  "user_target uid path v =
     do { f \<leftarrow> find_user_file path v;
          case f of
            Some i \<Rightarrow> Some (Some i, v)
          | None \<Rightarrow> do {
              (r, v) \<leftarrow> vfs_create uid path v;
              if r < 0 then Some (None, v)
              else do { f \<leftarrow> find_user_file path v; Some (f, v) } } }"

definition vfs_write :: "u32 \<Rightarrow> u8 list option \<Rightarrow> u64 \<Rightarrow> u8 list \<Rightarrow> u64 \<Rightarrow> 'c vfs \<Rightarrow> (int \<times> 'c vfs) option" where
  "vfs_write uid path offset buf count v =
     do { (r, v) \<leftarrow> (case g_ext2 v of
              None \<Rightarrow> Some (None, v)
            | Some fs \<Rightarrow> do {
                p \<leftarrow> path;
                if p \<noteq> [] \<and> hd p = SLASH then do {
                  (r, fs) \<leftarrow> ext2_path_write p (ucast offset) buf count fs;
                  Some (r, v\<lparr>g_ext2 := Some fs\<rparr>) }
                else Some (None, v) });
          case r of
            Some n \<Rightarrow> Some (n, v)
          | None \<Rightarrow> do {
              (t, v) \<leftarrow> user_target uid path v;
              case t of None \<Rightarrow> Some (-1, v) | Some i \<Rightarrow> user_write i offset buf count v } }"

definition vfs_file_exists :: "u8 list option \<Rightarrow> vfs_stat \<Rightarrow> 'c vfs \<Rightarrow> (bool \<times> 'c vfs) option" where
  "vfs_file_exists path stat v =
     do { (r, stat, v) \<leftarrow> vfs_stat_path path stat v; Some (r \<noteq> 0 \<and> st_kind stat = VFS_NODE_FILE, v) }"

definition vfs_open_ino :: "u8 list option \<Rightarrow> 'c vfs \<Rightarrow> (int \<times> u32 \<times> 'c vfs) option" where
  "vfs_open_ino path v =
     (case path of
        None \<Rightarrow> Some (0, 0, v)
      | Some p \<Rightarrow>
          if vfs_lookup (Some p) v \<noteq> None then Some (1, 0, v)
          else do {
            (ino, v) \<leftarrow> (case g_ext2 v of
                None \<Rightarrow> Some (0, v)
              | Some fs \<Rightarrow> do { (ino, fs) \<leftarrow> ext2_lookup_inode (Some p) fs; Some (ino, v\<lparr>g_ext2 := Some fs\<rparr>) });
            if ino \<noteq> 0 then Some (1, ino, v)
            else do { f \<leftarrow> find_user_file (Some p) v; Some (if f \<noteq> None then 1 else 0, 0, v) } })"

text \<open>The buffer is the caller's memory and is returned as it is afterwards.\<close>

definition vfs_read_user :: "u8 list option \<Rightarrow> u64 \<Rightarrow> u8 list option \<Rightarrow> u64 \<Rightarrow> 'c vfs \<Rightarrow> (int \<times> u8 list option) option" where
  "vfs_read_user path offset buffer count v =
     do { f \<leftarrow> find_user_file path v;
          case (f, buffer) of
            (Some i, Some b) \<Rightarrow>
              let f = g_user_files v ! i in
              if offset \<ge> uf_size f then Some (0, buffer)
              else let to_copy = (if offset + count > uf_size f then uf_size f - offset else count) in
              do { bs \<leftarrow> slice (uf_data f) (unat offset) (unat to_copy);
                   b \<leftarrow> blit b 0 bs;
                   Some (sint to_copy, Some b) }
          | _ \<Rightarrow> Some (-1, buffer) }"

definition read_embedded :: "vfs_file \<Rightarrow> u64 \<Rightarrow> u8 list \<Rightarrow> u64 \<Rightarrow> (int \<times> u8 list) option" where
  "read_embedded f offset buffer count =
     (let file_size = vfs_file_size (Some f) in
      if offset \<ge> file_size then Some (0, buffer)
      else let avail = file_size - offset; to_copy = (if count < avail then count else avail) in
      do { bs \<leftarrow> slice (f_data f) (unat offset) (unat to_copy);
           b \<leftarrow> blit buffer 0 bs;
           Some (sint to_copy, b) })"

definition vfs_read ::
  "u8 list option \<Rightarrow> u64 \<Rightarrow> u8 list option \<Rightarrow> u64 \<Rightarrow> 'c vfs \<Rightarrow> (int \<times> u8 list option \<times> 'c vfs) option" where
  "vfs_read path offset buffer count v =
     (case (path, buffer) of
        (Some p, Some b) \<Rightarrow>
          (case vfs_lookup path v of
             Some f \<Rightarrow> do { (n, b) \<leftarrow> read_embedded f offset b count; Some (n, Some b, v) }
           | None \<Rightarrow> do {
               uf \<leftarrow> find_user_file path v;
               if uf \<noteq> None then do { (n, b) \<leftarrow> vfs_read_user path offset buffer count v; Some (n, b, v) }
               else case g_ext2 v of
                 None \<Rightarrow> Some (-1, buffer, v)
               | Some fs \<Rightarrow> do {
                   (ino, fs) \<leftarrow> ext2_lookup_inode path fs;
                   if ino = 0 then Some (-1, buffer, v\<lparr>g_ext2 := Some fs\<rparr>)
                   else do {
                     (n, b, fs) \<leftarrow> ext2_read ino (ucast offset) count b fs;
                     Some (n, Some b, v\<lparr>g_ext2 := Some fs\<rparr>) } } })
      | _ \<Rightarrow> Some (-1, buffer, v))"

definition vfs_write_all :: "u32 \<Rightarrow> u8 list option \<Rightarrow> u8 list \<Rightarrow> u64 \<Rightarrow> 'c vfs \<Rightarrow> (int \<times> 'c vfs) option" where
  "vfs_write_all uid path buf count v =
     (case path of
        None \<Rightarrow> Some (-1, v)
      | Some p \<Rightarrow> do {
          (r, v) \<leftarrow> (case g_ext2 v of
              None \<Rightarrow> Some (None, v)
            | Some fs \<Rightarrow> do { (r, fs) \<leftarrow> ext2_path_write p 0 buf count fs; Some (r, v\<lparr>g_ext2 := Some fs\<rparr>) });
          case r of
            Some n \<Rightarrow> Some (n, v)
          | None \<Rightarrow> do {
              (t, v) \<leftarrow> user_target uid path v;
              case t of
                None \<Rightarrow> Some (-1, v)
              | Some i \<Rightarrow> vfs_write uid path 0 buf count (v\<lparr>g_user_files := (g_user_files v)[i := (g_user_files v ! i)\<lparr>uf_size := 0\<rparr>]\<rparr>) } })"

end
