(* ===== verification/Ext2_Disk.thy ===== *)
theory Ext2_Disk
  imports Ext2
begin

text \<open>
  The file system's block layer and metadata. Bitmaps are read as sets of used positions;
  \<open>fs_ok\<close> says a mounted file system is well formed: its geometry is consistent, its arrays
  have the right sizes, and its device is a good block store. On that basis the lemmas give
  the exact effect of allocation and of writing back inodes, superblock and bitmaps on the
  blocks of the device, and show that mounting restores what was written back.
\<close>

section \<open>Bitmaps\<close>

definition bit_used :: "u8 list \<Rightarrow> nat \<Rightarrow> bool" where
  "bit_used bm i \<longleftrightarrow> bit (bm ! (i div 8)) (i mod 8)"

lemma unat_div8: "unat ((i :: u32) div 8) = unat i div 8"
  by (simp add: unat_div)

lemma unat_mod8: "unat ((i :: u32) mod 8) = unat i mod 8"
  by (simp add: unat_mod)

lemma bit_bit_mask: "bit (bit_mask i) k \<longleftrightarrow> k = unat i mod 8"
  by (auto simp: bit_mask_def unat_mod8 bit_simps)

lemma and_bit_mask: "(w :: u8) AND bit_mask i = 0 \<longleftrightarrow> \<not> bit w (unat i mod 8)"
proof
  assume "w AND bit_mask i = 0"
  then have "\<not> bit (w AND bit_mask i) (unat i mod 8)" by simp
  then show "\<not> bit w (unat i mod 8)" by (simp add: bit_and_iff bit_bit_mask)
next
  assume "\<not> bit w (unat i mod 8)"
  then show "w AND bit_mask i = 0" by (intro bit_word_eqI) (auto simp: bit_and_iff bit_bit_mask)
qed

lemma bitmap_set_used:
  assumes "bitmap_set bm i = Some bm'"
  shows "length bm' = length bm" "bit_used bm' j \<longleftrightarrow> j = unat i \<or> bit_used bm j"
proof -
  have b: "unat i div 8 < length bm" "bm' = bm[unat i div 8 := bm ! (unat i div 8) OR bit_mask i]"
    using assms by (auto simp: bitmap_set_def unat_div8 split: if_splits)
  then show "length bm' = length bm" by simp
  show "bit_used bm' j \<longleftrightarrow> j = unat i \<or> bit_used bm j"
  proof (cases "j div 8 = unat i div 8")
    case True
    then have "j mod 8 = unat i mod 8 \<longleftrightarrow> j = unat i" by (metis div_mod_decomp)
    then show ?thesis using b True by (auto simp: bit_used_def bit_or_iff bit_bit_mask)
  next
    case False
    then show ?thesis using b by (auto simp: bit_used_def)
  qed
qed

lemma bitmap_clear_used:
  assumes "bitmap_clear bm i = Some bm'"
  shows "length bm' = length bm" "bit_used bm' j \<longleftrightarrow> j \<noteq> unat i \<and> bit_used bm j"
proof -
  have b: "unat i div 8 < length bm" "bm' = bm[unat i div 8 := bm ! (unat i div 8) AND NOT (bit_mask i)]"
    using assms by (auto simp: bitmap_clear_def unat_div8 split: if_splits)
  then show "length bm' = length bm" by simp
  show "bit_used bm' j \<longleftrightarrow> j \<noteq> unat i \<and> bit_used bm j"
  proof (cases "j div 8 = unat i div 8")
    case True
    then have "j mod 8 = unat i mod 8 \<longleftrightarrow> j = unat i" by (metis div_mod_decomp)
    moreover have "j mod 8 < LENGTH(8)" by simp
    ultimately show ?thesis using b True by (auto simp: bit_used_def bit_and_iff bit_not_iff bit_bit_mask)
  next
    case False
    then show ?thesis using b by (auto simp: bit_used_def)
  qed
qed

text \<open>The scan finds the first clear bit, if there is one.\<close>

lemma bitmap_scan_spec:
  assumes "(unat cnt + 7) div 8 \<le> length bm"
  shows "\<exists>r. bitmap_scan bm cnt i = Some r \<and>
    (case r of
       None \<Rightarrow> \<forall>j. unat i \<le> j \<and> j < unat cnt \<longrightarrow> bit_used bm j
     | Some k \<Rightarrow> i \<le> k \<and> k < cnt \<and> \<not> bit_used bm (unat k) \<and> (\<forall>j. unat i \<le> j \<and> j < unat k \<longrightarrow> bit_used bm j))"
proof (induction "unat cnt - unat i" arbitrary: i rule: less_induct)
  case less
  show ?case
  proof (cases "i < cnt")
    case False
    then show ?thesis by (subst bitmap_scan.simps) (auto simp: word_less_nat_alt)
  next
    case True
    then have lt: "unat i < unat cnt" by (simp add: word_less_nat_alt)
    have len: "unat i div 8 < length bm" using lt assms by linarith
    show ?thesis
    proof (cases "bit_used bm (unat i)")
      case False
      then have "bm ! (unat i div 8) AND bit_mask i = 0" by (simp add: and_bit_mask bit_used_def)
      then show ?thesis using True len False
        by (subst bitmap_scan.simps) (auto simp: unat_div8)
    next
      case u: True
      then have "bm ! (unat i div 8) AND bit_mask i \<noteq> 0" by (simp add: and_bit_mask bit_used_def)
      then have step: "bitmap_scan bm cnt i = bitmap_scan bm cnt (i + 1)"
        using True len by (subst bitmap_scan.simps) (simp add: unat_div8)
      have i1: "unat (i + 1) = unat i + 1"
        using lt unat_lt_exp [of cnt] by (simp add: unat_word_ariths)
      have "unat cnt - unat (i + 1) < unat cnt - unat i" using lt i1 by simp
      from less [OF this] obtain r where r: "bitmap_scan bm cnt (i + 1) = Some r"
        "case r of None \<Rightarrow> \<forall>j. unat (i + 1) \<le> j \<and> j < unat cnt \<longrightarrow> bit_used bm j
         | Some k \<Rightarrow> i + 1 \<le> k \<and> k < cnt \<and> \<not> bit_used bm (unat k) \<and> (\<forall>j. unat (i + 1) \<le> j \<and> j < unat k \<longrightarrow> bit_used bm j)"
        by blast
      have "unat i \<le> j \<longleftrightarrow> j = unat i \<or> unat (i + 1) \<le> j" for j using i1 by auto
      then show ?thesis using r u i1 step
        by (auto simp: word_le_nat_alt split: option.splits)
    qed
  qed
qed

section \<open>Well-formed file systems\<close>

abbreviation BS :: "'c ext2_filesystem \<Rightarrow> nat" where
  "BS fs \<equiv> unat (fs_bs fs)"

abbreviation NB :: "'c ext2_filesystem \<Rightarrow> nat" where
  "NB fs \<equiv> unat (sb_blocks_count (fs_sb fs))"

abbreviation NI :: "'c ext2_filesystem \<Rightarrow> nat" where
  "NI fs \<equiv> unat (sb_inodes_count (fs_sb fs))"

abbreviation FD :: "'c ext2_filesystem \<Rightarrow> nat" where
  "FD fs \<equiv> unat (sb_first_data_block (fs_sb fs))"

text \<open>
  Block 0 is the boot block, block 1 the superblock; the block bitmap takes \<open>bitmap_blocks\<close>
  blocks from 2 on, one block of inode bitmap follows, then the inode table.
\<close>

definition bitmap_blocks :: "'c ext2_filesystem \<Rightarrow> nat" where
  "bitmap_blocks fs = (NB fs + 8 * BS fs - 1) div (8 * BS fs)"

definition table_start :: "'c ext2_filesystem \<Rightarrow> nat" where
  "table_start fs = 3 + bitmap_blocks fs"

definition table_blocks :: "'c ext2_filesystem \<Rightarrow> nat" where
  "table_blocks fs = (NI fs * 256 + BS fs - 1) div BS fs"

definition sb_wf :: "'c ext2_filesystem \<Rightarrow> bool" where
  "sb_wf fs \<longleftrightarrow> BS fs \<in> {1024, 2048, 4096} \<and> NB fs < 2 ^ 31 \<and> (NI fs + 7) div 8 \<le> BS fs \<and>
     table_start fs + table_blocks fs \<le> FD fs \<and> FD fs \<le> NB fs \<and> ext2_superblock_ok (fs_sb fs)"

definition fs_ok :: "(nat \<Rightarrow> nat \<Rightarrow> 'c ramdisk_device \<Rightarrow> bool) \<Rightarrow> 'c ext2_filesystem \<Rightarrow> bool" where
  "fs_ok good fs \<longleftrightarrow> sb_wf fs \<and> good (BS fs) (NB fs) (fs_device fs) \<and>
     length (block_bitmap fs) = (NB fs + 7) div 8 \<and> length (inode_bitmap fs) = (NI fs + 7) div 8 \<and>
     length (inode_table fs) = NI fs \<and> (\<forall>i \<in> set (inode_table fs). ext2_inode_ok i)"

text \<open>The blocks of the file system as the device holds them.\<close>

definition dsk :: "(nat \<Rightarrow> 'c ramdisk_device \<Rightarrow> nat \<Rightarrow> u8 list) \<Rightarrow> 'c ext2_filesystem \<Rightarrow> nat \<Rightarrow> u8 list" where
  "dsk blk fs = blk (BS fs) (fs_device fs)"

lemma sb_wfD:
  assumes "sb_wf fs"
  shows "BS fs = 1024 \<or> BS fs = 2048 \<or> BS fs = 4096" "1024 \<le> BS fs" "BS fs \<le> 4096" "256 dvd BS fs" "fs_bs fs \<noteq> 0"
    "NB fs < 2 ^ 31" "FD fs \<le> NB fs" "4 \<le> FD fs"
proof -
  show c: "BS fs = 1024 \<or> BS fs = 2048 \<or> BS fs = 4096" using assms by (simp add: sb_wf_def)
  then show "1024 \<le> BS fs" "BS fs \<le> 4096" "256 dvd BS fs" by (auto simp: dvd_def)
  show "fs_bs fs \<noteq> 0" using c by auto
  show nb: "NB fs < 2 ^ 31" and "FD fs \<le> NB fs" using assms by (simp_all add: sb_wf_def)
  then show "4 \<le> FD fs" using assms c
    by (auto simp: sb_wf_def table_start_def bitmap_blocks_def)
qed

lemma fs_okD:
  assumes "fs_ok good fs"
  shows "sb_wf fs" "good (BS fs) (NB fs) (fs_device fs)" "length (block_bitmap fs) = (NB fs + 7) div 8"
    "length (inode_bitmap fs) = (NI fs + 7) div 8" "length (inode_table fs) = NI fs"
    "\<And>i. i \<in> set (inode_table fs) \<Longrightarrow> ext2_inode_ok i"
  using assms by (auto simp: fs_ok_def)

lemma div_chk_Some [simp]: "b \<noteq> 0 \<Longrightarrow> div_chk a b = Some (a div b)"
  by (simp add: div_chk_def)

lemma ucast_nonzero: "(w :: u32) \<noteq> 0 \<Longrightarrow> (ucast w :: u64) \<noteq> 0"
proof -
  assume "w \<noteq> 0"
  then have "unat w \<noteq> 0" by (simp add: unat_eq_zero)
  moreover have "unat (ucast w :: u64) = unat w"
    using unat_lt_exp [of w] by (simp add: unsigned_ucast_eq take_bit_nat_eq_self)
  ultimately show ?thesis by auto
qed

lemma bb_blks_eq:
  assumes "sb_wf fs"
  obtains bb where "bb_blks fs = Some bb" "unat bb = bitmap_blocks fs"
proof
  have c: "BS fs = 1024 \<or> BS fs = 2048 \<or> BS fs = 4096" and nb: "NB fs < 2 ^ 31"
    using sb_wfD [OF assms] by blast+
  have e: "unat (8 * fs_bs fs) = 8 * BS fs" using c by (auto simp: unat_word_ariths)
  then have nz: "8 * fs_bs fs \<noteq> 0" using c by auto
  show "bb_blks fs = Some ((sb_blocks_count (fs_sb fs) + 8 * fs_bs fs - 1) div (8 * fs_bs fs))"
    by (simp add: bb_blks_def nz)
  have "unat (sb_blocks_count (fs_sb fs) + 8 * fs_bs fs) = NB fs + 8 * BS fs"
    using c nb e by (subst unat_add_exact) auto
  then have "unat (sb_blocks_count (fs_sb fs) + 8 * fs_bs fs - 1) = NB fs + 8 * BS fs - 1"
    using c by (subst unat_sub_exact) auto
  then show "unat ((sb_blocks_count (fs_sb fs) + 8 * fs_bs fs - 1) div (8 * fs_bs fs)) = bitmap_blocks fs"
    by (simp add: unat_div e bitmap_blocks_def)
qed

lemma fs_kmalloc_len: "fs_kmalloc n fs = (Some b, fs') \<Longrightarrow> length b = n"
  by (auto simp: fs_kmalloc_def split: list.splits)

lemma fs_kmalloc_state: "fs_kmalloc n fs = (p, fs') \<Longrightarrow> \<exists>rs. fs' = fs\<lparr>heap_replies := rs\<rparr>"
  by (auto simp: fs_kmalloc_def split: list.splits intro: exI [of _ "heap_replies fs"])

lemma fs_ok_replies [simp]: "fs_ok good (fs\<lparr>heap_replies := rs\<rparr>) = fs_ok good fs"
  by (simp add: fs_ok_def sb_wf_def bitmap_blocks_def table_start_def table_blocks_def)

lemma dsk_replies [simp]: "dsk blk (fs\<lparr>heap_replies := rs\<rparr>) = dsk blk fs"
  by (simp add: dsk_def)

context block_store
begin

lemma index_eq:
  "div_chk (ucast b * ucast (fs_bs fs)) (ucast (rd_block_size (fs_device fs)) :: u64) =
     Some (dev_index (fs_device fs) (BS fs) (unat b))" if "rd_block_size (fs_device fs) \<noteq> 0"
proof -
  have "(of_nat (unat b * BS fs) :: u64) = ucast b * ucast (fs_bs fs)" by simp
  then show ?thesis using that ucast_nonzero by (simp add: dev_index_def)
qed

lemma read_block:
  assumes "fs_ok good fs" and "unat b < NB fs" and "length buf = BS fs"
  shows "ext2_read_block fs b buf = Some (0, dsk blk fs (unat b))"
proof -
  note g = fs_okD(2) [OF assms(1)]
  have "(of_nat (BS fs) :: u64) = ucast (fs_bs fs)" by simp
  with read_law [OF g assms(2,3)] good_size [OF g] show ?thesis
    by (simp add: ext2_read_block_def index_eq dsk_def)
qed

lemma write_block:
  assumes "fs_ok good fs" and "unat b < NB fs" and "length buf = BS fs"
  shows "\<exists>d. ext2_write_block fs b buf = Some (0, fs\<lparr>fs_device := d\<rparr>) \<and> fs_ok good (fs\<lparr>fs_device := d\<rparr>) \<and>
    dsk blk (fs\<lparr>fs_device := d\<rparr>) = (dsk blk fs)(unat b := buf)"
proof -
  note g = fs_okD(2) [OF assms(1)]
  have n: "(of_nat (BS fs) :: u64) = ucast (fs_bs fs)" by simp
  obtain d where d: "ramdisk_write (fs_device fs) (dev_index (fs_device fs) (BS fs) (unat b)) buf (of_nat (BS fs)) = Some (0, d)"
    "good (BS fs) (NB fs) d" "blk (BS fs) d = (blk (BS fs) (fs_device fs))(unat b := buf)"
    using write_law [OF g assms(2,3)] by auto
  then have "ext2_write_block fs b buf = Some (0, fs\<lparr>fs_device := d\<rparr>)"
    using good_size [OF g] by (simp add: ext2_write_block_def index_eq n)
  moreover have "fs_ok good (fs\<lparr>fs_device := d\<rparr>)"
    using assms(1) d(2) by (simp add: fs_ok_def sb_wf_def bitmap_blocks_def table_start_def table_blocks_def)
  ultimately show ?thesis using d(3) by (auto simp: dsk_def)
qed

lemma dsk_length: "fs_ok good fs \<Longrightarrow> n < NB fs \<Longrightarrow> length (dsk blk fs n) = BS fs"
  unfolding dsk_def by (rule blk_length [OF fs_okD(2)])

end

section \<open>Allocation\<close>

lemma fs_ok_bitmap:
  assumes "fs_ok good fs" and "length bm = length (block_bitmap fs)"
  shows "fs_ok good (upd_sb (\<lambda>sb. sb\<lparr>sb_free_blocks := k sb\<rparr>) (fs\<lparr>block_bitmap := bm\<rparr>))"
  using assms by (simp add: fs_ok_def sb_wf_def bitmap_blocks_def table_start_def table_blocks_def upd_sb_def
      ext2_superblock_ok_def)

lemma fs_ok_inode_bitmap:
  assumes "fs_ok good fs" and "length bm = length (inode_bitmap fs)"
  shows "fs_ok good (upd_sb (\<lambda>sb. sb\<lparr>sb_free_inodes := k sb\<rparr>) (fs\<lparr>inode_bitmap := bm\<rparr>))"
  using assms by (simp add: fs_ok_def sb_wf_def bitmap_blocks_def table_start_def table_blocks_def upd_sb_def
      ext2_superblock_ok_def)

lemma alloc_block:
  assumes "fs_ok good fs"
  shows "\<exists>b fs'. ext2_alloc_block fs = Some (b, fs') \<and>
    (if b = 0 then fs' = fs \<and> (\<forall>j. FD fs \<le> j \<and> j < NB fs \<longrightarrow> bit_used (block_bitmap fs) j)
     else FD fs \<le> unat b \<and> unat b < NB fs \<and> \<not> bit_used (block_bitmap fs) (unat b) \<and>
       (\<forall>j. FD fs \<le> j \<and> j < unat b \<longrightarrow> bit_used (block_bitmap fs) j) \<and> fs_ok good fs' \<and>
       (\<exists>bm. fs' = upd_sb (\<lambda>sb. sb\<lparr>sb_free_blocks := sb_free_blocks sb - 1\<rparr>) (fs\<lparr>block_bitmap := bm\<rparr>) \<and>
         (\<forall>j. bit_used bm j \<longleftrightarrow> j = unat b \<or> bit_used (block_bitmap fs) j)))"
proof -
  have fd: "4 \<le> FD fs" using sb_wfD fs_okD(1) [OF assms] by blast
  then have start: "\<not> sb_first_data_block (fs_sb fs) < 1" by (auto simp: word_less_nat_alt)
  have "(NB fs + 7) div 8 \<le> length (block_bitmap fs)" using fs_okD(3) [OF assms] by simp
  from bitmap_scan_spec [OF this, of "sb_first_data_block (fs_sb fs)"] obtain r where
    r: "bitmap_scan (block_bitmap fs) (sb_blocks_count (fs_sb fs)) (sb_first_data_block (fs_sb fs)) = Some r"
    and c: "case r of None \<Rightarrow> \<forall>j. FD fs \<le> j \<and> j < NB fs \<longrightarrow> bit_used (block_bitmap fs) j
      | Some k \<Rightarrow> sb_first_data_block (fs_sb fs) \<le> k \<and> k < sb_blocks_count (fs_sb fs) \<and> \<not> bit_used (block_bitmap fs) (unat k) \<and>
          (\<forall>j. FD fs \<le> j \<and> j < unat k \<longrightarrow> bit_used (block_bitmap fs) j)" by blast
  show ?thesis
  proof (cases r)
    case None
    then have "ext2_alloc_block fs = Some (0, fs)" using r start by (simp add: ext2_alloc_block_def)
    then show ?thesis using c None by auto
  next
    case (Some k)
    then have k: "FD fs \<le> unat k" "unat k < NB fs" "\<not> bit_used (block_bitmap fs) (unat k)"
      "\<forall>j. FD fs \<le> j \<and> j < unat k \<longrightarrow> bit_used (block_bitmap fs) j"
      using c by (auto simp: word_le_nat_alt word_less_nat_alt)
    have "unat k div 8 < length (block_bitmap fs)" using k(2) fs_okD(3) [OF assms] by linarith
    then obtain bm where bm: "bitmap_set (block_bitmap fs) k = Some bm" by (simp add: bitmap_set_def unat_div8)
    let ?fs = "upd_sb (\<lambda>sb. sb\<lparr>sb_free_blocks := sb_free_blocks sb - 1\<rparr>) (fs\<lparr>block_bitmap := bm\<rparr>)"
    have "ext2_alloc_block fs = Some (k, ?fs)" using r Some start bm by (simp add: ext2_alloc_block_def)
    moreover have "k \<noteq> 0" using k(1) fd by auto
    moreover have "fs_ok good ?fs" using fs_ok_bitmap [OF assms bitmap_set_used(1) [OF bm]] .
    ultimately show ?thesis using k bitmap_set_used(2) [OF bm] by auto
  qed
qed

section \<open>Writing back metadata\<close>

lemma unat_u32_less [simp]: "unat (w :: u32) < 4294967296"
  by (rule less_le_trans [OF unat_lt_exp]) simp

lemma unat_inc:
  assumes "unat i < unat (j :: 'a::len word)"
  shows "unat (i + 1 :: 'a word) = unat i + 1"
proof -
  have "Suc (unat i) < 2 ^ LENGTH('a)" using assms by (intro le_less_trans [OF _ unat_lt_exp [of j]]) simp
  then show ?thesis by (simp add: unat_word_ariths)
qed

lemma unat_ucast_u64 [simp]: "unat (ucast (w :: u32) :: u64) = unat w"
  by (simp add: unsigned_ucast_eq take_bit_nat_eq_self less_le_trans [OF unat_u32_less])

definition no_fail :: "'c ext2_filesystem \<Rightarrow> bool" where
  "no_fail fs \<longleftrightarrow> None \<notin> set (heap_replies fs)"

text \<open>Only the device (whose blocks become \<open>D\<close>) and the pending heap replies change.\<close>

definition writes ::
  "(nat \<Rightarrow> nat \<Rightarrow> 'c ramdisk_device \<Rightarrow> bool) \<Rightarrow> (nat \<Rightarrow> 'c ramdisk_device \<Rightarrow> nat \<Rightarrow> u8 list) \<Rightarrow>
   'c ext2_filesystem \<Rightarrow> (nat \<Rightarrow> u8 list) \<Rightarrow> 'c ext2_filesystem \<Rightarrow> bool" where
  "writes good blk fs D fs' \<longleftrightarrow> fs_ok good fs' \<and> no_fail fs' \<and> dsk blk fs' = D \<and>
     fs_sb fs' = fs_sb fs \<and> block_bitmap fs' = block_bitmap fs \<and> inode_bitmap fs' = inode_bitmap fs \<and>
     inode_table fs' = inode_table fs \<and> g_ext2_sb_buffer fs' = g_ext2_sb_buffer fs"

lemma fs_kmalloc_ok:
  assumes "no_fail fs"
  obtains b rs where "fs_kmalloc n fs = (Some b, fs\<lparr>heap_replies := rs\<rparr>)" "length b = n"
    "no_fail (fs\<lparr>heap_replies := rs\<rparr>)"
proof (cases "heap_replies fs")
  case Nil
  then show ?thesis using assms
    by (intro that [of "replicate n 0" "[]"]) (simp_all add: fs_kmalloc_def no_fail_def)
next
  case (Cons r rs)
  then obtain g where "r = Some g" using assms by (cases r) (auto simp: no_fail_def)
  then show ?thesis using Cons assms
    by (intro that [of "take n (g @ replicate n 0)" rs]) (auto simp: fs_kmalloc_def no_fail_def)
qed

definition inode_blk :: "'c ext2_filesystem \<Rightarrow> nat \<Rightarrow> nat" where
  "inode_blk fs n = table_start fs + (n - 1) * 256 div BS fs"

definition inode_off :: "'c ext2_filesystem \<Rightarrow> nat \<Rightarrow> nat" where
  "inode_off fs n = (n - 1) * 256 mod BS fs"

definition overwrite :: "u8 list \<Rightarrow> nat \<Rightarrow> u8 list \<Rightarrow> u8 list" where
  "overwrite b off x = take off b @ x @ drop (off + length x) b"

lemma blit_overwrite: "off + length x \<le> length b \<Longrightarrow> blit b off x = Some (overwrite b off x)"
  by (simp add: blit_def overwrite_def)

lemma length_overwrite [simp]: "off + length x \<le> length b \<Longrightarrow> length (overwrite b off x) = length b"
  by (simp add: overwrite_def)

lemma div_less_ceil:
  fixes a b m :: nat
  assumes "a < b" and "0 < m"
  shows "a div m < (b + m - 1) div m"
proof -
  have "(a + m) div m \<le> (b + m - 1) div m" using assms by (intro div_le_mono) linarith
  moreover have "(a + m) div m = a div m + 1" using assms(2) by (simp add: div_add_self2)
  ultimately show ?thesis by simp
qed

lemma inode_pos:
  assumes "fs_ok good fs" and "1 \<le> n" and "n \<le> NI fs"
  shows "inode_off fs n + 256 \<le> BS fs" "inode_blk fs n < FD fs" "inode_blk fs n < NB fs"
proof -
  have w: "sb_wf fs" by (rule fs_okD(1) [OF assms(1)])
  obtain k where k: "BS fs = 256 * k" using sb_wfD(4) [OF w] by blast
  have k0: "0 < k" using sb_wfD(2) [OF w] k by simp
  have "(n - 1) * 256 mod BS fs = 256 * ((n - 1) mod k)" by (simp add: k mult_mod_right mult.commute)
  moreover have "(n - 1) mod k < k" using k0 by simp
  ultimately show "inode_off fs n + 256 \<le> BS fs" by (simp add: inode_off_def k)
  have "(n - 1) * 256 < NI fs * 256" using assms(2,3) by simp
  then have "(n - 1) * 256 div BS fs < table_blocks fs"
    unfolding table_blocks_def using k0 k by (intro div_less_ceil) simp_all
  then have "inode_blk fs n < table_start fs + table_blocks fs" by (simp add: inode_blk_def)
  then show "inode_blk fs n < FD fs" "inode_blk fs n < NB fs" using w by (auto simp: sb_wf_def)
qed

lemma writes_refl: "fs_ok good fs \<Longrightarrow> no_fail fs \<Longrightarrow> writes good blk fs (dsk blk fs) fs"
  by (simp add: writes_def)

lemma writes_geom:
  assumes "writes good blk fs D fs'"
  shows "fs_sb fs' = fs_sb fs" "block_bitmap fs' = block_bitmap fs" "inode_bitmap fs' = inode_bitmap fs"
    "inode_table fs' = inode_table fs" "g_ext2_sb_buffer fs' = g_ext2_sb_buffer fs"
  using assms by (auto simp: writes_def)

lemma writes_trans:
  "writes good blk fs D1 fs1 \<Longrightarrow> writes good blk fs1 D2 fs2 \<Longrightarrow> writes good blk fs D2 fs2"
  by (auto simp: writes_def)

lemma no_fail_device [simp]: "no_fail (fs\<lparr>fs_device := d\<rparr>) = no_fail fs"
  by (simp add: no_fail_def)

lemma unat_inode_pos:
  fixes n bb :: u32
  assumes "fs_ok good fs" and "1 \<le> unat n" and "unat n \<le> NI fs" and "unat bb = bitmap_blocks fs"
  shows "unat (ucast (ucast (2 + bb + 1 :: u32) + (ucast (n - 1) * 256) div (ucast (fs_bs fs) :: u64)) :: u32) = inode_blk fs (unat n)"
    and "unat (ucast ((ucast (n - 1) * 256) mod (ucast (fs_bs fs) :: u64)) :: u32) = inode_off fs (unat n)"
proof -
  have w: "sb_wf fs" by (rule fs_okD(1) [OF assms(1)])
  have n1: "unat (n - 1) = unat n - 1" using assms(2) by (subst unat_sub_exact) auto
  have "unat n - 1 < 4294967296" using unat_u32_less [of n] by linarith
  then have "(unat n - 1) * 256 < 2 ^ 64" by simp
  then have m: "unat (ucast (n - 1) * 256 :: u64) = (unat n - 1) * 256"
    by (simp add: unat_word_ariths n1)
  have q: "unat ((ucast (n - 1) * 256) div (ucast (fs_bs fs) :: u64)) = (unat n - 1) * 256 div BS fs"
    by (simp add: unat_div m)
  have lt: "inode_blk fs (unat n) < 2 ^ 31"
    using inode_pos(3) [OF assms(1,2,3)] sb_wfD(6) [OF w] by simp
  have "unat (2 + bb + 1) = table_start fs"
    using lt assms(4) by (simp add: table_start_def inode_blk_def unat_word_ariths)
  then have "unat (ucast (2 + bb + 1 :: u32) + (ucast (n - 1) * 256) div (ucast (fs_bs fs) :: u64)) = inode_blk fs (unat n)"
    using lt q by (simp add: inode_blk_def unat_word_ariths)
  then show "unat (ucast (ucast (2 + bb + 1 :: u32) + (ucast (n - 1) * 256) div (ucast (fs_bs fs) :: u64)) :: u32) = inode_blk fs (unat n)"
    using lt by (simp only: unsigned_ucast_eq) (simp add: take_bit_nat_eq_self)
  have "unat ((ucast (n - 1) * 256) mod (ucast (fs_bs fs) :: u64)) = inode_off fs (unat n)"
    by (simp add: unat_mod m inode_off_def)
  moreover have "inode_off fs (unat n) < 2 ^ 32"
    using inode_pos(1) [OF assms(1,2,3)] sb_wfD(3) [OF w] by simp
  ultimately show "unat (ucast ((ucast (n - 1) * 256) mod (ucast (fs_bs fs) :: u64)) :: u32) = inode_off fs (unat n)"
    by (simp only: unsigned_ucast_eq) (simp add: take_bit_nat_eq_self)
qed

context block_store
begin

lemma write_inode:
  assumes "fs_ok good fs" and "no_fail fs" and "1 \<le> unat n" and "unat n \<le> NI fs"
  shows "\<exists>fs'. ext2_write_inode n fs = Some (0, fs') \<and>
    writes good blk fs ((dsk blk fs)(inode_blk fs (unat n) :=
      overwrite (dsk blk fs (inode_blk fs (unat n))) (inode_off fs (unat n))
        (ext2_inode_bytes (inode_table fs ! (unat n - 1))))) fs'"
proof -
  have w: "sb_wf fs" by (rule fs_okD(1) [OF assms(1)])
  obtain bb where bb: "bb_blks fs = Some bb" "unat bb = bitmap_blocks fs" using bb_blks_eq [OF w] .
  note pos = inode_pos [OF assms(1,3,4)] and upos = unat_inode_pos [OF assms(1,3,4) bb(2)]
  let ?num = "ucast (ucast (2 + bb + 1 :: u32) + (ucast (n - 1) * 256) div (ucast (fs_bs fs) :: u64)) :: u32"
  obtain b rs where km: "fs_kmalloc (BS fs) fs = (Some b, fs\<lparr>heap_replies := rs\<rparr>)" "length b = BS fs"
    "no_fail (fs\<lparr>heap_replies := rs\<rparr>)" using fs_kmalloc_ok [OF assms(2)] .
  let ?fs = "fs\<lparr>heap_replies := rs\<rparr>"
  let ?i = "inode_table fs ! (unat n - 1)"
  have n1: "unat (n - 1) = unat n - 1" using assms(3) by (subst unat_sub_exact) auto
  have at: "inode_at ?fs n = Some ?i" "ext2_inode_ok ?i"
    using assms(3,4) fs_okD(5,6) [OF assms(1)] by (auto simp: inode_at_def n1)
  have rb: "ext2_read_block ?fs ?num b = Some (0, dsk blk ?fs (inode_blk fs (unat n)))"
    using read_block [of ?fs ?num b] assms(1) pos(3) upos(1) km(2) by simp
  let ?c = "overwrite (dsk blk fs (inode_blk fs (unat n))) (inode_off fs (unat n)) (ext2_inode_bytes ?i)"
  have len: "inode_off fs (unat n) + length (ext2_inode_bytes ?i) \<le> length (dsk blk fs (inode_blk fs (unat n)))"
    using dsk_length [OF assms(1) pos(3)] pos(1) length_inode_bytes [OF at(2)] by simp
  obtain d where d: "ext2_write_block ?fs ?num ?c = Some (0, ?fs\<lparr>fs_device := d\<rparr>)"
    "fs_ok good (?fs\<lparr>fs_device := d\<rparr>)" "dsk blk (?fs\<lparr>fs_device := d\<rparr>) = (dsk blk ?fs)(inode_blk fs (unat n) := ?c)"
    using write_block [of ?fs ?num ?c] assms(1) pos(3) upos(1) len dsk_length [OF assms(1) pos(3)] by auto
  have "ext2_write_inode n fs = Some (0, ?fs\<lparr>fs_device := d\<rparr>)"
    unfolding ext2_write_inode_def
    using assms(3,4) bb(1) sb_wfD(5) [OF w, THEN ucast_nonzero] km(1) rb at(1) d(1) len upos(2)
    by (auto simp: word_less_nat_alt Let_def blit_overwrite)
  then show ?thesis using d km(3) by (auto simp: writes_def)
qed

lemma write_superblock:
  assumes "fs_ok good fs" and "no_fail fs"
  shows "\<exists>fs'. ext2_write_superblock fs = Some (0, fs') \<and>
    writes good blk fs ((dsk blk fs)(1 := overwrite (replicate (BS fs) 0) 0 (ext2_superblock_bytes (fs_sb fs)))) fs'"
proof -
  have w: "sb_wf fs" by (rule fs_okD(1) [OF assms(1)])
  then have s: "ext2_superblock_ok (fs_sb fs)" by (simp add: sb_wf_def)
  obtain b rs where km: "fs_kmalloc (BS fs) fs = (Some b, fs\<lparr>heap_replies := rs\<rparr>)" "length b = BS fs"
    "no_fail (fs\<lparr>heap_replies := rs\<rparr>)" using fs_kmalloc_ok [OF assms(2)] .
  let ?fs = "fs\<lparr>heap_replies := rs\<rparr>"
  let ?c = "overwrite (replicate (BS fs) 0) 0 (ext2_superblock_bytes (fs_sb fs))"
  have len: "0 + length (ext2_superblock_bytes (fs_sb fs)) \<le> length (replicate (BS fs) (0 :: u8))"
    using sb_wfD(2) [OF w] length_superblock_bytes [OF s] by simp
  have one: "unat (1 :: u32) < NB fs" using sb_wfD(7,8) [OF w] by simp
  obtain d where "ext2_write_block ?fs 1 ?c = Some (0, ?fs\<lparr>fs_device := d\<rparr>)"
    "fs_ok good (?fs\<lparr>fs_device := d\<rparr>)" "dsk blk (?fs\<lparr>fs_device := d\<rparr>) = (dsk blk ?fs)(1 := ?c)"
    using write_block [of ?fs 1 ?c] assms(1) one len by auto
  then show ?thesis
    using km len by (auto simp: ext2_write_superblock_def blit_overwrite writes_def)
qed

end

definition pad :: "nat \<Rightarrow> u8 list \<Rightarrow> u8 list" where
  "pad n x = overwrite (replicate n 0) 0 x"

lemma pad_simps: "length x \<le> n \<Longrightarrow> length (pad n x) = n" "take (length x) (pad n x) = x"
  by (simp_all add: pad_def overwrite_def)

definition bm_chunk :: "'c ext2_filesystem \<Rightarrow> nat \<Rightarrow> u8 list" where
  "bm_chunk fs i = pad (BS fs) (take (BS fs) (drop (i * BS fs) (block_bitmap fs)))"

lemma bitmap_off:
  assumes "fs_ok good fs" and "i < bitmap_blocks fs"
  shows "i * BS fs < (NB fs + 7) div 8" "i * BS fs + BS fs < 2 ^ 32"
proof -
  have w: "sb_wf fs" by (rule fs_okD(1) [OF assms(1)])
  have b: "1024 \<le> BS fs" "BS fs \<le> 4096" "NB fs < 2147483648" using sb_wfD(2,3,6) [OF w] by simp_all
  have "Suc i * (8 * BS fs) \<le> bitmap_blocks fs * (8 * BS fs)" using assms(2) by (intro mult_le_mono1) simp
  also have "\<dots> \<le> NB fs + 8 * BS fs - 1" by (simp add: bitmap_blocks_def)
  finally have "i * BS fs * 8 < NB fs" using b(1) by (simp add: algebra_simps)
  then show "i * BS fs < (NB fs + 7) div 8" by linarith
  then have "i * BS fs + BS fs < 4294967296" using b by linarith
  then show "i * BS fs + BS fs < 2 ^ 32" by simp
qed

context block_store
begin

lemma write_bb_loop:
  assumes "fs_ok good fs" and "no_fail fs" and "unat i + n = bitmap_blocks fs" and "unat sz = (NB fs + 7) div 8"
  shows "\<exists>fs'. write_bb_loop n i sz fs = Some fs' \<and>
    writes good blk fs (\<lambda>b. if 2 + unat i \<le> b \<and> b < 2 + bitmap_blocks fs then bm_chunk fs (b - 2) else dsk blk fs b) fs'"
  using assms
proof (induction n arbitrary: i fs)
  case 0
  then have "(\<lambda>b. if 2 + unat i \<le> b \<and> b < 2 + bitmap_blocks fs then bm_chunk fs (b - 2) else dsk blk fs b) = dsk blk fs"
    by (auto simp: fun_eq_iff)
  then show ?case using 0 writes_refl by simp
next
  case (Suc n)
  note ok = Suc.prems(1)
  have w: "sb_wf fs" by (rule fs_okD(1) [OF ok])
  have i: "unat i < bitmap_blocks fs" using Suc.prems(3) by simp
  note off = bitmap_off [OF ok i]
  have u: "unat (i * fs_bs fs) = unat i * BS fs" using off(2) by (simp add: unat_word_ariths)
  have u2: "unat (i * fs_bs fs + fs_bs fs) = unat i * BS fs + BS fs"
    using off(2) u by (subst unat_add_exact) simp_all
  let ?len = "if i * fs_bs fs + fs_bs fs > sz then sz - i * fs_bs fs else fs_bs fs"
  have len: "unat ?len = min (BS fs) (unat sz - unat i * BS fs)"
    using u u2 off(1) Suc.prems(4) by (auto simp: word_less_nat_alt unat_sub_if')
  have bl: "length (block_bitmap fs) = unat sz" using fs_okD(3) [OF ok] Suc.prems(4) by simp
  have "slice (block_bitmap fs) (unat (i * fs_bs fs)) (unat ?len) = Some (take (BS fs) (drop (unat i * BS fs) (block_bitmap fs)))"
    using off(1) Suc.prems(4) bl by (auto simp: slice_def u len min_def)
  moreover have "blit (replicate (BS fs) 0) 0 (take (BS fs) (drop (unat i * BS fs) (block_bitmap fs))) = Some (bm_chunk fs (unat i))"
    by (simp add: bm_chunk_def pad_def blit_overwrite)
  moreover have l: "length (bm_chunk fs (unat i)) = BS fs" by (simp add: bm_chunk_def pad_simps)
  have "bitmap_blocks fs + 3 \<le> NB fs" using w by (simp add: sb_wf_def table_start_def)
  then have b2: "unat (2 + i) = 2 + unat i" "unat (2 + i) < NB fs"
    using i sb_wfD(6) [OF w] by (auto simp: unat_word_ariths)
  obtain d where d: "ext2_write_block fs (2 + i) (bm_chunk fs (unat i)) = Some (0, fs\<lparr>fs_device := d\<rparr>)"
    "fs_ok good (fs\<lparr>fs_device := d\<rparr>)" "dsk blk (fs\<lparr>fs_device := d\<rparr>) = (dsk blk fs)(2 + unat i := bm_chunk fs (unat i))"
    using write_block [OF ok b2(2) l] b2(1) by auto
  let ?fs = "fs\<lparr>fs_device := d\<rparr>"
  have i1: "unat (i + 1) = unat i + 1" using i off(2) sb_wfD(2) [OF w] \<open>bitmap_blocks fs + 3 \<le> NB fs\<close> sb_wfD(6) [OF w]
    by (simp add: unat_word_ariths)
  have bb': "bitmap_blocks ?fs = bitmap_blocks fs" "bm_chunk ?fs = bm_chunk fs"
    by (simp_all add: bitmap_blocks_def bm_chunk_def fun_eq_iff)
  then obtain fs' where fs': "write_bb_loop n (i + 1) sz ?fs = Some fs'"
    "writes good blk ?fs (\<lambda>b. if 2 + unat (i + 1) \<le> b \<and> b < 2 + bitmap_blocks fs then bm_chunk fs (b - 2) else dsk blk ?fs b) fs'"
    using Suc.IH [OF d(2), of "i + 1"] Suc.prems i1 by (auto simp: bb' cong: if_cong)
  have "(\<lambda>b. if 2 + unat (i + 1) \<le> b \<and> b < 2 + bitmap_blocks fs then bm_chunk fs (b - 2) else dsk blk ?fs b) =
     (\<lambda>b. if 2 + unat i \<le> b \<and> b < 2 + bitmap_blocks fs then bm_chunk fs (b - 2) else dsk blk fs b)"
    using i by (auto simp: fun_eq_iff i1 d(3))
  moreover have "write_bb_loop (Suc n) i sz fs = write_bb_loop n (i + 1) sz ?fs"
    using calculation d(1) by (simp add: Let_def)
  ultimately show ?case using fs' by (auto simp: writes_def)
qed

lemma write_bitmaps:
  assumes "fs_ok good fs" and "no_fail fs"
  shows "\<exists>fs'. ext2_write_bitmaps fs = Some (0, fs') \<and>
    writes good blk fs (\<lambda>b. if 2 \<le> b \<and> b < 2 + bitmap_blocks fs then bm_chunk fs (b - 2)
      else if b = 2 + bitmap_blocks fs then pad (BS fs) (inode_bitmap fs) else dsk blk fs b) fs'"
proof -
  have w: "sb_wf fs" by (rule fs_okD(1) [OF assms(1)])
  obtain bb where bb: "bb_blks fs = Some bb" "unat bb = bitmap_blocks fs" using bb_blks_eq [OF w] .
  obtain b rs where km: "fs_kmalloc (BS fs) fs = (Some b, fs\<lparr>heap_replies := rs\<rparr>)" "length b = BS fs"
    "no_fail (fs\<lparr>heap_replies := rs\<rparr>)" using fs_kmalloc_ok [OF assms(2)] .
  let ?fs = "fs\<lparr>heap_replies := rs\<rparr>"
  have bb': "bitmap_blocks ?fs = bitmap_blocks fs" "bm_chunk ?fs = bm_chunk fs"
    by (simp_all add: bitmap_blocks_def bm_chunk_def fun_eq_iff)
  have "unat (sb_blocks_count (fs_sb fs) + 7) = NB fs + 7"
    using sb_wfD(6) [OF w] by (simp add: unat_add_numeral_exact)
  then have "unat ((sb_blocks_count (fs_sb fs) + 7) div 8) = (NB fs + 7) div 8" by (simp add: unat_div)
  then obtain fs1 where fs1: "write_bb_loop (unat bb) 0 ((sb_blocks_count (fs_sb fs) + 7) div 8) ?fs = Some fs1"
    "writes good blk ?fs (\<lambda>b. if 2 \<le> b \<and> b < 2 + bitmap_blocks fs then bm_chunk fs (b - 2) else dsk blk fs b) fs1"
    using write_bb_loop [of ?fs 0 "unat bb" "(sb_blocks_count (fs_sb fs) + 7) div 8"] assms(1) km(3) bb(2) by (auto simp: bb' cong: if_cong)
  note g1 = writes_geom [OF fs1(2)]
  have ok1: "fs_ok good fs1" "no_fail fs1"
    "dsk blk fs1 = (\<lambda>b. if 2 \<le> b \<and> b < 2 + bitmap_blocks fs then bm_chunk fs (b - 2) else dsk blk fs b)"
    using fs1(2) by (auto simp: writes_def)
  have ni: "(NI fs + 7) div 8 \<le> BS fs" "BS fs \<le> 4096" using w sb_wfD(3) [OF w] by (simp_all add: sb_wf_def)
  then have "NI fs + 7 < 4294967296" by linarith
  then have sz: "unat ((sb_inodes_count (fs_sb fs) + 7) div 8) = (NI fs + 7) div 8"
    by (simp add: unat_div unat_add_numeral_exact)
  then have sl: "slice (inode_bitmap fs1) 0 (unat ((sb_inodes_count (fs_sb fs) + 7) div 8)) = Some (inode_bitmap fs)"
    using g1(3) fs_okD(4) [OF assms(1)] by (simp add: slice_def)
  have bl: "blit (replicate (BS fs1) 0) 0 (inode_bitmap fs) = Some (pad (BS fs) (inode_bitmap fs))"
    using ni fs_okD(4) [OF assms(1)] g1(1) by (simp add: blit_overwrite pad_def)
  have "bitmap_blocks fs + 3 \<le> NB fs" using w by (simp add: sb_wf_def table_start_def)
  then have b2: "unat (2 + bb) = 2 + bitmap_blocks fs" "unat (2 + bb) < NB fs1"
    using bb(2) sb_wfD(6) [OF w] g1(1) by (auto simp: unat_word_ariths)
  have "length (pad (BS fs) (inode_bitmap fs)) = BS fs1"
    using ni fs_okD(4) [OF assms(1)] g1(1) by (simp add: pad_simps)
  then obtain d where d: "ext2_write_block fs1 (2 + bb) (pad (BS fs) (inode_bitmap fs)) = Some (0, fs1\<lparr>fs_device := d\<rparr>)"
    "fs_ok good (fs1\<lparr>fs_device := d\<rparr>)"
    "dsk blk (fs1\<lparr>fs_device := d\<rparr>) = (dsk blk fs1)(2 + bitmap_blocks fs := pad (BS fs) (inode_bitmap fs))"
    using write_block [OF ok1(1) b2(2)] b2(1) by auto
  have "ext2_write_bitmaps fs = Some (0, fs1\<lparr>fs_device := d\<rparr>)"
    using bb(1) km(1) fs1(1) sl bl d(1) by (simp add: ext2_write_bitmaps_def Let_def)
  moreover have "writes good blk fs (\<lambda>b. if 2 \<le> b \<and> b < 2 + bitmap_blocks fs then bm_chunk fs (b - 2)
      else if b = 2 + bitmap_blocks fs then pad (BS fs) (inode_bitmap fs) else dsk blk fs b) (fs1\<lparr>fs_device := d\<rparr>)"
    using d(2,3) ok1 g1 by (auto simp: writes_def fun_eq_iff)
  ultimately show ?thesis by blast
qed

end

section \<open>Mounting restores what was written back\<close>

definition synced :: "(nat \<Rightarrow> 'c ramdisk_device \<Rightarrow> nat \<Rightarrow> u8 list) \<Rightarrow> 'c ext2_filesystem \<Rightarrow> bool" where
  "synced blk fs \<longleftrightarrow>
     dsk blk fs 1 = pad (BS fs) (ext2_superblock_bytes (fs_sb fs)) \<and>
     (\<forall>i < bitmap_blocks fs. dsk blk fs (2 + i) = bm_chunk fs i) \<and>
     dsk blk fs (2 + bitmap_blocks fs) = pad (BS fs) (inode_bitmap fs) \<and>
     (\<forall>n < NI fs. take 256 (drop (inode_off fs (n + 1)) (dsk blk fs (inode_blk fs (n + 1)))) =
        ext2_inode_bytes (inode_table fs ! n))"

lemma ceil_ge:
  fixes n m :: nat
  assumes "0 < m"
  shows "n \<le> (n + m - 1) div m * m"
proof -
  have "(n + m - 1) div m * m + (n + m - 1) mod m = n + m - 1" by simp
  moreover have "(n + m - 1) mod m < m" using assms by simp
  ultimately show ?thesis by linarith
qed

lemma bitmap_covered:
  assumes "sb_wf fs"
  shows "(NB fs + 7) div 8 \<le> bitmap_blocks fs * BS fs"
proof -
  have "NB fs \<le> bitmap_blocks fs * (8 * BS fs)"
    unfolding bitmap_blocks_def using sb_wfD(2) [OF assms] by (intro ceil_ge) simp
  then have "NB fs \<le> 8 * (bitmap_blocks fs * BS fs)" by (simp add: mult.assoc mult.left_commute)
  then show ?thesis by linarith
qed

lemma bitmap_off_sb:
  assumes "sb_wf fs" and "i < bitmap_blocks fs"
  shows "i * BS fs < (NB fs + 7) div 8"
proof -
  have "Suc i * (8 * BS fs) \<le> bitmap_blocks fs * (8 * BS fs)" using assms(2) by (intro mult_le_mono1) simp
  also have "\<dots> \<le> NB fs + 8 * BS fs - 1" by (simp add: bitmap_blocks_def)
  finally have "i * BS fs * 8 < NB fs" using sb_wfD(2) [OF assms(1)] by (simp add: algebra_simps)
  then show ?thesis by linarith
qed

lemma meta_bytes:
  assumes "sb_wf fs" and "b < table_start fs + table_blocks fs"
  shows "b * BS fs < 2 ^ 32"
proof -
  have w: "1024 \<le> BS fs" "BS fs \<le> 4096" "NB fs < 2147483648" using sb_wfD(2,3,6) [OF assms(1)] by simp_all
  have "(NI fs + 7) div 8 \<le> BS fs" using assms(1) by (simp add: sb_wf_def)
  then have ni: "NI fs \<le> 8 * BS fs" by linarith
  have "bitmap_blocks fs * (8 * BS fs) \<le> NB fs + 8 * BS fs - 1" by (simp add: bitmap_blocks_def)
  then have bb: "bitmap_blocks fs * BS fs \<le> NB fs + BS fs" using w by (simp add: algebra_simps)
  have tb: "table_blocks fs * BS fs \<le> NI fs * 256 + BS fs - 1" by (simp add: table_blocks_def)
  have "b * BS fs \<le> (table_start fs + table_blocks fs) * BS fs" using assms(2) by (intro mult_le_mono1) simp
  also have "\<dots> = 3 * BS fs + bitmap_blocks fs * BS fs + table_blocks fs * BS fs"
    by (simp add: table_start_def algebra_simps)
  finally have "b * BS fs < 4294967296" using bb tb ni w by linarith
  then show ?thesis by simp
qed

context block_store
begin

lemma mount_read:
  assumes "good (BS fs) (NB fs) (fs_device fs)" and "unat b < NB fs" and "length buf = BS fs" and "unat b * BS fs < 2 ^ 32"
  shows "mount_read fs b buf = Some (dsk blk fs (unat b))"
proof -
  have nz: "rd_block_size (fs_device fs) \<noteq> 0" using good_size [OF assms(1)] by simp
  have "unat (b * fs_bs fs) = unat b * BS fs" using assms(4) by (simp add: unat_word_ariths)
  then have "(ucast ((b * fs_bs fs) div rd_block_size (fs_device fs)) :: u64) = dev_index (fs_device fs) (BS fs) (unat b)"
    using assms(4) by (simp add: word_unat_eq_iff dev_index_def unat_div unat_of_nat del: of_nat_mult)
  moreover have "(of_nat (BS fs) :: u64) = ucast (fs_bs fs)" by simp
  ultimately show ?thesis
    using read_law [OF assms(1-3)] nz by (simp add: mount_read_def dsk_def)
qed

lemma load_bb_loop:
  assumes "sb_wf fs" and "good (BS fs) (NB fs) (fs_device fs)" and "length block = BS fs"
    and "unat i + n = bitmap_blocks fs" and "unat sz = (NB fs + 7) div 8" and "length bm = unat sz"
    and "length (block_bitmap fs) = unat sz" and "take (unat i * BS fs) (block_bitmap fs) = take (unat i * BS fs) bm"
    and "\<forall>j < bitmap_blocks fs. dsk blk fs (2 + j) = pad (BS fs) (take (BS fs) (drop (j * BS fs) bm))"
  shows "\<exists>block'. load_bb_loop n i sz block fs = Some (block', fs\<lparr>block_bitmap := bm\<rparr>) \<and> length block' = BS fs"
  using assms
proof (induction n arbitrary: i block fs)
  case 0
  have "unat sz \<le> unat i * BS fs" using bitmap_covered [OF 0(1)] 0(4,5) by simp
  then have "block_bitmap fs = bm" using 0(6,7,8) by simp
  then show ?case using 0(3) by (intro exI [of _ block]) auto
next
  case (Suc n)
  note w = Suc.prems(1)
  have i: "unat i < bitmap_blocks fs" using Suc.prems(4) by simp
  have lt: "2 + unat i < table_start fs + table_blocks fs" using i by (simp add: table_start_def)
  then have nb: "2 + unat i < NB fs" using w by (simp add: sb_wf_def)
  then have b2: "unat (2 + i) = 2 + unat i" using sb_wfD(6) [OF w] by (simp add: unat_word_ariths)
  then have rd: "mount_read fs (2 + i) block = Some (dsk blk fs (2 + unat i))"
    using mount_read [OF Suc.prems(2) _ Suc.prems(3), of "2 + i"] nb meta_bytes [OF w lt] by simp
  let ?c = "take (BS fs) (drop (unat i * BS fs) bm)"
  have d: "dsk blk fs (2 + unat i) = pad (BS fs) ?c" using Suc.prems(9) i by simp
  have off: "unat i * BS fs < unat sz" using bitmap_off_sb [OF w i] Suc.prems(5) by simp
  have small: "unat i * BS fs + BS fs < 18446744073709551616"
    using off sb_wfD(3) [OF w] unat_u32_less [of sz] by linarith
  have u: "unat (ucast i * ucast (fs_bs fs) :: u64) = unat i * BS fs"
    using small by (simp add: unat_word_ariths)
  let ?len = "if ucast i * ucast (fs_bs fs) + ucast (fs_bs fs) > (ucast sz :: u64)
     then ucast sz - ucast i * ucast (fs_bs fs) else ucast (fs_bs fs) :: u64"
  have "unat (ucast i * ucast (fs_bs fs) + ucast (fs_bs fs) :: u64) = unat i * BS fs + BS fs"
    using small u by (subst unat_add_exact) simp_all
  then have len: "unat ?len = min (BS fs) (unat sz - unat i * BS fs)"
    using u off by (auto simp: word_less_nat_alt unat_sub_if')
  have lc: "length ?c = unat ?len" using Suc.prems(6) len by simp
  then have sl: "slice (pad (BS fs) ?c) 0 (unat ?len) = Some ?c"
    using pad_simps [of ?c "BS fs"] by (simp add: slice_def len)
  let ?bm = "overwrite (block_bitmap fs) (unat i * BS fs) ?c"
  have fit: "unat i * BS fs + length ?c \<le> length (block_bitmap fs)"
    using Suc.prems(6,7) off by simp
  let ?fs = "fs\<lparr>block_bitmap := ?bm\<rparr>"
  have step: "load_bb_loop (Suc n) i sz block fs = load_bb_loop n (i + 1) sz (dsk blk fs (2 + unat i)) ?fs"
    using rd d sl u fit by (simp add: Let_def blit_overwrite)
  have "take (Suc (unat i) * BS fs) ?bm = take (Suc (unat i) * BS fs) bm"
  proof -
    have "take (Suc (unat i) * BS fs) ?bm = take (unat i * BS fs) bm @ ?c"
      using Suc.prems(6,7,8) off by (simp add: overwrite_def min_def)
    also have "\<dots> = take (unat i * BS fs + BS fs) bm" by (simp only: take_add)
    also have "unat i * BS fs + BS fs = Suc (unat i) * BS fs" by simp
    finally show ?thesis .
  qed
  moreover have i1: "unat (i + 1) = unat i + 1" using nb sb_wfD(6) [OF w] by (simp add: unat_word_ariths)
  moreover have "sb_wf ?fs" "bitmap_blocks ?fs = bitmap_blocks fs" "dsk blk ?fs = dsk blk fs"
    using w by (simp_all add: sb_wf_def bitmap_blocks_def table_start_def table_blocks_def dsk_def)
  moreover have "length (dsk blk fs (2 + unat i)) = BS fs" using d by (simp add: pad_simps)
  ultimately have "\<exists>block'. load_bb_loop n (i + 1) sz (dsk blk fs (2 + unat i)) ?fs = Some (block', ?fs\<lparr>block_bitmap := bm\<rparr>) \<and>
      length block' = BS ?fs"
    using Suc.prems(2,4,5,6,7,9) fit by (intro Suc.IH) simp_all
  then show ?case unfolding step by simp
qed

lemma load_inodes:
  assumes "sb_wf fs" and "good (BS fs) (NB fs) (fs_device fs)" and "length block = BS fs"
    and "unat i + n = NI fs" and "unat it_start = table_start fs"
    and "last_blk = 0xFFFFFFFF \<or> block = dsk blk fs (unat last_blk)"
  shows "load_inodes n i it_start last_blk block fs =
    Some (map (\<lambda>k. ext2_inode_of (take 256 (drop (inode_off fs (k + 1)) (dsk blk fs (inode_blk fs (k + 1)))))) [unat i..<NI fs])"
  using assms
proof (induction n arbitrary: i last_blk block)
  case (Suc n)
  note w = Suc.prems(1)
  have i: "unat i < NI fs" using Suc.prems(4) by simp
  obtain k where k: "BS fs = 256 * k" using sb_wfD(4) [OF w] by blast
  have k0: "0 < k" using sb_wfD(2) [OF w] k by simp
  have "unat i * 256 < 18446744073709551616" using unat_u32_less [of i] by linarith
  then have m: "unat (ucast i * 256 :: u64) = unat i * 256" by (simp add: unat_word_ariths)
  let ?q = "(ucast i * 256) div (ucast (fs_bs fs) :: u64)"
  let ?num = "ucast (ucast it_start + ?q) :: u32" and ?off = "ucast ((ucast i * 256) mod (ucast (fs_bs fs) :: u64)) :: u32"
  have q: "unat ?q = unat i * 256 div BS fs" by (simp add: unat_div m)
  have "unat i * 256 < NI fs * 256" using i by simp
  then have "unat i * 256 div BS fs < table_blocks fs"
    unfolding table_blocks_def using k0 k by (intro div_less_ceil) simp_all
  then have lt: "inode_blk fs (unat i + 1) < table_start fs + table_blocks fs" by (simp add: inode_blk_def)
  then have nb: "inode_blk fs (unat i + 1) < NB fs" "inode_blk fs (unat i + 1) < 2147483648"
    using w sb_wfD(6) [OF w] by (auto simp: sb_wf_def)
  have "unat (ucast it_start + ?q) = inode_blk fs (unat i + 1)"
    using nb(2) q Suc.prems(5) by (simp add: inode_blk_def unat_word_ariths)
  then have num: "unat ?num = inode_blk fs (unat i + 1)"
    using nb(2) by (simp only: unsigned_ucast_eq) (simp add: take_bit_nat_eq_self)
  have "unat i * 256 mod BS fs = 256 * (unat i mod k)" by (simp add: k mult_mod_right mult.commute)
  moreover have "unat i mod k < k" using k0 by simp
  ultimately have off256: "inode_off fs (unat i + 1) + 256 \<le> BS fs" by (simp add: inode_off_def k)
  have "unat ((ucast i * 256) mod (ucast (fs_bs fs) :: u64)) = inode_off fs (unat i + 1)"
    by (simp add: unat_mod m inode_off_def)
  then have off: "unat ?off = inode_off fs (unat i + 1)"
    using off256 sb_wfD(3) [OF w] by (simp only: unsigned_ucast_eq) (simp add: take_bit_nat_eq_self)
  let ?blk = "dsk blk fs (inode_blk fs (unat i + 1))"
  have len: "length ?blk = BS fs" unfolding dsk_def using blk_length [OF Suc.prems(2) nb(1)] .
  have num': "?num \<noteq> 0xFFFFFFFF" using num nb(2) by (auto simp: word_unat_eq_iff)
  have rd: "(if ?num \<noteq> last_blk then mount_read fs ?num block else Some block) = Some ?blk"
    using mount_read [OF Suc.prems(2) _ Suc.prems(3), of ?num] meta_bytes [OF w lt] nb(1) num num' Suc.prems(6) by auto
  have sl: "slice ?blk (unat ?off) 256 = Some (take 256 (drop (inode_off fs (unat i + 1)) ?blk))"
    using off off256 len by (simp add: slice_def)
  have i1: "unat (i + 1) = unat i + 1" using unat_inc [OF i] .
  have "load_inodes n (i + 1) it_start ?num ?blk fs =
    Some (map (\<lambda>k. ext2_inode_of (take 256 (drop (inode_off fs (k + 1)) (dsk blk fs (inode_blk fs (k + 1)))))) [unat (i + 1)..<NI fs])"
    using Suc.prems i1 num len by (intro Suc.IH) simp_all
  then show ?case
    using rd sl sb_wfD(5) [OF w, THEN ucast_nonzero] i i1
    by (simp add: Let_def upt_conv_Cons del: upt_Suc)
qed simp

end

context block_store
begin

lemma load_metadata:
  assumes ok: "fs_ok good fs" and sync: "synced blk fs" and sb: "sb_block_size (fs_sb fs) = 1024"
    and f1: "no_fail fs1" "fs_sb fs1 = fs_sb fs" "fs_device fs1 = fs_device fs"
  shows "\<exists>fs'. load_metadata fs1 = Some (0, fs') \<and> fs_device fs' = fs_device fs \<and> fs_sb fs' = fs_sb fs \<and>
    block_bitmap fs' = block_bitmap fs \<and> inode_bitmap fs' = inode_bitmap fs \<and> inode_table fs' = inode_table fs \<and> no_fail fs'"
proof -
  have w: "sb_wf fs" and g: "good 1024 (NB fs) (fs_device fs)" using fs_okD(1,2) [OF ok] sb by simp_all
  have nb7: "unat ((sb_blocks_count (fs_sb fs) + 7) div 8) = (NB fs + 7) div 8"
    using sb_wfD(6) [OF w] by (simp add: unat_div unat_add_numeral_exact)
  have "(NI fs + 7) div 8 \<le> 1024" using w sb by (simp add: sb_wf_def)
  then have ni: "NI fs \<le> 8192" by linarith
  then have ni7: "unat ((sb_inodes_count (fs_sb fs) + 7) div 8) = (NI fs + 7) div 8"
    by (simp add: unat_div unat_add_numeral_exact)
  obtain bm rs2 where k2: "fs_kmalloc ((NB fs + 7) div 8) fs1 = (Some bm, fs1\<lparr>heap_replies := rs2\<rparr>)"
    "length bm = (NB fs + 7) div 8" "no_fail (fs1\<lparr>heap_replies := rs2\<rparr>)" using fs_kmalloc_ok [OF f1(1)] .
  define fs2 where "fs2 = fs1\<lparr>heap_replies := rs2, block_bitmap := bm\<rparr>"
  have f2: "no_fail fs2" using k2(3) by (simp add: fs2_def no_fail_def)
  obtain ib rs3 where k3: "fs_kmalloc ((NI fs + 7) div 8) fs2 = (Some ib, fs2\<lparr>heap_replies := rs3\<rparr>)"
    "length ib = (NI fs + 7) div 8" "no_fail (fs2\<lparr>heap_replies := rs3\<rparr>)" using fs_kmalloc_ok [OF f2] .
  define fs3 where "fs3 = fs2\<lparr>heap_replies := rs3, inode_bitmap := ib\<rparr>"
  have f3: "no_fail fs3" using k3(3) by (simp add: fs3_def no_fail_def)
  obtain b4 rs4 where k4: "fs_kmalloc 1024 fs3 = (Some b4, fs3\<lparr>heap_replies := rs4\<rparr>)"
    "length b4 = 1024" "no_fail (fs3\<lparr>heap_replies := rs4\<rparr>)" using fs_kmalloc_ok [OF f3] .
  define fs4 where "fs4 = fs3\<lparr>heap_replies := rs4\<rparr>"
  have sb4: "fs_sb fs4 = fs_sb fs" "fs_device fs4 = fs_device fs" "block_bitmap fs4 = bm" "inode_bitmap fs4 = ib"
    by (simp_all add: fs4_def fs3_def fs2_def f1)
  have geo: "sb_wf fs4" "bitmap_blocks fs4 = bitmap_blocks fs" "table_start fs4 = table_start fs" "dsk blk fs4 = dsk blk fs"
    using w by (simp_all add: sb_wf_def bitmap_blocks_def table_start_def table_blocks_def dsk_def sb4)
  obtain bb where bb: "bb_blks fs4 = Some bb" "unat bb = bitmap_blocks fs" using bb_blks_eq [OF geo(1)] geo(2) by metis
  have "\<forall>j < bitmap_blocks fs. dsk blk fs (2 + j) = pad 1024 (take 1024 (drop (j * 1024) (block_bitmap fs)))"
    using sync sb by (simp add: synced_def bm_chunk_def)
  then obtain b5 where l5: "load_bb_loop (unat bb) 0 ((sb_blocks_count (fs_sb fs) + 7) div 8) b4 fs4 =
      Some (b5, fs4\<lparr>block_bitmap := block_bitmap fs\<rparr>)" "length b5 = 1024"
    using load_bb_loop [OF geo(1), of b4 0 "unat bb" "(sb_blocks_count (fs_sb fs) + 7) div 8" "block_bitmap fs"]
      g k4(2) bb(2) nb7 fs_okD(3) [OF ok] k2(2) sb by (auto simp: geo sb4)
  define fs5 where "fs5 = fs4\<lparr>block_bitmap := block_bitmap fs\<rparr>"
  have lt: "2 + bitmap_blocks fs < table_start fs + table_blocks fs" by (simp add: table_start_def)
  then have nb: "2 + bitmap_blocks fs < NB fs" using w by (simp add: sb_wf_def)
  then have b2: "unat (2 + bb) = 2 + bitmap_blocks fs" using bb(2) sb_wfD(6) [OF w] by (simp add: unat_word_ariths)
  have d5: "dsk blk fs5 = dsk blk fs" "fs_sb fs5 = fs_sb fs" "fs_device fs5 = fs_device fs"
    by (simp_all add: fs5_def geo sb4 dsk_def)
  have "dsk blk fs (2 + bitmap_blocks fs) = pad 1024 (inode_bitmap fs)" using sync sb by (simp add: synced_def)
  then have r6: "mount_read fs5 (2 + bb) b5 = Some (pad 1024 (inode_bitmap fs))"
    using mount_read [of fs5 "2 + bb" b5] g l5(2) sb nb meta_bytes [OF w lt] by (simp add: d5 b2)
  have li: "length (inode_bitmap fs) = (NI fs + 7) div 8" using fs_okD(4) [OF ok] .
  have s6: "slice (pad 1024 (inode_bitmap fs)) 0 ((NI fs + 7) div 8) = Some (inode_bitmap fs)"
    using pad_simps [of "inode_bitmap fs" 1024] li \<open>(NI fs + 7) div 8 \<le> 1024\<close> by (simp add: slice_def)
  have b6: "blit ib 0 (inode_bitmap fs) = Some (inode_bitmap fs)" using k3(2) li by (simp add: blit_def)
  define fs6 where "fs6 = fs5\<lparr>inode_bitmap := inode_bitmap fs\<rparr>"
  have f6: "no_fail fs6" using k4(3) by (simp add: fs6_def fs5_def fs4_def no_fail_def)
  obtain b7 rs7 where k7: "fs_kmalloc (NI fs * 256) fs6 = (Some b7, fs6\<lparr>heap_replies := rs7\<rparr>)"
    "no_fail (fs6\<lparr>heap_replies := rs7\<rparr>)" using fs_kmalloc_ok [OF f6] .
  obtain b8 rs8 where k8: "fs_kmalloc 1024 (fs6\<lparr>heap_replies := rs7\<rparr>) = (Some b8, fs6\<lparr>heap_replies := rs8\<rparr>)" "length b8 = 1024"
    "no_fail (fs6\<lparr>heap_replies := rs8\<rparr>)"
    using fs_kmalloc_ok [OF k7(2), of 1024] by (metis ext2_filesystem.update_convs(6) ext2_filesystem.surjective)
  define fs8 where "fs8 = fs6\<lparr>heap_replies := rs8\<rparr>"
  have d8: "fs_sb fs8 = fs_sb fs" "fs_device fs8 = fs_device fs"
    by (simp_all add: fs8_def fs6_def d5)
  have geo8: "sb_wf fs8" "table_start fs8 = table_start fs" "dsk blk fs8 = dsk blk fs"
      "inode_off fs8 = inode_off fs" "inode_blk fs8 = inode_blk fs"
    using w by (simp_all add: sb_wf_def bitmap_blocks_def table_start_def table_blocks_def dsk_def d8 inode_off_def inode_blk_def fun_eq_iff)
  have "unat (2 + bb + 1) = table_start fs" using b2 bb(2) nb sb_wfD(6) [OF w] by (simp add: table_start_def unat_word_ariths)
  then have li8: "load_inodes (NI fs) 0 (2 + bb + 1) 0xFFFFFFFF b8 fs8 =
     Some (map (\<lambda>k. ext2_inode_of (take 256 (drop (inode_off fs (k + 1)) (dsk blk fs (inode_blk fs (k + 1)))))) [0..<NI fs])"
    using load_inodes [OF geo8(1), of b8 0 "NI fs" "2 + bb + 1" "0xFFFFFFFF"] g k8(2) sb by (simp add: d8 geo8)
  have "ext2_inode_of (take 256 (drop (inode_off fs (k + 1)) (dsk blk fs (inode_blk fs (k + 1))))) = inode_table fs ! k"
    if "k < NI fs" for k
    using sync that inode_of_bytes [of "inode_table fs ! k" "[]"] fs_okD(5,6) [OF ok] by (simp add: synced_def)
  then have tab: "map (\<lambda>k. ext2_inode_of (take 256 (drop (inode_off fs (k + 1)) (dsk blk fs (inode_blk fs (k + 1)))))) [0..<NI fs] = inode_table fs"
    using fs_okD(5) [OF ok] by (intro nth_equalityI) simp_all
  have sz: "unat (ucast (ucast (sb_inodes_count (fs_sb fs)) * 256 :: u64) :: u32) = NI fs * 256"
    using ni by (simp add: unsigned_ucast_eq unat_word_ariths take_bit_nat_eq_self)
  define g2 where "g2 = fs1\<lparr>heap_replies := rs2\<rparr>"
  define g3 where "g3 = fs2\<lparr>heap_replies := rs3\<rparr>"
  define g7 where "g7 = fs6\<lparr>heap_replies := rs7\<rparr>"
  have e2: "fs2 = g2\<lparr>block_bitmap := bm\<rparr>" and e3: "fs3 = g3\<lparr>inode_bitmap := ib\<rparr>" and e6: "fs6 = fs5\<lparr>inode_bitmap := inode_bitmap fs\<rparr>"
    by (simp_all add: g2_def g3_def fs2_def fs3_def fs6_def)
  have bs: "fs_bs g3 = 1024" "fs_bs g7 = 1024" "inode_bitmap fs5 = ib"
    by (simp_all add: g3_def fs2_def g7_def fs6_def d5 f1 sb sb4 fs5_def)
  note steps = k2(1) [folded g2_def] k3(1) [folded g3_def, unfolded e2] k4(1) [folded fs4_def, unfolded e3]
    l5(1) [folded fs5_def] k7(1) [folded g7_def, unfolded e6] k8(1) [folded g7_def fs8_def]
  have "load_metadata fs1 = Some (0, fs8\<lparr>inode_table := inode_table fs\<rparr>)"
    by (simp add: load_metadata_def Let_def f1(2) nb7 ni7 sz bs steps bb(1) r6 s6 b6 d8 li8 [simplified] tab [simplified])
  then show ?thesis
    using k8(3) by (auto simp: d8 fs8_def fs6_def fs5_def sb4 no_fail_def)
qed

lemma mount_restores:
  assumes ok: "fs_ok good fs" and sync: "synced blk fs"
    and sb: "sb_magic (fs_sb fs) = EXT2_MAGIC" "sb_version (fs_sb fs) = 1" "sb_log_block_size (fs_sb fs) = 0"
      "sb_block_size (fs_sb fs) = 1024"
    and fs0: "no_fail fs0" "length (g_ext2_sb_buffer fs0) = 1024"
  shows "\<exists>fs'. ext2_mount (fs_device fs) fs0 = Some (0, fs') \<and> fs_device fs' = fs_device fs \<and> fs_sb fs' = fs_sb fs \<and>
    block_bitmap fs' = block_bitmap fs \<and> inode_bitmap fs' = inode_bitmap fs \<and> inode_table fs' = inode_table fs \<and> no_fail fs'"
proof -
  have w: "sb_wf fs" and g: "good 1024 (NB fs) (fs_device fs)" using fs_okD(1,2) [OF ok] sb(4) by simp_all
  have sbok: "ext2_superblock_ok (fs_sb fs)" using w by (simp add: sb_wf_def)
  have nz: "rd_block_size (fs_device fs) \<noteq> 0" using good_size [OF g] by simp
  have one: "1 < NB fs" using sb_wfD(7,8) [OF w] by simp
  define B where "B = pad 1024 (ext2_superblock_bytes (fs_sb fs))"
  have B: "blk 1024 (fs_device fs) 1 = B" using sync sb(4) by (simp add: synced_def dsk_def B_def)
  have "pad 1024 (ext2_superblock_bytes (fs_sb fs)) = ext2_superblock_bytes (fs_sb fs) @ replicate 8 0"
    using length_superblock_bytes [OF sbok] by (simp add: pad_def overwrite_def)
  then have sbB: "ext2_superblock_of B = fs_sb fs" using superblock_of_bytes [OF sbok] by (simp add: B_def)
  have idx: "dev_index (fs_device fs) 1024 1 = 1024 div ucast (rd_block_size (fs_device fs))"
    by (simp add: dev_index_def)
  have "ramdisk_read (fs_device fs) (1024 div ucast (rd_block_size (fs_device fs))) (g_ext2_sb_buffer fs0) 1024 = Some (0, B)"
    using read_law [OF g one, of "g_ext2_sb_buffer fs0"] fs0(2) idx B by simp
  moreover have q: "1024 div ucast (rd_block_size (fs_device fs)) \<noteq> (0 :: u64)"
  proof -
    have "unat (rd_block_size (fs_device fs)) dvd 1024" "0 < unat (rd_block_size (fs_device fs))"
      using good_size [OF g] by (simp_all add: unat_gt_0)
    then have "unat (1024 div ucast (rd_block_size (fs_device fs)) :: u64) \<noteq> 0"
      by (simp add: unat_div div_eq_0_iff dvd_imp_le not_less)
    then show ?thesis by auto
  qed
  ultimately have rd: "ramdisk_read (fs_device fs) (let q = 1024 div ucast (rd_block_size (fs_device fs)) in if q = 0 then 1 else q)
      (g_ext2_sb_buffer fs0) (ucast EXT2_BLOCK_SIZE) = Some (0, B)" by (simp add: EXT2_BLOCK_SIZE_def)
  define fs1 where "fs1 = (reset_fs (fs_device fs) fs0)\<lparr>g_ext2_sb_buffer := B, fs_sb := fs_sb fs\<rparr>"
  have f1: "no_fail fs1" "fs_sb fs1 = fs_sb fs" "fs_device fs1 = fs_device fs"
    using fs0(1) by (simp_all add: fs1_def reset_fs_def no_fail_def)
  have same: "(fs_sb fs)\<lparr>sb_block_size := 1024, sb_version := 1\<rparr> = fs_sb fs" using sb by simp
  have "ext2_mount (fs_device fs) fs0 = load_metadata fs1"
    using rd q nz ucast_nonzero sbB sb fs0
    by (simp add: ext2_mount_def Let_def fs1_def reset_fs_def same)
  then show ?thesis using load_metadata [OF ok sync sb(4) f1] by simp
qed

end

end
