(* ===== verification/Vfs_Overlay.thy ===== *)
theory Vfs_Overlay
  imports Vfs Ext2_Disk
begin

text \<open>
  The in-memory overlay of the virtual file system as a finite map from paths to contents:
  without a mounted disk \<^const>\<open>vfs_create\<close>, \<^const>\<open>vfs_unlink\<close>, \<^const>\<open>vfs_write\<close> and
  \<^const>\<open>vfs_read\<close> are the operations of a store of 32 files of at most 8192 bytes.
\<close>

section \<open>The abstract store\<close>

type_synonym files = "u8 list \<rightharpoonup> u8 list"

definition spec_create :: "u8 list \<Rightarrow> files \<Rightarrow> int \<times> files" where
  "spec_create p m = (if p \<in> dom m then (0, m) else if card (dom m) < 32 then (0, m(p \<mapsto> [])) else (-1, m))"

definition spec_unlink :: "u8 list \<Rightarrow> files \<Rightarrow> int \<times> files" where
  "spec_unlink p m = (if p \<in> dom m then (0, m(p := None)) else (-1, m))"

text \<open>
  A name can be written to when the store has it, or when it is short enough and there is room for
  it. A write behind the end of a file leaves a gap, whose bytes the store does not determine; a
  file is cut at 8192 bytes.
\<close>

definition writable :: "u8 list \<Rightarrow> files \<Rightarrow> bool" where
  "writable p m \<longleftrightarrow> p \<in> dom m \<or> length p < 64 \<and> card (dom m) < 32"

definition content :: "u8 list \<Rightarrow> files \<Rightarrow> u8 list" where
  "content p m = (case m p of None \<Rightarrow> [] | Some c \<Rightarrow> c)"

definition written :: "nat \<Rightarrow> u8 list \<Rightarrow> u8 list \<Rightarrow> u8 list \<Rightarrow> u8 list" where
  "written off g bs c = take off (c @ g) @ bs @ drop (off + length bs) c"

definition spec_write :: "u8 list \<Rightarrow> nat \<Rightarrow> u8 list \<Rightarrow> files \<Rightarrow> int \<Rightarrow> files \<Rightarrow> bool" where
  "spec_write p off bs m r m' \<longleftrightarrow>
     (if writable p m
      then let bs = take (8192 - off) bs; c = content p m in
           r = int (length bs) \<and> (\<exists>g. length g = off - length c \<and> m' = m(p \<mapsto> written off g bs c))
      else r = -1 \<and> m' = m)"

definition spec_write_all :: "u8 list \<Rightarrow> u8 list \<Rightarrow> files \<Rightarrow> int \<times> files" where
  "spec_write_all p bs m =
     (if writable p m then (int (length (take 8192 bs)), m(p \<mapsto> take 8192 bs)) else (-1, m))"

definition spec_read :: "u8 list \<Rightarrow> nat \<Rightarrow> nat \<Rightarrow> files \<Rightarrow> u8 list option" where
  "spec_read p off n m = map_option (\<lambda>c. take n (drop off c)) (m p)"

section \<open>Abstraction\<close>

definition named :: "u8 list \<Rightarrow> vfs_user_file \<Rightarrow> bool" where
  "named p f \<longleftrightarrow> uf_used f \<and> uf_path f = p"

definition uf_bytes :: "vfs_user_file \<Rightarrow> u8 list" where
  "uf_bytes f = take (unat (uf_size f)) (uf_data f)"

definition user_ok :: "vfs_user_file \<Rightarrow> bool" where
  "user_ok f \<longleftrightarrow> length (uf_data f) = 8192 \<and> uf_size f \<le> VFS_USER_MAX_SIZE"

definition overlay_ok :: "'c vfs \<Rightarrow> bool" where
  "overlay_ok v \<longleftrightarrow> g_ext2 v = None \<and> length (g_user_files v) = 32 \<and> list_all user_ok (g_user_files v) \<and>
     distinct (map uf_path (filter uf_used (g_user_files v)))"

definition ram_files :: "'c vfs \<Rightarrow> files" where
  "ram_files v p = map_option (\<lambda>i. uf_bytes (g_user_files v ! i)) (find_index (named p) (g_user_files v))"

section \<open>Searching\<close>

lemma find_index_None: "find_index P xs = None \<longleftrightarrow> (\<forall>x \<in> set xs. \<not> P x)"
  by (induction xs) auto

lemma find_index_Some:
  assumes "find_index P xs = Some i"
  shows "i < length xs" "P (xs ! i)" "\<forall>j < i. \<not> P (xs ! j)"
  using assms by (induction xs arbitrary: i) (auto split: if_splits simp: nth_Cons')

lemma find_index_eqI: "i < length xs \<Longrightarrow> P (xs ! i) \<Longrightarrow> \<forall>j < i. \<not> P (xs ! j) \<Longrightarrow> find_index P xs = Some i"
proof (induction xs arbitrary: i)
  case (Cons x xs)
  show ?case
  proof (cases i)
    case 0
    then show ?thesis using Cons.prems by simp
  next
    case (Suc k)
    have "\<not> P x" using Cons.prems(3) Suc by (metis nth_Cons_0 zero_less_Suc)
    moreover have "find_index P xs = Some k" using Cons.prems Suc by (intro Cons.IH) auto
    ultimately show ?thesis using Suc by simp
  qed
qed simp

lemma find_index_update:
  assumes "i < length xs" "P (xs ! i) \<longleftrightarrow> P y"
  shows "find_index P (xs[i := y]) = find_index P xs"
  using assms by (induction xs arbitrary: i) (auto split: nat.splits)

lemma find_user_file_named: "find_user_file (Some p) v = Some (find_index (named p) (g_user_files v))"
  by (simp add: find_user_file_def named_def [abs_def])

lemma overlay_okD:
  assumes "overlay_ok v"
  shows "g_ext2 v = None" "length (g_user_files v) = 32" "i < 32 \<Longrightarrow> user_ok (g_user_files v ! i)"
    "distinct (map uf_path (filter uf_used (g_user_files v)))"
  using assms by (auto simp: overlay_ok_def list_all_length)

lemma named_unique:
  assumes "distinct (map uf_path (filter uf_used xs))" "i < length xs" "j < length xs" "named p (xs ! i)" "named p (xs ! j)"
  shows "i = j"
  using assms
proof (induction xs arbitrary: i j)
  case (Cons x xs)
  have x: "p \<notin> uf_path ` set (filter uf_used xs)" if "named p x"
    using Cons.prems(1) that by (simp add: named_def)
  have y: "p \<in> uf_path ` set (filter uf_used xs)" if "k < length xs" "named p (xs ! k)" for k
    using that by (force simp: named_def)
  have d: "distinct (map uf_path (filter uf_used xs))" using Cons.prems(1) by (simp split: if_splits)
  show ?case
  proof (cases i)
    case i0: 0
    then show ?thesis using Cons.prems x y [of "j - 1"] by (cases j) simp_all
  next
    case (Suc a)
    then show ?thesis using Cons.prems x y [of a] Cons.IH [OF d, of a "j - 1"] by (cases j) simp_all
  qed
qed simp

lemma dom_ram_files: "dom (ram_files v) = set (map uf_path (filter uf_used (g_user_files v)))"
proof -
  have "(find_index (named p) (g_user_files v) \<noteq> None) = (\<exists>f \<in> set (g_user_files v). uf_used f \<and> uf_path f = p)" for p
    using find_index_None [of "named p" "g_user_files v"] by (auto simp: named_def)
  then show ?thesis by (auto simp: ram_files_def dom_def)
qed

lemma free_entry:
  assumes "overlay_ok v"
  shows "find_index (\<lambda>f. \<not> uf_used f) (g_user_files v) \<noteq> None \<longleftrightarrow> card (dom (ram_files v)) < 32"
proof -
  let ?xs = "g_user_files v"
  have "card (dom (ram_files v)) = length (filter uf_used ?xs)"
    using distinct_card [OF overlay_okD(4) [OF assms]] by (simp add: dom_ram_files)
  moreover have "(\<exists>f \<in> set ?xs. \<not> uf_used f) \<longleftrightarrow> length (filter uf_used ?xs) < length ?xs"
    using length_filter_less [of _ ?xs uf_used] by (metis filter_True less_irrefl)
  ultimately show ?thesis using find_index_None [of "\<lambda>f. \<not> uf_used f" ?xs] overlay_okD(2) [OF assms] by auto
qed


lemma distinct_named:
  "distinct (map uf_path (filter uf_used xs)) \<longleftrightarrow>
   (\<forall>i < length xs. \<forall>j < length xs. uf_used (xs ! i) \<and> named (uf_path (xs ! i)) (xs ! j) \<longrightarrow> i = j)"
proof
  assume "distinct (map uf_path (filter uf_used xs))"
  then show "\<forall>i < length xs. \<forall>j < length xs. uf_used (xs ! i) \<and> named (uf_path (xs ! i)) (xs ! j) \<longrightarrow> i = j"
    using named_unique by (metis named_def)
next
  assume "\<forall>i < length xs. \<forall>j < length xs. uf_used (xs ! i) \<and> named (uf_path (xs ! i)) (xs ! j) \<longrightarrow> i = j"
  then show "distinct (map uf_path (filter uf_used xs))"
  proof (induction xs)
    case (Cons x xs)
    have "uf_path x \<notin> uf_path ` set (filter uf_used xs)" if x: "uf_used x"
    proof
      assume "uf_path x \<in> uf_path ` set (filter uf_used xs)"
      then obtain y where "y \<in> set xs" "uf_used y" "uf_path y = uf_path x" by auto
      then obtain k where "k < length xs" "named (uf_path x) (xs ! k)" by (auto simp: in_set_conv_nth named_def)
      then show False using Cons.prems [rule_format, of 0 "Suc k"] x by simp
    qed
    moreover have "i = j" if "i < length xs" "j < length xs" "uf_used (xs ! i) \<and> named (uf_path (xs ! i)) (xs ! j)" for i j
      using Cons.prems [rule_format, of "Suc i" "Suc j"] that by simp
    then have "distinct (map uf_path (filter uf_used xs))" by (intro Cons.IH) blast
    ultimately show ?case by simp
  qed simp
qed

lemma find_index_named:
  assumes "distinct (map uf_path (filter uf_used xs))" "i < length xs" "named p (xs ! i)"
  shows "find_index (named p) xs = Some i"
  using assms named_unique [OF assms(1)] by (intro find_index_eqI) (auto intro: less_trans)

text \<open>
  Replacing entry \<open>i\<close> by one that is unused, keeps the path, or has a path no other entry has.
\<close>

definition replaceable :: "'c vfs \<Rightarrow> nat \<Rightarrow> vfs_user_file \<Rightarrow> bool" where
  "replaceable v i f \<longleftrightarrow> i < 32 \<and> user_ok f \<and>
     (uf_used f \<longrightarrow> uf_path f \<notin> dom (ram_files v) \<or> named (uf_path f) (g_user_files v ! i))"

lemma in_dom_ram_files: "overlay_ok v \<Longrightarrow> j < 32 \<Longrightarrow> named p (g_user_files v ! j) \<Longrightarrow> p \<in> dom (ram_files v)"
  using find_index_named [OF overlay_okD(4), of v j p] by (simp add: overlay_okD ram_files_def domIff)

lemma overlay_ok_update:
  assumes "overlay_ok v" "replaceable v i f"
  shows "overlay_ok (v\<lparr>g_user_files := (g_user_files v)[i := f]\<rparr>)"
proof -
  let ?xs = "g_user_files v"
  note D = overlay_okD [OF assms(1)]
  have i: "i < length ?xs" "user_ok f" using assms(2) D(2) by (auto simp: replaceable_def)
  have other: "a = i" if "a < 32" "uf_used f" "named (uf_path f) (?xs ! a)" for a
  proof -
    have "named (uf_path f) (?xs ! i)"
      using in_dom_ram_files [OF assms(1) that(1,3)] that(2) assms(2) by (auto simp: replaceable_def)
    then show ?thesis using named_unique [OF D(4), of a i] that D(2) i by auto
  qed
  have "a = b" if ab: "a < 32" "b < 32" "uf_used (?xs[i := f] ! a)" "named (uf_path (?xs[i := f] ! a)) (?xs[i := f] ! b)" for a b
  proof -
    consider "a = i" "b = i" | "a = i" "b \<noteq> i" | "a \<noteq> i" "b = i" | "a \<noteq> i" "b \<noteq> i" by blast
    then show ?thesis
    proof cases
      case 2
      then show ?thesis using other [of b] ab i D(2) by auto
    next
      case 3
      then show ?thesis using other [of a] ab i D(2) by (auto simp: named_def)
    next
      case 4
      then show ?thesis using named_unique [OF D(4), of a b "uf_path (?xs ! a)"] ab D(2) by (auto simp: named_def)
    qed simp
  qed
  then have "distinct (map uf_path (filter uf_used (?xs[i := f])))"
    unfolding distinct_named using D(2) by auto
  moreover have "list_all user_ok (?xs[i := f])"
    using D i by (auto simp: list_all_length nth_list_update)
  ultimately show ?thesis using D by (simp add: overlay_ok_def)
qed

lemma ram_files_named:
  assumes "overlay_ok v" "i < 32" "named p (g_user_files v ! i)"
  shows "ram_files v p = Some (uf_bytes (g_user_files v ! i))"
  using find_index_named [OF overlay_okD(4) [OF assms(1)]] assms by (simp add: overlay_okD ram_files_def)

lemma ram_files_none: "overlay_ok v \<Longrightarrow> \<forall>i < 32. \<not> named p (g_user_files v ! i) \<Longrightarrow> ram_files v p = None"
  by (auto simp: ram_files_def find_index_None in_set_conv_nth overlay_okD)

lemma ram_files_update:
  assumes "overlay_ok v" "replaceable v i f"
  shows "ram_files (v\<lparr>g_user_files := (g_user_files v)[i := f]\<rparr>) =
    (\<lambda>p. if named p f then Some (uf_bytes f) else if named p (g_user_files v ! i) then None else ram_files v p)"
proof
  fix p
  let ?xs = "g_user_files v" and ?v = "v\<lparr>g_user_files := (g_user_files v)[i := f]\<rparr>"
  note D = overlay_okD [OF assms(1)] and ok = overlay_ok_update [OF assms]
  have i: "i < 32" using assms(2) by (simp add: replaceable_def)
  consider (f) "named p f" | (old) "\<not> named p f" "named p (?xs ! i)" | (j) j where "j < 32" "j \<noteq> i" "\<not> named p f" "named p (?xs ! j)"
    | (none) "\<not> named p f" "\<forall>j < 32. \<not> named p (?xs ! j)" by blast
  then show "ram_files ?v p = (if named p f then Some (uf_bytes f) else if named p (?xs ! i) then None else ram_files v p)"
  proof cases
    case f
    then show ?thesis using ram_files_named [OF ok i, of p] D(2) i by simp
  next
    case old
    have "\<not> named p (g_user_files ?v ! j)" if "j < 32" for j
      using named_unique [OF D(4), of i j p] old that D(2) i by (auto simp: nth_list_update)
    then show ?thesis using ram_files_none [OF ok, of p] old by simp
  next
    case j
    have "\<not> named p (?xs ! i)" using named_unique [OF D(4), of i j p] j i D(2) by auto
    then show ?thesis using ram_files_named [OF ok j(1), of p] ram_files_named [OF assms(1) j(1,4)] j by simp
  next
    case none
    have "\<not> named p (g_user_files ?v ! j)" if "j < 32" for j
      using none that D(2) i by (auto simp: nth_list_update)
    then show ?thesis using ram_files_none [OF ok, of p] ram_files_none [OF assms(1), of p] none i by simp
  qed
qed


section \<open>The operations refine the store\<close>

lemma create_user_refines:
  assumes ok: "overlay_ok v" and cr: "spec_create p (ram_files v) = (r, m)"
  shows "\<exists>us. create_user p v = Some (r, v\<lparr>g_user_files := us\<rparr>) \<and> overlay_ok (v\<lparr>g_user_files := us\<rparr>) \<and>
    ram_files (v\<lparr>g_user_files := us\<rparr>) = m"
proof (cases "find_index (named p) (g_user_files v)")
  case (Some i)
  then have "p \<in> dom (ram_files v)" by (simp add: ram_files_def domIff)
  then show ?thesis using cr ok Some
    by (intro exI [of _ "g_user_files v"]) (simp add: create_user_def find_user_file_named spec_create_def)
next
  case None
  then have p: "p \<notin> dom (ram_files v)" by (simp add: ram_files_def domIff)
  show ?thesis
  proof (cases "find_index (\<lambda>f. \<not> uf_used f) (g_user_files v)")
    case n: None
    then have "\<not> card (dom (ram_files v)) < 32" using free_entry [OF ok] by simp
    then show ?thesis using cr ok None n p
      by (intro exI [of _ "g_user_files v"]) (simp add: create_user_def find_user_file_named spec_create_def)
  next
    case (Some i)
    let ?f = "(g_user_files v ! i)\<lparr>uf_path := p, uf_size := 0, uf_used := True\<rparr>"
    note S = find_index_Some [OF Some]
    have m: "m = (ram_files v)(p \<mapsto> [])" "r = 0"
      using free_entry [OF ok] Some p cr by (auto simp: spec_create_def)
    have rep: "replaceable v i ?f"
      using S(1) p overlay_okD(2,3) [OF ok] by (simp add: replaceable_def user_ok_def VFS_USER_MAX_SIZE_def)
    have "ram_files (v\<lparr>g_user_files := (g_user_files v)[i := ?f]\<rparr>) = m"
      unfolding ram_files_update [OF ok rep] m using S(2) by (auto simp: named_def uf_bytes_def)
    then show ?thesis using None Some overlay_ok_update [OF ok rep] m(2)
      by (intro exI [of _ "(g_user_files v)[i := ?f]"]) (simp add: create_user_def find_user_file_named)
  qed
qed

lemma vfs_create_overlay: "overlay_ok v \<Longrightarrow> length p < 64 \<Longrightarrow> vfs_create uid (Some p) v = create_user p v"
  by (simp add: vfs_create_def overlay_okD(1))

lemma vfs_unlink_refines:
  assumes ok: "overlay_ok v" and ul: "spec_unlink p (ram_files v) = (r, m)"
  shows "\<exists>us. vfs_unlink uid (Some p) v = Some (r, v\<lparr>g_user_files := us\<rparr>) \<and> overlay_ok (v\<lparr>g_user_files := us\<rparr>) \<and>
    ram_files (v\<lparr>g_user_files := us\<rparr>) = m"
proof (cases "find_index (named p) (g_user_files v)")
  case None
  then have "p \<notin> dom (ram_files v)" by (simp add: ram_files_def domIff)
  then show ?thesis using ul ok None
    by (intro exI [of _ "g_user_files v"]) (simp add: vfs_unlink_def find_user_file_named spec_unlink_def overlay_okD(1))
next
  case (Some i)
  let ?f = "(g_user_files v ! i)\<lparr>uf_used := False\<rparr>"
  note S = find_index_Some [OF Some]
  have "p \<in> dom (ram_files v)" using Some by (simp add: ram_files_def domIff)
  then have m: "m = (ram_files v)(p := None)" "r = 0" using ul by (auto simp: spec_unlink_def)
  have rep: "replaceable v i ?f" using S(1) overlay_okD(2,3) [OF ok] by (simp add: replaceable_def user_ok_def)
  have "ram_files (v\<lparr>g_user_files := (g_user_files v)[i := ?f]\<rparr>) = m"
    unfolding ram_files_update [OF ok rep] m using S(2) by (auto simp: named_def)
  then show ?thesis using Some overlay_ok_update [OF ok rep] m(2) overlay_okD(1) [OF ok]
    by (intro exI [of _ "(g_user_files v)[i := ?f]"]) (simp add: vfs_unlink_def find_user_file_named)
qed

lemma unat_larger: "unat (if a > b then a else b :: u64) = max (unat b) (unat a)"
  by (simp add: word_less_nat_alt)

lemma take_overwrite:
  assumes "s \<le> length d" "off + length x \<le> length d"
  shows "take (max s (off + length x)) (overwrite d off x) = written off (take (off - s) (drop s d)) x (take s d)"
proof -
  have "take off (take s d @ take (off - s) (drop s d)) = take off d"
    using assms by (cases "off \<le> s") (simp_all add: min_def flip: take_add)
  moreover have "take (max s (off + length x)) (overwrite d off x) = take off d @ x @ drop (off + length x) (take s d)"
  proof (cases "s \<le> off + length x")
    case True
    moreover have "length (take off d) = off" using assms(2) by simp
    ultimately show ?thesis by (simp add: overwrite_def max_def)
  next
    case False
    then have "length (take off d) = off" "max s (off + length x) - off = length x + (s - (off + length x))" using assms(2) by auto
    then show ?thesis unfolding overwrite_def take_append drop_take using False by (simp add: max_def)
  qed
  ultimately show ?thesis by (simp add: written_def)
qed

lemma user_write_refines:
  fixes off count :: u64
  assumes ok: "overlay_ok v" and i: "i < 32" "named p (g_user_files v ! i)" and o2: "unat off \<le> 8192"
    and nw: "unat off + unat count < 2 ^ 64" and buf: "unat count \<le> length buf"
  defines "bs \<equiv> take (8192 - unat off) (take (unat count) buf)" and "c \<equiv> uf_bytes (g_user_files v ! i)"
  shows "\<exists>us g. user_write i off buf count v = Some (int (length bs), v\<lparr>g_user_files := us\<rparr>) \<and> overlay_ok (v\<lparr>g_user_files := us\<rparr>) \<and>
    length g = unat off - length c \<and> ram_files (v\<lparr>g_user_files := us\<rparr>) = (ram_files v)(p \<mapsto> written (unat off) g bs c)"
proof -
  let ?f = "g_user_files v ! i"
  let ?n = "if off + count > VFS_USER_MAX_SIZE then VFS_USER_MAX_SIZE - off else count"
  have u: "length (uf_data ?f) = 8192" "unat (uf_size ?f) \<le> 8192"
    using overlay_okD(3) [OF ok i(1)] by (simp_all add: user_ok_def VFS_USER_MAX_SIZE_def word_le_nat_alt)
  have sum: "unat (off + count) = unat off + unat count" by (rule unat_add_exact) (use nw in simp)
  have room: "unat (8192 - off) = 8192 - unat off" by (subst unat_sub_exact) (use o2 in simp_all)
  have n: "unat ?n = length bs"
    using sum buf room by (auto simp: VFS_USER_MAX_SIZE_def word_less_nat_alt bs_def)
  have n8: "unat off + unat ?n \<le> 8192" using o2 unfolding n by (simp add: bs_def)
  have sum2: "unat (off + ?n) = unat off + unat ?n" by (rule unat_add_exact) (use n8 in simp)
  have sn: "sint ?n = int (length bs)" using n n8 sint_unat [of ?n] by simp
  have len: "length bs = min (unat count) (8192 - unat off)" using buf by (simp add: bs_def)
  have tk: "take (unat ?n) buf = bs" unfolding n len by (simp add: bs_def min.commute)
  have sl: "slice buf 0 (unat ?n) = Some bs"
    using tk n buf len by (simp add: slice_def)
  have bl: "blit (uf_data ?f) (unat off) bs = Some (overwrite (uf_data ?f) (unat off) bs)"
    using n8 u(1) n by (intro blit_overwrite) simp
  define s where "s = (if off + ?n > uf_size ?f then off + ?n else uf_size ?f)"
  define f where "f = ?f\<lparr>uf_data := overwrite (uf_data ?f) (unat off) bs, uf_size := s\<rparr>"
  define g where "g = take (unat off - unat (uf_size ?f)) (drop (unat (uf_size ?f)) (uf_data ?f))"
  have s: "unat s = max (unat (uf_size ?f)) (unat off + length bs)"
    unfolding s_def unat_larger sum2 n ..
  have "user_ok f"
    using s u n8 n by (simp add: f_def user_ok_def VFS_USER_MAX_SIZE_def word_le_nat_alt)
  then have rep: "replaceable v i f" using i by (simp add: replaceable_def f_def named_def)
  have fd: "uf_data f = overwrite (uf_data ?f) (unat off) bs" "uf_size f = s" by (simp_all add: f_def)
  have fb: "uf_bytes f = written (unat off) g bs c"
    unfolding uf_bytes_def c_def fd s g_def using u n8 n by (intro take_overwrite) simp_all
  have gl: "length g = unat off - length c" using u o2 by (simp add: g_def c_def uf_bytes_def)
  have nm: "named q f \<longleftrightarrow> q = p" "named q ?f \<longleftrightarrow> q = p" for q using i(2) by (auto simp: f_def named_def)
  have "ram_files (v\<lparr>g_user_files := (g_user_files v)[i := f]\<rparr>) = (ram_files v)(p \<mapsto> written (unat off) g bs c)"
    unfolding ram_files_update [OF ok rep] nm fb by auto
  moreover have "user_write i off buf count v = Some (int (length bs), v\<lparr>g_user_files := (g_user_files v)[i := f]\<rparr>)"
    unfolding user_write_def Let_def sl by (simp add: bl sn f_def s_def)
  ultimately show ?thesis using overlay_ok_update [OF ok rep] gl by blast
qed

text \<open>The entry to write to exists, or is created when the name is writable.\<close>

lemma user_target_refines:
  assumes ok: "overlay_ok v"
  shows "if writable p (ram_files v)
    then \<exists>i us. user_target uid (Some p) v = Some (Some i, v\<lparr>g_user_files := us\<rparr>) \<and> overlay_ok (v\<lparr>g_user_files := us\<rparr>) \<and>
      i < 32 \<and> named p (us ! i) \<and> uf_bytes (us ! i) = content p (ram_files v) \<and>
      ram_files (v\<lparr>g_user_files := us\<rparr>) = (ram_files v)(p \<mapsto> content p (ram_files v))
    else user_target uid (Some p) v = Some (None, v)"
proof (cases "find_index (named p) (g_user_files v)")
  case (Some i)
  then have r: "ram_files v p = Some (uf_bytes (g_user_files v ! i))" by (simp add: ram_files_def)
  then have "writable p (ram_files v)" "(ram_files v)(p \<mapsto> content p (ram_files v)) = ram_files v"
    by (auto simp: writable_def content_def)
  moreover have "user_target uid (Some p) v = Some (Some i, v)" using Some by (simp add: user_target_def find_user_file_named)
  moreover have "i < 32" "named p (g_user_files v ! i)" using find_index_Some [OF Some] overlay_okD(2) [OF ok] by simp_all
  ultimately show ?thesis using ok r
    by simp (rule exI [of _ "g_user_files v"], simp add: content_def)
next
  case None
  then have r: "ram_files v p = None" by (simp add: ram_files_def)
  obtain r0 m0 where cr: "spec_create p (ram_files v) = (r0, m0)" by force
  obtain us where c: "create_user p v = Some (r0, v\<lparr>g_user_files := us\<rparr>)" "overlay_ok (v\<lparr>g_user_files := us\<rparr>)"
    "ram_files (v\<lparr>g_user_files := us\<rparr>) = m0" using create_user_refines [OF ok cr] by blast
  show ?thesis
  proof (cases "writable p (ram_files v)")
    case True
    then have w: "length p < 64" "r0 = 0" "m0 = (ram_files v)(p \<mapsto> [])" using cr r by (auto simp: writable_def spec_create_def domIff)
    then obtain i where i: "find_index (named p) us = Some i" "uf_bytes (us ! i) = []"
      using fun_cong [OF c(3), of p] by (auto simp: ram_files_def)
    have "user_target uid (Some p) v = Some (Some i, v\<lparr>g_user_files := us\<rparr>)"
      using None c(1) w i by (simp add: user_target_def find_user_file_named vfs_create_overlay [OF ok w(1)])
    then show ?thesis using True c(2,3) w(3) i find_index_Some [OF i(1)] overlay_okD(2) [OF c(2)] r
      by (auto simp: content_def)
  next
    case False
    then have "vfs_create uid (Some p) v = Some (-1, v)"
      using None r free_entry [OF ok] vfs_create_overlay [OF ok, of p uid]
      by (cases "length p < 64") (auto simp: vfs_create_def writable_def domIff create_user_def find_user_file_named)
    then show ?thesis using False None by (simp add: user_target_def find_user_file_named)
  qed
qed

lemma vfs_write_refines:
  fixes off count :: u64
  assumes ok: "overlay_ok v" and ol: "unat off \<le> 8192"
    and nw: "unat off + unat count < 2 ^ 64" and buf: "unat count \<le> length buf"
  shows "\<exists>r us. vfs_write uid (Some p) off buf count v = Some (r, v\<lparr>g_user_files := us\<rparr>) \<and> overlay_ok (v\<lparr>g_user_files := us\<rparr>) \<and>
    spec_write p (unat off) (take (unat count) buf) (ram_files v) r (ram_files (v\<lparr>g_user_files := us\<rparr>))"
proof (cases "writable p (ram_files v)")
  case True
  let ?c = "content p (ram_files v)"
  obtain i us where t: "user_target uid (Some p) v = Some (Some i, v\<lparr>g_user_files := us\<rparr>)" "overlay_ok (v\<lparr>g_user_files := us\<rparr>)"
    "i < 32" "named p (us ! i)" "uf_bytes (us ! i) = ?c"
    "ram_files (v\<lparr>g_user_files := us\<rparr>) = (ram_files v)(p \<mapsto> ?c)"
    using user_target_refines [OF ok, of p uid] True by auto
  let ?v = "v\<lparr>g_user_files := us\<rparr>" and ?bs = "take (8192 - unat off) (take (unat count) buf)"
  have i: "named p (g_user_files ?v ! i)" "uf_bytes (g_user_files ?v ! i) = ?c" using t(4,5) by simp_all
  obtain us' g where w: "user_write i off buf count ?v = Some (int (length ?bs), v\<lparr>g_user_files := us'\<rparr>)" "overlay_ok (v\<lparr>g_user_files := us'\<rparr>)"
    "length g = unat off - length ?c" "ram_files (v\<lparr>g_user_files := us'\<rparr>) = (ram_files v)(p \<mapsto> written (unat off) g ?bs ?c)"
    using user_write_refines [OF t(2,3) i(1) ol nw buf] unfolding i(2) t(6) by auto
  have "vfs_write uid (Some p) off buf count v = Some (int (length ?bs), v\<lparr>g_user_files := us'\<rparr>)"
    using t(1) w(1) by (simp add: vfs_write_def overlay_okD(1) [OF ok])
  then show ?thesis using True w(2-4) by (auto simp: spec_write_def Let_def)
next
  case False
  then have "user_target uid (Some p) v = Some (None, v)" using user_target_refines [OF ok, of p uid] by simp
  then have "vfs_write uid (Some p) off buf count v = Some (-1, v\<lparr>g_user_files := g_user_files v\<rparr>)"
    by (simp add: vfs_write_def overlay_okD(1) [OF ok])
  then show ?thesis using False ok by (intro exI [of _ "-1"] exI [of _ "g_user_files v"]) (auto simp: spec_write_def)
qed

lemma vfs_write_all_refines:
  fixes count :: u64
  assumes ok: "overlay_ok v" and buf: "unat count \<le> length buf" and wr: "spec_write_all p (take (unat count) buf) (ram_files v) = (r, m)"
  shows "\<exists>us. vfs_write_all uid (Some p) buf count v = Some (r, v\<lparr>g_user_files := us\<rparr>) \<and> overlay_ok (v\<lparr>g_user_files := us\<rparr>) \<and>
    ram_files (v\<lparr>g_user_files := us\<rparr>) = m"
proof (cases "writable p (ram_files v)")
  case True
  obtain i us where t: "user_target uid (Some p) v = Some (Some i, v\<lparr>g_user_files := us\<rparr>)" "overlay_ok (v\<lparr>g_user_files := us\<rparr>)"
    "i < 32" "named p (us ! i)" "ram_files (v\<lparr>g_user_files := us\<rparr>) = (ram_files v)(p \<mapsto> content p (ram_files v))"
    using user_target_refines [OF ok, of p uid] True by auto
  let ?v = "v\<lparr>g_user_files := us\<rparr>" and ?f = "(us ! i)\<lparr>uf_size := 0\<rparr>"
  have rep: "replaceable ?v i ?f"
    using t(3,4) overlay_okD(3) [OF t(2,3)] by (simp add: replaceable_def user_ok_def named_def)
  have nm: "named q ?f \<longleftrightarrow> q = p" "named q (us ! i) \<longleftrightarrow> q = p" for q using t(4) by (auto simp: named_def)
  let ?w = "v\<lparr>g_user_files := us[i := ?f]\<rparr>"
  have w: "overlay_ok ?w" "ram_files ?w = (ram_files v)(p \<mapsto> [])"
    using overlay_ok_update [OF t(2) rep] ram_files_update [OF t(2) rep] nm t(5) by (auto simp: uf_bytes_def fun_eq_iff)
  have "unat (0 :: u64) \<le> 8192" "unat (0 :: u64) + unat count < 2 ^ 64" using unsigned_less [of count, where ?'a = nat] by simp_all
  then obtain r' us' where x: "vfs_write uid (Some p) 0 buf count ?w = Some (r', ?w\<lparr>g_user_files := us'\<rparr>)" "overlay_ok (?w\<lparr>g_user_files := us'\<rparr>)"
    "spec_write p (unat (0 :: u64)) (take (unat count) buf) (ram_files ?w) r' (ram_files (?w\<lparr>g_user_files := us'\<rparr>))"
    using vfs_write_refines [OF w(1) _ _ buf, of 0] by blast
  have "writable p ((ram_files v)(p \<mapsto> []))" by (simp add: writable_def)
  with x(3) have "r' = r" "ram_files (?w\<lparr>g_user_files := us'\<rparr>) = m"
    using wr True unfolding w(2) by (auto simp: spec_write_def spec_write_all_def content_def written_def Let_def)
  then show ?thesis using t(1) x(1,2) overlay_okD(1) [OF ok] by (intro exI [of _ us']) (simp add: vfs_write_all_def)
next
  case False
  then have "user_target uid (Some p) v = Some (None, v)" using user_target_refines [OF ok, of p uid] by simp
  then have "vfs_write_all uid (Some p) buf count v = Some (-1, v\<lparr>g_user_files := g_user_files v\<rparr>)"
    by (simp add: vfs_write_all_def overlay_okD(1) [OF ok])
  then show ?thesis using False ok wr by (intro exI [of _ "g_user_files v"]) (auto simp: spec_write_all_def)
qed

lemma vfs_read_refines:
  fixes off count :: u64
  assumes ok: "overlay_ok v" and emb: "vfs_lookup (Some p) v = None"
    and nw: "unat off + unat count < 2 ^ 64" and buf: "unat count \<le> length buf"
  shows "vfs_read (Some p) off (Some buf) count v =
    (case spec_read p (unat off) (unat count) (ram_files v) of
       None \<Rightarrow> Some (-1, Some buf, v)
     | Some bs \<Rightarrow> Some (int (length bs), Some (overwrite buf 0 bs), v))"
proof (cases "find_index (named p) (g_user_files v)")
  case None
  then show ?thesis using emb overlay_okD(1) [OF ok]
    by (simp add: vfs_read_def find_user_file_named spec_read_def ram_files_def)
next
  case (Some i)
  let ?f = "g_user_files v ! i"
  let ?n = "if off + count > uf_size ?f then uf_size ?f - off else count"
  define bs where "bs = take (unat count) (drop (unat off) (uf_bytes ?f))"
  have i: "i < 32" using find_index_Some(1) [OF Some] overlay_okD(2) [OF ok] by simp
  have u: "length (uf_data ?f) = 8192" "unat (uf_size ?f) \<le> 8192"
    using overlay_okD(3) [OF ok i] by (simp_all add: user_ok_def VFS_USER_MAX_SIZE_def word_le_nat_alt)
  have ub: "length (uf_bytes ?f) = unat (uf_size ?f)" using u by (simp add: uf_bytes_def)
  have sum: "unat (off + count) = unat off + unat count" by (rule unat_add_exact) (use nw in simp)
  have R: "vfs_read (Some p) off (Some buf) count v = do { (n, b) \<leftarrow> vfs_read_user (Some p) off (Some buf) count v; Some (n, b, v) }"
    using emb Some by (simp add: vfs_read_def find_user_file_named)
  have spec: "spec_read p (unat off) (unat count) (ram_files v) = Some bs"
    using Some by (simp add: spec_read_def ram_files_def bs_def)
  show ?thesis
  proof (cases "uf_size ?f \<le> off")
    case True
    then have "bs = []" using ub by (simp add: bs_def word_le_nat_alt)
    then show ?thesis using R True Some spec by (simp add: vfs_read_user_def find_user_file_named overwrite_def)
  next
    case False
    then have lt: "unat off < unat (uf_size ?f)" by (simp add: word_less_nat_alt word_le_nat_alt)
    then have "unat (uf_size ?f - off) = unat (uf_size ?f) - unat off" by (intro unat_sub_exact) simp
    then have n: "unat ?n = length bs" using ub sum by (auto simp: word_less_nat_alt bs_def)
    have "take (unat ?n) (drop (unat off) (uf_data ?f)) = bs"
      unfolding n using lt u by (simp add: bs_def uf_bytes_def drop_take min.commute)
    then have sl: "slice (uf_data ?f) (unat off) (unat ?n) = Some bs"
      using n lt u ub by (simp add: slice_def bs_def)
    have "length bs \<le> unat count" "length bs \<le> 8192" using ub u by (simp_all add: bs_def)
    moreover from this have "sint ?n = int (length bs)" using n sint_unat [of ?n] by simp
    ultimately have "vfs_read_user (Some p) off (Some buf) count v = Some (int (length bs), Some (overwrite buf 0 bs))"
      using False Some sl buf by (simp add: vfs_read_user_def find_user_file_named Let_def blit_overwrite split del: if_split)
    then show ?thesis using R spec by simp
  qed
qed

end
