(* ===== verification/Ext2_Tree.thy ===== *)
theory Ext2_Tree
  imports Ext2_Disk
begin

text \<open>
  The block trees of files. \<open>nmap\<close> collects every reference from an inode, or from a table
  block below it, to a block; \<open>files_ok\<close> says that no two references share a block and that
  all of them point to used blocks of the data area. The steps of \<open>ext2_bmap_alloc\<close> (taking
  a block, clearing it, entering it into the inode or a table) extend the map at one
  position and keep that invariant; \<open>bmap_alloc\<close> puts them together for direct, indirect
  and double indirect positions.
\<close>

section \<open>The block tree of a file\<close>

text \<open>
  The positions at which an inode refers to a block: a slot of the inode (0 to 11 data, 12 the
  indirect table, 13 the double indirect table), an entry of the indirect table, an entry of
  the double indirect table, and an entry of one of the tables that one refers to.
\<close>

datatype node = Slot nat | Ind nat | Dbl nat | DblInd nat nat

fun node_valid :: "nat \<Rightarrow> node \<Rightarrow> bool" where
  "node_valid p (Slot k) \<longleftrightarrow> k < 14"
| "node_valid p (Ind j) \<longleftrightarrow> j < p"
| "node_valid p (Dbl j) \<longleftrightarrow> j < p"
| "node_valid p (DblInd j m) \<longleftrightarrow> j < p \<and> m < p"

fun is_tab :: "node \<Rightarrow> bool" where
  "is_tab (Slot k) \<longleftrightarrow> k = 12 \<or> k = 13"
| "is_tab (Ind j) \<longleftrightarrow> False"
| "is_tab (Dbl j) \<longleftrightarrow> True"
| "is_tab (DblInd j m) \<longleftrightarrow> False"

fun child :: "node \<Rightarrow> nat \<Rightarrow> node" where
  "child (Slot k) j = (if k = 12 then Ind j else Dbl j)"
| "child (Dbl j) m = DblInd j m"
| "child x j = x"

definition ptr :: "(nat \<Rightarrow> u8 list) \<Rightarrow> u32 \<Rightarrow> nat \<Rightarrow> u32" where
  "ptr D b j = (if b = 0 then 0 else le_dec (take 4 (drop (4 * j) (D (unat b)))))"

fun node_blk :: "(nat \<Rightarrow> u8 list) \<Rightarrow> u32 list \<Rightarrow> node \<Rightarrow> u32" where
  "node_blk D bl (Slot k) = bl ! k"
| "node_blk D bl (Ind j) = ptr D (bl ! 12) j"
| "node_blk D bl (Dbl j) = ptr D (bl ! 13) j"
| "node_blk D bl (DblInd j m) = ptr D (ptr D (bl ! 13) j) m"

text \<open>All references of the inodes \<open>1..N\<close>; 0 stands for no block.\<close>

definition nodes :: "nat \<Rightarrow> nat \<Rightarrow> (nat \<Rightarrow> u8 list) \<Rightarrow> (nat \<Rightarrow> u32 list) \<Rightarrow> nat \<times> node \<Rightarrow> u32" where
  "nodes p N D ib = (\<lambda>(n, x). if 1 \<le> n \<and> n \<le> N \<and> node_valid p x then node_blk D (ib n) x else 0)"

definition inj_nodes :: "(nat \<times> node \<Rightarrow> u32) \<Rightarrow> bool" where
  "inj_nodes f \<longleftrightarrow> (\<forall>k k'. f k \<noteq> 0 \<and> f k = f k' \<longrightarrow> k = k')"

lemma inj_nodesD: "inj_nodes f \<Longrightarrow> f k = f k' \<Longrightarrow> f k \<noteq> 0 \<Longrightarrow> k = k'"
  unfolding inj_nodes_def by metis

lemma inj_nodes_upd:
  assumes "inj_nodes f" and "f k = 0" and "\<And>k'. f k' \<noteq> b"
  shows "inj_nodes (f(k := b))"
  unfolding inj_nodes_def
proof (intro allI impI)
  fix k1 k2 assume a: "(f(k := b)) k1 \<noteq> 0 \<and> (f(k := b)) k1 = (f(k := b)) k2"
  show "k1 = k2"
  proof (cases "k1 = k")
    case True
    with a assms(3) show ?thesis by (metis fun_upd_apply)
  next
    case False
    with a have "f k1 \<noteq> 0" "f k1 = (if k2 = k then b else f k2)" by auto
    then show ?thesis using assms(3) inj_nodesD [OF assms(1)] by (auto split: if_splits)
  qed
qed

lemma ptr_0 [simp]: "ptr D 0 j = 0"
  by (simp add: ptr_def)

lemma ptr_cong: "b \<noteq> 0 \<Longrightarrow> D' (unat b) = D (unat b) \<Longrightarrow> ptr D' b j = ptr D b j"
  by (simp add: ptr_def)

lemma take_drop_replicate: "take n (drop m (replicate k x)) = replicate (min n (k - m)) x"
  by (simp add: min_def)

lemma le_dec_zeros [simp]: "le_dec (replicate n 0) = (0 :: 'a::len word)"
  by (induction n) auto

lemma ptr_zeros: "D (unat b) = replicate n 0 \<Longrightarrow> ptr D b j = 0"
  by (simp add: ptr_def take_drop_replicate)

text \<open>References depend on the contents of table blocks only.\<close>

lemma nodes_cong:
  assumes ib: "\<And>n. 1 \<le> n \<Longrightarrow> n \<le> N \<Longrightarrow> ib' n = ib n"
    and D: "\<And>n x. is_tab x \<Longrightarrow> nodes p N D ib (n, x) \<noteq> 0 \<Longrightarrow>
      D' (unat (nodes p N D ib (n, x))) = D (unat (nodes p N D ib (n, x)))"
  shows "nodes p N D' ib' = nodes p N D ib"
proof
  fix k :: "nat \<times> node"
  obtain n x where k: "k = (n, x)" by (cases k)
  show "nodes p N D' ib' k = nodes p N D ib k"
  proof (cases "1 \<le> n \<and> n \<le> N \<and> node_valid p x")
    case False
    then show ?thesis by (auto simp: k nodes_def)
  next
    case v: True
    then have ib_n: "ib' n = ib n" by (simp add: ib)
    have 12: "ptr D' (ib n ! 12) j = ptr D (ib n ! 12) j" for j
      using D [of "Slot 12" n] v by (cases "ib n ! 12 = 0") (auto simp: nodes_def intro!: ptr_cong)
    have 13: "ptr D' (ib n ! 13) j = ptr D (ib n ! 13) j" for j
      using D [of "Slot 13" n] v by (cases "ib n ! 13 = 0") (auto simp: nodes_def intro!: ptr_cong)
    have l2: "ptr D' (ptr D (ib n ! 13) j) m = ptr D (ptr D (ib n ! 13) j) m" if "j < p" for j m
      using D [of "Dbl j" n] v that
      by (cases "ptr D (ib n ! 13) j = 0") (auto simp: nodes_def intro!: ptr_cong)
    show ?thesis using v by (cases x) (auto simp: k nodes_def ib_n 12 13 l2)
  qed
qed

lemma node_blk_slot_upd:
  assumes "k < 14" and "14 \<le> length bl" and "bl ! k = 0"
    and "12 \<le> k \<Longrightarrow> \<exists>n. D (unat nb) = replicate n 0"
  shows "node_blk D (bl[k := nb]) x = (if x = Slot k then nb else node_blk D bl x)"
proof -
  have z: "12 \<le> k \<Longrightarrow> ptr D nb j = 0" for j using assms(4) ptr_zeros by blast
  show ?thesis
  proof (cases x)
    case (Slot l)
    then show ?thesis using assms by (auto simp: nth_list_update)
  next
    case (Ind j)
    then show ?thesis using assms(2,3) z by (cases "k = 12") (auto simp: nth_list_update)
  next
    case (Dbl j)
    then show ?thesis using assms(2,3) z by (cases "k = 13") (auto simp: nth_list_update)
  next
    case (DblInd j m)
    then show ?thesis using assms(2,3) z by (cases "k = 13") (auto simp: nth_list_update)
  qed
qed

lemma nodes_attach_slot:
  assumes n: "1 \<le> n" "n \<le> N" and k: "k < 14" "14 \<le> length (ib n)" "nodes p N D ib (n, Slot k) = 0"
    and z: "12 \<le> k \<Longrightarrow> \<exists>c. D (unat nb) = replicate c 0"
  shows "nodes p N D (ib(n := (ib n)[k := nb])) = (nodes p N D ib)((n, Slot k) := nb)"
proof
  fix q :: "nat \<times> node"
  obtain m x where q: "q = (m, x)" by (cases q)
  have b0: "ib n ! k = 0" using k n by (simp add: nodes_def)
  show "nodes p N D (ib(n := (ib n)[k := nb])) q = ((nodes p N D ib)((n, Slot k) := nb)) q"
  proof (cases "m = n")
    case True
    have "node_blk D ((ib n)[k := nb]) x = (if x = Slot k then nb else node_blk D (ib n) x)"
      by (rule node_blk_slot_upd) (use k b0 z in simp_all)
    then show ?thesis using n k(1) True by (auto simp: q nodes_def)
  next
    case False
    then show ?thesis by (simp add: q nodes_def)
  qed
qed

lemma ptr_overwrite:
  assumes "4 * p \<le> length (D (unat b))" and "j < p" and "i < p" and "b \<noteq> 0"
    and "D' (unat b) = overwrite (D (unat b)) (4 * j) (le_enc 4 (v :: u32))"
  shows "ptr D' b i = (if i = j then v else ptr D b i)"
proof -
  have bl: "blit (D (unat b)) (4 * j) (le_enc 4 v) = Some (D' (unat b))"
    using assms(1,2,5) blit_overwrite [of "4 * j" "le_enc 4 v" "D (unat b)"] by simp
  show ?thesis
  proof (cases "i = j")
    case True
    then show ?thesis using slice_blit_same [OF bl] assms(4) by (simp add: ptr_def enc_simps)
  next
    case False
    then have "4 * j + 4 \<le> 4 * i \<or> 4 * i + 4 \<le> 4 * j" by auto
    then show ?thesis using slice_blit_other [OF bl, of "4 * i" 4] assms(4) False by (simp add: ptr_def)
  qed
qed

lemma nodes_attach_ptr:
  assumes inj: "inj_nodes (nodes p N D ib)" and n: "1 \<le> n" "n \<le> N" and t: "is_tab t" "node_valid p t"
    and tb: "nodes p N D ib (n, t) = tb" "tb \<noteq> 0" and j: "j < p" and c0: "nodes p N D ib (n, child t j) = 0"
    and len: "4 * p \<le> length (D (unat tb))"
    and w: "D' (unat tb) = overwrite (D (unat tb)) (4 * j) (le_enc 4 db)"
    and oth: "\<And>m x. is_tab x \<Longrightarrow> nodes p N D ib (m, x) \<noteq> 0 \<Longrightarrow> (m, x) \<noteq> (n, t) \<Longrightarrow>
      D' (unat (nodes p N D ib (m, x))) = D (unat (nodes p N D ib (m, x)))"
    and z: "t = Slot 13 \<Longrightarrow> \<exists>c. D' (unat db) = replicate c 0"
  shows "nodes p N D' ib = (nodes p N D ib)((n, child t j) := db)"
proof -
  let ?F = "nodes p N D ib"
  have tab: "ptr D' (?F (m, y)) i = (if m = n \<and> y = t \<and> i = j then db else ptr D (?F (m, y)) i)"
    if "is_tab y" "i < p" for m y i
  proof (cases "(m, y) = (n, t)")
    case True
    then show ?thesis using ptr_overwrite [of p D tb j i D' db] len j that(2) tb w by simp
  next
    case False
    then show ?thesis using oth [OF that(1) _ False] ptr_cong [of "?F (m, y)" D' D] by (cases "?F (m, y) = 0") auto
  qed
  have "nodes p N D' ib (m, x) = (?F((n, child t j) := db)) (m, x)" for m x
  proof (cases "1 \<le> m \<and> m \<le> N \<and> node_valid p x")
    case False
    then show ?thesis using n t j by (cases t) (auto simp: nodes_def)
  next
    case v: True
    show ?thesis
    proof (cases x)
      case (Slot k)
      then show ?thesis using v t by (cases t) (auto simp: nodes_def)
    next
      case (Ind i)
      then show ?thesis using v t tab [of "Slot 12" i m] by (cases t) (auto simp: nodes_def)
    next
      case (Dbl i)
      then show ?thesis using v t tab [of "Slot 13" i m] by (cases t) (auto simp: nodes_def)
    next
      case (DblInd i r)
      have a: "ptr D' (ib m ! 13) i = (if m = n \<and> t = Slot 13 \<and> i = j then db else ptr D (ib m ! 13) i)"
        using v DblInd tab [of "Slot 13" i m] by (auto simp: nodes_def)
      have b: "ptr D' (ptr D (ib m ! 13) i) r = (if m = n \<and> t = Dbl i \<and> r = j then db else ptr D (ptr D (ib m ! 13) i) r)"
        using v DblInd tab [of "Dbl i" r m] by (auto simp: nodes_def)
      show ?thesis
      proof (cases "m = n \<and> t = Slot 13 \<and> i = j")
        case True
        then have "ptr D (ib m ! 13) i = 0" using c0 v DblInd by (simp add: nodes_def)
        then show ?thesis using True v DblInd a z ptr_zeros by (auto simp: nodes_def)
      next
        case False
        then show ?thesis using v DblInd a b t by (cases t) (auto simp: nodes_def)
      qed
    qed
  qed
  then show ?thesis by auto
qed

definition iblocks :: "'c ext2_filesystem \<Rightarrow> nat \<Rightarrow> u32 list" where
  "iblocks fs = (\<lambda>n. i_block (inode_table fs ! (n - 1)))"

definition nmap :: "(nat \<Rightarrow> 'c ramdisk_device \<Rightarrow> nat \<Rightarrow> u8 list) \<Rightarrow> 'c ext2_filesystem \<Rightarrow> nat \<times> node \<Rightarrow> u32" where
  "nmap blk fs = nodes (BS fs div 4) (NI fs) (dsk blk fs) (iblocks fs)"

text \<open>
  A file system whose files do not overlap: every block an inode refers to, data or table,
  lies in the data area, is marked as used, and is referred to from one place only.
\<close>

definition files_ok ::
  "(nat \<Rightarrow> nat \<Rightarrow> 'c ramdisk_device \<Rightarrow> bool) \<Rightarrow> (nat \<Rightarrow> 'c ramdisk_device \<Rightarrow> nat \<Rightarrow> u8 list) \<Rightarrow> 'c ext2_filesystem \<Rightarrow> bool" where
  "files_ok good blk fs \<longleftrightarrow> fs_ok good fs \<and> inj_nodes (nmap blk fs) \<and>
     (\<forall>k. nmap blk fs k \<noteq> 0 \<longrightarrow> FD fs \<le> unat (nmap blk fs k) \<and> unat (nmap blk fs k) < NB fs \<and>
        bit_used (block_bitmap fs) (unat (nmap blk fs k)))"

definition fresh :: "(nat \<Rightarrow> 'c ramdisk_device \<Rightarrow> nat \<Rightarrow> u8 list) \<Rightarrow> 'c ext2_filesystem \<Rightarrow> u32 \<Rightarrow> bool" where
  "fresh blk fs b \<longleftrightarrow> b \<noteq> 0 \<and> FD fs \<le> unat b \<and> unat b < NB fs \<and> bit_used (block_bitmap fs) (unat b) \<and>
     (\<forall>k. nmap blk fs k \<noteq> b)"

text \<open>The block map of inode \<open>n\<close> may have grown; no file has lost a block or changed a data block.\<close>

definition grows ::
  "(nat \<Rightarrow> 'c ramdisk_device \<Rightarrow> nat \<Rightarrow> u8 list) \<Rightarrow> nat \<Rightarrow> 'c ext2_filesystem \<Rightarrow> 'c ext2_filesystem \<Rightarrow> bool" where
  "grows blk n fs fs' \<longleftrightarrow>
     (\<exists>f. fs_sb fs' = (fs_sb fs)\<lparr>sb_free_blocks := f\<rparr>) \<and>
     inode_bitmap fs' = inode_bitmap fs \<and> g_ext2_sb_buffer fs' = g_ext2_sb_buffer fs \<and>
     (\<forall>b. bit_used (block_bitmap fs) b \<longrightarrow> bit_used (block_bitmap fs') b) \<and>
     (\<exists>bl c. inode_table fs' = (inode_table fs)[n - 1 := (inode_table fs ! (n - 1))\<lparr>i_block := bl, i_blocks := c\<rparr>]) \<and>
     (\<forall>k. nmap blk fs k \<noteq> 0 \<or> fst k \<noteq> n \<longrightarrow> nmap blk fs' k = nmap blk fs k) \<and>
     (\<forall>b < FD fs. dsk blk fs' b = dsk blk fs b) \<and>
     (\<forall>k. nmap blk fs k \<noteq> 0 \<and> \<not> is_tab (snd k) \<longrightarrow>
        dsk blk fs' (unat (nmap blk fs k)) = dsk blk fs (unat (nmap blk fs k)))"

lemma grows_geom:
  assumes "grows blk n fs fs'"
  shows "fs_bs fs' = fs_bs fs" "sb_blocks_count (fs_sb fs') = sb_blocks_count (fs_sb fs)"
    "sb_inodes_count (fs_sb fs') = sb_inodes_count (fs_sb fs)"
    "sb_first_data_block (fs_sb fs') = sb_first_data_block (fs_sb fs)"
    "length (inode_table fs') = length (inode_table fs)"
  using assms by (auto simp: grows_def)

lemma growsD:
  assumes "grows blk n fs fs'"
  shows "nmap blk fs k \<noteq> 0 \<Longrightarrow> nmap blk fs' k = nmap blk fs k"
    "fst k \<noteq> n \<Longrightarrow> nmap blk fs' k = nmap blk fs k"
    "b < FD fs \<Longrightarrow> dsk blk fs' b = dsk blk fs b"
    "nmap blk fs k \<noteq> 0 \<Longrightarrow> \<not> is_tab (snd k) \<Longrightarrow> dsk blk fs' (unat (nmap blk fs k)) = dsk blk fs (unat (nmap blk fs k))"
    "inode_bitmap fs' = inode_bitmap fs" "g_ext2_sb_buffer fs' = g_ext2_sb_buffer fs"
    "bit_used (block_bitmap fs) b \<Longrightarrow> bit_used (block_bitmap fs') b"
  using assms unfolding grows_def by blast+

lemma grows_trans:
  assumes "grows blk n fs fs1" and "grows blk n fs1 fs2"
  shows "grows blk n fs fs2"
proof -
  note a = growsD [OF assms(1)] and b = growsD [OF assms(2)]
  obtain f1 f2 where sb: "fs_sb fs1 = (fs_sb fs)\<lparr>sb_free_blocks := f1\<rparr>" "fs_sb fs2 = (fs_sb fs1)\<lparr>sb_free_blocks := f2\<rparr>"
    using assms by (auto simp: grows_def)
  obtain bl1 c1 bl2 c2 where it: "inode_table fs1 = (inode_table fs)[n - 1 := (inode_table fs ! (n - 1))\<lparr>i_block := bl1, i_blocks := c1\<rparr>]"
    "inode_table fs2 = (inode_table fs1)[n - 1 := (inode_table fs1 ! (n - 1))\<lparr>i_block := bl2, i_blocks := c2\<rparr>]"
    using assms unfolding grows_def by blast
  have "inode_table fs2 = (inode_table fs)[n - 1 := (inode_table fs ! (n - 1))\<lparr>i_block := bl2, i_blocks := c2\<rparr>]"
    by (cases "n - 1 < length (inode_table fs)") (simp_all add: it list_update_beyond)
  moreover have "nmap blk fs2 k = nmap blk fs k" if "nmap blk fs k \<noteq> 0 \<or> fst k \<noteq> n" for k
    using that a(1,2) b(1,2) by metis
  moreover have "dsk blk fs2 c = dsk blk fs c" if "c < FD fs" for c
    using that a(3) b(3) grows_geom(4) [OF assms(1)] by metis
  moreover have "dsk blk fs2 (unat (nmap blk fs k)) = dsk blk fs (unat (nmap blk fs k))"
    if "nmap blk fs k \<noteq> 0" "\<not> is_tab (snd k)" for k
    using that a(1,4) b(4) by metis
  ultimately show ?thesis unfolding grows_def
    using sb a(5,6,7) b(5,6,7) by auto
qed

lemma nmap_replies [simp]: "nmap blk (fs\<lparr>heap_replies := rs\<rparr>) = nmap blk fs"
  by (simp add: nmap_def iblocks_def)

lemma files_ok_replies [simp]: "files_ok good blk (fs\<lparr>heap_replies := rs\<rparr>) = files_ok good blk fs"
  by (simp add: files_ok_def)

lemma fresh_replies [simp]: "fresh blk (fs\<lparr>heap_replies := rs\<rparr>) b = fresh blk fs b"
  by (simp add: fresh_def)

lemma fresh_unat: "fresh blk fs b \<Longrightarrow> unat (nmap blk fs k) \<noteq> unat b"
  unfolding fresh_def word_unat_eq_iff by blast

lemma grows_refl: "grows blk n fs fs"
proof -
  have "inode_table fs = (inode_table fs)[n - 1 := (inode_table fs ! (n - 1))\<lparr>i_block := i_block (inode_table fs ! (n - 1)),
      i_blocks := i_blocks (inode_table fs ! (n - 1))\<rparr>]"
    by simp
  moreover have "fs_sb fs = (fs_sb fs)\<lparr>sb_free_blocks := sb_free_blocks (fs_sb fs)\<rparr>" by simp
  ultimately show ?thesis unfolding grows_def by blast
qed

lemma grows_replies [simp]: "grows blk n fs (fs'\<lparr>heap_replies := rs\<rparr>) = grows blk n fs fs'"
  by (simp add: grows_def)

lemma files_okD:
  assumes "files_ok good blk fs"
  shows "fs_ok good fs" "inj_nodes (nmap blk fs)"
    "nmap blk fs k \<noteq> 0 \<Longrightarrow> FD fs \<le> unat (nmap blk fs k)"
    "nmap blk fs k \<noteq> 0 \<Longrightarrow> unat (nmap blk fs k) < NB fs"
    "nmap blk fs k \<noteq> 0 \<Longrightarrow> bit_used (block_bitmap fs) (unat (nmap blk fs k))"
  using assms unfolding files_ok_def by blast+

lemma iblocks_length:
  assumes "fs_ok good fs" and "1 \<le> n" and "n \<le> NI fs"
  shows "length (iblocks fs n) = 15"
proof -
  have "inode_table fs ! (n - 1) \<in> set (inode_table fs)" using assms fs_okD(5) [OF assms(1)] by auto
  then show ?thesis using fs_okD(6) [OF assms(1)] by (simp add: iblocks_def ext2_inode_ok_def)
qed

lemma unat_pred: "1 \<le> unat n \<Longrightarrow> unat ((n :: u32) - 1) = unat n - 1"
  by (subst unat_sub_exact) auto

context block_store
begin

lemma alloc_step:
  assumes ok: "files_ok good blk fs"
  shows "\<exists>b fs1. ext2_alloc_block fs = Some (b, fs1) \<and>
    (if b = 0 then fs1 = fs \<and> (\<forall>j. FD fs \<le> j \<and> j < NB fs \<longrightarrow> bit_used (block_bitmap fs) j)
     else files_ok good blk fs1 \<and> fresh blk fs1 b \<and> grows blk n fs fs1 \<and> nmap blk fs1 = nmap blk fs \<and>
       inode_table fs1 = inode_table fs \<and> heap_replies fs1 = heap_replies fs)"
proof -
  note f = files_okD(1) [OF ok]
  obtain b fs1 where a: "ext2_alloc_block fs = Some (b, fs1)"
    and c: "if b = 0 then fs1 = fs \<and> (\<forall>j. FD fs \<le> j \<and> j < NB fs \<longrightarrow> bit_used (block_bitmap fs) j)
     else FD fs \<le> unat b \<and> unat b < NB fs \<and> \<not> bit_used (block_bitmap fs) (unat b) \<and>
       (\<forall>j. FD fs \<le> j \<and> j < unat b \<longrightarrow> bit_used (block_bitmap fs) j) \<and> fs_ok good fs1 \<and>
       (\<exists>bm. fs1 = upd_sb (\<lambda>sb. sb\<lparr>sb_free_blocks := sb_free_blocks sb - 1\<rparr>) (fs\<lparr>block_bitmap := bm\<rparr>) \<and>
         (\<forall>j. bit_used bm j \<longleftrightarrow> j = unat b \<or> bit_used (block_bitmap fs) j))"
    using alloc_block [OF f] by blast
  show ?thesis
  proof (cases "b = 0")
    case True
    then show ?thesis using a c by auto
  next
    case False
    then obtain bm where bm: "fs1 = upd_sb (\<lambda>sb. sb\<lparr>sb_free_blocks := sb_free_blocks sb - 1\<rparr>) (fs\<lparr>block_bitmap := bm\<rparr>)"
      "\<And>j. bit_used bm j \<longleftrightarrow> j = unat b \<or> bit_used (block_bitmap fs) j" and r: "FD fs \<le> unat b" "unat b < NB fs"
      "\<not> bit_used (block_bitmap fs) (unat b)" and ok1: "fs_ok good fs1"
      using c by auto
    have g: "fs_bs fs1 = fs_bs fs" "sb_inodes_count (fs_sb fs1) = sb_inodes_count (fs_sb fs)" "inode_table fs1 = inode_table fs"
      "dsk blk fs1 = dsk blk fs" "sb_first_data_block (fs_sb fs1) = sb_first_data_block (fs_sb fs)"
      "sb_blocks_count (fs_sb fs1) = sb_blocks_count (fs_sb fs)" "block_bitmap fs1 = bm" "inode_bitmap fs1 = inode_bitmap fs"
      "g_ext2_sb_buffer fs1 = g_ext2_sb_buffer fs" "heap_replies fs1 = heap_replies fs"
      "fs_sb fs1 = (fs_sb fs)\<lparr>sb_free_blocks := sb_free_blocks (fs_sb fs) - 1\<rparr>"
      by (simp_all add: bm(1) upd_sb_def dsk_def)
    have nm: "nmap blk fs1 = nmap blk fs" by (simp add: nmap_def g iblocks_def)
    have "files_ok good blk fs1" using ok ok1 by (simp add: files_ok_def nm g bm(2))
    moreover have "fresh blk fs1 b" using False r files_okD(5) [OF ok] by (auto simp: fresh_def nm g bm(2))
    moreover have "grows blk n fs fs1"
      using grows_refl [of blk n fs] by (auto simp: grows_def nm g bm(2))
    ultimately show ?thesis using a False nm g by auto
  qed
qed

text \<open>Writing a block that is no table leaves the block map alone.\<close>

lemma write_nontab:
  assumes ok: "files_ok good blk fs" and b: "unat b < NB fs" and len: "length buf = BS fs"
    and t: "\<And>k. is_tab (snd k) \<Longrightarrow> nmap blk fs k \<noteq> b"
  shows "\<exists>d. ext2_write_block fs b buf = Some (0, fs\<lparr>fs_device := d\<rparr>) \<and> files_ok good blk (fs\<lparr>fs_device := d\<rparr>) \<and>
    nmap blk (fs\<lparr>fs_device := d\<rparr>) = nmap blk fs \<and> dsk blk (fs\<lparr>fs_device := d\<rparr>) = (dsk blk fs)(unat b := buf)"
proof -
  obtain d where d: "ext2_write_block fs b buf = Some (0, fs\<lparr>fs_device := d\<rparr>)" "fs_ok good (fs\<lparr>fs_device := d\<rparr>)"
    "dsk blk (fs\<lparr>fs_device := d\<rparr>) = (dsk blk fs)(unat b := buf)"
    using write_block [OF files_okD(1) [OF ok] b len] by blast
  have "nodes (BS fs div 4) (NI fs) ((dsk blk fs)(unat b := buf)) (iblocks fs) = nmap blk fs"
    unfolding nmap_def by (rule nodes_cong) (use t in \<open>auto simp: nmap_def word_unat_eq_iff\<close>)
  moreover have "iblocks (fs\<lparr>fs_device := d\<rparr>) = iblocks fs" by (simp add: iblocks_def)
  ultimately have nm: "nmap blk (fs\<lparr>fs_device := d\<rparr>) = nmap blk fs" by (simp add: nmap_def d(3))
  then have "files_ok good blk (fs\<lparr>fs_device := d\<rparr>)" using ok d(2) by (simp add: files_ok_def)
  then show ?thesis using d nm by blast
qed

lemma zero_step:
  assumes ok: "files_ok good blk fs" and nf: "no_fail fs" and fr: "fresh blk fs nb"
  shows "\<exists>fs1. zero_table nb fs = Some fs1 \<and> files_ok good blk fs1 \<and> no_fail fs1 \<and> fresh blk fs1 nb \<and> grows blk n fs fs1 \<and>
    nmap blk fs1 = nmap blk fs \<and> inode_table fs1 = inode_table fs \<and> dsk blk fs1 (unat nb) = replicate (BS fs) 0"
proof -
  obtain t rs where k: "fs_kmalloc (BS fs) fs = (Some t, fs\<lparr>heap_replies := rs\<rparr>)" "no_fail (fs\<lparr>heap_replies := rs\<rparr>)"
    using fs_kmalloc_ok [OF nf] by metis
  let ?g = "fs\<lparr>heap_replies := rs\<rparr>"
  have "\<exists>d. ext2_write_block ?g nb (replicate (BS fs) 0) = Some (0, ?g\<lparr>fs_device := d\<rparr>) \<and> files_ok good blk (?g\<lparr>fs_device := d\<rparr>) \<and>
    nmap blk (?g\<lparr>fs_device := d\<rparr>) = nmap blk ?g \<and> dsk blk (?g\<lparr>fs_device := d\<rparr>) = (dsk blk ?g)(unat nb := replicate (BS fs) 0)"
    by (rule write_nontab) (use ok fr in \<open>auto simp: fresh_def\<close>)
  then obtain d where d: "ext2_write_block ?g nb (replicate (BS fs) 0) = Some (0, ?g\<lparr>fs_device := d\<rparr>)"
    "files_ok good blk (?g\<lparr>fs_device := d\<rparr>)" "nmap blk (?g\<lparr>fs_device := d\<rparr>) = nmap blk fs"
    "dsk blk (?g\<lparr>fs_device := d\<rparr>) = (dsk blk fs)(unat nb := replicate (BS fs) 0)" by auto
  let ?h = "?g\<lparr>fs_device := d\<rparr>"
  have "zero_table nb fs = Some ?h" using k(1) d(1) by (simp add: zero_table_def)
  moreover have "fresh blk ?h nb" using fr d(3) by (simp add: fresh_def)
  moreover have "grows blk n fs ?h"
    using grows_refl [of blk n fs] fresh_unat [OF fr] fr by (auto simp: grows_def d(3,4) fresh_def)
  ultimately show ?thesis using d k(2) by auto
qed

end

lemma nmap_valid: "nmap blk fs (n, x) \<noteq> 0 \<Longrightarrow> 1 \<le> n \<and> n \<le> NI fs \<and> node_valid (BS fs div 4) x"
  by (auto simp: nmap_def nodes_def split: if_splits)

text \<open>Attaching a fresh block to an empty position keeps the files disjoint.\<close>

lemma files_ok_attach:
  assumes ok: "files_ok good blk fs" and fr: "fresh blk fs b" and k0: "nmap blk fs k = 0"
    and ok': "fs_ok good fs'" and nm: "nmap blk fs' = (nmap blk fs)(k := b)"
    and geo: "sb_first_data_block (fs_sb fs') = sb_first_data_block (fs_sb fs)"
      "sb_blocks_count (fs_sb fs') = sb_blocks_count (fs_sb fs)" "block_bitmap fs' = block_bitmap fs"
  shows "files_ok good blk fs'"
proof -
  have "inj_nodes (nmap blk fs')"
    unfolding nm using files_okD(2) [OF ok] k0 fr by (intro inj_nodes_upd) (auto simp: fresh_def)
  moreover have "FD fs \<le> unat (nmap blk fs' q) \<and> unat (nmap blk fs' q) < NB fs \<and> bit_used (block_bitmap fs) (unat (nmap blk fs' q))"
    if "nmap blk fs' q \<noteq> 0" for q
    using that fr files_okD(3,4,5) [OF ok, of q] by (auto simp: nm fresh_def)
  ultimately show ?thesis using ok' by (simp add: files_ok_def geo)
qed

text \<open>Changes of an inode's fields other than the block list.\<close>

lemma upd_inode_eq:
  assumes "fs_ok good fs" and "1 \<le> unat n" and "unat n \<le> NI fs"
  shows "upd_inode n f fs = Some (fs\<lparr>inode_table := (inode_table fs)[unat n - 1 := f (inode_table fs ! (unat n - 1))]\<rparr>)"
  using assms fs_okD(5) [OF assms(1)] by (simp add: upd_inode_def unat_pred)

lemma inode_at_eq:
  assumes "fs_ok good fs" and "1 \<le> unat n" and "unat n \<le> NI fs"
  shows "inode_at fs n = Some (inode_table fs ! (unat n - 1))"
  using assms fs_okD(5) [OF assms(1)] by (simp add: inode_at_def unat_pred)

lemma fs_ok_inode:
  assumes "fs_ok good fs" and "n < NI fs" and "ext2_inode_ok (inode_table fs ! n) \<Longrightarrow> ext2_inode_ok i"
  shows "fs_ok good (fs\<lparr>inode_table := (inode_table fs)[n := i]\<rparr>)"
proof -
  have "ext2_inode_ok (inode_table fs ! n)" using fs_okD(5,6) [OF assms(1)] assms(2) by simp
  then have "\<forall>j \<in> set ((inode_table fs)[n := i]). ext2_inode_ok j"
    using assms(3) fs_okD(6) [OF assms(1)] set_update_subset_insert [of "inode_table fs" n i] by blast
  then show ?thesis
    using assms(1) by (simp add: fs_ok_def sb_wf_def bitmap_blocks_def table_start_def table_blocks_def)
qed

context block_store
begin

lemma link_step:
  assumes ok: "files_ok good blk fs" and nf: "no_fail fs" and fr: "fresh blk fs nb"
    and n: "1 \<le> unat n" "unat n \<le> NI fs" and k: "k < 14" "nmap blk fs (unat n, Slot k) = 0"
    and z: "12 \<le> k \<Longrightarrow> \<exists>c. dsk blk fs (unat nb) = replicate c 0"
  shows "\<exists>fs1. link_block n k nb fs = Some fs1 \<and> files_ok good blk fs1 \<and> no_fail fs1 \<and> grows blk (unat n) fs fs1 \<and>
    nmap blk fs1 = (nmap blk fs)((unat n, Slot k) := nb)"
proof -
  note f = files_okD(1) [OF ok]
  let ?i = "inode_table fs ! (unat n - 1)"
  let ?j = "?i\<lparr>i_block := (i_block ?i)[k := nb], i_blocks := i_blocks ?i + fs_bs fs div 512\<rparr>"
  let ?h = "fs\<lparr>inode_table := (inode_table fs)[unat n - 1 := ?j]\<rparr>"
  have l: "link_block n k nb fs = Some ?h" by (simp add: link_block_def upd_inode_eq [OF f n])
  have lt: "unat n - 1 < length (inode_table fs)" using n fs_okD(5) [OF f] by simp
  have okh: "fs_ok good ?h" by (rule fs_ok_inode [OF f]) (use n in \<open>auto simp: ext2_inode_ok_def\<close>)
  have ibh: "iblocks ?h m = ((iblocks fs)(unat n := (iblocks fs (unat n))[k := nb])) m" if "1 \<le> m" for m
  proof (cases "m = unat n")
    case True
    then show ?thesis using lt by (simp add: iblocks_def)
  next
    case False
    then have "m - 1 \<noteq> unat n - 1" using that n by linarith
    then show ?thesis using False by (simp add: iblocks_def)
  qed
  have "nodes (BS fs div 4) (NI fs) (dsk blk fs) (iblocks ?h) =
      nodes (BS fs div 4) (NI fs) (dsk blk fs) ((iblocks fs)(unat n := (iblocks fs (unat n))[k := nb]))"
    by (rule nodes_cong) (use ibh in simp_all)
  also have "\<dots> = (nmap blk fs)((unat n, Slot k) := nb)"
    unfolding nmap_def by (rule nodes_attach_slot) (use n k z iblocks_length [OF f n] in \<open>auto simp: nmap_def\<close>)
  finally have nm: "nmap blk ?h = (nmap blk fs)((unat n, Slot k) := nb)" by (simp add: nmap_def dsk_def)
  have "files_ok good blk ?h" by (rule files_ok_attach [OF ok fr k(2) okh nm]) simp_all
  moreover have "grows blk (unat n) fs ?h"
    using grows_refl [of blk "unat n" fs] k(2) unfolding grows_def nm by (auto simp: dsk_def)
  ultimately show ?thesis using l nm nf by (auto simp: no_fail_def)
qed

lemma count_step:
  assumes ok: "files_ok good blk fs" and nf: "no_fail fs" and n: "1 \<le> unat n" "unat n \<le> NI fs"
  shows "\<exists>fs1. count_block n fs = Some fs1 \<and> files_ok good blk fs1 \<and> no_fail fs1 \<and> grows blk (unat n) fs fs1 \<and>
    nmap blk fs1 = nmap blk fs"
proof -
  note f = files_okD(1) [OF ok]
  let ?i = "inode_table fs ! (unat n - 1)"
  let ?h = "fs\<lparr>inode_table := (inode_table fs)[unat n - 1 := ?i\<lparr>i_blocks := i_blocks ?i + fs_bs fs div 512\<rparr>]\<rparr>"
  have l: "count_block n fs = Some ?h" by (simp add: count_block_def upd_inode_eq [OF f n])
  have lt: "unat n - 1 < length (inode_table fs)" using n fs_okD(5) [OF f] by simp
  have okh: "fs_ok good ?h" by (rule fs_ok_inode [OF f]) (use n in \<open>auto simp: ext2_inode_ok_def\<close>)
  have "iblocks ?h = iblocks fs" using lt by (auto simp: iblocks_def nth_list_update)
  then have nm: "nmap blk ?h = nmap blk fs" by (simp add: nmap_def dsk_def)
  then have fo: "files_ok good blk ?h" using ok okh by (simp add: files_ok_def)
  have e: "\<exists>bl c. inode_table ?h = (inode_table fs)[unat n - 1 := ?i\<lparr>i_block := bl, i_blocks := c\<rparr>]"
    by (rule exI [of _ "i_block ?i"], rule exI [of _ "i_blocks ?i + fs_bs fs div 512"]) simp
  have "grows blk (unat n) fs ?h"
    unfolding grows_def nm by (intro conjI e) (use grows_refl [of blk "unat n" fs] in \<open>auto simp: grows_def dsk_def\<close>)
  then show ?thesis using l nm nf fo by (auto simp: no_fail_def)
qed

lemma tab_block:
  assumes ok: "files_ok good blk fs" and tb: "nmap blk fs (n, t) = tb" "tb \<noteq> 0"
  shows "unat tb < NB fs" "length (dsk blk fs (unat tb)) = BS fs" "4 * (BS fs div 4) = BS fs"
proof -
  show b: "unat tb < NB fs" using files_okD(4) [OF ok] tb by blast
  show "length (dsk blk fs (unat tb)) = BS fs" by (rule dsk_length [OF files_okD(1) [OF ok] b])
  show "4 * (BS fs div 4) = BS fs" using sb_wfD(1) [OF fs_okD(1) [OF files_okD(1) [OF ok]]] by auto
qed

lemma nmap_child:
  assumes "is_tab t" and "nmap blk fs (n, t) = tb" and "tb \<noteq> 0" and "j < BS fs div 4"
  shows "nmap blk fs (n, child t j) = ptr (dsk blk fs) tb j"
proof -
  have v: "1 \<le> n" "n \<le> NI fs" "node_valid (BS fs div 4) t" using nmap_valid assms(2,3) by metis+
  show ?thesis using assms v by (cases t) (auto simp: nmap_def nodes_def)
qed

lemma ptr_get_step:
  assumes ok: "files_ok good blk fs" and nf: "no_fail fs" and t: "is_tab t" "nmap blk fs (n, t) = tb" "tb \<noteq> 0"
    and j: "unat idx < BS fs div 4"
  shows "\<exists>rs. ext2_ptr_get tb idx fs = Some (nmap blk fs (n, child t (unat idx)), fs\<lparr>heap_replies := rs\<rparr>) \<and>
    no_fail (fs\<lparr>heap_replies := rs\<rparr>)"
proof -
  note tbl = tab_block [OF ok t(2,3)]
  obtain b rs where k: "fs_kmalloc (BS fs) fs = (Some b, fs\<lparr>heap_replies := rs\<rparr>)" "length b = BS fs"
    "no_fail (fs\<lparr>heap_replies := rs\<rparr>)" using fs_kmalloc_ok [OF nf] .
  have r: "ext2_read_block (fs\<lparr>heap_replies := rs\<rparr>) tb b = Some (0, dsk blk fs (unat tb))"
    using read_block [of "fs\<lparr>heap_replies := rs\<rparr>" tb b] files_okD(1) [OF ok] tbl(1) k(2) by simp
  have "4 * unat idx + 4 \<le> BS fs" using j tbl(3) by linarith
  then have "tab_get (dsk blk fs (unat tb)) idx = Some (ptr (dsk blk fs) tb (unat idx))"
    using tbl(2) t(3) by (simp add: tab_get_def slice_def ptr_def)
  then show ?thesis using k r nmap_child [OF t j] by (auto simp: ext2_ptr_get_def)
qed

lemma ptr_set_step:
  assumes ok: "files_ok good blk fs" and nf: "no_fail fs" and fr: "fresh blk fs db"
    and t: "is_tab t" "nmap blk fs (n, t) = tb" "tb \<noteq> 0"
    and j: "unat idx < BS fs div 4" and c0: "nmap blk fs (n, child t (unat idx)) = 0"
    and z: "t = Slot 13 \<Longrightarrow> \<exists>c. dsk blk fs (unat db) = replicate c 0"
  shows "\<exists>fs1. ext2_ptr_set tb idx db fs = Some fs1 \<and> files_ok good blk fs1 \<and> no_fail fs1 \<and> grows blk n fs fs1 \<and>
    nmap blk fs1 = (nmap blk fs)((n, child t (unat idx)) := db)"
proof -
  note tbl = tab_block [OF ok t(2,3)] and f = files_okD(1) [OF ok]
  have v: "1 \<le> n" "n \<le> NI fs" "node_valid (BS fs div 4) t" using nmap_valid t(2,3) by metis+
  obtain b rs where k: "fs_kmalloc (BS fs) fs = (Some b, fs\<lparr>heap_replies := rs\<rparr>)" "length b = BS fs"
    "no_fail (fs\<lparr>heap_replies := rs\<rparr>)" using fs_kmalloc_ok [OF nf] .
  let ?g = "fs\<lparr>heap_replies := rs\<rparr>"
  let ?T = "overwrite (dsk blk fs (unat tb)) (4 * unat idx) (le_enc 4 db)"
  have r: "ext2_read_block ?g tb b = Some (0, dsk blk fs (unat tb))"
    using read_block [of ?g tb b] f tbl(1) k(2) by simp
  have le: "4 * unat idx + 4 \<le> BS fs" using j tbl(3) by linarith
  then have ts: "tab_set (dsk blk fs (unat tb)) idx db = Some ?T" using tbl(2) by (simp add: tab_set_def blit_overwrite)
  obtain d where d: "ext2_write_block ?g tb ?T = Some (0, ?g\<lparr>fs_device := d\<rparr>)" "fs_ok good (?g\<lparr>fs_device := d\<rparr>)"
    "dsk blk (?g\<lparr>fs_device := d\<rparr>) = (dsk blk fs)(unat tb := ?T)"
    using write_block [of ?g tb ?T] f tbl(1,2) le by auto
  let ?h = "?g\<lparr>fs_device := d\<rparr>"
  have inj: "inj_nodes (nmap blk fs)" by (rule files_okD(2) [OF ok])
  have oth: "unat (nmap blk fs q) \<noteq> unat tb" if "q \<noteq> (n, t)" "nmap blk fs q \<noteq> 0" for q
    using that inj_nodesD [OF inj, of q "(n, t)"] t(2) by (auto simp: word_unat_eq_iff)
  have dbt: "unat db \<noteq> unat tb" using fresh_unat [OF fr, of "(n, t)"] t(2) by simp
  have "nodes (BS fs div 4) (NI fs) ((dsk blk fs)(unat tb := ?T)) (iblocks fs) = (nmap blk fs)((n, child t (unat idx)) := db)"
    unfolding nmap_def
  proof (rule nodes_attach_ptr [where tb = tb])
    show "4 * (BS fs div 4) \<le> length (dsk blk fs (unat tb))" using tbl by simp
    fix m x assume "is_tab x" and nz: "nodes (BS fs div 4) (NI fs) (dsk blk fs) (iblocks fs) (m, x) \<noteq> 0" and ne: "(m, x) \<noteq> (n, t)"
    show "((dsk blk fs)(unat tb := ?T)) (unat (nodes (BS fs div 4) (NI fs) (dsk blk fs) (iblocks fs) (m, x))) =
        dsk blk fs (unat (nodes (BS fs div 4) (NI fs) (dsk blk fs) (iblocks fs) (m, x)))"
      using oth [OF ne] nz by (simp add: nmap_def)
  next
    assume "t = Slot 13"
    with z obtain c where "dsk blk fs (unat db) = replicate c 0" by blast
    with dbt show "\<exists>c. ((dsk blk fs)(unat tb := ?T)) (unat db) = replicate c 0" by auto
  qed (use inj v t j c0 in \<open>auto simp: nmap_def\<close>)
  moreover have "iblocks ?h = iblocks fs" by (simp add: iblocks_def)
  ultimately have nm: "nmap blk ?h = (nmap blk fs)((n, child t (unat idx)) := db)" by (simp add: nmap_def d(3))
  have "files_ok good blk ?h" by (rule files_ok_attach [OF ok fr c0 d(2) nm]) simp_all
  moreover have "grows blk n fs ?h" unfolding grows_def nm d(3)
  proof (intro conjI allI impI)
    have "FD fs \<le> unat tb" using files_okD(3) [OF ok] t(2,3) by blast
    then show "((dsk blk fs)(unat tb := ?T)) b = dsk blk fs b" if "b < FD fs" for b using that by auto
    fix q assume q: "nmap blk fs q \<noteq> 0 \<and> \<not> is_tab (snd q)"
    then have "q \<noteq> (n, t)" using t(1) by auto
    with q show "((dsk blk fs)(unat tb := ?T)) (unat (nmap blk fs q)) = dsk blk fs (unat (nmap blk fs q))" using oth by simp
  next
    fix q assume "nmap blk fs q \<noteq> 0 \<or> fst q \<noteq> n"
    then show "((nmap blk fs)((n, child t (unat idx)) := db)) q = nmap blk fs q" using c0 by auto
  qed (use grows_refl [of blk n fs] in \<open>auto simp: grows_def\<close>)
  moreover have "ext2_ptr_set tb idx db fs = Some ?h" using k r ts d(1) by (simp add: ext2_ptr_set_def)
  ultimately show ?thesis using nm k(3) by auto
qed

end

definition extends where
  "extends good blk n fs fs' \<longleftrightarrow> files_ok good blk fs' \<and> no_fail fs' \<and> grows blk n fs fs'"

definition full :: "'c ext2_filesystem \<Rightarrow> bool" where
  "full fs \<longleftrightarrow> (\<forall>j. FD fs \<le> j \<and> j < NB fs \<longrightarrow> bit_used (block_bitmap fs) j)"

lemma extends_refl: "files_ok good blk fs \<Longrightarrow> no_fail fs \<Longrightarrow> extends good blk n fs fs"
  by (simp add: extends_def grows_refl)

lemma extends_trans: "extends good blk n fs fs1 \<Longrightarrow> extends good blk n fs1 fs2 \<Longrightarrow> extends good blk n fs fs2"
  by (auto simp: extends_def intro: grows_trans)

lemma extendsD:
  assumes "extends good blk n fs fs'"
  shows "files_ok good blk fs'" "no_fail fs'" "grows blk n fs fs'"
    "fs_bs fs' = fs_bs fs" "sb_blocks_count (fs_sb fs') = sb_blocks_count (fs_sb fs)"
    "sb_inodes_count (fs_sb fs') = sb_inodes_count (fs_sb fs)"
    "sb_first_data_block (fs_sb fs') = sb_first_data_block (fs_sb fs)"
    "length (inode_table fs') = length (inode_table fs)"
  using assms grows_geom unfolding extends_def by blast+

definition data_node :: "nat \<Rightarrow> nat \<Rightarrow> node" where
  "data_node p bi = (if bi < 12 then Slot bi else if bi < 12 + p then Ind (bi - 12)
     else DblInd ((bi - 12 - p) div p) ((bi - 12 - p) mod p))"

lemma data_node_simps:
  "\<not> is_tab (data_node p bi)"
  "0 < p \<Longrightarrow> bi < 12 + p + p * p \<Longrightarrow> node_valid p (data_node p bi)"
  "0 < p \<Longrightarrow> data_node p a = data_node p b \<Longrightarrow> a = b"
proof -
  show "\<not> is_tab (data_node p bi)" by (auto simp: data_node_def)
  show "node_valid p (data_node p bi)" if "0 < p" "bi < 12 + p + p * p"
    using that by (auto simp: data_node_def less_mult_imp_div_less)
  show "a = b" if "0 < p" "data_node p a = data_node p b"
    using that by (auto simp: data_node_def split: if_splits) (metis add_diff_inverse_nat div_mult_mod_eq add.assoc not_less)
qed

context block_store
begin

lemma alloc_extends:
  assumes ok: "files_ok good blk fs" and nf: "no_fail fs"
  shows "\<exists>b fs1. ext2_alloc_block fs = Some (b, fs1) \<and>
    (if b = 0 then fs1 = fs \<and> full fs
     else extends good blk n fs fs1 \<and> fresh blk fs1 b \<and> nmap blk fs1 = nmap blk fs \<and> inode_table fs1 = inode_table fs)"
proof -
  obtain b fs1 where "ext2_alloc_block fs = Some (b, fs1)"
    "if b = 0 then fs1 = fs \<and> (\<forall>j. FD fs \<le> j \<and> j < NB fs \<longrightarrow> bit_used (block_bitmap fs) j)
     else files_ok good blk fs1 \<and> fresh blk fs1 b \<and> grows blk n fs fs1 \<and> nmap blk fs1 = nmap blk fs \<and>
       inode_table fs1 = inode_table fs \<and> heap_replies fs1 = heap_replies fs"
    using alloc_step [OF ok] by blast
  then show ?thesis using nf by (auto simp: full_def extends_def no_fail_def split: if_splits)
qed

text \<open>A fresh, cleared block.\<close>

lemma alloc_zeroed:
  assumes ok: "files_ok good blk fs" and nf: "no_fail fs"
  shows "\<exists>b fs1. ext2_alloc_block fs = Some (b, fs1) \<and>
    (if b = 0 then fs1 = fs \<and> full fs
     else \<exists>fs2. zero_table b fs1 = Some fs2 \<and> extends good blk n fs fs2 \<and> fresh blk fs2 b \<and>
       nmap blk fs2 = nmap blk fs \<and> inode_table fs2 = inode_table fs \<and> (\<exists>c. dsk blk fs2 (unat b) = replicate c 0))"
proof -
  obtain b fs1 where a: "ext2_alloc_block fs = Some (b, fs1)"
    "if b = 0 then fs1 = fs \<and> full fs
     else extends good blk n fs fs1 \<and> fresh blk fs1 b \<and> nmap blk fs1 = nmap blk fs \<and> inode_table fs1 = inode_table fs"
    using alloc_extends [OF ok nf] by blast
  show ?thesis
  proof (cases "b = 0")
    case True
    then show ?thesis using a by auto
  next
    case False
    then have e: "extends good blk n fs fs1" "fresh blk fs1 b" "nmap blk fs1 = nmap blk fs" "inode_table fs1 = inode_table fs"
      using a by auto
    obtain fs2 where "zero_table b fs1 = Some fs2" "files_ok good blk fs2" "no_fail fs2" "fresh blk fs2 b" "grows blk n fs1 fs2"
      "nmap blk fs2 = nmap blk fs1" "inode_table fs2 = inode_table fs1" "dsk blk fs2 (unat b) = replicate (BS fs1) 0"
      using zero_step [OF extendsD(1,2) [OF e(1)] e(2)] by blast
    moreover from this have "extends good blk n fs fs2"
      using e(1) by (auto simp: extends_def intro: grows_trans)
    ultimately show ?thesis using a(1) False e by auto
  qed
qed

lemma table_slot:
  assumes ok: "files_ok good blk fs" and nf: "no_fail fs" and n: "1 \<le> unat n" "unat n \<le> NI fs" and k: "k < 14" "12 \<le> k"
  shows "\<exists>tb fs1. table_slot n k fs = Some (tb, fs1) \<and> extends good blk (unat n) fs fs1 \<and>
    (if tb = 0 then full fs1 else nmap blk fs1 (unat n, Slot k) = tb)"
proof -
  note f = files_okD(1) [OF ok]
  let ?b = "i_block (inode_table fs ! (unat n - 1)) ! k"
  have nb: "nmap blk fs (unat n, Slot k) = ?b" using n k(1) by (simp add: nmap_def nodes_def iblocks_def)
  obtain b fs1 where a: "ext2_alloc_block fs = Some (b, fs1)"
    "if b = 0 then fs1 = fs \<and> full fs
     else \<exists>fs2. zero_table b fs1 = Some fs2 \<and> extends good blk (unat n) fs fs2 \<and> fresh blk fs2 b \<and>
       nmap blk fs2 = nmap blk fs \<and> inode_table fs2 = inode_table fs \<and> (\<exists>c. dsk blk fs2 (unat b) = replicate c 0)"
    using alloc_zeroed [OF ok nf] by blast
  consider (there) "?b \<noteq> 0" | (none) "?b = 0" "b = 0" | (new) "?b = 0" "b \<noteq> 0" by blast
  then show ?thesis
  proof cases
    case there
    then show ?thesis using nb extends_refl [OF ok nf] by (simp add: table_slot_def inode_at_eq [OF f n])
  next
    case none
    then show ?thesis using a extends_refl [OF ok nf] by (simp add: table_slot_def inode_at_eq [OF f n])
  next
    case new
    then obtain fs2 where e: "zero_table b fs1 = Some fs2" "extends good blk (unat n) fs fs2" "fresh blk fs2 b"
       "nmap blk fs2 = nmap blk fs" "\<exists>c. dsk blk fs2 (unat b) = replicate c 0" using a by auto
    note x = extendsD [OF e(2)]
    have "\<exists>fs3. link_block n k b fs2 = Some fs3 \<and> files_ok good blk fs3 \<and> no_fail fs3 \<and> grows blk (unat n) fs2 fs3 \<and>
        nmap blk fs3 = (nmap blk fs2)((unat n, Slot k) := b)"
      by (rule link_step) (use x e n k nb new in auto)
    then obtain fs3 where l: "link_block n k b fs2 = Some fs3" "extends good blk (unat n) fs2 fs3"
      "nmap blk fs3 = (nmap blk fs2)((unat n, Slot k) := b)" by (auto simp: extends_def)
    have "extends good blk (unat n) fs fs3" by (rule extends_trans [OF e(2) l(2)])
    then show ?thesis using a(1) e(1) l new by (simp add: table_slot_def inode_at_eq [OF f n])
  qed
qed

text \<open>Allocating a block and entering it into a table; the middle part of \<open>data_slot\<close>.\<close>

lemma attach_step:
  assumes x: "extends good blk (unat n) fs fs2" and fr: "fresh blk fs2 db"
    and n: "1 \<le> unat n" "unat n \<le> NI fs" and t: "is_tab t" "nmap blk fs2 (unat n, t) = tb" "tb \<noteq> 0"
    and j: "unat idx < BS fs div 4" and c0: "nmap blk fs2 (unat n, child t (unat idx)) = 0"
    and z: "t = Slot 13 \<Longrightarrow> \<exists>c. dsk blk fs2 (unat db) = replicate c 0"
  shows "\<exists>fs3 fs4. ext2_ptr_set tb idx db fs2 = Some fs3 \<and> count_block n fs3 = Some fs4 \<and> extends good blk (unat n) fs fs4 \<and>
    nmap blk fs4 = (nmap blk fs2)((unat n, child t (unat idx)) := db)"
proof -
  note e = extendsD [OF x]
  have "\<exists>fs3. ext2_ptr_set tb idx db fs2 = Some fs3 \<and> files_ok good blk fs3 \<and> no_fail fs3 \<and> grows blk (unat n) fs2 fs3 \<and>
    nmap blk fs3 = (nmap blk fs2)((unat n, child t (unat idx)) := db)"
    by (rule ptr_set_step) (use e fr t j c0 z in auto)
  then obtain fs3 where s: "ext2_ptr_set tb idx db fs2 = Some fs3" "extends good blk (unat n) fs2 fs3"
    "nmap blk fs3 = (nmap blk fs2)((unat n, child t (unat idx)) := db)" by (auto simp: extends_def)
  note e3 = extendsD [OF s(2)]
  have "\<exists>fs4. count_block n fs3 = Some fs4 \<and> files_ok good blk fs4 \<and> no_fail fs4 \<and> grows blk (unat n) fs3 fs4 \<and>
    nmap blk fs4 = nmap blk fs3" by (rule count_step) (use e e3 n in auto)
  then obtain fs4 where c: "count_block n fs3 = Some fs4" "extends good blk (unat n) fs3 fs4" "nmap blk fs4 = nmap blk fs3"
    by (auto simp: extends_def)
  show ?thesis using s c extends_trans [OF extends_trans [OF x s(2)] c(2)] by auto
qed

lemma data_slot:
  assumes ok: "files_ok good blk fs" and nf: "no_fail fs" and n: "1 \<le> unat n" "unat n \<le> NI fs"
    and t: "is_tab t" "nmap blk fs (unat n, t) = tb" "tb \<noteq> 0" "t \<noteq> Slot 13" and j: "unat idx < BS fs div 4"
  shows "\<exists>db fs1. data_slot n tb idx fs = Some (db, fs1) \<and> extends good blk (unat n) fs fs1 \<and>
    (if db = 0 then full fs1 else nmap blk fs1 (unat n, child t (unat idx)) = db)"
proof -
  obtain rs where g: "ext2_ptr_get tb idx fs = Some (nmap blk fs (unat n, child t (unat idx)), fs\<lparr>heap_replies := rs\<rparr>)"
    "no_fail (fs\<lparr>heap_replies := rs\<rparr>)" using ptr_get_step [OF ok nf t(1-3) j] by blast
  let ?g = "fs\<lparr>heap_replies := rs\<rparr>"
  have xg: "extends good blk (unat n) fs ?g" using ok g(2) by (simp add: extends_def grows_refl)
  show ?thesis
  proof (cases "nmap blk fs (unat n, child t (unat idx)) = 0")
    case False
    then show ?thesis using g xg by (simp add: data_slot_def)
  next
    case c0: True
    obtain b fs1 where a: "ext2_alloc_block ?g = Some (b, fs1)"
      "if b = 0 then fs1 = ?g \<and> full ?g
       else extends good blk (unat n) ?g fs1 \<and> fresh blk fs1 b \<and> nmap blk fs1 = nmap blk ?g \<and> inode_table fs1 = inode_table ?g"
      using alloc_extends [OF extendsD(1,2) [OF xg]] by blast
    show ?thesis
    proof (cases "b = 0")
      case True
      then show ?thesis using a g xg c0 by (simp add: data_slot_def)
    next
      case False
      then have e: "extends good blk (unat n) fs fs1" "fresh blk fs1 b" "nmap blk fs1 = nmap blk fs"
        using a extends_trans [OF xg] by auto
      obtain fs3 fs4 where "ext2_ptr_set tb idx b fs1 = Some fs3" "count_block n fs3 = Some fs4" "extends good blk (unat n) fs fs4"
        "nmap blk fs4 = (nmap blk fs1)((unat n, child t (unat idx)) := b)"
        using attach_step [OF e(1,2) n t(1) _ t(3) j, of] t(2,4) c0 e(3) by metis
      then show ?thesis using a(1) g c0 False by (simp add: data_slot_def)
    qed
  qed
qed

end

abbreviation ptrs :: "'c ext2_filesystem \<Rightarrow> nat" where
  "ptrs fs \<equiv> BS fs div 4"

lemma ptrs_words:
  assumes "sb_wf fs"
  shows "unat (fs_bs fs div 4) = ptrs fs" "0 < ptrs fs" "fs_bs fs div 4 \<noteq> 0" "ptrs fs \<le> 1024"
    "unat (12 + fs_bs fs div 4) = 12 + ptrs fs"
    "unat (12 + fs_bs fs div 4 + (fs_bs fs div 4) * (fs_bs fs div 4)) = 12 + ptrs fs + ptrs fs * ptrs fs"
proof -
  show a: "unat (fs_bs fs div 4) = ptrs fs" by (simp add: unat_div)
  have c: "BS fs = 1024 \<or> BS fs = 2048 \<or> BS fs = 4096" by (rule sb_wfD(1) [OF assms])
  show "0 < ptrs fs" "ptrs fs \<le> 1024" using c by auto
  show "fs_bs fs div 4 \<noteq> 0" using a c by auto
  show "unat (12 + fs_bs fs div 4) = 12 + ptrs fs"
    using c a by (auto simp: unat_word_ariths)
  show "unat (12 + fs_bs fs div 4 + (fs_bs fs div 4) * (fs_bs fs div 4)) = 12 + ptrs fs + ptrs fs * ptrs fs"
    using c a by (auto simp: unat_word_ariths)
qed

lemma block_index_words:
  assumes "sb_wf fs"
  shows "bi < 12 \<longleftrightarrow> unat bi < 12"
    "bi < 12 + fs_bs fs div 4 \<longleftrightarrow> unat bi < 12 + ptrs fs"
    "bi < 12 + fs_bs fs div 4 + (fs_bs fs div 4) * (fs_bs fs div 4) \<longleftrightarrow> unat bi < 12 + ptrs fs + ptrs fs * ptrs fs"
    "12 \<le> unat bi \<Longrightarrow> unat (bi - 12) = unat bi - 12"
    "12 + ptrs fs \<le> unat bi \<Longrightarrow> unat (bi - 12 - fs_bs fs div 4) = unat bi - 12 - ptrs fs"
    "12 + ptrs fs \<le> unat bi \<Longrightarrow> unat ((bi - 12 - fs_bs fs div 4) div (fs_bs fs div 4)) = (unat bi - 12 - ptrs fs) div ptrs fs"
    "12 + ptrs fs \<le> unat bi \<Longrightarrow> unat ((bi - 12 - fs_bs fs div 4) mod (fs_bs fs div 4)) = (unat bi - 12 - ptrs fs) mod ptrs fs"
proof -
  note p = ptrs_words [OF assms]
  show "bi < 12 \<longleftrightarrow> unat bi < 12" by (simp add: word_less_nat_alt)
  show "bi < 12 + fs_bs fs div 4 \<longleftrightarrow> unat bi < 12 + ptrs fs" by (simp add: word_less_nat_alt p(5))
  show "bi < 12 + fs_bs fs div 4 + (fs_bs fs div 4) * (fs_bs fs div 4) \<longleftrightarrow> unat bi < 12 + ptrs fs + ptrs fs * ptrs fs"
    by (simp add: word_less_nat_alt p(6))
  show a: "unat (bi - 12) = unat bi - 12" if "12 \<le> unat bi" using that by (subst unat_sub_exact) auto
  show b: "unat (bi - 12 - fs_bs fs div 4) = unat bi - 12 - ptrs fs" if "12 + ptrs fs \<le> unat bi"
    using that a p(1) by (subst unat_sub_exact) auto
  show "unat ((bi - 12 - fs_bs fs div 4) div (fs_bs fs div 4)) = (unat bi - 12 - ptrs fs) div ptrs fs" if "12 + ptrs fs \<le> unat bi"
    using b [OF that] p(1) by (simp add: unat_div [of "bi - 12 - fs_bs fs div 4"])
  show "unat ((bi - 12 - fs_bs fs div 4) mod (fs_bs fs div 4)) = (unat bi - 12 - ptrs fs) mod ptrs fs" if "12 + ptrs fs \<le> unat bi"
    using b [OF that] p(1) by (simp add: unat_mod [of "bi - 12 - fs_bs fs div 4"])
qed

context block_store
begin

lemma bmap_direct:
  assumes ok: "files_ok good blk fs" and nf: "no_fail fs" and n: "1 \<le> unat n" "unat n \<le> NI fs" and bi: "unat bi < 12"
  shows "\<exists>b fs1. ext2_bmap_alloc n bi fs = Some (b, fs1) \<and> extends good blk (unat n) fs fs1 \<and>
    (if b = 0 then full fs1 else nmap blk fs1 (unat n, data_node (ptrs fs) (unat bi)) = b)"
proof -
  note f = files_okD(1) [OF ok]
  have lt: "bi < 12" using bi by (simp add: word_less_nat_alt)
  let ?b = "i_block (inode_table fs ! (unat n - 1)) ! unat bi"
  have nb: "nmap blk fs (unat n, Slot (unat bi)) = ?b" using n bi by (simp add: nmap_def nodes_def iblocks_def)
  have dn: "data_node (ptrs fs) (unat bi) = Slot (unat bi)" using bi by (simp add: data_node_def)
  obtain b fs1 where a: "ext2_alloc_block fs = Some (b, fs1)"
    "if b = 0 then fs1 = fs \<and> full fs
     else extends good blk (unat n) fs fs1 \<and> fresh blk fs1 b \<and> nmap blk fs1 = nmap blk fs \<and> inode_table fs1 = inode_table fs"
    using alloc_extends [OF ok nf] by blast
  consider (there) "?b \<noteq> 0" | (none) "?b = 0" "b = 0" | (new) "?b = 0" "b \<noteq> 0" by blast
  then show ?thesis
  proof cases
    case there
    then show ?thesis using nb extends_refl [OF ok nf] lt dn by (simp add: ext2_bmap_alloc_def Let_def inode_at_eq [OF f n])
  next
    case none
    then show ?thesis using a extends_refl [OF ok nf] lt by (simp add: ext2_bmap_alloc_def Let_def inode_at_eq [OF f n])
  next
    case new
    then have e: "extends good blk (unat n) fs fs1" "fresh blk fs1 b" "nmap blk fs1 = nmap blk fs" using a by auto
    note x = extendsD [OF e(1)]
    have "\<exists>fs3. link_block n (unat bi) b fs1 = Some fs3 \<and> files_ok good blk fs3 \<and> no_fail fs3 \<and> grows blk (unat n) fs1 fs3 \<and>
        nmap blk fs3 = (nmap blk fs1)((unat n, Slot (unat bi)) := b)"
      by (rule link_step) (use x e n bi nb new in auto)
    then obtain fs3 where l: "link_block n (unat bi) b fs1 = Some fs3" "extends good blk (unat n) fs1 fs3"
      "nmap blk fs3 = (nmap blk fs1)((unat n, Slot (unat bi)) := b)" by (auto simp: extends_def)
    have "extends good blk (unat n) fs fs3" by (rule extends_trans [OF e(1) l(2)])
    then show ?thesis using a(1) l new lt dn by (simp add: ext2_bmap_alloc_def Let_def inode_at_eq [OF f n])
  qed
qed

lemma bmap_indirect:
  assumes ok: "files_ok good blk fs" and nf: "no_fail fs" and n: "1 \<le> unat n" "unat n \<le> NI fs"
    and bi: "12 \<le> unat bi" "unat bi < 12 + ptrs fs"
  shows "\<exists>b fs1. ext2_bmap_alloc n bi fs = Some (b, fs1) \<and> extends good blk (unat n) fs fs1 \<and>
    (if b = 0 then full fs1 else nmap blk fs1 (unat n, data_node (ptrs fs) (unat bi)) = b)"
proof -
  note w = block_index_words [OF fs_okD(1) [OF files_okD(1) [OF ok]], of bi]
  have dn: "data_node (ptrs fs) (unat bi) = child (Slot 12) (unat (bi - 12))" using bi w(4) by (simp add: data_node_def)
  obtain tb fs1 where t: "table_slot n 12 fs = Some (tb, fs1)" "extends good blk (unat n) fs fs1"
    "if tb = 0 then full fs1 else nmap blk fs1 (unat n, Slot 12) = tb"
    using table_slot [OF ok nf n, of 12] by auto
  note x = extendsD [OF t(2)]
  show ?thesis
  proof (cases "tb = 0")
    case True
    then show ?thesis using t bi w by (auto simp: ext2_bmap_alloc_def Let_def)
  next
    case False
    have "\<exists>db fs2. data_slot n tb (bi - 12) fs1 = Some (db, fs2) \<and> extends good blk (unat n) fs1 fs2 \<and>
        (if db = 0 then full fs2 else nmap blk fs2 (unat n, child (Slot 12) (unat (bi - 12))) = db)"
      by (rule data_slot) (use x n t(3) False bi w in auto)
    then show ?thesis using t(1) False bi w extends_trans [OF t(2)] dn
      by (fastforce simp: ext2_bmap_alloc_def Let_def)
  qed
qed

text \<open>The second-level table, allocated when missing.\<close>

lemma l2_slot:
  assumes ok: "files_ok good blk fs" and nf: "no_fail fs" and n: "1 \<le> unat n" "unat n \<le> NI fs"
    and t: "nmap blk fs (unat n, Slot 13) = tb" "tb \<noteq> 0" and j: "unat l1 < ptrs fs"
  shows "\<exists>l2blk0 fs1 l2blk fs2. ext2_ptr_get tb l1 fs = Some (l2blk0, fs1) \<and>
    (if l2blk0 = 0 then do {
       (nb, fs) \<leftarrow> ext2_alloc_block fs1;
       if nb = 0 then Some (0, fs)
       else do { fs \<leftarrow> zero_table nb fs; fs \<leftarrow> ext2_ptr_set tb l1 nb fs; fs \<leftarrow> count_block n fs; Some (nb, fs) } }
     else Some (l2blk0, fs1)) = Some (l2blk, fs2) \<and>
    extends good blk (unat n) fs fs2 \<and> (if l2blk = 0 then full fs2 else nmap blk fs2 (unat n, Dbl (unat l1)) = l2blk)"
proof -
  have ch: "child (Slot 13) (unat l1) = Dbl (unat l1)" by simp
  obtain rs where g: "ext2_ptr_get tb l1 fs = Some (nmap blk fs (unat n, Dbl (unat l1)), fs\<lparr>heap_replies := rs\<rparr>)"
    "no_fail (fs\<lparr>heap_replies := rs\<rparr>)" using ptr_get_step [OF ok nf _ t j] by auto
  let ?g = "fs\<lparr>heap_replies := rs\<rparr>"
  have xg: "extends good blk (unat n) fs ?g" using ok g(2) by (simp add: extends_def grows_refl)
  show ?thesis
  proof (cases "nmap blk fs (unat n, Dbl (unat l1)) = 0")
    case False
    then show ?thesis using g xg by auto
  next
    case c0: True
    obtain b fs1 where a: "ext2_alloc_block ?g = Some (b, fs1)"
      "if b = 0 then fs1 = ?g \<and> full ?g
       else \<exists>fs2. zero_table b fs1 = Some fs2 \<and> extends good blk (unat n) ?g fs2 \<and> fresh blk fs2 b \<and>
         nmap blk fs2 = nmap blk ?g \<and> inode_table fs2 = inode_table ?g \<and> (\<exists>c. dsk blk fs2 (unat b) = replicate c 0)"
      using alloc_zeroed [OF extendsD(1,2) [OF xg]] by blast
    show ?thesis
    proof (cases "b = 0")
      case True
      then show ?thesis using a g xg c0 by auto
    next
      case False
      then obtain fs2 where z: "zero_table b fs1 = Some fs2" "extends good blk (unat n) fs fs2" "fresh blk fs2 b"
        "nmap blk fs2 = nmap blk fs" "\<exists>c. dsk blk fs2 (unat b) = replicate c 0"
        using a extends_trans [OF xg] by auto
      have "\<exists>fs3 fs4. ext2_ptr_set tb l1 b fs2 = Some fs3 \<and> count_block n fs3 = Some fs4 \<and> extends good blk (unat n) fs fs4 \<and>
        nmap blk fs4 = (nmap blk fs2)((unat n, child (Slot 13) (unat l1)) := b)"
        by (rule attach_step [OF z(2,3) n]) (use t j c0 z in auto)
      then obtain fs3 fs4 where q: "ext2_ptr_set tb l1 b fs2 = Some fs3" "count_block n fs3 = Some fs4"
        "extends good blk (unat n) fs fs4" "nmap blk fs4 (unat n, Dbl (unat l1)) = b"
        unfolding ch by fastforce
      have "(do { (nb, fs) \<leftarrow> ext2_alloc_block ?g;
         if nb = 0 then Some (0, fs)
         else do { fs \<leftarrow> zero_table nb fs; fs \<leftarrow> ext2_ptr_set tb l1 nb fs; fs \<leftarrow> count_block n fs; Some (nb, fs) } }) = Some (b, fs4)"
        using a(1) z(1) q False by simp
      then show ?thesis using g c0 q(3,4) False by (intro exI [of _ 0] exI [of _ ?g] exI [of _ b] exI [of _ fs4]) simp
    qed
  qed
qed

lemma bmap_double:
  assumes ok: "files_ok good blk fs" and nf: "no_fail fs" and n: "1 \<le> unat n" "unat n \<le> NI fs"
    and bi: "12 + ptrs fs \<le> unat bi" "unat bi < 12 + ptrs fs + ptrs fs * ptrs fs"
  shows "\<exists>b fs1. ext2_bmap_alloc n bi fs = Some (b, fs1) \<and> extends good blk (unat n) fs fs1 \<and>
    (if b = 0 then full fs1 else nmap blk fs1 (unat n, data_node (ptrs fs) (unat bi)) = b)"
proof -
  note wf = fs_okD(1) [OF files_okD(1) [OF ok]]
  note w = block_index_words [OF wf, of bi] and p = ptrs_words [OF wf]
  let ?l1 = "(bi - 12 - fs_bs fs div 4) div (fs_bs fs div 4)"
  let ?l2 = "(bi - 12 - fs_bs fs div 4) mod (fs_bs fs div 4)"
  have dn: "data_node (ptrs fs) (unat bi) = child (Dbl (unat ?l1)) (unat ?l2)" using bi w(6,7) by (simp add: data_node_def)
  have "unat bi - 12 - ptrs fs < ptrs fs * ptrs fs" using bi by linarith
  then have "(unat bi - 12 - ptrs fs) div ptrs fs < ptrs fs" by (rule less_mult_imp_div_less)
  then have l12: "unat ?l1 < ptrs fs" "unat ?l2 < ptrs fs" using bi(1) w(6,7) p(2) by simp_all
  have ev: "ext2_bmap_alloc n bi fs = do {
        (tb, fs) \<leftarrow> table_slot n 13 fs;
        if tb = 0 then Some (0, fs)
        else do {
          (l2blk, fs) \<leftarrow> ext2_ptr_get tb ?l1 fs;
          (l2blk, fs) \<leftarrow> (if l2blk = 0 then do {
                            (nb, fs) \<leftarrow> ext2_alloc_block fs;
                            if nb = 0 then Some (0, fs)
                            else do { fs \<leftarrow> zero_table nb fs; fs \<leftarrow> ext2_ptr_set tb ?l1 nb fs; fs \<leftarrow> count_block n fs; Some (nb, fs) } }
                          else Some (l2blk, fs));
          if l2blk = 0 then Some (0, fs) else data_slot n l2blk ?l2 fs } }"
    using bi w p(3) by (simp add: ext2_bmap_alloc_def Let_def)
  obtain tb fs1 where t: "table_slot n 13 fs = Some (tb, fs1)" "extends good blk (unat n) fs fs1"
    "if tb = 0 then full fs1 else nmap blk fs1 (unat n, Slot 13) = tb"
    using table_slot [OF ok nf n, of 13] by auto
  note x = extendsD [OF t(2)]
  show ?thesis
  proof (cases "tb = 0")
    case True
    then show ?thesis using t ev by auto
  next
    case False
    have n1: "unat n \<le> NI fs1" and l1: "unat ?l1 < ptrs fs1" using n l12 x by simp_all
    obtain l0 fs2 l2blk fs3 where g: "ext2_ptr_get tb ?l1 fs1 = Some (l0, fs2)"
      and l: "(if l0 = 0 then do {
         (nb, fs) \<leftarrow> ext2_alloc_block fs2;
         if nb = 0 then Some (0, fs)
         else do { fs \<leftarrow> zero_table nb fs; fs \<leftarrow> ext2_ptr_set tb ?l1 nb fs; fs \<leftarrow> count_block n fs; Some (nb, fs) } }
       else Some (l0, fs2)) = Some (l2blk, fs3)"
      and e3: "extends good blk (unat n) fs1 fs3" and q: "if l2blk = 0 then full fs3 else nmap blk fs3 (unat n, Dbl (unat ?l1)) = l2blk"
      using l2_slot [OF x(1,2) n(1) n1 _ False l1] t(3) False by auto
    note x3 = extendsD [OF e3] and e = extends_trans [OF t(2) e3]
    have ev2: "ext2_bmap_alloc n bi fs = (if l2blk = 0 then Some (0, fs3) else data_slot n l2blk ?l2 fs3)"
      using t(1) False g l by (simp add: ev)
    show ?thesis
    proof (cases "l2blk = 0")
      case True
      then show ?thesis using ev2 e q by auto
    next
      case l2: False
      have "\<exists>db fs4. data_slot n l2blk ?l2 fs3 = Some (db, fs4) \<and> extends good blk (unat n) fs3 fs4 \<and>
          (if db = 0 then full fs4 else nmap blk fs4 (unat n, child (Dbl (unat ?l1)) (unat ?l2)) = db)"
        by (rule data_slot) (use x x3 n q l2 l12 in auto)
      then show ?thesis unfolding dn ev2 using l2 extends_trans [OF e] by metis
    qed
  qed
qed

lemma bmap_alloc:
  assumes ok: "files_ok good blk fs" and nf: "no_fail fs" and n: "1 \<le> unat n" "unat n \<le> NI fs"
    and bi: "unat bi < 12 + ptrs fs + ptrs fs * ptrs fs"
  shows "\<exists>b fs1. ext2_bmap_alloc n bi fs = Some (b, fs1) \<and> extends good blk (unat n) fs fs1 \<and>
    (if b = 0 then full fs1 else nmap blk fs1 (unat n, data_node (ptrs fs) (unat bi)) = b)"
  using bmap_direct [OF ok nf n, of bi] bmap_indirect [OF ok nf n, of bi] bmap_double [OF ok nf n _ bi] by (meson not_less)

end

end
