(* ===== verification/Ext2_Files.thy ===== *)
theory Ext2_Files
  imports Ext2_Tree
begin

text \<open>
  File contents. \<open>fbyte\<close> is the byte of a file at a position; the loops of \<open>ext2_write\<close> and
  \<open>ext2_read\<close> are shown to change and to return exactly the bytes of the requested range,
  to leave every other file alone, and writing to bring the metadata on the disk up to date.
\<close>

section \<open>Writing\<close>

text \<open>The byte of a file at a position, if a block is there.\<close>

definition fbyte :: "(nat \<Rightarrow> 'c ramdisk_device \<Rightarrow> nat \<Rightarrow> u8 list) \<Rightarrow> 'c ext2_filesystem \<Rightarrow> nat \<Rightarrow> nat \<Rightarrow> u8 option" where
  "fbyte blk fs n pos =
     (let b = nmap blk fs (n, data_node (ptrs fs) (pos div BS fs)) in
      if b = 0 then None else Some (dsk blk fs (unat b) ! (pos mod BS fs)))"

text \<open>Like \<open>grows\<close>, but the data blocks of inode \<open>n\<close> may have changed.\<close>

definition touches ::
  "(nat \<Rightarrow> 'c ramdisk_device \<Rightarrow> nat \<Rightarrow> u8 list) \<Rightarrow> nat \<Rightarrow> 'c ext2_filesystem \<Rightarrow> 'c ext2_filesystem \<Rightarrow> bool" where
  "touches blk n fs fs' \<longleftrightarrow>
     (\<exists>f. fs_sb fs' = (fs_sb fs)\<lparr>sb_free_blocks := f\<rparr>) \<and>
     inode_bitmap fs' = inode_bitmap fs \<and> g_ext2_sb_buffer fs' = g_ext2_sb_buffer fs \<and>
     (\<forall>b. bit_used (block_bitmap fs) b \<longrightarrow> bit_used (block_bitmap fs') b) \<and>
     (\<exists>bl c. inode_table fs' = (inode_table fs)[n - 1 := (inode_table fs ! (n - 1))\<lparr>i_block := bl, i_blocks := c\<rparr>]) \<and>
     (\<forall>b < FD fs. dsk blk fs' b = dsk blk fs b) \<and>
     (\<forall>m pos. m \<noteq> n \<longrightarrow> fbyte blk fs' m pos = fbyte blk fs m pos)"

lemma touches_trans:
  assumes "touches blk n fs fs1" and "touches blk n fs1 fs2"
  shows "touches blk n fs fs2"
proof -
  obtain f1 f2 where sb: "fs_sb fs1 = (fs_sb fs)\<lparr>sb_free_blocks := f1\<rparr>" "fs_sb fs2 = (fs_sb fs1)\<lparr>sb_free_blocks := f2\<rparr>"
    using assms by (auto simp: touches_def)
  obtain bl1 c1 bl2 c2 where it: "inode_table fs1 = (inode_table fs)[n - 1 := (inode_table fs ! (n - 1))\<lparr>i_block := bl1, i_blocks := c1\<rparr>]"
    "inode_table fs2 = (inode_table fs1)[n - 1 := (inode_table fs1 ! (n - 1))\<lparr>i_block := bl2, i_blocks := c2\<rparr>]"
    using assms unfolding touches_def by blast
  have "inode_table fs2 = (inode_table fs)[n - 1 := (inode_table fs ! (n - 1))\<lparr>i_block := bl2, i_blocks := c2\<rparr>]"
    by (cases "n - 1 < length (inode_table fs)") (simp_all add: it list_update_beyond)
  moreover have "fs_sb fs2 = (fs_sb fs)\<lparr>sb_free_blocks := f2\<rparr>" "FD fs1 = FD fs" by (simp_all add: sb)
  ultimately show ?thesis using assms unfolding touches_def by (metis (no_types, lifting))
qed

lemma touches_geom:
  assumes "touches blk n fs fs'"
  shows "fs_bs fs' = fs_bs fs" "sb_blocks_count (fs_sb fs') = sb_blocks_count (fs_sb fs)"
    "sb_inodes_count (fs_sb fs') = sb_inodes_count (fs_sb fs)"
    "sb_first_data_block (fs_sb fs') = sb_first_data_block (fs_sb fs)"
    "length (inode_table fs') = length (inode_table fs)"
  using assms by (auto simp: touches_def)

lemma grows_fbyte:
  assumes "grows blk n fs fs'"
  shows "fbyte blk fs m pos \<noteq> None \<Longrightarrow> fbyte blk fs' m pos = fbyte blk fs m pos"
    "m \<noteq> n \<Longrightarrow> fbyte blk fs' m pos = fbyte blk fs m pos"
proof -
  note g = growsD [OF assms] and geo = grows_geom [OF assms]
  let ?k = "(m, data_node (ptrs fs) (pos div BS fs))"
  show 1: "fbyte blk fs' m pos = fbyte blk fs m pos" if "fbyte blk fs m pos \<noteq> None"
  proof -
    have "nmap blk fs ?k \<noteq> 0" using that by (auto simp: fbyte_def Let_def split: if_splits)
    then show ?thesis using g(1,4) [of ?k] by (simp add: fbyte_def Let_def geo data_node_simps(1))
  qed
  show "fbyte blk fs' m pos = fbyte blk fs m pos" if "m \<noteq> n"
  proof (cases "nmap blk fs ?k = 0")
    case True
    then show ?thesis using g(2) [of ?k] that by (simp add: fbyte_def Let_def geo)
  next
    case False
    then show ?thesis using 1 by (simp add: fbyte_def)
  qed
qed

lemma grows_touches: "grows blk n fs fs' \<Longrightarrow> touches blk n fs fs'"
  unfolding touches_def using grows_fbyte(2) [of blk n fs fs'] unfolding grows_def by blast

lemma fbyte_replies [simp]: "fbyte blk (fs\<lparr>heap_replies := rs\<rparr>) n pos = fbyte blk fs n pos"
  by (simp add: fbyte_def Let_def)

lemma touches_replies [simp]: "touches blk n fs (fs'\<lparr>heap_replies := rs\<rparr>) = touches blk n fs fs'"
  by (simp add: touches_def)

lemma touches_refl: "touches blk n fs fs"
  by (rule grows_touches [OF grows_refl])

lemma nth_overwrite:
  "off + length x \<le> length b \<Longrightarrow> i < length b \<Longrightarrow>
   overwrite b off x ! i = (if off \<le> i \<and> i < off + length x then x ! (i - off) else b ! i)"
  by (auto simp: overwrite_def nth_append min_def)

context block_store
begin

text \<open>Overwriting part of one data block.\<close>

lemma write_data:
  assumes ok: "files_ok good blk fs" and nf: "no_fail fs"
    and b: "nmap blk fs (n, data_node (ptrs fs) bi) = b" "b \<noteq> 0"
    and bs: "o1 + length bs \<le> BS fs"
  shows "\<exists>d. ext2_write_block fs b (overwrite (dsk blk fs (unat b)) o1 bs) = Some (0, fs\<lparr>fs_device := d\<rparr>) \<and>
    files_ok good blk (fs\<lparr>fs_device := d\<rparr>) \<and> no_fail (fs\<lparr>fs_device := d\<rparr>) \<and> touches blk n fs (fs\<lparr>fs_device := d\<rparr>) \<and>
    (\<forall>pos. fbyte blk (fs\<lparr>fs_device := d\<rparr>) n pos =
       (if bi * BS fs + o1 \<le> pos \<and> pos < bi * BS fs + o1 + length bs then Some (bs ! (pos - (bi * BS fs + o1))) else fbyte blk fs n pos))"
proof -
  note f = files_okD(1) [OF ok] and inj = files_okD(2) [OF ok]
  let ?x = "(n, data_node (ptrs fs) bi)"
  have bnb: "unat b < NB fs" "FD fs \<le> unat b" using files_okD(3,4) [OF ok, of ?x] b by auto
  have len: "length (dsk blk fs (unat b)) = BS fs" by (rule dsk_length [OF f bnb(1)])
  have BS0: "0 < BS fs" and p0: "0 < ptrs fs" using sb_wfD(2) [OF fs_okD(1) [OF f]] ptrs_words(2) [OF fs_okD(1) [OF f]] by auto
  have oth: "unat (nmap blk fs k) \<noteq> unat b" if "k \<noteq> ?x" "nmap blk fs k \<noteq> 0" for k
    using that inj_nodesD [OF inj, of k ?x] b(1) by (auto simp: word_unat_eq_iff)
  let ?B = "overwrite (dsk blk fs (unat b)) o1 bs"
  have "\<exists>d. ext2_write_block fs b ?B = Some (0, fs\<lparr>fs_device := d\<rparr>) \<and> files_ok good blk (fs\<lparr>fs_device := d\<rparr>) \<and>
    nmap blk (fs\<lparr>fs_device := d\<rparr>) = nmap blk fs \<and> dsk blk (fs\<lparr>fs_device := d\<rparr>) = (dsk blk fs)(unat b := ?B)"
  proof (rule write_nontab [OF ok bnb(1)])
    fix k :: "nat \<times> node" assume "is_tab (snd k)"
    then show "nmap blk fs k \<noteq> b" using oth [of k] data_node_simps(1) b(2) by (cases "k = ?x") auto
  qed (use len bs in simp)
  then obtain d where d: "ext2_write_block fs b ?B = Some (0, fs\<lparr>fs_device := d\<rparr>)" "files_ok good blk (fs\<lparr>fs_device := d\<rparr>)"
    and nm: "nmap blk (fs\<lparr>fs_device := d\<rparr>) = nmap blk fs" and dk: "dsk blk (fs\<lparr>fs_device := d\<rparr>) = (dsk blk fs)(unat b := ?B)" by blast
  let ?h = "fs\<lparr>fs_device := d\<rparr>"
  have fb: "fbyte blk ?h m pos = (if m = n \<and> pos div BS fs = bi then Some (?B ! (pos mod BS fs)) else fbyte blk fs m pos)" for m pos
  proof -
    let ?k = "(m, data_node (ptrs fs) (pos div BS fs))"
    show ?thesis
    proof (cases "?k = ?x")
      case True
      then have "m = n" "pos div BS fs = bi" using data_node_simps(3) [OF p0] by auto
      then show ?thesis using b by (simp add: fbyte_def nm dk)
    next
      case False
      then show ?thesis using oth [OF False] by (auto simp: fbyte_def nm dk Let_def)
    qed
  qed
  have rng: "bi * BS fs + o1 \<le> pos \<and> pos < bi * BS fs + o1 + length bs \<longleftrightarrow>
      pos div BS fs = bi \<and> o1 \<le> pos mod BS fs \<and> pos mod BS fs < o1 + length bs" for pos
  proof -
    have dm: "pos = pos div BS fs * BS fs + pos mod BS fs" by simp
    have m: "pos mod BS fs < BS fs" using BS0 by simp
    show ?thesis
    proof
      assume a: "bi * BS fs + o1 \<le> pos \<and> pos < bi * BS fs + o1 + length bs"
      then have q: "pos div BS fs = bi" using bs BS0 by (intro div_nat_eqI) (auto simp: mult.commute)
      then have "pos = bi * BS fs + pos mod BS fs" using dm by simp
      then show "pos div BS fs = bi \<and> o1 \<le> pos mod BS fs \<and> pos mod BS fs < o1 + length bs"
        using a q by (metis add_le_cancel_left add_less_cancel_left add.assoc)
    next
      assume "pos div BS fs = bi \<and> o1 \<le> pos mod BS fs \<and> pos mod BS fs < o1 + length bs"
      then show "bi * BS fs + o1 \<le> pos \<and> pos < bi * BS fs + o1 + length bs" using dm by (metis add_le_cancel_left add_less_cancel_left add.assoc)
    qed
  qed
  have fbn: "fbyte blk ?h n pos = (if bi * BS fs + o1 \<le> pos \<and> pos < bi * BS fs + o1 + length bs
      then Some (bs ! (pos - (bi * BS fs + o1))) else fbyte blk fs n pos)" for pos
  proof (cases "pos div BS fs = bi")
    case False
    then show ?thesis unfolding rng by (simp add: fb)
  next
    case True
    have m: "pos mod BS fs < BS fs" using BS0 by simp
    have dm: "pos = bi * BS fs + pos mod BS fs" using True by (metis div_mult_mod_eq)
    have old: "fbyte blk fs n pos = Some (dsk blk fs (unat b) ! (pos mod BS fs))" using True b by (simp add: fbyte_def)
    have "pos - (bi * BS fs + o1) = pos mod BS fs - o1" using dm by linarith
    then show ?thesis unfolding rng using nth_overwrite [of o1 bs "dsk blk fs (unat b)" "pos mod BS fs"] len bs m True old
      by (simp add: fb)
  qed
  have "touches blk n fs ?h"
    using touches_refl [of blk n fs] bnb(2) unfolding touches_def dk by (auto simp: fb)
  then show ?thesis using d nf fbn by auto
qed

end

text \<open>The largest position reachable through the block tree.\<close>

definition max_bytes :: "'c ext2_filesystem \<Rightarrow> nat" where
  "max_bytes fs = (12 + ptrs fs + ptrs fs * ptrs fs) * BS fs"

lemma pos_words:
  fixes off :: u32 and w :: u64
  assumes wf: "sb_wf fs" and lt: "unat off + unat w < 2 ^ 32"
  shows "unat (ucast off + w) = unat off + unat w"
    "unat (ucast ((ucast off + w) div ucast (fs_bs fs)) :: u32) = (unat off + unat w) div BS fs"
    "unat (ucast ((ucast off + w) mod ucast (fs_bs fs)) :: u32) = (unat off + unat w) mod BS fs"
    "unat (ucast (fs_bs fs - ucast ((ucast off + w) mod ucast (fs_bs fs))) :: u64) = BS fs - (unat off + unat w) mod BS fs"
proof -
  have BS0: "0 < BS fs" using sb_wfD(2) [OF wf] by simp
  show a: "unat (ucast off + w) = unat off + unat w" using lt by (subst unat_add_exact) simp_all
  have "(unat off + unat w) div BS fs < 2 ^ 32" using lt div_le_dividend le_less_trans by blast
  then show "unat (ucast ((ucast off + w) div ucast (fs_bs fs)) :: u32) = (unat off + unat w) div BS fs"
    by (simp add: unsigned_ucast_eq unat_div a take_bit_nat_eq_self)
  have m: "(unat off + unat w) mod BS fs < BS fs" using BS0 by simp
  then have m2: "(unat off + unat w) mod BS fs < 2 ^ 32" using sb_wfD(3) [OF wf] by simp
  then show b: "unat (ucast ((ucast off + w) mod ucast (fs_bs fs)) :: u32) = (unat off + unat w) mod BS fs"
    by (simp add: unsigned_ucast_eq unat_mod a take_bit_nat_eq_self)
  then have "unat (fs_bs fs - ucast ((ucast off + w) mod ucast (fs_bs fs))) = BS fs - (unat off + unat w) mod BS fs"
    using m by (subst unat_sub_exact) simp_all
  then show "unat (ucast (fs_bs fs - ucast ((ucast off + w) mod ucast (fs_bs fs))) :: u64) = BS fs - (unat off + unat w) mod BS fs"
    by simp
qed

text \<open>The chunk one iteration transfers.\<close>

lemma chunk_words:
  fixes off :: u32 and w sz :: u64
  assumes wf: "sb_wf fs" and lt: "unat off + unat sz < 2 ^ 32" and w: "w < sz"
  defines "o1 \<equiv> (unat off + unat w) mod BS fs"
  defines "room \<equiv> (ucast (fs_bs fs - ucast ((ucast off + w) mod ucast (fs_bs fs))) :: u64)"
  defines "chunk \<equiv> (if sz - w > room then room else sz - w)"
  shows "unat chunk = min (BS fs - o1) (unat sz - unat w)" "0 < unat chunk" "o1 + unat chunk \<le> BS fs"
    "unat (w + chunk) = unat w + unat chunk" "unat w + unat chunk \<le> unat sz"
    "ucast ((ucast off + w) mod ucast (fs_bs fs)) \<noteq> (0 :: u32) \<or> sz - w < ucast (fs_bs fs) \<longleftrightarrow> o1 \<noteq> 0 \<or> unat sz - unat w < BS fs"
proof -
  have ws: "unat w < unat sz" using w by (simp add: word_less_nat_alt)
  have lt2: "unat off + unat w < 2 ^ 32" using lt ws by simp
  note p = pos_words [OF wf lt2]
  have BS0: "0 < BS fs" using sb_wfD(2) [OF wf] by simp
  have o: "o1 < BS fs" using BS0 by (simp add: o1_def)
  have r: "unat room = BS fs - o1" using p(4) by (simp add: room_def o1_def)
  have d: "unat (sz - w) = unat sz - unat w" using ws by (subst unat_sub_exact) simp_all
  show c: "unat chunk = min (BS fs - o1) (unat sz - unat w)"
    unfolding chunk_def word_less_nat_alt [of room] r d by (auto simp: r d)
  show "0 < unat chunk" "o1 + unat chunk \<le> BS fs" "unat w + unat chunk \<le> unat sz" using c o ws by auto
  then show "unat (w + chunk) = unat w + unat chunk" using lt by (subst unat_add_exact) simp_all
  have "(ucast ((ucast off + w) mod ucast (fs_bs fs)) :: u32) = 0 \<longleftrightarrow> o1 = 0"
    using p(3) by (simp add: o1_def flip: unat_eq_zero)
  then show "ucast ((ucast off + w) mod ucast (fs_bs fs)) \<noteq> (0 :: u32) \<or> sz - w < ucast (fs_bs fs) \<longleftrightarrow> o1 \<noteq> 0 \<or> unat sz - unat w < BS fs"
    by (simp add: word_less_nat_alt d)
qed

context block_store
begin

lemma write_loop:
  assumes "files_ok good blk fs" and "no_fail fs" and "1 \<le> unat n" and "unat n \<le> NI fs"
    and "length bb = BS fs" and "unat w0 \<le> unat sz" and "unat off + unat sz < 2 ^ 32"
    and "unat off + unat sz \<le> max_bytes fs" and "unat sz \<le> length buf"
  shows "\<exists>w fs'. write_loop n off sz buf w0 bb fs = Some (w, fs') \<and> files_ok good blk fs' \<and> no_fail fs' \<and>
    touches blk (unat n) fs fs' \<and> unat w0 \<le> unat w \<and> unat w \<le> unat sz \<and> (unat w < unat sz \<longrightarrow> full fs') \<and>
    (\<forall>pos. unat off + unat w0 \<le> pos \<and> pos < unat off + unat w \<longrightarrow> fbyte blk fs' (unat n) pos = Some (buf ! (pos - unat off))) \<and>
    (\<forall>pos. \<not> (unat off + unat w0 \<le> pos \<and> pos < unat off + unat w) \<and> fbyte blk fs (unat n) pos \<noteq> None \<longrightarrow>
       fbyte blk fs' (unat n) pos = fbyte blk fs (unat n) pos)"
  using assms
proof (induction "unat sz - unat w0" arbitrary: w0 bb fs rule: less_induct)
  case less
  note ok = less.prems(1) and nf = less.prems(2) and n = less.prems(3,4) and bbl = less.prems(5)
    and wsz = less.prems(6) and lt = less.prems(7) and mx = less.prems(8) and buf = less.prems(9)
  note wf = fs_okD(1) [OF files_okD(1) [OF ok]]
  show ?case
  proof (cases "w0 < sz")
    case False
    then have "unat w0 = unat sz" using wsz by (simp add: word_less_nat_alt)
    then show ?thesis using False ok nf touches_refl by (subst write_loop.simps) auto
  next
    case ws: True
    then have wsn: "unat w0 < unat sz" by (simp add: word_less_nat_alt)
    have lt0: "unat off + unat w0 < 2 ^ 32" using lt wsn by simp
    note p = pos_words [OF wf lt0] and c = chunk_words [OF wf lt ws]
    let ?P = "unat off + unat w0"
    let ?bi = "ucast ((ucast off + w0) div ucast (fs_bs fs)) :: u32"
    let ?o = "ucast ((ucast off + w0) mod ucast (fs_bs fs)) :: u32"
    let ?room = "ucast (fs_bs fs - ?o) :: u64"
    let ?ch = "if sz - w0 > ?room then ?room else sz - w0"
    have BS0: "0 < BS fs" using sb_wfD(2) [OF wf] by simp
    have nz: "ucast (fs_bs fs) \<noteq> (0 :: u64)" by (rule ucast_nonzero [OF sb_wfD(5) [OF wf]])
    have "?P < (12 + ptrs fs + ptrs fs * ptrs fs) * BS fs" using mx wsn by (simp add: max_bytes_def)
    then have "?P div BS fs < 12 + ptrs fs + ptrs fs * ptrs fs" by (rule less_mult_imp_div_less)
    then have bi: "unat ?bi < 12 + ptrs fs + ptrs fs * ptrs fs" using p(2) by simp
    obtain b fs1 where a: "ext2_bmap_alloc n ?bi fs = Some (b, fs1)" and x: "extends good blk (unat n) fs fs1"
      and q: "if b = 0 then full fs1 else nmap blk fs1 (unat n, data_node (ptrs fs) (unat ?bi)) = b"
      using bmap_alloc [OF ok nf n bi] by blast
    note e = extendsD [OF x] and gf = grows_fbyte [OF extendsD(3) [OF x]]
    show ?thesis
    proof (cases "b = 0")
      case True
      have "write_loop n off sz buf w0 bb fs = Some (w0, fs1)"
        using ws nz a True by (subst write_loop.simps) (simp add: Let_def)
      then show ?thesis using e(1-3) grows_touches gf(1) wsz q True by auto
    next
      case b0: False
      let ?o1 = "?P mod BS fs"
      define ch where "ch = unat ?ch"
      define bs where "bs = take ch (drop (unat w0) buf)"
      have chl: "length bs = ch" using c(5) buf by (simp add: bs_def ch_def)
      have oc: "?o1 + ch \<le> BS fs" unfolding ch_def by (rule c(3))
      have b1: "nmap blk fs1 (unat n, data_node (ptrs fs1) (?P div BS fs)) = b" using q b0 p(2) e(4) by simp
      have blt: "unat b < NB fs1" using files_okD(4) [OF e(1)] b1 b0 by blast
      have len: "length (dsk blk fs1 (unat b)) = BS fs" using dsk_length [OF files_okD(1) [OF e(1)] blt] e(4) by simp
      let ?B = "overwrite (dsk blk fs1 (unat b)) ?o1 bs"
      let ?part = "?o \<noteq> 0 \<or> sz - w0 < ucast (fs_bs fs)"
      have rd: "\<exists>bb1. (if ?part then ext2_read_block fs1 b bb else Some (0, bb)) = Some (0, bb1) \<and> length bb1 = BS fs \<and>
          blit bb1 ?o1 bs = Some ?B"
      proof (cases "?o1 \<noteq> 0 \<or> unat sz - unat w0 < BS fs")
        case True
        then have "?part" using c(6) by blast
        moreover have "ext2_read_block fs1 b bb = Some (0, dsk blk fs1 (unat b))"
          using read_block [OF files_okD(1) [OF e(1)] blt] bbl e(4) by simp
        ultimately show ?thesis using len oc chl by (simp add: blit_overwrite)
      next
        case False
        then have "\<not> ?part" using c(6) by blast
        moreover have "ch = BS fs" "?o1 = 0" using False c(1) by (simp_all add: ch_def)
        ultimately show ?thesis using bbl len chl by (auto simp: blit_overwrite overwrite_def)
      qed
      then obtain bb1 where r: "(if ?part then ext2_read_block fs1 b bb else Some (0, bb)) = Some (0, bb1)"
        "length bb1 = BS fs" "blit bb1 ?o1 bs = Some ?B" by blast
      obtain d where d: "ext2_write_block fs1 b ?B = Some (0, fs1\<lparr>fs_device := d\<rparr>)"
        "files_ok good blk (fs1\<lparr>fs_device := d\<rparr>)" "no_fail (fs1\<lparr>fs_device := d\<rparr>)" "touches blk (unat n) fs1 (fs1\<lparr>fs_device := d\<rparr>)"
        and fb: "\<And>pos. fbyte blk (fs1\<lparr>fs_device := d\<rparr>) (unat n) pos =
          (if ?P div BS fs * BS fs + ?o1 \<le> pos \<and> pos < ?P div BS fs * BS fs + ?o1 + ch
           then Some (bs ! (pos - (?P div BS fs * BS fs + ?o1))) else fbyte blk fs1 (unat n) pos)"
        using write_data [OF e(1,2) b1 b0, of ?o1 bs] oc chl e(4) by auto
      let ?f2 = "fs1\<lparr>fs_device := d\<rparr>"
      have sl: "slice buf (unat w0) (unat ?ch) = Some bs" using c(5) buf by (simp add: slice_def bs_def ch_def)
      have P: "?P div BS fs * BS fs + ?o1 = ?P" by simp
      have w1: "unat (w0 + ?ch) = unat w0 + ch" unfolding ch_def by (rule c(4))
      have ev: "write_loop n off sz buf w0 bb fs = write_loop n off sz buf (w0 + ?ch) ?B ?f2"
      proof -
        have "write_loop n off sz buf w0 bb fs = do {
          (_, bb) \<leftarrow> (if ?part then ext2_read_block fs1 b bb else Some (0, bb));
          bs \<leftarrow> slice buf (unat w0) (unat ?ch);
          bb \<leftarrow> blit bb (unat ?o) bs;
          (_, fs) \<leftarrow> ext2_write_block fs1 b bb;
          write_loop n off sz buf (w0 + ?ch) bb fs }"
          using ws nz a b0 e(4) by (subst write_loop.simps) (simp add: Let_def)
        also have "\<dots> = write_loop n off sz buf (w0 + ?ch) ?B ?f2"
          unfolding r(1) sl p(3) using r(3) d(1) by simp
        finally show ?thesis .
      qed
      have t2: "touches blk (unat n) fs ?f2" by (rule touches_trans [OF grows_touches [OF e(3)] d(4)])
      note g2 = touches_geom [OF t2]
      have "\<exists>w fs'. write_loop n off sz buf (w0 + ?ch) ?B ?f2 = Some (w, fs') \<and> files_ok good blk fs' \<and> no_fail fs' \<and>
        touches blk (unat n) ?f2 fs' \<and> unat (w0 + ?ch) \<le> unat w \<and> unat w \<le> unat sz \<and> (unat w < unat sz \<longrightarrow> full fs') \<and>
        (\<forall>pos. unat off + unat (w0 + ?ch) \<le> pos \<and> pos < unat off + unat w \<longrightarrow> fbyte blk fs' (unat n) pos = Some (buf ! (pos - unat off))) \<and>
        (\<forall>pos. \<not> (unat off + unat (w0 + ?ch) \<le> pos \<and> pos < unat off + unat w) \<and> fbyte blk ?f2 (unat n) pos \<noteq> None \<longrightarrow>
           fbyte blk fs' (unat n) pos = fbyte blk ?f2 (unat n) pos)"
      proof (rule less.hyps)
        show "unat sz - unat (w0 + ?ch) < unat sz - unat w0" using w1 wsn c(2) by (simp add: ch_def)
        show "unat (w0 + ?ch) \<le> unat sz" using w1 c(5) by (simp add: ch_def)
      qed (use d(2,3) n g2 lt mx buf oc chl len in \<open>simp_all add: max_bytes_def\<close>)
      then obtain w fs' where i: "write_loop n off sz buf (w0 + ?ch) ?B ?f2 = Some (w, fs')" "files_ok good blk fs'" "no_fail fs'"
        "touches blk (unat n) ?f2 fs'" "unat w0 + ch \<le> unat w" "unat w \<le> unat sz" "unat w < unat sz \<longrightarrow> full fs'"
        and new: "\<And>pos. unat off + unat w0 + ch \<le> pos \<Longrightarrow> pos < unat off + unat w \<Longrightarrow> fbyte blk fs' (unat n) pos = Some (buf ! (pos - unat off))"
        and old: "\<And>pos. \<not> (unat off + unat w0 + ch \<le> pos \<and> pos < unat off + unat w) \<Longrightarrow> fbyte blk ?f2 (unat n) pos \<noteq> None \<Longrightarrow>
           fbyte blk fs' (unat n) pos = fbyte blk ?f2 (unat n) pos"
        unfolding w1 by (auto simp: add.assoc)
      have "fbyte blk fs' (unat n) pos = Some (buf ! (pos - unat off))" if "?P \<le> pos" "pos < unat off + unat w" for pos
      proof (cases "?P + ch \<le> pos")
        case True
        then show ?thesis using new that by simp
      next
        case False
        then have "fbyte blk ?f2 (unat n) pos = Some (bs ! (pos - ?P))" using fb [of pos] that(1) unfolding P by simp
        moreover have "bs ! (pos - ?P) = buf ! (pos - unat off)"
        proof -
          have "pos - ?P < ch" "unat w0 + (pos - ?P) = pos - unat off" using False that(1) by linarith+
          then show ?thesis using c(5) buf by (simp add: bs_def ch_def)
        qed
        ultimately show ?thesis using old [of pos] False by simp
      qed
      moreover have "fbyte blk fs' (unat n) pos = fbyte blk fs (unat n) pos"
        if "\<not> (?P \<le> pos \<and> pos < unat off + unat w)" "fbyte blk fs (unat n) pos \<noteq> None" for pos
      proof -
        have "\<not> (?P \<le> pos \<and> pos < ?P + ch)" using that(1) i(5) by linarith
        then have "fbyte blk ?f2 (unat n) pos = fbyte blk fs (unat n) pos"
          using fb [of pos] gf(1) [OF that(2)] unfolding P by auto
        moreover have "\<not> (?P + ch \<le> pos \<and> pos < unat off + unat w)" using that(1) by linarith
        ultimately show ?thesis using old [of pos] that(2) by simp
      qed
      ultimately show ?thesis using ev i touches_trans [OF t2 i(4)] by auto
    qed
  qed
qed

end

text \<open>Inodes other than the \<open>n\<close>-th are on the disk as they are in memory.\<close>

definition inodes_synced :: "(nat \<Rightarrow> 'c ramdisk_device \<Rightarrow> nat \<Rightarrow> u8 list) \<Rightarrow> nat set \<Rightarrow> 'c ext2_filesystem \<Rightarrow> bool" where
  "inodes_synced blk X fs \<longleftrightarrow> (\<forall>m. 1 \<le> m \<and> m \<le> NI fs \<and> m \<notin> X \<longrightarrow>
     take 256 (drop (inode_off fs m) (dsk blk fs (inode_blk fs m))) = ext2_inode_bytes (inode_table fs ! (m - 1)))"

lemma synced_inodes: "synced blk fs \<Longrightarrow> inodes_synced blk {} fs"
  unfolding inodes_synced_def synced_def
proof (intro allI impI)
  fix m assume a: "dsk blk fs 1 = pad (BS fs) (ext2_superblock_bytes (fs_sb fs)) \<and>
    (\<forall>i < bitmap_blocks fs. dsk blk fs (2 + i) = bm_chunk fs i) \<and>
     dsk blk fs (2 + bitmap_blocks fs) = pad (BS fs) (inode_bitmap fs) \<and>
     (\<forall>n < NI fs. take 256 (drop (inode_off fs (n + 1)) (dsk blk fs (inode_blk fs (n + 1)))) =
        ext2_inode_bytes (inode_table fs ! n))" and m: "1 \<le> m \<and> m \<le> NI fs \<and> m \<notin> {}"
  then have "m - 1 < NI fs" "m - 1 + 1 = m" by auto
  then show "take 256 (drop (inode_off fs m) (dsk blk fs (inode_blk fs m))) = ext2_inode_bytes (inode_table fs ! (m - 1))"
    using a by metis
qed

lemma inode_slots_disjoint:
  assumes w: "sb_wf fs" and mn: "1 \<le> m" "1 \<le> n" "m \<noteq> n" and b: "inode_blk fs m = inode_blk fs n"
  shows "inode_off fs n + 256 \<le> inode_off fs m \<or> inode_off fs m + 256 \<le> inode_off fs n"
proof -
  obtain k where k: "BS fs = 256 * k" using sb_wfD(4) [OF w] by blast
  have k0: "0 < k" using sb_wfD(2) [OF w] k by simp
  have d1: "(j * 256) div BS fs = j div k" for j
    unfolding k by (metis div_mult_mult1 mult.commute zero_neq_numeral)
  have d2: "(j * 256) mod BS fs = 256 * (j mod k)" for j
    unfolding k mult_mod_right by (simp add: mult.commute)
  note d = d1 d2
  have "(m - 1) div k = (n - 1) div k" using b by (simp add: inode_blk_def d)
  moreover have "m - 1 \<noteq> n - 1" using mn by linarith
  ultimately have "(m - 1) mod k \<noteq> (n - 1) mod k" by (metis div_mult_mod_eq)
  then show ?thesis by (auto simp: inode_off_def d)
qed

lemma take_drop_overwrite:
  assumes "off + length x \<le> length b"
  shows "take (length x) (drop off (overwrite b off x)) = x"
    "off + length x \<le> i \<or> i + c \<le> off \<Longrightarrow> take c (drop i (overwrite b off x)) = take c (drop i b)"
proof -
  note bl = blit_overwrite [OF assms]
  show "take (length x) (drop off (overwrite b off x)) = x" by (rule slice_blit_same [OF bl])
  show "off + length x \<le> i \<or> i + c \<le> off \<Longrightarrow> take c (drop i (overwrite b off x)) = take c (drop i b)"
    by (rule slice_blit_other [OF bl])
qed

lemma inodes_synced_cong:
  assumes "inodes_synced blk X fs" and "fs_sb fs' = (fs_sb fs)\<lparr>sb_free_blocks := f, sb_free_inodes := g\<rparr>"
    and "\<And>b. b < FD fs \<Longrightarrow> dsk blk fs' b = dsk blk fs b" and "fs_ok good fs"
    and "\<And>m. m < NI fs \<Longrightarrow> m + 1 \<notin> Y \<Longrightarrow> inode_table fs' ! m = inode_table fs ! m" and "X \<subseteq> Y"
  shows "inodes_synced blk Y fs'"
  unfolding inodes_synced_def
proof (intro allI impI)
  fix m assume m: "1 \<le> m \<and> m \<le> NI fs' \<and> m \<notin> Y"
  then have r: "1 \<le> m" "m \<le> NI fs" "m \<notin> X" "m - 1 < NI fs" "m - 1 + 1 \<notin> Y" using assms(2,6) by auto
  have geo: "inode_off fs' m = inode_off fs m" "inode_blk fs' m = inode_blk fs m"
    by (simp_all add: inode_off_def inode_blk_def table_start_def bitmap_blocks_def assms(2))
  show "take 256 (drop (inode_off fs' m) (dsk blk fs' (inode_blk fs' m))) = ext2_inode_bytes (inode_table fs' ! (m - 1))"
    using assms(1,3,5) r inode_pos(2) [OF assms(4) r(1,2)] unfolding inodes_synced_def geo by simp
qed

context block_store
begin

text \<open>Writing back an inode, the superblock and the bitmaps brings the disk up to date.\<close>

lemma write_back_any:
  assumes ok: "fs_ok good fs" and nf: "no_fail fs" and n: "1 \<le> unat n" "unat n \<le> NI fs"
  shows "\<exists>fs1 fs2 fs3 D. ext2_write_inode n fs = Some (0, fs1) \<and> ext2_write_superblock fs1 = Some (0, fs2) \<and>
    ext2_write_bitmaps fs2 = Some (0, fs3) \<and> writes good blk fs D fs3 \<and> (inodes_synced blk {unat n} fs \<longrightarrow> synced blk fs3) \<and>
    (\<forall>b. FD fs \<le> b \<longrightarrow> D b = dsk blk fs b)"
proof -
  let ?ib = "inode_blk fs (unat n)" and ?io = "inode_off fs (unat n)"
  let ?x = "ext2_inode_bytes (inode_table fs ! (unat n - 1))"
  let ?D1 = "(dsk blk fs)(?ib := overwrite (dsk blk fs ?ib) ?io ?x)"
  obtain fs1 where w1: "ext2_write_inode n fs = Some (0, fs1)" "writes good blk fs ?D1 fs1"
    using write_inode [OF ok nf n] by blast
  have ok1: "fs_ok good fs1" "no_fail fs1" using w1(2) by (simp_all add: writes_def)
  note e1 = writes_geom [OF w1(2)]
  let ?D2 = "(dsk blk fs1)(1 := pad (BS fs1) (ext2_superblock_bytes (fs_sb fs1)))"
  obtain fs2 where w2: "ext2_write_superblock fs1 = Some (0, fs2)" "writes good blk fs1 ?D2 fs2"
    using write_superblock [OF ok1] by (auto simp: pad_def)
  have ok2: "fs_ok good fs2" "no_fail fs2" using w2(2) by (simp_all add: writes_def)
  note e2 = writes_geom [OF w2(2)]
  let ?D3 = "\<lambda>b. if 2 \<le> b \<and> b < 2 + bitmap_blocks fs2 then bm_chunk fs2 (b - 2)
      else if b = 2 + bitmap_blocks fs2 then pad (BS fs2) (inode_bitmap fs2) else dsk blk fs2 b"
  obtain fs3 where w3: "ext2_write_bitmaps fs2 = Some (0, fs3)" "writes good blk fs2 ?D3 fs3"
    using write_bitmaps [OF ok2] by blast
  note e3 = writes_geom [OF w3(2)]
  have d1: "dsk blk fs1 = ?D1" and d2: "dsk blk fs2 = ?D2" and d3: "dsk blk fs3 = ?D3"
    using w1(2) w2(2) w3(2) by (simp_all add: writes_def)
  have sb: "fs_sb fs1 = fs_sb fs" "fs_sb fs2 = fs_sb fs" "fs_sb fs3 = fs_sb fs" and it: "inode_table fs3 = inode_table fs"
    and bm: "block_bitmap fs2 = block_bitmap fs" "block_bitmap fs3 = block_bitmap fs" "inode_bitmap fs3 = inode_bitmap fs"
      "inode_bitmap fs2 = inode_bitmap fs"
    by (simp_all add: e1 e2 e3)
  have g: "bitmap_blocks fs2 = bitmap_blocks fs" "bitmap_blocks fs3 = bitmap_blocks fs" "bm_chunk fs2 = bm_chunk fs" "bm_chunk fs3 = bm_chunk fs"
    "inode_off fs3 = inode_off fs" "inode_blk fs3 = inode_blk fs" "inode_off fs3 = inode_off fs"
    by (simp_all add: bitmap_blocks_def bm_chunk_def inode_off_def inode_blk_def table_start_def fun_eq_iff sb bm)
  have wf: "sb_wf fs" by (rule fs_okD(1) [OF ok])
  have ib3: "3 + bitmap_blocks fs \<le> inode_blk fs m" for m by (simp add: inode_blk_def table_start_def)
  have iD: "?D3 (inode_blk fs m) = ?D1 (inode_blk fs m)" for m
    using ib3 [of m] by (simp add: d2 d1 g sb)
  note ip = inode_pos [OF ok n]
  have lx: "length ?x = 256"
  proof -
    have "unat n - 1 < length (inode_table fs)" using n fs_okD(5) [OF ok] by linarith
    then show ?thesis using fs_okD(6) [OF ok] length_inode_bytes by simp
  qed
  have lb: "?io + length ?x \<le> length (dsk blk fs ?ib)" using dsk_length [OF ok ip(3)] ip(1) lx by simp
  have ino: "take 256 (drop (inode_off fs m) (?D1 (inode_blk fs m))) = ext2_inode_bytes (inode_table fs ! (m - 1))"
    if m: "1 \<le> m" "m \<le> NI fs" and sy: "inodes_synced blk {unat n} fs" for m
  proof (cases "m = unat n")
    case True
    then show ?thesis using take_drop_overwrite(1) [OF lb] lx by simp
  next
    case False
    have old: "take 256 (drop (inode_off fs m) (dsk blk fs (inode_blk fs m))) = ext2_inode_bytes (inode_table fs ! (m - 1))"
      using sy m False by (simp add: inodes_synced_def)
    show ?thesis
    proof (cases "inode_blk fs m = ?ib")
      case True
      then show ?thesis using take_drop_overwrite(2) [OF lb, of "inode_off fs m" 256] lx old
          inode_slots_disjoint [OF wf m(1) n(1) False True] by simp
    next
      case False
      then show ?thesis using old by simp
    qed
  qed
  have "synced blk fs3" if sy: "inodes_synced blk {unat n} fs"
    unfolding synced_def d3
  proof (intro conjI allI impI)
    show "?D3 1 = pad (BS fs3) (ext2_superblock_bytes (fs_sb fs3))" by (simp add: d2 sb)
    show "?D3 (2 + i) = bm_chunk fs3 i" if "i < bitmap_blocks fs3" for i using that by (simp add: g)
    show "?D3 (2 + bitmap_blocks fs3) = pad (BS fs3) (inode_bitmap fs3)" by (simp add: g sb bm)
    show "take 256 (drop (inode_off fs3 (m + 1)) (?D3 (inode_blk fs3 (m + 1)))) = ext2_inode_bytes (inode_table fs3 ! m)"
      if "m < NI fs3" for m
      using ino [of "m + 1", OF _ _ sy] that unfolding g iD [unfolded g] it by (simp add: sb)
  qed
  moreover have "?D3 b = dsk blk fs b" if "FD fs \<le> b" for b
  proof -
    have "table_start fs + table_blocks fs \<le> FD fs" using wf by (simp add: sb_wf_def)
    then have "3 + bitmap_blocks fs \<le> b" using that by (simp add: table_start_def)
    moreover have "?ib \<noteq> b" using ip(2) that by auto
    ultimately show ?thesis by (simp add: d2 d1 g)
  qed
  ultimately show ?thesis using w1(1) w2(1) w3 writes_trans [OF w1(2) writes_trans [OF w2(2) w3(2)]] by blast
qed

text \<open>Writes below the data area concern no file.\<close>

lemma meta_writes:
  assumes ok: "files_ok good blk fs" and w: "writes good blk fs D fs'" and D: "\<And>b. FD fs \<le> b \<Longrightarrow> D b = dsk blk fs b"
  shows "files_ok good blk fs'" "nmap blk fs' = nmap blk fs" "fbyte blk fs' m pos = fbyte blk fs m pos"
proof -
  note g = writes_geom [OF w]
  have d: "dsk blk fs' = D" "fs_ok good fs'" using w by (simp_all add: writes_def)
  have ib: "iblocks fs' = iblocks fs" by (simp add: iblocks_def g)
  have "nodes (ptrs fs) (NI fs) D (iblocks fs) = nmap blk fs"
    unfolding nmap_def by (rule nodes_cong) (use D files_okD(3) [OF ok] in \<open>auto simp: nmap_def\<close>)
  then show nm: "nmap blk fs' = nmap blk fs" by (simp add: nmap_def g d ib)
  then show "files_ok good blk fs'" using ok d(2) by (simp add: files_ok_def g)
  show "fbyte blk fs' m pos = fbyte blk fs m pos"
    using D files_okD(3) [OF ok] by (simp add: fbyte_def nm g d Let_def)
qed

lemma size_update:
  assumes ok: "files_ok good blk fs" and n: "1 \<le> unat n" "unat n \<le> NI fs"
    and f: "\<And>i. i_block (f i) = i_block i" "\<And>i. ext2_inode_ok i \<Longrightarrow> ext2_inode_ok (f i)"
  shows "\<exists>fs'. upd_inode n f fs = Some fs' \<and> fs' = fs\<lparr>inode_table := (inode_table fs)[unat n - 1 := f (inode_table fs ! (unat n - 1))]\<rparr> \<and>
    files_ok good blk fs' \<and> nmap blk fs' = nmap blk fs \<and> (\<forall>m pos. fbyte blk fs' m pos = fbyte blk fs m pos)"
proof -
  note o = files_okD(1) [OF ok]
  let ?h = "fs\<lparr>inode_table := (inode_table fs)[unat n - 1 := f (inode_table fs ! (unat n - 1))]\<rparr>"
  have lt: "unat n - 1 < NI fs" "unat n - 1 < length (inode_table fs)" using n fs_okD(5) [OF o] by auto
  have okh: "fs_ok good ?h" by (rule fs_ok_inode [OF o lt(1) f(2)])
  have "iblocks ?h = iblocks fs" using lt f(1) by (auto simp: iblocks_def nth_list_update)
  then have nm: "nmap blk ?h = nmap blk fs" by (simp add: nmap_def dsk_def)
  then have "files_ok good blk ?h" using ok okh by (simp add: files_ok_def)
  moreover have "fbyte blk ?h m pos = fbyte blk fs m pos" for m pos
    unfolding fbyte_def nm by (simp add: dsk_def Let_def)
  ultimately show ?thesis using nm upd_inode_eq [OF o n] by blast
qed

end

text \<open>The outcome of a write of \<open>w\<close> bytes at \<open>off\<close> to inode \<open>n\<close>.\<close>

definition wrote ::
  "(nat \<Rightarrow> 'c ramdisk_device \<Rightarrow> nat \<Rightarrow> u8 list) \<Rightarrow> nat \<Rightarrow> nat \<Rightarrow> nat \<Rightarrow> u8 list \<Rightarrow> 'c ext2_filesystem \<Rightarrow> 'c ext2_filesystem \<Rightarrow> bool" where
  "wrote blk n off w buf fs fs' \<longleftrightarrow>
     (\<forall>pos. off \<le> pos \<and> pos < off + w \<longrightarrow> fbyte blk fs' n pos = Some (buf ! (pos - off))) \<and>
     (\<forall>pos. \<not> (off \<le> pos \<and> pos < off + w) \<and> fbyte blk fs n pos \<noteq> None \<longrightarrow> fbyte blk fs' n pos = fbyte blk fs n pos) \<and>
     (\<forall>m pos. m \<noteq> n \<longrightarrow> fbyte blk fs' m pos = fbyte blk fs m pos) \<and>
     (\<exists>bl c. inode_table fs' = (inode_table fs)[n - 1 := (inode_table fs ! (n - 1))\<lparr>i_block := bl, i_blocks := c,
        i_size := of_nat (max (unat (i_size (inode_table fs ! (n - 1)))) (off + w))\<rparr>]) \<and>
     (\<exists>f. fs_sb fs' = (fs_sb fs)\<lparr>sb_free_blocks := f\<rparr>) \<and> inode_bitmap fs' = inode_bitmap fs \<and>
     g_ext2_sb_buffer fs' = g_ext2_sb_buffer fs"

context block_store
begin

lemma size_words:
  fixes off s :: u32 and w :: u64
  assumes "unat off + unat w < 2 ^ 32"
  shows "(if ucast off + w > (ucast s :: u64) then ucast (ucast off + w) else s) = of_nat (max (unat s) (unat off + unat w))"
proof -
  have a: "unat (ucast off + w) = unat off + unat w" using assms by (subst unat_add_exact) simp_all
  have "(ucast (ucast off + w) :: u32) = of_nat (unat off + unat w)" unfolding a [symmetric] by simp
  then show ?thesis using a by (auto simp: word_less_nat_alt max_def)
qed

lemma write_file:
  assumes ok: "files_ok good blk fs" and nf: "no_fail fs" and n: "1 \<le> unat n" "unat n < NI fs"
    and reg: "\<not> is_dir (inode_table fs ! (unat n - 1))"
    and lt: "unat off + unat sz < 2 ^ 32" and mx: "unat off + unat sz \<le> max_bytes fs" and buf: "unat sz \<le> length buf"
  shows "\<exists>w fs'. ext2_write n off sz buf fs = Some (int w, fs') \<and> w \<le> unat sz \<and> (w < unat sz \<longrightarrow> full fs') \<and>
    files_ok good blk fs' \<and> no_fail fs' \<and> wrote blk (unat n) (unat off) w buf fs fs' \<and> (synced blk fs \<longrightarrow> synced blk fs')"
proof -
  note f = files_okD(1) [OF ok]
  have nle: "unat n \<le> NI fs" and nge: "\<not> n \<ge> sb_inodes_count (fs_sb fs)" using n by (simp_all add: word_le_nat_alt)
  obtain bb rs where k: "fs_kmalloc (BS fs) fs = (Some bb, fs\<lparr>heap_replies := rs\<rparr>)" "length bb = BS fs"
    "no_fail (fs\<lparr>heap_replies := rs\<rparr>)" using fs_kmalloc_ok [OF nf] .
  let ?g = "fs\<lparr>heap_replies := rs\<rparr>"
  have "\<exists>w fs'. write_loop n off sz buf 0 bb ?g = Some (w, fs') \<and> files_ok good blk fs' \<and> no_fail fs' \<and>
    touches blk (unat n) ?g fs' \<and> unat (0 :: u64) \<le> unat w \<and> unat w \<le> unat sz \<and> (unat w < unat sz \<longrightarrow> full fs') \<and>
    (\<forall>pos. unat off + unat (0 :: u64) \<le> pos \<and> pos < unat off + unat w \<longrightarrow> fbyte blk fs' (unat n) pos = Some (buf ! (pos - unat off))) \<and>
    (\<forall>pos. \<not> (unat off + unat (0 :: u64) \<le> pos \<and> pos < unat off + unat w) \<and> fbyte blk ?g (unat n) pos \<noteq> None \<longrightarrow>
       fbyte blk fs' (unat n) pos = fbyte blk ?g (unat n) pos)"
    by (rule write_loop) (use ok k n nle lt mx buf in \<open>simp_all add: max_bytes_def\<close>)
  then obtain w fs1 where l: "write_loop n off sz buf 0 bb ?g = Some (w, fs1)" "files_ok good blk fs1" "no_fail fs1"
    "touches blk (unat n) ?g fs1" "unat w \<le> unat sz" "unat w < unat sz \<longrightarrow> full fs1"
    and new: "\<forall>pos. unat off \<le> pos \<and> pos < unat off + unat w \<longrightarrow> fbyte blk fs1 (unat n) pos = Some (buf ! (pos - unat off))"
    and old: "\<forall>pos. \<not> (unat off \<le> pos \<and> pos < unat off + unat w) \<and> fbyte blk fs (unat n) pos \<noteq> None \<longrightarrow>
       fbyte blk fs1 (unat n) pos = fbyte blk fs (unat n) pos"
    unfolding unsigned_0 add_0_right fbyte_replies by blast
  have tg: "fs_sb ?g = fs_sb fs" "inode_bitmap ?g = inode_bitmap fs" "inode_table ?g = inode_table fs"
    "g_ext2_sb_buffer ?g = g_ext2_sb_buffer fs" by simp_all
  obtain fb where sb1: "fs_sb fs1 = (fs_sb fs)\<lparr>sb_free_blocks := fb\<rparr>" using l(4) unfolding touches_def tg by blast
  obtain bl c where it1: "inode_table fs1 = (inode_table fs)[unat n - 1 := (inode_table fs ! (unat n - 1))\<lparr>i_block := bl, i_blocks := c\<rparr>]"
    using l(4) unfolding touches_def tg by blast
  have ib1: "inode_bitmap fs1 = inode_bitmap fs" "g_ext2_sb_buffer fs1 = g_ext2_sb_buffer fs"
    and d1: "\<And>b. b < FD fs \<Longrightarrow> dsk blk fs1 b = dsk blk fs b"
    and o1: "\<And>m pos. m \<noteq> unat n \<Longrightarrow> fbyte blk fs1 m pos = fbyte blk fs m pos"
    using l(4) unfolding touches_def by simp_all
  let ?f = "\<lambda>i. if ucast off + w > (ucast (i_size i) :: u64) then i\<lparr>i_size := ucast (ucast off + w)\<rparr> else i"
  let ?m = "\<lambda>i. of_nat (max (unat (i_size i)) (unat off + unat w)) :: u32"
  have lw: "unat off + unat w < 2 ^ 32" using lt l(5) by simp
  have fm: "?f i = i\<lparr>i_size := ?m i\<rparr>" for i
    using size_words [OF lw, of "i_size i"] by (auto split: if_splits)
  have n1: "unat n \<le> NI fs1" using nle by (simp add: sb1)
  obtain fs2 where u: "upd_inode n ?f fs1 = Some fs2"
    "fs2 = fs1\<lparr>inode_table := (inode_table fs1)[unat n - 1 := ?f (inode_table fs1 ! (unat n - 1))]\<rparr>"
    "files_ok good blk fs2" and fb2: "\<And>m pos. fbyte blk fs2 m pos = fbyte blk fs1 m pos"
    using size_update [OF l(2) n(1) n1, of ?f] by (auto simp: ext2_inode_ok_def)
  have lt2: "unat n - 1 < length (inode_table fs)" using nle n fs_okD(5) [OF f] by linarith
  have it2: "inode_table fs2 = (inode_table fs)[unat n - 1 := (inode_table fs ! (unat n - 1))\<lparr>i_block := bl, i_blocks := c,
      i_size := ?m (inode_table fs ! (unat n - 1))\<rparr>]"
    using lt2 unfolding u(2) it1 fm by simp
  have f2: "fs_sb fs2 = fs_sb fs1" "inode_bitmap fs2 = inode_bitmap fs1" "g_ext2_sb_buffer fs2 = g_ext2_sb_buffer fs1"
    "block_bitmap fs2 = block_bitmap fs1" "no_fail fs2" "dsk blk fs2 = dsk blk fs1"
    using l(3) by (simp_all add: u(2) no_fail_def dsk_def)
  have n2: "unat n \<le> NI fs2" using n1 by (simp add: f2)
  have ev: "ext2_write n off sz buf fs = do {
       (_, fs) \<leftarrow> ext2_write_inode n fs2;
       (_, fs) \<leftarrow> ext2_write_superblock fs;
       (_, fs) \<leftarrow> ext2_write_bitmaps fs;
       Some (sint w, fs) }"
    using nge reg k(1) l(1) u(1) by (simp add: ext2_write_def inode_at_eq [OF f n(1) nle])
  show ?thesis
  proof -
    have "unat w < 2 ^ 63" using lw by simp
    then have si: "sint w = int (unat w)" by (rule sint_unat)
    obtain fs3 fs4 fs5 D where w3: "ext2_write_inode n fs2 = Some (0, fs3)" "ext2_write_superblock fs3 = Some (0, fs4)"
      "ext2_write_bitmaps fs4 = Some (0, fs5)" "writes good blk fs2 D fs5" and D: "\<And>b. FD fs2 \<le> b \<Longrightarrow> D b = dsk blk fs2 b"
      and sy: "inodes_synced blk {unat n} fs2 \<Longrightarrow> synced blk fs5"
      using write_back_any [OF files_okD(1) [OF u(3)] f2(5) n(1) n2] by blast
    note g5 = writes_geom [OF w3(4)]
    have ok5: "files_ok good blk fs5" by (rule meta_writes(1) [OF u(3) w3(4)]) (rule D)
    have mw: "fbyte blk fs5 m pos = fbyte blk fs2 m pos" for m pos by (rule meta_writes(3) [OF u(3) w3(4)]) (rule D)
    have "wrote blk (unat n) (unat off) (unat w) buf fs fs5"
      unfolding wrote_def mw fb2
    proof (intro conjI)
      show "\<exists>bl c. inode_table fs5 = (inode_table fs)[unat n - 1 := (inode_table fs ! (unat n - 1))\<lparr>i_block := bl, i_blocks := c,
        i_size := of_nat (max (unat (i_size (inode_table fs ! (unat n - 1)))) (unat off + unat w))\<rparr>]"
        unfolding g5 it2 by blast
      show "\<exists>f. fs_sb fs5 = (fs_sb fs)\<lparr>sb_free_blocks := f\<rparr>" unfolding g5 f2 sb1 by blast
    qed (use new old o1 g5 f2 ib1 in simp_all)
    moreover have "synced blk fs5" if s: "synced blk fs"
    proof (rule sy)
      show "inodes_synced blk {unat n} fs2"
      proof (rule inodes_synced_cong [OF synced_inodes [OF s] _ _ f])
        show "fs_sb fs2 = (fs_sb fs)\<lparr>sb_free_blocks := fb, sb_free_inodes := sb_free_inodes (fs_sb fs)\<rparr>" by (simp add: f2 sb1)
        show "inode_table fs2 ! m = inode_table fs ! m" if "m + 1 \<notin> {unat n}" for m
        proof -
          have "m \<noteq> unat n - 1" using that n(1) by auto
          then show ?thesis unfolding it2 by simp
        qed
      qed (use d1 f2 in simp_all)
    qed
    moreover have "full fs1 \<longrightarrow> full fs5" by (simp add: full_def g5 f2)
    ultimately show ?thesis using ev w3 si l(5,6) ok5
      by (intro exI [of _ "unat w"] exI [of _ fs5]) (auto simp: writes_def)
  qed
qed

end

section \<open>Reading\<close>

text \<open>The table buffers of \<open>ext2_read\<close> hold what the disk holds.\<close>

definition rv_ok :: "(nat \<Rightarrow> 'c ramdisk_device \<Rightarrow> nat \<Rightarrow> u8 list) \<Rightarrow> 'c ext2_filesystem \<Rightarrow> ext2_inode \<Rightarrow> read_vars \<Rightarrow> bool" where
  "rv_ok blk fs i v \<longleftrightarrow>
     (\<forall>t. rv_indirect v = Some t \<longrightarrow> t = dsk blk fs (unat (i_block i ! 12))) \<and>
     (\<forall>t. rv_dind v = Some t \<longrightarrow> t = dsk blk fs (unat (i_block i ! 13))) \<and>
     (rv_dind_l2 v = None \<longrightarrow> rv_l2_cached v = 0) \<and>
     (\<forall>t. rv_dind_l2 v = Some t \<longrightarrow> length t = BS fs \<and> (rv_l2_cached v \<noteq> 0 \<longrightarrow> t = dsk blk fs (unat (rv_l2_cached v))))"

lemma rv_ok_replies [simp]: "rv_ok blk (fs\<lparr>heap_replies := rs\<rparr>) i v = rv_ok blk fs i v"
  by (simp add: rv_ok_def)

lemma tab_get_ptr:
  assumes "length t = BS fs" and "sb_wf fs" and "unat idx < ptrs fs" and "b \<noteq> 0" and "t = D (unat b)"
  shows "tab_get t idx = Some (ptr D b (unat idx))"
proof -
  have "4 * unat idx + 4 \<le> BS fs" using assms(3) sb_wfD(1) [OF assms(2)] by auto
  then show ?thesis using assms by (simp add: tab_get_def slice_def ptr_def)
qed

context block_store
begin

text \<open>Fetching a table block into a fresh buffer unless it is there already.\<close>

lemma fetch_table:
  assumes ok: "files_ok good blk fs" and nf: "no_fail fs" and tb: "nmap blk fs k = tb" "tb \<noteq> 0"
    and c: "\<And>t. cache = Some t \<Longrightarrow> t = dsk blk fs (unat tb)" and e: "s cache = e"
  shows "\<exists>rs. (case cache of
        Some t \<Rightarrow> Some (0 :: int, e, fs)
      | None \<Rightarrow> (case fs_kmalloc (BS fs) fs of
          (None, fs) \<Rightarrow> Some (-1, e, fs)
        | (Some t, fs) \<Rightarrow> do { (r, t) \<leftarrow> ext2_read_block fs tb t; Some (r, s (Some t), fs) })) =
      Some (0, s (Some (dsk blk fs (unat tb))), fs\<lparr>heap_replies := rs\<rparr>) \<and> no_fail (fs\<lparr>heap_replies := rs\<rparr>)"
proof (cases cache)
  case (Some t)
  then show ?thesis using c e nf by (intro exI [of _ "heap_replies fs"]) simp
next
  case None
  obtain b rs where k: "fs_kmalloc (BS fs) fs = (Some b, fs\<lparr>heap_replies := rs\<rparr>)" "length b = BS fs"
    "no_fail (fs\<lparr>heap_replies := rs\<rparr>)" using fs_kmalloc_ok [OF nf] .
  have "unat tb < NB fs" using files_okD(4) [OF ok] tb by blast
  then have "ext2_read_block (fs\<lparr>heap_replies := rs\<rparr>) tb b = Some (0, dsk blk fs (unat tb))"
    using read_block [of "fs\<lparr>heap_replies := rs\<rparr>" tb b] files_okD(1) [OF ok] k(2) by simp
  then show ?thesis using None k by auto
qed

lemma read_map:
  assumes ok: "files_ok good blk fs" and nf: "no_fail fs" and n: "1 \<le> n" "n \<le> NI fs"
    and i: "i = inode_table fs ! (n - 1)" and v: "rv_ok blk fs i v"
    and b: "nmap blk fs (n, data_node (ptrs fs) (unat bi)) = b" "b \<noteq> 0"
  shows "\<exists>v' rs. read_map i bi v fs = Some (b, v', fs\<lparr>heap_replies := rs\<rparr>) \<and> no_fail (fs\<lparr>heap_replies := rs\<rparr>) \<and>
    rv_ok blk fs i v' \<and> rv_buffer v' = rv_buffer v \<and> rv_read v' = rv_read v"
proof -
  note wf = fs_okD(1) [OF files_okD(1) [OF ok]]
  note w = block_index_words [OF wf, of bi] and p = ptrs_words [OF wf]
  have val: "node_valid (ptrs fs) (data_node (ptrs fs) (unat bi))" using nmap_valid b by metis
  have sl: "nmap blk fs (n, Slot k) = i_block i ! k" if "k < 14" for k using that n i by (simp add: nmap_def nodes_def iblocks_def)
  consider (dir) "unat bi < 12" | (ind) "12 \<le> unat bi" "unat bi < 12 + ptrs fs" | (dbl) "12 + ptrs fs \<le> unat bi" by linarith
  then show ?thesis
  proof cases
    case dir
    then have "i_block i ! unat bi = b" using b sl [of "unat bi"] by (simp add: data_node_def)
    then show ?thesis using dir w(1) nf v
      by (intro exI [of _ v] exI [of _ "heap_replies fs"]) (simp add: read_map_def Let_def)
  next
    case ind
    have c: "child (Slot 12) (unat (bi - 12)) = data_node (ptrs fs) (unat bi)" using ind w(4) by (simp add: data_node_def)
    have idx: "unat (bi - 12) < ptrs fs" using ind w(4) by simp
    have t0: "i_block i ! 12 \<noteq> 0"
      using b ind w(4) n by (auto simp: nmap_def nodes_def iblocks_def i data_node_def split: if_splits)
    have bp: "ptr (dsk blk fs) (i_block i ! 12) (unat (bi - 12)) = b"
      using nmap_child [of "Slot 12" fs n "i_block i ! 12" "unat (bi - 12)"] c b(1) idx t0 sl by simp
    obtain rs where f: "(case rv_indirect v of Some t \<Rightarrow> Some (0 :: int, v, fs)
        | None \<Rightarrow> (case fs_kmalloc (BS fs) fs of (None, fs) \<Rightarrow> Some (-1, v, fs)
          | (Some t, fs) \<Rightarrow> do { (r, t) \<leftarrow> ext2_read_block fs (i_block i ! 12) t; Some (r, v\<lparr>rv_indirect := Some t\<rparr>, fs) })) =
        Some (0, v\<lparr>rv_indirect := Some (dsk blk fs (unat (i_block i ! 12)))\<rparr>, fs\<lparr>heap_replies := rs\<rparr>)"
      "no_fail (fs\<lparr>heap_replies := rs\<rparr>)"
      using fetch_table [OF ok nf sl t0, where cache = "rv_indirect v" and s = "\<lambda>t. v\<lparr>rv_indirect := t\<rparr>" and e = v] v by (auto simp: rv_ok_def)
    have "tab_get (dsk blk fs (unat (i_block i ! 12))) (bi - 12) = Some b"
      using tab_get_ptr [OF _ wf idx t0 refl, of "dsk blk fs"] tab_block(2) [OF ok sl t0] bp by simp
    then have "read_map i bi v fs = Some (b, v\<lparr>rv_indirect := Some (dsk blk fs (unat (i_block i ! 12)))\<rparr>, fs\<lparr>heap_replies := rs\<rparr>)"
      using f(1) ind w t0 by (simp add: read_map_def Let_def)
    then show ?thesis using f(2) v by (auto simp: rv_ok_def)
  next
    case dbl
    let ?l1 = "(bi - 12 - fs_bs fs div 4) div (fs_bs fs div 4)"
    let ?l2 = "(bi - 12 - fs_bs fs div 4) mod (fs_bs fs div 4)"
    have dn: "data_node (ptrs fs) (unat bi) = DblInd (unat ?l1) (unat ?l2)" using dbl w(6,7) by (simp add: data_node_def)
    then have idx: "unat ?l1 < ptrs fs" "unat ?l2 < ptrs fs" using val by simp_all
    have lt: "unat bi < 12 + ptrs fs + ptrs fs * ptrs fs"
    proof -
      have "(unat bi - 12 - ptrs fs) div ptrs fs < ptrs fs" using idx(1) w(6) dbl by simp
      then have "unat bi - 12 - ptrs fs < ptrs fs * ptrs fs" using p(2) by (simp add: div_less_iff_less_mult)
      then show ?thesis by linarith
    qed
    let ?b13 = "i_block i ! 13"
    define l2b where "l2b = ptr (dsk blk fs) ?b13 (unat ?l1)"
    have pb: "ptr (dsk blk fs) l2b (unat ?l2) = b"
      using b(1) n idx by (simp add: nmap_def nodes_def iblocks_def i dn l2b_def)
    have l2: "l2b \<noteq> 0" using pb b(2) by auto
    have t0: "?b13 \<noteq> 0" using l2 by (auto simp: l2b_def)
    have nl2: "nmap blk fs (n, Dbl (unat ?l1)) = l2b" using n idx by (simp add: nmap_def nodes_def iblocks_def i l2b_def)
    obtain rs where f: "(case rv_dind v of Some t \<Rightarrow> Some (0 :: int, v, fs)
        | None \<Rightarrow> (case fs_kmalloc (BS fs) fs of (None, fs) \<Rightarrow> Some (-1, v, fs)
          | (Some t, fs) \<Rightarrow> do { (r, t) \<leftarrow> ext2_read_block fs ?b13 t; Some (r, v\<lparr>rv_dind := Some t\<rparr>, fs) })) =
        Some (0, v\<lparr>rv_dind := Some (dsk blk fs (unat ?b13))\<rparr>, fs\<lparr>heap_replies := rs\<rparr>)"
      "no_fail (fs\<lparr>heap_replies := rs\<rparr>)"
      using fetch_table [OF ok nf sl t0, where cache = "rv_dind v" and s = "\<lambda>t. v\<lparr>rv_dind := t\<rparr>" and e = v] v by (auto simp: rv_ok_def)
    let ?v1 = "v\<lparr>rv_dind := Some (dsk blk fs (unat ?b13))\<rparr>" and ?g = "fs\<lparr>heap_replies := rs\<rparr>"
    have tg1: "tab_get (dsk blk fs (unat ?b13)) ?l1 = Some l2b"
      using tab_get_ptr [OF _ wf idx(1) t0 refl, of "dsk blk fs"] tab_block(2) [OF ok sl t0] by (simp add: l2b_def)
    have tg2: "tab_get (dsk blk fs (unat l2b)) ?l2 = Some b"
      using tab_get_ptr [OF _ wf idx(2) l2 refl, of "dsk blk fs"] tab_block(2) [OF ok nl2 l2] pb by simp
    obtain t rs2 where q: "(case rv_dind_l2 v of Some t \<Rightarrow> (Some t, ?g) | None \<Rightarrow> fs_kmalloc (BS ?g) ?g) =
        (Some t, fs\<lparr>heap_replies := rs2\<rparr>)" "length t = BS fs" "no_fail (fs\<lparr>heap_replies := rs2\<rparr>)"
      "rv_l2_cached v \<noteq> 0 \<Longrightarrow> t = dsk blk fs (unat (rv_l2_cached v))"
    proof (cases "rv_dind_l2 v")
      case (Some t)
      then show ?thesis using that [of t rs] v f(2) by (simp add: rv_ok_def)
    next
      case None
      obtain t rs2 where "fs_kmalloc (BS fs) ?g = (Some t, ?g\<lparr>heap_replies := rs2\<rparr>)" "length t = BS fs"
        "no_fail (?g\<lparr>heap_replies := rs2\<rparr>)" using fs_kmalloc_ok [OF f(2)] .
      then show ?thesis using that [of t rs2] v None by (simp add: rv_ok_def)
    qed
    let ?h = "fs\<lparr>heap_replies := rs2\<rparr>"
    have l2lt: "unat l2b < NB fs" using files_okD(4) [OF ok] nl2 l2 by blast
    have r: "ext2_read_block ?h l2b t = Some (0, dsk blk fs (unat l2b))"
      using read_block [of ?h l2b t] files_okD(1) [OF ok] l2lt q(2) by simp
    let ?v2 = "?v1\<lparr>rv_dind_l2 := Some (dsk blk fs (unat l2b)), rv_l2_cached := l2b\<rparr>"
    have "read_map i bi v fs = Some (b, ?v2, ?h)"
    proof (cases "rv_l2_cached v = l2b")
      case True
      then have "t = dsk blk fs (unat l2b)" using q(4) l2 by simp
      then show ?thesis using True f(1) dbl lt w t0 p(3) tg1 l2 q(1) tg2 by (simp add: read_map_def Let_def)
    next
      case False
      then show ?thesis using f(1) dbl lt w t0 p(3) tg1 l2 q(1) r tg2 by (simp add: read_map_def Let_def)
    qed
    moreover have "rv_ok blk fs i ?v2" using v dsk_length [OF files_okD(1) [OF ok] l2lt] by (simp add: rv_ok_def)
    ultimately show ?thesis using q(3) by auto
  qed
qed

end

lemma div_mod_at:
  fixes q x b :: nat
  assumes "x < b"
  shows "(q * b + x) div b = q" "(q * b + x) mod b = x"
  using assms by simp_all

context block_store
begin

lemma read_loop:
  assumes "files_ok good blk fs" and "no_fail fs" and "1 \<le> n" and "n \<le> NI fs"
    and "i = inode_table fs ! (n - 1)" and "rv_ok blk fs i v" and "length bb = BS fs"
    and "unat (rv_read v) \<le> unat sz" and "unat off + unat sz < 2 ^ 32" and "unat sz \<le> length (rv_buffer v)"
    and "\<forall>pos. unat off \<le> pos \<and> pos < unat off + unat sz \<longrightarrow> fbyte blk fs n pos \<noteq> None"
  shows "\<exists>v' rs. read_loop i off sz bb v fs = Some (v', fs\<lparr>heap_replies := rs\<rparr>) \<and> rv_read v' = sz \<and>
    length (rv_buffer v') = length (rv_buffer v) \<and> no_fail (fs\<lparr>heap_replies := rs\<rparr>) \<and>
    (\<forall>j < length (rv_buffer v). rv_buffer v' ! j =
       (if unat (rv_read v) \<le> j \<and> j < unat sz then the (fbyte blk fs n (unat off + j)) else rv_buffer v ! j))"
  using assms
proof (induction "unat sz - unat (rv_read v)" arbitrary: v bb fs rule: less_induct)
  case less
  note ok = less.prems(1) and nf = less.prems(2) and n = less.prems(3,4) and i = less.prems(5) and v = less.prems(6)
    and bbl = less.prems(7) and rsz = less.prems(8) and lt = less.prems(9) and buf = less.prems(10) and holes = less.prems(11)
  note wf = fs_okD(1) [OF files_okD(1) [OF ok]]
  let ?r = "rv_read v"
  show ?case
  proof (cases "?r < sz")
    case False
    then have "unat ?r = unat sz" using rsz by (simp add: word_less_nat_alt)
    then have "?r = sz" by (simp add: word_unat_eq_iff)
    then show ?thesis using False nf
      by (subst read_loop.simps) (auto intro!: exI [of _ v] exI [of _ "heap_replies fs"])
  next
    case rs: True
    then have rsn: "unat ?r < unat sz" by (simp add: word_less_nat_alt)
    have lt0: "unat off + unat ?r < 2 ^ 32" using lt rsn by simp
    note p = pos_words [OF wf lt0] and c = chunk_words [OF wf lt rs]
    let ?P = "unat off + unat ?r"
    let ?bi = "ucast ((ucast off + ?r) div ucast (fs_bs fs)) :: u32"
    let ?o = "ucast ((ucast off + ?r) mod ucast (fs_bs fs)) :: u32"
    let ?room = "ucast (fs_bs fs - ?o) :: u64"
    let ?ch = "if sz - ?r > ?room then ?room else sz - ?r"
    let ?o1 = "?P mod BS fs"
    have BS0: "0 < BS fs" using sb_wfD(2) [OF wf] by simp
    have nz: "ucast (fs_bs fs) \<noteq> (0 :: u64)" by (rule ucast_nonzero [OF sb_wfD(5) [OF wf]])
    have "fbyte blk fs n ?P \<noteq> None" using holes rsn by simp
    then obtain b where b: "nmap blk fs (n, data_node (ptrs fs) (unat ?bi)) = b" "b \<noteq> 0"
      using p(2) by (auto simp: fbyte_def Let_def split: if_splits)
    obtain v1 rs1 where m: "read_map i ?bi v fs = Some (b, v1, fs\<lparr>heap_replies := rs1\<rparr>)" "no_fail (fs\<lparr>heap_replies := rs1\<rparr>)"
      "rv_ok blk fs i v1" "rv_buffer v1 = rv_buffer v" "rv_read v1 = ?r"
      using read_map [OF ok nf n i v b] by blast
    let ?g = "fs\<lparr>heap_replies := rs1\<rparr>"
    have blt: "unat b < NB fs" using files_okD(4) [OF ok] b by blast
    have rd: "ext2_read_block ?g b bb = Some (0, dsk blk fs (unat b))"
      using read_block [of ?g b bb] files_okD(1) [OF ok] blt bbl by simp
    have len: "length (dsk blk fs (unat b)) = BS fs" by (rule dsk_length [OF files_okD(1) [OF ok] blt])
    define ch where "ch = unat ?ch"
    define bs where "bs = take ch (drop ?o1 (dsk blk fs (unat b)))"
    have oc: "?o1 + ch \<le> BS fs" and ch0: "0 < ch" and cs: "unat ?r + ch \<le> unat sz" and r1: "unat (?r + ?ch) = unat ?r + ch"
      unfolding ch_def by (rule c(3), rule c(2), rule c(5), rule c(4))
    have bsl: "length bs = ch" using oc len by (simp add: bs_def)
    have sl: "slice (dsk blk fs (unat b)) (unat ?o) (unat ?ch) = Some bs"
      using oc len p(3) by (simp add: slice_def bs_def ch_def)
    let ?buf = "overwrite (rv_buffer v) (unat ?r) bs"
    have bl: "blit (rv_buffer v) (unat ?r) bs = Some ?buf" using cs buf bsl by (intro blit_overwrite) simp
    let ?v2 = "v1\<lparr>rv_buffer := ?buf, rv_read := ?r + ?ch\<rparr>"
    have ev: "read_loop i off sz bb v fs = read_loop i off sz (dsk blk fs (unat b)) ?v2 ?g"
    proof -
      have "read_loop i off sz bb v fs = do {
          bs \<leftarrow> slice (dsk blk fs (unat b)) (unat ?o) (unat ?ch);
          buf \<leftarrow> blit (rv_buffer v) (unat ?r) bs;
          read_loop i off sz (dsk blk fs (unat b)) (v1\<lparr>rv_buffer := buf, rv_read := ?r + ?ch\<rparr>) ?g }"
        using rs nz m(1,4,5) b(2) rd by (subst read_loop.simps) (simp add: Let_def)
      then show ?thesis unfolding sl using bl by simp
    qed
    have lb: "length ?buf = length (rv_buffer v)" using cs buf bsl by simp
    have "\<exists>v' rs. read_loop i off sz (dsk blk fs (unat b)) ?v2 ?g = Some (v', ?g\<lparr>heap_replies := rs\<rparr>) \<and> rv_read v' = sz \<and>
      length (rv_buffer v') = length (rv_buffer ?v2) \<and> no_fail (?g\<lparr>heap_replies := rs\<rparr>) \<and>
      (\<forall>j < length (rv_buffer ?v2). rv_buffer v' ! j =
         (if unat (rv_read ?v2) \<le> j \<and> j < unat sz then the (fbyte blk ?g n (unat off + j)) else rv_buffer ?v2 ! j))"
    proof (rule less.hyps)
      show "unat sz - unat (rv_read ?v2) < unat sz - unat ?r" using r1 rsn ch0 by simp
      show "unat (rv_read ?v2) \<le> unat sz" using r1 cs by simp
      show "rv_ok blk ?g i ?v2" using m(3) by (simp add: rv_ok_def)
      show "unat sz \<le> length (rv_buffer ?v2)" using lb buf by simp
    qed (use ok m(2) n i len lt holes in simp_all)
    then obtain v' rs where h: "read_loop i off sz (dsk blk fs (unat b)) ?v2 ?g = Some (v', fs\<lparr>heap_replies := rs\<rparr>)" "rv_read v' = sz"
      "length (rv_buffer v') = length (rv_buffer v)" "no_fail (fs\<lparr>heap_replies := rs\<rparr>)"
      and hb: "\<And>j. j < length (rv_buffer v) \<Longrightarrow> rv_buffer v' ! j =
         (if unat ?r + ch \<le> j \<and> j < unat sz then the (fbyte blk fs n (unat off + j)) else ?buf ! j)"
      using r1 lb by auto
    have "rv_buffer v' ! j = (if unat ?r \<le> j \<and> j < unat sz then the (fbyte blk fs n (unat off + j)) else rv_buffer v ! j)"
      if j: "j < length (rv_buffer v)" for j
    proof (cases "unat ?r \<le> j \<and> j < unat ?r + ch")
      case True
      then have "rv_buffer v' ! j = bs ! (j - unat ?r)"
        using hb [OF j] nth_overwrite [of "unat ?r" bs "rv_buffer v" j] cs buf bsl j by simp
      also have "\<dots> = dsk blk fs (unat b) ! (?o1 + (j - unat ?r))"
      unfolding bs_def using True oc len by (subst nth_take, linarith, subst nth_drop, linarith) simp
      also have "\<dots> = the (fbyte blk fs n (unat off + j))"
      proof -
        have e: "unat off + j = ?P + (j - unat ?r)" using True by simp
        have lo: "?o1 + (j - unat ?r) < BS fs" using True oc by linarith
        have "unat off + j = ?P div BS fs * BS fs + (?o1 + (j - unat ?r))" using e by (metis add.assoc div_mult_mod_eq)
        then have "(unat off + j) div BS fs = ?P div BS fs" "(unat off + j) mod BS fs = ?o1 + (j - unat ?r)"
          using div_mod_at [OF lo] by metis+
        then show ?thesis using b p(2) by (simp add: fbyte_def)
      qed
      finally show ?thesis using True cs by simp
    next
      case False
      then show ?thesis using hb [OF j] nth_overwrite [of "unat ?r" bs "rv_buffer v" j] cs buf bsl j by auto
    qed
    then show ?thesis using ev h by auto
  qed
qed

text \<open>Reading a range without holes returns its bytes.\<close>

lemma read_file:
  assumes ok: "files_ok good blk fs" and nf: "no_fail fs" and n: "1 \<le> unat n" "unat n < NI fs"
    and lt: "unat off + unat sz < 2 ^ 32" and buf: "unat sz \<le> length buf" and sz: "0 < unat sz"
    and e: "unat off + unat sz \<le> unat (i_size (inode_table fs ! (unat n - 1)))"
    and holes: "\<forall>pos. unat off \<le> pos \<and> pos < unat off + unat sz \<longrightarrow> fbyte blk fs (unat n) pos \<noteq> None"
  shows "\<exists>rs. ext2_read n off sz buf fs =
      Some (int (unat sz), map (\<lambda>j. the (fbyte blk fs (unat n) (unat off + j))) [0..<unat sz] @ drop (unat sz) buf, fs\<lparr>heap_replies := rs\<rparr>) \<and>
    no_fail (fs\<lparr>heap_replies := rs\<rparr>)"
proof -
  note f = files_okD(1) [OF ok]
  have nle: "unat n \<le> NI fs" and nge: "\<not> n \<ge> sb_inodes_count (fs_sb fs)" using n by (simp_all add: word_le_nat_alt)
  let ?i = "inode_table fs ! (unat n - 1)"
  have o: "\<not> off \<ge> i_size ?i" using e sz by (simp add: word_le_nat_alt)
  have a: "unat (ucast off + sz) = unat off + unat sz" using lt by (subst unat_add_exact) simp_all
  then have s: "\<not> ucast off + sz > (ucast (i_size ?i) :: u64)" using e by (simp add: word_less_nat_alt)
  obtain bb rs where k: "fs_kmalloc (BS fs) fs = (Some bb, fs\<lparr>heap_replies := rs\<rparr>)" "length bb = BS fs"
    "no_fail (fs\<lparr>heap_replies := rs\<rparr>)" using fs_kmalloc_ok [OF nf] .
  let ?g = "fs\<lparr>heap_replies := rs\<rparr>"
  let ?v = "\<lparr>rv_buffer = buf, rv_read = 0, rv_indirect = None, rv_dind = None, rv_dind_l2 = None, rv_l2_cached = 0\<rparr>"
  have "\<exists>v' rs. read_loop ?i off sz bb ?v ?g = Some (v', ?g\<lparr>heap_replies := rs\<rparr>) \<and> rv_read v' = sz \<and>
    length (rv_buffer v') = length (rv_buffer ?v) \<and> no_fail (?g\<lparr>heap_replies := rs\<rparr>) \<and>
    (\<forall>j < length (rv_buffer ?v). rv_buffer v' ! j =
       (if unat (rv_read ?v) \<le> j \<and> j < unat sz then the (fbyte blk ?g (unat n) (unat off + j)) else rv_buffer ?v ! j))"
    by (rule read_loop) (use ok k n nle lt buf holes in \<open>simp_all add: rv_ok_def\<close>)
  then obtain v' rs2 where l: "read_loop ?i off sz bb ?v ?g = Some (v', fs\<lparr>heap_replies := rs2\<rparr>)" "rv_read v' = sz"
    "length (rv_buffer v') = length buf" "no_fail (fs\<lparr>heap_replies := rs2\<rparr>)"
    and j: "\<And>j. j < length buf \<Longrightarrow> rv_buffer v' ! j = (if j < unat sz then the (fbyte blk fs (unat n) (unat off + j)) else buf ! j)"
    by auto
  have "rv_buffer v' = map (\<lambda>j. the (fbyte blk fs (unat n) (unat off + j))) [0..<unat sz] @ drop (unat sz) buf"
    by (rule nth_equalityI) (use l(3) buf j in \<open>auto simp: nth_append\<close>)
  moreover have "sint sz = int (unat sz)" using lt by (intro sint_unat) simp
  ultimately show ?thesis using nge o s k(1) l
    by (auto simp: ext2_read_def Let_def inode_at_eq [OF f n(1) nle])
qed

end

section \<open>Reading back what was written\<close>

text \<open>Two states with the same device and tables have the same files.\<close>

lemma same_files:
  assumes "fs_device fs' = fs_device fs" "fs_sb fs' = fs_sb fs" "block_bitmap fs' = block_bitmap fs"
    "inode_bitmap fs' = inode_bitmap fs" "inode_table fs' = inode_table fs"
  shows "files_ok good blk fs' = files_ok good blk fs" "fbyte blk fs' = fbyte blk fs"
proof -
  have d: "dsk blk fs' = dsk blk fs" by (simp add: dsk_def assms)
  have "iblocks fs' = iblocks fs" by (simp add: iblocks_def assms)
  then have nm: "nmap blk fs' = nmap blk fs" by (simp add: nmap_def d assms)
  show "files_ok good blk fs' = files_ok good blk fs"
    by (simp add: files_ok_def nm assms fs_ok_def sb_wf_def bitmap_blocks_def table_start_def table_blocks_def)
  show "fbyte blk fs' = fbyte blk fs" by (simp add: fbyte_def nm d assms fun_eq_iff Let_def)
qed

context block_store
begin

lemma read_back:
  assumes ok: "files_ok good blk fs'" and nf: "no_fail fs'" and n: "1 \<le> unat n" "unat n < NI fs'"
    and w: "wrote blk (unat n) (unat off) (unat sz) buf fs fs0" and ft: "fbyte blk fs' = fbyte blk fs0" "inode_table fs' = inode_table fs0"
    and lt: "unat off + unat sz < 2 ^ 32" and sz: "0 < unat sz" "unat sz \<le> length buf" "unat sz \<le> length b"
    and len: "unat n - 1 < length (inode_table fs)"
  shows "\<exists>fs''. ext2_read n off sz b fs' = Some (int (unat sz), take (unat sz) buf @ drop (unat sz) b, fs'')"
proof -
  have fb: "fbyte blk fs' (unat n) pos = Some (buf ! (pos - unat off))" if "unat off \<le> pos" "pos < unat off + unat sz" for pos
    using w that by (simp add: wrote_def ft)
  obtain bl c where "inode_table fs' = (inode_table fs)[unat n - 1 := (inode_table fs ! (unat n - 1))\<lparr>i_block := bl, i_blocks := c,
        i_size := of_nat (max (unat (i_size (inode_table fs ! (unat n - 1)))) (unat off + unat sz))\<rparr>]"
    using w unfolding wrote_def ft by blast
  then have isz: "i_size (inode_table fs' ! (unat n - 1)) = of_nat (max (unat (i_size (inode_table fs ! (unat n - 1)))) (unat off + unat sz))"
    using len by simp
  have "max (unat (i_size (inode_table fs ! (unat n - 1)))) (unat off + unat sz) < 2 ^ 32" using lt by simp
  then have "unat off + unat sz \<le> unat (i_size (inode_table fs' ! (unat n - 1)))"
    unfolding isz by (simp add: unat_of_nat)
  moreover have "map (\<lambda>j. the (fbyte blk fs' (unat n) (unat off + j))) [0..<unat sz] = take (unat sz) buf"
    by (rule nth_equalityI) (use fb sz in simp_all)
  ultimately show ?thesis
    using read_file [OF ok nf n lt sz(3,1)] fb by fastforce
qed

end

end
