(* ===== verification/Ext2_Paths.thy ===== *)
theory Ext2_Paths
  imports Ext2_Files
begin

text \<open>
  Resolving a path. \<open>ext2_lookup_inode\<close> changes nothing but the state of the kernel heap, and
  writing to a regular file changes the result for no path, since it leaves every directory
  inode and every directory block as they are.
\<close>

section \<open>Lookups change the heap only\<close>

lemma find_entry_frame:
  assumes "find_entry_in_dir d name fs = Some (r, fs')"
  shows "\<exists>rs. fs' = fs\<lparr>heap_replies := rs\<rparr>"
proof -
  have id: "\<exists>rs. fs = fs\<lparr>heap_replies := rs\<rparr>" by (rule exI [of _ "heap_replies fs"]) simp
  obtain p fs1 where k: "fs_kmalloc (unat (fs_bs fs)) fs = (p, fs1)" by force
  obtain rs where "fs1 = fs\<lparr>heap_replies := rs\<rparr>" using fs_kmalloc_state [OF k] by blast
  then show ?thesis using assms id k
    by (auto simp: find_entry_in_dir_def bind_eq_Some_conv split: if_splits option.splits)
qed

lemma parse_rest_shorter:
  assumes "parse_path_component path 256 = (Some c, rest)"
  shows "length rest < length path"
proof -
  let ?p = "dropWhile (\<lambda>c. c = SLASH) path"
  have p: "?p \<noteq> []" using assms unfolding parse_path_component_def Let_def by (metis option.distinct(1) prod.inject)
  then have "takeWhile (\<lambda>c. c \<noteq> SLASH) ?p \<noteq> []" using hd_dropWhile [OF p] by (cases ?p) auto
  then have "0 < length c" "length rest = length ?p - length c"
    using assms p by (auto simp: parse_path_component_def Let_def simp del: dropWhile_eq_Nil_conv)
  moreover have "length ?p \<le> length path" by (rule length_dropWhile_le)
  moreover have "0 < length ?p" using p by blast
  ultimately show ?thesis by linarith
qed

lemma lookup_step:
  "parse_path_component path 256 = (None, rest) \<Longrightarrow> lookup_loop path cur fs = Some (cur, fs)"
  "parse_path_component path 256 = (Some c, rest) \<Longrightarrow>
   lookup_loop path cur fs = do { (i, fs) \<leftarrow> find_entry_in_dir cur c fs; if i = 0 then Some (0, fs) else lookup_loop rest i fs }"
  by (subst lookup_loop.simps, simp)+

lemma lookup_loop_frame:
  assumes "lookup_loop path cur fs = Some (r, fs')"
  shows "\<exists>rs. fs' = fs\<lparr>heap_replies := rs\<rparr>"
  using assms
proof (induction path arbitrary: cur fs rule: measure_induct_rule [where f = length])
  case (less path)
  obtain c rest where p: "parse_path_component path 256 = (c, rest)" by force
  show ?case
  proof (cases c)
    case None
    then show ?thesis using less.prems p by (auto simp: lookup_step intro: exI [of _ "heap_replies fs"])
  next
    case (Some n)
    from less.prems obtain i fs1 where f: "find_entry_in_dir cur n fs = Some (i, fs1)"
      and l: "if i = 0 then Some (0, fs1) = Some (r, fs') else lookup_loop rest i fs1 = Some (r, fs')"
      using p Some by (auto simp: lookup_step bind_eq_Some_conv split: if_splits)
    obtain rs where rs: "fs1 = fs\<lparr>heap_replies := rs\<rparr>" using find_entry_frame [OF f] by blast
    show ?thesis
    proof (cases "i = 0")
      case True
      then show ?thesis using l rs by auto
    next
      case False
      then obtain rs2 where "fs' = fs\<lparr>heap_replies := rs2\<rparr>"
        using l rs less.IH [OF parse_rest_shorter, of n rest i fs1] p Some by auto
      then show ?thesis by blast
    qed
  qed
qed

lemma lookup_frame:
  assumes "ext2_lookup_inode path fs = Some (r, fs')"
  shows "\<exists>rs. fs' = fs\<lparr>heap_replies := rs\<rparr>"
proof -
  have id: "\<exists>rs. fs = fs\<lparr>heap_replies := rs\<rparr>" by (rule exI [of _ "heap_replies fs"]) simp
  then show ?thesis using assms lookup_loop_frame
    by (auto simp: ext2_lookup_inode_def split: option.splits if_splits)
qed

section \<open>Writing a file keeps every path\<close>

definition same_dirs :: "(nat \<Rightarrow> 'c ramdisk_device \<Rightarrow> nat \<Rightarrow> u8 list) \<Rightarrow> 'c ext2_filesystem \<Rightarrow> 'c ext2_filesystem \<Rightarrow> bool" where
  "same_dirs blk fs fs' \<longleftrightarrow> fs_bs fs' = fs_bs fs \<and> sb_inodes_count (fs_sb fs') = sb_inodes_count (fs_sb fs) \<and>
     sb_blocks_count (fs_sb fs') = sb_blocks_count (fs_sb fs) \<and> length (inode_table fs') = length (inode_table fs) \<and>
     (\<forall>k < length (inode_table fs). is_dir (inode_table fs' ! k) = is_dir (inode_table fs ! k) \<and>
        (is_dir (inode_table fs ! k) \<longrightarrow> inode_table fs' ! k = inode_table fs ! k \<and>
           (\<forall>b \<in> set (take 12 (i_block (inode_table fs ! k))). b \<noteq> 0 \<longrightarrow> unat b < NB fs \<and> dsk blk fs' (unat b) = dsk blk fs (unat b))))"

lemma same_dirs_replies [simp]: "same_dirs blk (fs\<lparr>heap_replies := rs\<rparr>) (fs'\<lparr>heap_replies := rs'\<rparr>) = same_dirs blk fs fs'"
  by (simp add: same_dirs_def)

context block_store
begin

lemma find_blocks_same:
  assumes "fs_ok good fs" "fs_ok good fs'" "fs_bs fs' = fs_bs fs" "sb_blocks_count (fs_sb fs') = sb_blocks_count (fs_sb fs)"
    "\<forall>b \<in> set bl. b \<noteq> 0 \<longrightarrow> unat b < NB fs \<and> dsk blk fs' (unat b) = dsk blk fs (unat b)" "length buf = BS fs" "length buf' = BS fs"
  shows "find_blocks fs' sz name bl buf' = find_blocks fs sz name bl buf"
  using assms
proof (induction bl arbitrary: buf buf')
  case (Cons b bl)
  show ?case
  proof (cases "b = 0")
    case False
    then have b: "unat b < NB fs" "dsk blk fs' (unat b) = dsk blk fs (unat b)" using Cons.prems(5) by auto
    have "ext2_read_block fs b buf = Some (0, dsk blk fs (unat b))"
      by (rule read_block) (use Cons.prems b in simp_all)
    moreover have "ext2_read_block fs' b buf' = Some (0, dsk blk fs (unat b))"
      using read_block [of fs' b buf'] Cons.prems b by simp
    moreover have "length (dsk blk fs (unat b)) = BS fs" by (rule dsk_length [OF Cons.prems(1) b(1)])
    ultimately show ?thesis using False Cons.IH [of "dsk blk fs (unat b)" "dsk blk fs (unat b)"] Cons.prems by simp
  qed simp
qed simp

lemma find_entry_same:
  assumes "fs_ok good fs" "fs_ok good fs'" "no_fail fs" "no_fail fs'" "same_dirs blk fs fs'"
    "find_entry_in_dir d name fs = Some (r, fs1)"
  shows "\<exists>rs rs'. fs1 = fs\<lparr>heap_replies := rs\<rparr> \<and> no_fail fs1 \<and>
    find_entry_in_dir d name fs' = Some (r, fs'\<lparr>heap_replies := rs'\<rparr>) \<and> no_fail (fs'\<lparr>heap_replies := rs'\<rparr>)"
proof -
  note S = assms(5) [unfolded same_dirs_def]
  obtain b rs where k: "fs_kmalloc (BS fs) fs = (Some b, fs\<lparr>heap_replies := rs\<rparr>)" "length b = BS fs" "no_fail (fs\<lparr>heap_replies := rs\<rparr>)"
    using fs_kmalloc_ok [OF assms(3)] .
  obtain b' rs' where k': "fs_kmalloc (BS fs) fs' = (Some b', fs'\<lparr>heap_replies := rs'\<rparr>)" "length b' = BS fs" "no_fail (fs'\<lparr>heap_replies := rs'\<rparr>)"
    using fs_kmalloc_ok [OF assms(4)] .
  have id: "f = f\<lparr>heap_replies := heap_replies f\<rparr>" for f :: "'a ext2_filesystem" by simp
  show ?thesis
  proof (cases "d \<ge> sb_inodes_count (fs_sb fs)")
    case True
    then show ?thesis using assms(3,4,6) S
      by (intro exI [of _ "heap_replies fs"] exI [of _ "heap_replies fs'"]) (simp add: find_entry_in_dir_def)
  next
    case False
    then have "unat (d - 1) < length (inode_table fs)"
      using assms(6) by (auto simp: find_entry_in_dir_def inode_at_def split: if_splits)
    then have at: "inode_at fs d = Some (inode_table fs ! unat (d - 1))" "inode_at fs' d = Some (inode_table fs' ! unat (d - 1))"
      and s: "is_dir (inode_table fs' ! unat (d - 1)) = is_dir (inode_table fs ! unat (d - 1))"
        "is_dir (inode_table fs ! unat (d - 1)) \<Longrightarrow> inode_table fs' ! unat (d - 1) = inode_table fs ! unat (d - 1) \<and>
           (\<forall>b \<in> set (take 12 (i_block (inode_table fs ! unat (d - 1)))). b \<noteq> 0 \<longrightarrow> unat b < NB fs \<and> dsk blk fs' (unat b) = dsk blk fs (unat b))"
      using S by (simp_all add: inode_at_def)
    let ?i = "inode_table fs ! unat (d - 1)"
    show ?thesis
    proof (cases "is_dir ?i")
      case d: False
      then show ?thesis using assms(3,4,6) S s at False
        by (intro exI [of _ "heap_replies fs"] exI [of _ "heap_replies fs'"]) (simp add: find_entry_in_dir_def)
    next
      case True
      have "find_blocks (fs'\<lparr>heap_replies := rs'\<rparr>) (i_size ?i) name (take 12 (i_block ?i)) b' =
          find_blocks (fs\<lparr>heap_replies := rs\<rparr>) (i_size ?i) name (take 12 (i_block ?i)) b"
        by (rule find_blocks_same) (use assms(1,2) S s(2) [OF True] k(2) k'(2) in simp_all)
      then show ?thesis using assms(6) False True at s S k k'
        by (intro exI [of _ rs] exI [of _ rs']) (auto simp: find_entry_in_dir_def bind_eq_Some_conv)
    qed
  qed
qed

lemma lookup_loop_same:
  assumes "fs_ok good fs" "fs_ok good fs'" "no_fail fs" "no_fail fs'" "same_dirs blk fs fs'"
    "lookup_loop path cur fs = Some (r, fs1)"
  shows "\<exists>rs rs'. fs1 = fs\<lparr>heap_replies := rs\<rparr> \<and> no_fail fs1 \<and>
    lookup_loop path cur fs' = Some (r, fs'\<lparr>heap_replies := rs'\<rparr>) \<and> no_fail (fs'\<lparr>heap_replies := rs'\<rparr>)"
  using assms
proof (induction path arbitrary: cur fs fs' rule: measure_induct_rule [where f = length])
  case (less path)
  obtain c rest where p: "parse_path_component path 256 = (c, rest)" by force
  show ?case
  proof (cases c)
    case None
    then show ?thesis using less.prems p
      by (intro exI [of _ "heap_replies fs"] exI [of _ "heap_replies fs'"]) (simp add: lookup_step)
  next
    case (Some n)
    from less.prems(6) obtain i fs2 where f: "find_entry_in_dir cur n fs = Some (i, fs2)"
      and l: "if i = 0 then Some (0, fs2) = Some (r, fs1) else lookup_loop rest i fs2 = Some (r, fs1)"
      using p Some by (auto simp: lookup_step bind_eq_Some_conv split: if_splits)
    obtain rs rs' where e: "fs2 = fs\<lparr>heap_replies := rs\<rparr>" "no_fail fs2"
      "find_entry_in_dir cur n fs' = Some (i, fs'\<lparr>heap_replies := rs'\<rparr>)" "no_fail (fs'\<lparr>heap_replies := rs'\<rparr>)"
      using find_entry_same [OF less.prems(1-5) f] by blast
    have step: "lookup_loop path cur fs' = (if i = 0 then Some (0, fs'\<lparr>heap_replies := rs'\<rparr>) else lookup_loop rest i (fs'\<lparr>heap_replies := rs'\<rparr>))"
      using p Some e(3) by (simp add: lookup_step)
    show ?thesis
    proof (cases "i = 0")
      case True
      then show ?thesis using l e step by auto
    next
      case False
      then have "lookup_loop rest i fs2 = Some (r, fs1)" using l by simp
      then have "\<exists>rs2 rs2'. fs1 = fs2\<lparr>heap_replies := rs2\<rparr> \<and> no_fail fs1 \<and>
          lookup_loop rest i (fs'\<lparr>heap_replies := rs'\<rparr>) = Some (r, fs'\<lparr>heap_replies := rs'\<rparr>\<lparr>heap_replies := rs2'\<rparr>) \<and>
          no_fail (fs'\<lparr>heap_replies := rs'\<rparr>\<lparr>heap_replies := rs2'\<rparr>)"
        using less.prems(1-5) e p Some
        by (intro less.IH [OF parse_rest_shorter, of n]) simp_all
      then show ?thesis using e(1) step False by auto
    qed
  qed
qed

lemma lookup_same:
  assumes "fs_ok good fs" "fs_ok good fs'" "no_fail fs" "no_fail fs'" "same_dirs blk fs fs'"
    "ext2_lookup_inode path fs = Some (r, fs1)"
  shows "\<exists>rs'. no_fail fs1 \<and> ext2_lookup_inode path fs' = Some (r, fs'\<lparr>heap_replies := rs'\<rparr>) \<and> no_fail (fs'\<lparr>heap_replies := rs'\<rparr>)"
proof -
  have "\<exists>rs'. no_fail fs' \<and> Some (x, fs') = Some (x, fs'\<lparr>heap_replies := rs'\<rparr>) \<and> no_fail (fs'\<lparr>heap_replies := rs'\<rparr>)" for x :: u32
    by (rule exI [of _ "heap_replies fs'"]) (use assms(4) in simp)
  then show ?thesis using assms(6) lookup_loop_same [OF assms(1-5)] assms(3)
    by (auto simp: ext2_lookup_inode_def split: option.splits if_splits)
qed

text \<open>A data block of an inode holds the bytes of the file at its position.\<close>

lemma direct_block:
  assumes ok: "files_ok good blk fs" and m: "1 \<le> m" "m \<le> NI fs" and k: "k < 12" and b: "i_block (inode_table fs ! (m - 1)) ! k = b" "b \<noteq> 0"
  shows "unat b < NB fs" "dsk blk fs (unat b) = map (\<lambda>j. the (fbyte blk fs m (k * BS fs + j))) [0..<BS fs]"
proof -
  note f = files_okD(1) [OF ok]
  have bs: "0 < BS fs" using sb_wfD(2) [OF fs_okD(1) [OF f]] by simp
  have n: "nmap blk fs (m, data_node (ptrs fs) k) = b"
    using m k b by (simp add: nmap_def nodes_def data_node_def iblocks_def)
  show lt: "unat b < NB fs" using files_okD(4) [OF ok] n b(2) by metis
  have "(k * BS fs + j) div BS fs = k" "(k * BS fs + j) mod BS fs = j" if "j < BS fs" for j
    using that by simp_all
  then show "dsk blk fs (unat b) = map (\<lambda>j. the (fbyte blk fs m (k * BS fs + j))) [0..<BS fs]"
    using n b(2) dsk_length [OF f lt] by (intro nth_equalityI) (simp_all add: fbyte_def)
qed

lemma same_dirs_refl:
  assumes ok: "files_ok good blk fs"
  shows "same_dirs blk fs fs"
proof -
  have "unat b < NB fs" if k: "k < NI fs" and b: "b \<in> set (take 12 (i_block (inode_table fs ! k)))" "b \<noteq> 0" for k b
  proof -
    obtain j where "j < 12" "i_block (inode_table fs ! k) ! j = b" using b(1) by (auto simp: in_set_conv_nth)
    then show ?thesis using direct_block(1) [OF ok, of "k + 1" j b] k b(2) by simp
  qed
  then show ?thesis using fs_okD(5) [OF files_okD(1) [OF ok]] by (simp add: same_dirs_def)
qed

lemma wrote_same_dirs:
  assumes ok: "files_ok good blk fs" "files_ok good blk fs'" and w: "wrote blk n off w buf fs fs'"
    and n: "1 \<le> n" "n \<le> NI fs" and reg: "\<not> is_dir (inode_table fs ! (n - 1))"
  shows "same_dirs blk fs fs'"
proof -
  obtain bl c s where it: "inode_table fs' = (inode_table fs)[n - 1 := (inode_table fs ! (n - 1))\<lparr>i_block := bl, i_blocks := c, i_size := s\<rparr>]"
    using w by (auto simp: wrote_def)
  obtain f where sb: "fs_sb fs' = (fs_sb fs)\<lparr>sb_free_blocks := f\<rparr>" using w by (auto simp: wrote_def)
  have len: "length (inode_table fs) = NI fs" by (rule fs_okD(5) [OF files_okD(1) [OF ok(1)]])
  have dirs: "is_dir (inode_table fs' ! k) = is_dir (inode_table fs ! k)" for k
    by (cases "n - 1 < length (inode_table fs)") (auto simp: it is_dir_def nth_list_update list_update_beyond)
  have same: "inode_table fs' ! k = inode_table fs ! k" if "is_dir (inode_table fs ! k)" for k
  proof -
    have "n - 1 \<noteq> k" using that reg by blast
    then show ?thesis by (simp add: it)
  qed
  have blocks: "unat b < NB fs \<and> dsk blk fs' (unat b) = dsk blk fs (unat b)"
    if k: "k < NI fs" "is_dir (inode_table fs ! k)" and b: "b \<in> set (take 12 (i_block (inode_table fs ! k)))" "b \<noteq> 0" for k b
  proof -
    obtain j where j: "j < 12" "i_block (inode_table fs ! k) ! j = b" using b(1) by (auto simp: in_set_conv_nth)
    have kn: "k + 1 \<noteq> n" using k(2) reg by auto
    have "dsk blk fs (unat b) = map (\<lambda>i. the (fbyte blk fs (k + 1) (j * BS fs + i))) [0..<BS fs]" "unat b < NB fs"
      using direct_block [OF ok(1), of "k + 1" j b] k(1) j b(2) by simp_all
    moreover have "dsk blk fs' (unat b) = map (\<lambda>i. the (fbyte blk fs' (k + 1) (j * BS fs' + i))) [0..<BS fs']"
      using direct_block(2) [OF ok(2), of "k + 1" j b] k(1) j b(2) same [OF k(2)] sb by simp
    ultimately show ?thesis using w kn sb by (simp add: wrote_def)
  qed
  show ?thesis unfolding same_dirs_def using sb it len dirs same blocks by simp
qed

end

end
