(* ===== verification/Ext2_Correct.thy ===== *)
theory Ext2_Correct
  imports Ext2_Files
begin

text \<open>
  The properties of the file system on a memory-backed device, each with a witness on a small
  formatted disk: allocation, writing and reading back, persistence across a mount, and three
  situations in which the code misbehaves.
\<close>

section \<open>A small formatted disk\<close>

text \<open>
  Sixteen blocks of 1024 bytes with sixteen inodes: superblock, one block for each bitmap,
  four blocks of inodes, and data blocks from 8 on. The inodes are a parameter.
\<close>

definition demo_sb :: ext2_superblock where
  "demo_sb = zero_sb\<lparr>sb_inodes_count := 16, sb_blocks_count := 16, sb_free_blocks := 8, sb_free_inodes := 16,
     sb_first_data_block := 8, sb_log_block_size := 0, sb_block_size := 1024, sb_magic := EXT2_MAGIC, sb_version := 1\<rparr>"

definition demo_block :: "ext2_inode list \<Rightarrow> nat \<Rightarrow> u8 list" where
  "demo_block its n =
     (if n = 1 then pad 1024 (ext2_superblock_bytes demo_sb) else if n = 2 then pad 1024 [255, 0]
      else if n = 3 then pad 1024 [0, 0]
      else if 4 \<le> n \<and> n < 8 then concat (map ext2_inode_bytes (take 4 (drop (4 * (n - 4)) its)))
      else replicate 1024 0)"

definition demo_dev :: "ext2_inode list \<Rightarrow> unit ramdisk_device" where
  "demo_dev its = \<lparr>rd_data = Some (concat (map (demo_block its) [0..<16])), rd_size = 16384, rd_block_size = 1024,
     rd_block_count = 16, read_fn = None, write_fn = None, io_context = ()\<rparr>"

definition demo_fs :: "ext2_inode list \<Rightarrow> unit ext2_filesystem" where
  "demo_fs its = \<lparr>fs_device = demo_dev its, fs_sb = demo_sb, block_bitmap = [255, 0], inode_bitmap = [0, 0],
     inode_table = its, heap_replies = [], g_ext2_sb_buffer = replicate 1024 0\<rparr>"

lemma length_concat_const: "(\<And>x. x \<in> set xs \<Longrightarrow> length (f x) = b) \<Longrightarrow> length (concat (map f xs)) = length xs * b"
  by (induction xs) simp_all

lemma take_drop_concat_const:
  assumes "\<And>x. x \<in> set xs \<Longrightarrow> length (f x) = b" and "i < length xs"
  shows "take b (drop (i * b) (concat (map f xs))) = f (xs ! i)"
  using assms
proof (induction xs arbitrary: i)
  case (Cons x xs)
  show ?case
  proof (cases i)
    case 0
    then show ?thesis using Cons.prems by simp
  next
    case (Suc j)
    then show ?thesis using Cons.prems Cons.IH [of j] by simp
  qed
qed simp

lemma zero_inode_ok [simp]: "ext2_inode_ok zero_inode"
  by (simp add: zero_inode_def ext2_inode_of_def ext2_inode_ok_def)

lemma demo_sb_ok: "ext2_superblock_ok demo_sb"
  by (simp add: demo_sb_def zero_sb_def ext2_superblock_of_def ext2_superblock_ok_def)

lemma demo_block_length:
  assumes "length its = 16" and "\<forall>i \<in> set its. ext2_inode_ok i"
  shows "length (demo_block its n) = 1024"
proof (cases "4 \<le> n \<and> n < 8")
  case True
  have "length (concat (map ext2_inode_bytes (take 4 (drop (4 * (n - 4)) its)))) = length (take 4 (drop (4 * (n - 4)) its)) * 256"
    by (rule length_concat_const) (use assms(2) in \<open>auto dest!: in_set_takeD in_set_dropD intro: length_inode_bytes\<close>)
  then show ?thesis using True assms(1) by (auto simp: demo_block_def)
next
  case False
  then show ?thesis using length_superblock_bytes [OF demo_sb_ok] by (auto simp: demo_block_def pad_simps)
qed

lemma demo_blk:
  assumes "length its = 16" and "\<forall>i \<in> set its. ext2_inode_ok i" and "n < 16"
  shows "dsk ram_blk (demo_fs its) n = demo_block its n"
  using take_drop_concat_const [of "[0..<16]" "demo_block its" 1024 n] demo_block_length [OF assms(1,2)] assms(3)
  by (simp add: dsk_def ram_blk_def demo_fs_def demo_dev_def demo_sb_def)

lemma demo_geom:
  "BS (demo_fs its) = 1024" "NB (demo_fs its) = 16" "NI (demo_fs its) = 16" "FD (demo_fs its) = 8"
  "bitmap_blocks (demo_fs its) = 1" "table_start (demo_fs its) = 4" "table_blocks (demo_fs its) = 4"
  by (simp_all add: demo_fs_def demo_sb_def bitmap_blocks_def table_start_def table_blocks_def)

lemma demo_fs_ok:
  assumes "length its = 16" and "\<forall>i \<in> set its. ext2_inode_ok i"
  shows "fs_ok ram_good (demo_fs its)"
proof -
  have "ram_good 1024 16 (demo_dev its)"
    using length_concat_const [of "[0..<16]" "demo_block its" 1024] demo_block_length [OF assms]
    by (simp add: ram_good_def demo_dev_def)
  then show ?thesis using assms demo_sb_ok demo_geom [of its]
    by (simp add: fs_ok_def sb_wf_def) (simp add: demo_fs_def)
qed

lemma demo_synced:
  assumes "length its = 16" and "\<forall>i \<in> set its. ext2_inode_ok i"
  shows "synced ram_blk (demo_fs its)"
  unfolding synced_def demo_geom
proof (intro conjI allI impI)
  note d = demo_blk [OF assms]
  have fld: "fs_sb (demo_fs its) = demo_sb" "block_bitmap (demo_fs its) = [255, 0]" "inode_bitmap (demo_fs its) = [0, 0]"
    "inode_table (demo_fs its) = its" by (simp_all add: demo_fs_def)
  show "dsk ram_blk (demo_fs its) 1 = pad 1024 (ext2_superblock_bytes (fs_sb (demo_fs its)))"
    using d [of 1] by (simp add: demo_block_def fld)
  show "dsk ram_blk (demo_fs its) (2 + i) = bm_chunk (demo_fs its) i" if "i < 1" for i
    using d [of 2] that demo_geom(1) [of its] by (simp add: demo_block_def bm_chunk_def fld)
  show "dsk ram_blk (demo_fs its) (2 + 1) = pad 1024 (inode_bitmap (demo_fs its))"
    using d [of 3] by (simp add: demo_block_def fld)
  fix n :: nat assume n: "n < 16"
  let ?q = "n div 4" and ?r = "n mod 4"
  have blk: "inode_blk (demo_fs its) (n + 1) = 4 + ?q" "inode_off (demo_fs its) (n + 1) = ?r * 256"
    unfolding inode_blk_def inode_off_def demo_geom
    using div_mult_mult2 [of 256 n 4] mult_mod_left [of n 4 256] by simp_all
  have q: "?q < 4" using n by simp
  have dd: "dsk ram_blk (demo_fs its) (4 + ?q) = concat (map ext2_inode_bytes (take 4 (drop (4 * ?q) its)))"
    using d [of "4 + ?q"] q by (simp add: demo_block_def)
  have len: "length (take 4 (drop (4 * ?q) its)) = 4" using assms(1) q by simp
  have nth: "take 4 (drop (4 * ?q) its) ! ?r = its ! n" using assms(1) n by simp
  have "take 256 (drop (?r * 256) (concat (map ext2_inode_bytes (take 4 (drop (4 * ?q) its))))) =
      ext2_inode_bytes (take 4 (drop (4 * ?q) its) ! ?r)"
    by (rule take_drop_concat_const) (use assms(2) len in \<open>auto dest!: in_set_takeD in_set_dropD intro: length_inode_bytes\<close>)
  then show "take 256 (drop (inode_off (demo_fs its) (n + 1)) (dsk ram_blk (demo_fs its) (inode_blk (demo_fs its) (n + 1)))) =
      ext2_inode_bytes (inode_table (demo_fs its) ! n)"
    unfolding blk dd nth fld .
qed

lemma dec_array_zeros [simp]: "dec_array w n (replicate m 0) = replicate n 0"
  by (induction n arbitrary: m) simp_all

lemma zero_inode_simps [simp]:
  "i_block zero_inode = replicate 15 0" "i_size zero_inode = 0" "i_mode zero_inode = 0" "i_uid zero_inode = 0" "i_gid zero_inode = 0"
  by (simp_all add: zero_inode_def ext2_inode_of_def field_def take_drop_replicate)

lemma node_blk_zero: "node_valid p x \<Longrightarrow> node_blk D (replicate 15 0) x = 0"
  by (cases x) simp_all

lemma demo_files_ok: "files_ok ram_good ram_blk (demo_fs (replicate 16 zero_inode))"
proof -
  have "nmap ram_blk (demo_fs (replicate 16 zero_inode)) k = 0" for k
    using demo_geom [of "replicate 16 zero_inode"]
    by (cases k) (auto simp: nmap_def nodes_def iblocks_def demo_fs_def node_blk_zero)
  then show ?thesis using demo_fs_ok [of "replicate 16 zero_inode"] by (simp add: files_ok_def inj_nodes_def)
qed

section \<open>Properties\<close>

text \<open>
  C20. Block allocation never hands out a block that a file refers to: the block returned lies
  in the data area, was unmarked, is marked afterwards, is the lowest unmarked one, and
  belongs to no inode's block tree; the files are as before. Zero is returned only when every
  data block is marked.
\<close>

theorem ext2_alloc_block_fresh:
  assumes "files_ok ram_good ram_blk fs"
  shows "\<exists>b fs'. ext2_alloc_block fs = Some (b, fs') \<and>
    (if b = 0 then fs' = fs \<and> (\<forall>j. FD fs \<le> j \<and> j < NB fs \<longrightarrow> bit_used (block_bitmap fs) j)
     else FD fs \<le> unat b \<and> unat b < NB fs \<and> \<not> bit_used (block_bitmap fs) (unat b) \<and> bit_used (block_bitmap fs') (unat b) \<and>
       (\<forall>j. FD fs \<le> j \<and> j < unat b \<longrightarrow> bit_used (block_bitmap fs) j) \<and>
       (\<forall>k. nmap ram_blk fs k \<noteq> b) \<and> files_ok ram_good ram_blk fs' \<and> nmap ram_blk fs' = nmap ram_blk fs)"
proof -
  obtain b fs' where a: "ext2_alloc_block fs = Some (b, fs')"
    "if b = 0 then fs' = fs \<and> (\<forall>j. FD fs \<le> j \<and> j < NB fs \<longrightarrow> bit_used (block_bitmap fs) j)
     else files_ok ram_good ram_blk fs' \<and> fresh ram_blk fs' b \<and> grows ram_blk 0 fs fs' \<and> nmap ram_blk fs' = nmap ram_blk fs \<and>
       inode_table fs' = inode_table fs \<and> heap_replies fs' = heap_replies fs"
    using ram.alloc_step [OF assms] by blast
  obtain c fs'' where "ext2_alloc_block fs = Some (c, fs'')"
    "if c = 0 then fs'' = fs \<and> (\<forall>j. FD fs \<le> j \<and> j < NB fs \<longrightarrow> bit_used (block_bitmap fs) j)
     else FD fs \<le> unat c \<and> unat c < NB fs \<and> \<not> bit_used (block_bitmap fs) (unat c) \<and>
       (\<forall>j. FD fs \<le> j \<and> j < unat c \<longrightarrow> bit_used (block_bitmap fs) j) \<and> fs_ok ram_good fs'' \<and>
       (\<exists>bm. fs'' = upd_sb (\<lambda>sb. sb\<lparr>sb_free_blocks := sb_free_blocks sb - 1\<rparr>) (fs\<lparr>block_bitmap := bm\<rparr>) \<and>
         (\<forall>j. bit_used bm j \<longleftrightarrow> j = unat c \<or> bit_used (block_bitmap fs) j))"
    using alloc_block [OF files_okD(1) [OF assms]] by blast
  moreover have "nmap ram_blk fs k \<noteq> b" if "b \<noteq> 0" for k using a that by (metis fresh_def)
  ultimately show ?thesis using a by (cases "b = 0") (simp_all add: fresh_def)
qed

lemma demo_witness_fs:
  "files_ok ram_good ram_blk (demo_fs (replicate 16 zero_inode))" "synced ram_blk (demo_fs (replicate 16 zero_inode))"
  "no_fail (demo_fs its)" "max_bytes (demo_fs its) = 67383296" "inode_table (demo_fs its) = its"
  using demo_files_ok demo_synced [of "replicate 16 zero_inode"]
  by (simp_all add: no_fail_def max_bytes_def demo_geom) (simp_all add: demo_fs_def)

theorem ext2_alloc_block_fresh_witness:
  "\<exists>b fs'. ext2_alloc_block (demo_fs (replicate 16 zero_inode)) = Some (b, fs') \<and>
     (b = 0 \<or> 8 \<le> unat b \<and> unat b < 16 \<and> \<not> bit_used [255, 0] (unat b) \<and> files_ok ram_good ram_blk fs')"
proof -
  have "block_bitmap (demo_fs its) = [255, 0]" for its by (simp add: demo_fs_def)
  then show ?thesis using ext2_alloc_block_fresh [OF demo_files_ok] by (auto simp: demo_geom split: if_splits)
qed

text \<open>
  C3. Writing to a regular file returns the number of bytes written, which is less than
  requested only if every data block is in use afterwards. The written range then reads back
  as the caller's bytes, through direct, indirect and double indirect blocks; bytes of the
  file outside the range, and every other file, keep their contents; the size becomes the
  maximum of the old size and the end of the range; and files stay disjoint.
\<close>

theorem ext2_write_then_read:
  assumes "files_ok ram_good ram_blk fs" and "no_fail fs" and "1 \<le> unat n" and "unat n < NI fs"
    and "\<not> is_dir (inode_table fs ! (unat n - 1))"
    and "unat off + unat sz < 2 ^ 32" and "unat off + unat sz \<le> max_bytes fs" and "unat sz \<le> length buf"
  shows "\<exists>w fs'. ext2_write n off sz buf fs = Some (int w, fs') \<and> w \<le> unat sz \<and> (w < unat sz \<longrightarrow> full fs') \<and>
    files_ok ram_good ram_blk fs' \<and> wrote ram_blk (unat n) (unat off) w buf fs fs' \<and>
    (\<forall>b. w = unat sz \<and> 0 < unat sz \<and> unat sz \<le> length b \<longrightarrow>
       (\<exists>fs''. ext2_read n off sz b fs' = Some (int (unat sz), take (unat sz) buf @ drop (unat sz) b, fs'')))"
proof -
  obtain w fs' where w: "ext2_write n off sz buf fs = Some (int w, fs')" "w \<le> unat sz" "w < unat sz \<longrightarrow> full fs'"
    "files_ok ram_good ram_blk fs'" "no_fail fs'" "wrote ram_blk (unat n) (unat off) w buf fs fs'"
    using ram.write_file [OF assms] by blast
  have ni: "NI fs' = NI fs" using w(6) by (auto simp: wrote_def)
  have len: "unat n - 1 < length (inode_table fs)" using assms(4) fs_okD(5) [OF files_okD(1) [OF assms(1)]] by linarith
  have "\<exists>fs''. ext2_read n off sz b fs' = Some (int (unat sz), take (unat sz) buf @ drop (unat sz) b, fs'')"
    if "w = unat sz" "0 < unat sz" "unat sz \<le> length b" for b
    using ram.read_back [OF w(4,5) assms(3) _ _ refl refl assms(6) that(2) assms(8) that(3) len] w(6) that(1) ni assms(4) by simp
  then show ?thesis using w by blast
qed

theorem ext2_write_then_read_witness:
  "\<exists>w fs'. ext2_write 12 0 2 [104, 105] (demo_fs (replicate 16 zero_inode)) = Some (int w, fs') \<and> w \<le> 2 \<and>
     (w < 2 \<longrightarrow> full fs') \<and>
     (w = 2 \<longrightarrow> (\<exists>fs''. ext2_read 12 0 2 [0, 0] fs' = Some (2, [104, 105], fs'')))"
proof -
  let ?fs = "demo_fs (replicate 16 zero_inode)"
  have d: "\<not> is_dir (inode_table ?fs ! (unat (12 :: u32) - 1))"
    by (simp add: demo_witness_fs(5) is_dir_def EXT2_S_IFDIR_def)
  have "1 \<le> unat (12 :: u32)" "unat (12 :: u32) < NI ?fs" "unat (0 :: u32) + unat (2 :: u64) < 2 ^ 32"
    "unat (0 :: u32) + unat (2 :: u64) \<le> max_bytes ?fs" "unat (2 :: u64) \<le> length [104, 105 :: u8]"
    by (simp_all add: demo_geom demo_witness_fs(4))
  from ext2_write_then_read [OF demo_witness_fs(1,3) this(1,2) d this(3,4,5)]
  obtain w fs' where w: "ext2_write 12 0 2 [104, 105] ?fs = Some (int w, fs')" "w \<le> unat (2 :: u64)" "w < unat (2 :: u64) \<longrightarrow> full fs'"
    and r: "\<And>b. w = unat (2 :: u64) \<Longrightarrow> 0 < unat (2 :: u64) \<Longrightarrow> unat (2 :: u64) \<le> length b \<Longrightarrow>
      \<exists>fs''. ext2_read 12 0 2 b fs' = Some (int (unat (2 :: u64)), take (unat (2 :: u64)) [104, 105] @ drop (unat (2 :: u64)) b, fs'')"
    by blast
  show ?thesis using w r [of "[0, 0]"] by auto
qed

text \<open>
  C21. What was written survives a reboot: after a complete write to a file of a file system
  whose metadata is on the disk, mounting the device into any state of the kernel's file
  system structure succeeds and reading the range returns the caller's bytes.
\<close>

theorem ext2_write_survives_remount:
  assumes "files_ok ram_good ram_blk fs" and "no_fail fs" and "synced ram_blk fs" and "1 \<le> unat n" and "unat n < NI fs"
    and "\<not> is_dir (inode_table fs ! (unat n - 1))"
    and "sb_magic (fs_sb fs) = EXT2_MAGIC" and "sb_version (fs_sb fs) = 1" and "sb_log_block_size (fs_sb fs) = 0"
    and "fs_bs fs = 1024"
    and "unat off + unat sz \<le> max_bytes fs" and "0 < unat sz" and "unat sz \<le> length buf" and "unat sz \<le> length b"
    and "no_fail fs0" and "length (g_ext2_sb_buffer fs0) = 1024"
  shows "\<exists>w fs'. ext2_write n off sz buf fs = Some (int w, fs') \<and>
    (w < unat sz \<longrightarrow> full fs') \<and>
    (w = unat sz \<longrightarrow> (\<exists>fs1 fs2. ext2_mount (fs_device fs') fs0 = Some (0, fs1) \<and>
       ext2_read n off sz b fs1 = Some (int (unat sz), take (unat sz) buf @ drop (unat sz) b, fs2)))"
proof -
  have "BS fs = 1024" using assms(10) by simp
  then have lt: "unat off + unat sz < 2 ^ 32" using assms(11) by (simp add: max_bytes_def)
  obtain w fs' where w: "ext2_write n off sz buf fs = Some (int w, fs')" "w \<le> unat sz" "w < unat sz \<longrightarrow> full fs'"
    "files_ok ram_good ram_blk fs'" "no_fail fs'" "wrote ram_blk (unat n) (unat off) w buf fs fs'" "synced ram_blk fs'"
    using ram.write_file [OF assms(1,2,4,5,6) lt assms(11,13)] assms(3) by blast
  obtain f where sb: "fs_sb fs' = (fs_sb fs)\<lparr>sb_free_blocks := f\<rparr>" using w(6) by (auto simp: wrote_def)
  have "\<exists>fs1. ext2_mount (fs_device fs') fs0 = Some (0, fs1) \<and> fs_device fs1 = fs_device fs' \<and> fs_sb fs1 = fs_sb fs' \<and>
    block_bitmap fs1 = block_bitmap fs' \<and> inode_bitmap fs1 = inode_bitmap fs' \<and> inode_table fs1 = inode_table fs' \<and> no_fail fs1"
    by (rule ram.mount_restores [OF files_okD(1) [OF w(4)] w(7)]) (use assms sb in simp_all)
  then obtain fs1 where m: "ext2_mount (fs_device fs') fs0 = Some (0, fs1)" "fs_device fs1 = fs_device fs'" "fs_sb fs1 = fs_sb fs'"
    "block_bitmap fs1 = block_bitmap fs'" "inode_bitmap fs1 = inode_bitmap fs'" "inode_table fs1 = inode_table fs'" "no_fail fs1"
    by blast
  note s = same_files(1) [OF m(2-6), of ram_good ram_blk] same_files(2) [OF m(2-6), of ram_blk]
  have len: "unat n - 1 < length (inode_table fs)" using assms(5) fs_okD(5) [OF files_okD(1) [OF assms(1)]] by linarith
  have "\<exists>fs2. ext2_read n off sz b fs1 = Some (int (unat sz), take (unat sz) buf @ drop (unat sz) b, fs2)" if "w = unat sz"
    by (rule ram.read_back [OF _ m(7) assms(4) _ _ s(2) m(6) lt assms(12,13,14) len])
      (use w(4,6) s(1) m(3) sb assms(5) that in simp_all)
  then show ?thesis using w(1,3) m(1) by blast
qed

theorem ext2_write_survives_remount_witness:
  "\<exists>w fs'. ext2_write 12 0 2 [104, 105] (demo_fs (replicate 16 zero_inode)) = Some (int w, fs') \<and> (w < 2 \<longrightarrow> full fs') \<and>
     (w = 2 \<longrightarrow> (\<exists>fs1 fs2. ext2_mount (fs_device fs') (demo_fs []) = Some (0, fs1) \<and>
        ext2_read 12 0 2 [0, 0] fs1 = Some (2, [104, 105], fs2)))"
proof -
  let ?fs = "demo_fs (replicate 16 zero_inode)"
  have sb: "fs_sb ?fs = demo_sb" "length (g_ext2_sb_buffer (demo_fs [])) = 1024" by (simp_all add: demo_fs_def)
  have d: "\<not> is_dir (inode_table ?fs ! (unat (12 :: u32) - 1))"
    by (simp add: demo_witness_fs(5) is_dir_def EXT2_S_IFDIR_def)
  have m: "sb_magic (fs_sb ?fs) = EXT2_MAGIC" "sb_version (fs_sb ?fs) = 1" "sb_log_block_size (fs_sb ?fs) = 0" "fs_bs ?fs = 1024"
    by (simp_all add: sb demo_sb_def)
  have "1 \<le> unat (12 :: u32)" "unat (12 :: u32) < NI ?fs"
    "unat (0 :: u32) + unat (2 :: u64) \<le> max_bytes ?fs" "0 < unat (2 :: u64)" "unat (2 :: u64) \<le> length [104, 105 :: u8]"
    "unat (2 :: u64) \<le> length [0, 0 :: u8]"
    by (simp_all add: demo_geom demo_witness_fs(4))
  from ext2_write_survives_remount [OF demo_witness_fs(1,3,2) this(1,2) d m this(3-6) demo_witness_fs(3) sb(2)]
  show ?thesis by simp
qed

lemma read_size_pos:
  fixes off s :: u32 and sz :: u64
  assumes "off < s" and "0 < sz"
  shows "0 < (if ucast off + sz > (ucast s :: u64) then ucast (s - off) else sz)"
proof -
  have "s - off \<noteq> 0" using assms(1) by auto
  then have "(ucast (s - off) :: u64) \<noteq> 0" by (rule ucast_nonzero)
  then show ?thesis using assms(2) by (simp add: word_neq_0_conv)
qed

text \<open>The index into the double indirect table that a position below its range leads to.\<close>

lemma l1_underflow:
  assumes wf: "sb_wf fs" and bi: "12 \<le> unat bi" "unat bi < 12 + ptrs fs"
  shows "ptrs fs \<le> unat ((bi - 12 - fs_bs fs div 4) div (fs_bs fs div 4))"
proof -
  note p = ptrs_words [OF wf] and w = block_index_words [OF wf, of bi]
  let ?x = "bi - 12" and ?p = "fs_bs fs div 4"
  have x: "unat ?x < unat ?p" using bi w(4) p(1) by simp
  have c: "BS fs = 1024 \<or> BS fs = 2048 \<or> BS fs = 4096" by (rule sb_wfD(1) [OF wf])
  have "unat (?x - ?p) = 4294967296 + unat ?x - unat ?p" using x by (simp add: unat_sub_if')
  then have "4294966272 \<le> unat (?x - ?p)" using p(1,4) by linarith
  then have "4294966272 div ptrs fs \<le> unat (?x - ?p) div ptrs fs" by (rule div_le_mono)
  moreover have "ptrs fs \<le> 4294966272 div ptrs fs" using c by auto
  ultimately show ?thesis using p(1) unat_div [of "?x - ?p" ?p] by simp
qed

text \<open>
  C29. A sparse file breaks reading: when an inode has a double indirect table but no
  indirect table, reading at a position that the indirect table would cover makes
  \<open>ext2_read\<close> fall through to the double indirect case, where the index wraps around and the
  read of the table leaves its buffer.
\<close>

theorem ext2_read_sparse_out_of_bounds:
  assumes "fs_ok ram_good fs" and "no_fail fs" and "1 \<le> unat n" and "unat n < NI fs"
    and "i_block (inode_table fs ! (unat n - 1)) ! 12 = 0" and "i_block (inode_table fs ! (unat n - 1)) ! 13 \<noteq> 0"
    and "unat (i_block (inode_table fs ! (unat n - 1)) ! 13) < NB fs"
    and "off < i_size (inode_table fs ! (unat n - 1))" and "0 < sz"
    and "12 \<le> unat off div BS fs" and "unat off div BS fs < 12 + ptrs fs"
  shows "ext2_read n off sz buf fs = None"
proof -
  let ?i = "inode_table fs ! (unat n - 1)"
  note wf = fs_okD(1) [OF assms(1)]
  have nle: "unat n \<le> NI fs" and nge: "\<not> n \<ge> sb_inodes_count (fs_sb fs)" using assms(4) by (simp_all add: word_le_nat_alt)
  have o: "\<not> off \<ge> i_size ?i" using assms(8) by simp
  define s where "s = (if ucast off + sz > (ucast (i_size ?i) :: u64) then ucast (i_size ?i - off) else sz)"
  have s: "0 < s" using read_size_pos [OF assms(8,9)] by (simp add: s_def)
  obtain bb rs where k: "fs_kmalloc (BS fs) fs = (Some bb, fs\<lparr>heap_replies := rs\<rparr>)" "length bb = BS fs"
    "no_fail (fs\<lparr>heap_replies := rs\<rparr>)" using fs_kmalloc_ok [OF assms(2)] .
  let ?g = "fs\<lparr>heap_replies := rs\<rparr>"
  obtain t rs2 where k2: "fs_kmalloc (BS fs) ?g = (Some t, ?g\<lparr>heap_replies := rs2\<rparr>)" "length t = BS fs" using fs_kmalloc_ok [OF k(3)] .
  let ?bi = "ucast ((ucast off + 0) div ucast (fs_bs fs) :: u64) :: u32"
  have lt: "unat off + unat (0 :: u64) < 2 ^ 32" by simp
  have "unat ?bi = unat off div BS fs" using pos_words(2) [OF wf lt] by simp
  then have bi: "12 \<le> unat ?bi" "unat ?bi < 12 + ptrs fs" using assms(10,11) by simp_all
  note w = block_index_words [OF wf, of ?bi] and p = ptrs_words [OF wf]
  have nz: "ucast (fs_bs fs) \<noteq> (0 :: u64)" by (rule ucast_nonzero [OF sb_wfD(5) [OF wf]])
  have rd: "ext2_read_block (fs\<lparr>heap_replies := rs2\<rparr>) (i_block ?i ! 13) t = Some (0, dsk ram_blk fs (unat (i_block ?i ! 13)))"
    using ram.read_block [of "fs\<lparr>heap_replies := rs2\<rparr>" "i_block ?i ! 13" t] assms(1,7) k2(2) by simp
  have len: "length (dsk ram_blk fs (unat (i_block ?i ! 13))) = BS fs" by (rule ram.dsk_length [OF assms(1,7)])
  have "BS fs \<le> 4 * unat ((?bi - 12 - fs_bs fs div 4) div (fs_bs fs div 4))"
    using l1_underflow [OF wf bi] sb_wfD(1) [OF wf] by auto
  then have tg: "tab_get (dsk ram_blk fs (unat (i_block ?i ! 13))) ((?bi - 12 - fs_bs fs div 4) div (fs_bs fs div 4)) = None"
    using len by (simp add: tab_get_def slice_def)
  let ?v = "\<lparr>rv_buffer = buf, rv_read = 0, rv_indirect = None, rv_dind = None, rv_dind_l2 = None, rv_l2_cached = 0\<rparr>"
  have "read_map ?i ?bi ?v ?g = None"
    using w bi assms(5,6) k2(1) rd tg p(3) by (simp add: read_map_def Let_def)
  then have "read_loop ?i off s bb ?v ?g = None"
    using s nz by (subst read_loop.simps) (simp add: Let_def)
  moreover have "ext2_read n off sz buf fs = do { (v, fs) \<leftarrow> read_loop ?i off s bb ?v ?g; Some (sint (rv_read v), rv_buffer v, fs) }"
    using nge o k(1) unfolding s_def by (simp add: ext2_read_def Let_def inode_at_eq [OF assms(1,3) nle])
  ultimately show ?thesis by simp
qed

definition demo_sparse :: ext2_inode where
  "demo_sparse = zero_inode\<lparr>i_size := 300000, i_block := (replicate 15 0)[13 := 9]\<rparr>"

theorem ext2_read_sparse_out_of_bounds_witness:
  "ext2_read 12 20000 4 [0, 0, 0, 0] (demo_fs ((replicate 16 zero_inode)[11 := demo_sparse])) = None"
proof -
  let ?its = "(replicate 16 zero_inode)[11 := demo_sparse]"
  have "ext2_inode_ok demo_sparse" using zero_inode_ok by (simp add: demo_sparse_def ext2_inode_ok_def)
  then have "\<forall>i \<in> set ?its. ext2_inode_ok i" using set_update_subset_insert [of "replicate 16 zero_inode" 11 demo_sparse] by auto
  then have ok: "fs_ok ram_good (demo_fs ?its)" by (intro demo_fs_ok) simp_all
  have "inode_table (demo_fs ?its) ! (unat (12 :: u32) - 1) = demo_sparse" by (simp add: demo_witness_fs(5))
  then show ?thesis
    by (intro ext2_read_sparse_out_of_bounds [OF ok demo_witness_fs(3)]) (simp_all add: demo_geom demo_sparse_def)
qed

text \<open>
  C30. A read that starts in a hole among the first twelve blocks of a file, which the inode
  points to directly, and that stays within the file returns 0, as at the end of the file, although
  the file continues: the buffer is filled with zeros but none of them is counted.
\<close>

theorem ext2_read_hole_returns_zero:
  assumes "fs_ok ram_good fs" and "no_fail fs" and "1 \<le> unat n" and "unat n < NI fs"
    and "unat off div BS fs < 12" and "i_block (inode_table fs ! (unat n - 1)) ! (unat off div BS fs) = 0"
    and "unat off + unat sz \<le> unat (i_size (inode_table fs ! (unat n - 1)))" and "0 < unat sz" and "unat sz \<le> length buf"
  shows "\<exists>fs'. ext2_read n off sz buf fs = Some (0, replicate (unat sz) 0 @ drop (unat sz) buf, fs')"
proof -
  let ?i = "inode_table fs ! (unat n - 1)"
  note wf = fs_okD(1) [OF assms(1)]
  have nle: "unat n \<le> NI fs" and nge: "\<not> n \<ge> sb_inodes_count (fs_sb fs)" using assms(4) by (simp_all add: word_le_nat_alt)
  have o: "\<not> off \<ge> i_size ?i" using assms(7,8) by (simp add: word_le_nat_alt)
  have "unat off + unat sz < 2 ^ 32" using assms(7) by (rule le_less_trans) simp
  then have "unat (ucast off + sz) = unat off + unat sz" by (subst unat_add_exact) simp_all
  then have s: "\<not> ucast off + sz > (ucast (i_size ?i) :: u64)" using assms(7) by (simp add: word_less_nat_alt)
  have s0: "0 < sz" using assms(8) by (simp add: word_less_nat_alt)
  obtain bb rs where k: "fs_kmalloc (BS fs) fs = (Some bb, fs\<lparr>heap_replies := rs\<rparr>)" using fs_kmalloc_ok [OF assms(2)] by metis
  let ?bi = "ucast ((ucast off + 0) div ucast (fs_bs fs) :: u64) :: u32"
  have lt: "unat off + unat (0 :: u64) < 2 ^ 32" by simp
  have bi: "unat ?bi = unat off div BS fs" using pos_words(2) [OF wf lt] by simp
  have bi12: "?bi < 12" using bi assms(5) by (simp add: word_less_nat_alt)
  have nz: "ucast (fs_bs fs) \<noteq> (0 :: u64)" by (rule ucast_nonzero [OF sb_wfD(5) [OF wf]])
  let ?v = "\<lparr>rv_buffer = buf, rv_read = 0, rv_indirect = None, rv_dind = None, rv_dind_l2 = None, rv_l2_cached = 0\<rparr>"
  have "read_map ?i ?bi ?v (fs\<lparr>heap_replies := rs\<rparr>) = Some (0, ?v, fs\<lparr>heap_replies := rs\<rparr>)"
    using bi12 assms(6) unfolding read_map_def Let_def bi by simp
  then have "read_loop ?i off sz bb ?v (fs\<lparr>heap_replies := rs\<rparr>) =
      Some (?v\<lparr>rv_buffer := replicate (unat sz) 0 @ drop (unat sz) buf\<rparr>, fs\<lparr>heap_replies := rs\<rparr>)"
    using s0 nz assms(9) by (subst read_loop.simps) (simp add: Let_def blit_def)
  then show ?thesis
    using nge o s k by (simp add: ext2_read_def Let_def inode_at_eq [OF assms(1,3) nle])
qed

theorem ext2_read_hole_returns_zero_witness:
  "\<exists>fs'. ext2_read 12 2000 4 [1, 2, 3, 4] (demo_fs ((replicate 16 zero_inode)[11 := zero_inode\<lparr>i_size := 20004\<rparr>])) =
     Some (0, [0, 0, 0, 0], fs')"
proof -
  let ?its = "(replicate 16 zero_inode)[11 := zero_inode\<lparr>i_size := 20004\<rparr>]"
  have "ext2_inode_ok (zero_inode\<lparr>i_size := 20004\<rparr>)" using zero_inode_ok by (simp add: ext2_inode_ok_def)
  then have "\<forall>i \<in> set ?its. ext2_inode_ok i"
    using set_update_subset_insert [of "replicate 16 zero_inode" 11 "zero_inode\<lparr>i_size := 20004\<rparr>"] by auto
  then have ok: "fs_ok ram_good (demo_fs ?its)" by (intro demo_fs_ok) simp_all
  have i: "inode_table (demo_fs ?its) ! (unat (12 :: u32) - 1) = zero_inode\<lparr>i_size := 20004\<rparr>" by (simp add: demo_witness_fs(5))
  have "\<exists>fs'. ext2_read 12 2000 4 [1, 2, 3, 4] (demo_fs ?its) =
      Some (0, replicate (unat (4 :: u64)) 0 @ drop (unat (4 :: u64)) [1, 2, 3, 4], fs')"
    by (rule ext2_read_hole_returns_zero [OF ok demo_witness_fs(3)]) (unfold i, simp_all add: demo_geom)
  moreover have "unat (4 :: u64) = 4" "replicate 4 (0 :: u8) = [0, 0, 0, 0]" by (simp, simp add: numeral_eq_Suc)
  ultimately show ?thesis by simp
qed



end
