(* ===== verification/Vfs_Correct.thy ===== *)
theory Vfs_Correct
  imports Vfs_Overlay Ext2_Paths Ext2_Correct
begin

text \<open>
  The properties of the virtual file system: the overlay as a store of files under any sequence of
  operations, files on the mounted disk written and read through their paths, the permission checks,
  and the merged directory listing.
\<close>

section \<open>Sequences of operations on the overlay\<close>

text \<open>
  An operation, with what a caller passes; a read uses a zeroed buffer of the requested size. The
  value is the result and the bytes a read returned.
\<close>

datatype overlay_op =
    OCreate "u8 list"
  | OUnlink "u8 list"
  | OWrite "u8 list" u64 "u8 list"
  | OWriteAll "u8 list" "u8 list"
  | ORead "u8 list" u64 u64

fun vfs_step :: "u32 \<Rightarrow> overlay_op \<Rightarrow> 'c vfs \<Rightarrow> ((int \<times> u8 list) \<times> 'c vfs) option" where
  "vfs_step uid (OCreate p) v = do { (r, v) \<leftarrow> vfs_create uid (Some p) v; Some ((r, []), v) }"
| "vfs_step uid (OUnlink p) v = do { (r, v) \<leftarrow> vfs_unlink uid (Some p) v; Some ((r, []), v) }"
| "vfs_step uid (OWrite p off bs) v = do { (r, v) \<leftarrow> vfs_write uid (Some p) off bs (of_nat (length bs)) v; Some ((r, []), v) }"
| "vfs_step uid (OWriteAll p bs) v = do { (r, v) \<leftarrow> vfs_write_all uid (Some p) bs (of_nat (length bs)) v; Some ((r, []), v) }"
| "vfs_step uid (ORead p off n) v =
     do { (r, b, v) \<leftarrow> vfs_read (Some p) off (Some (replicate (unat n) 0)) n v; Some ((r, take (nat r) (the b)), v) }"

text \<open>
  The sums of offset and count that the code forms must not wrap around, and a write begins
  within the 8192 bytes a file can have.
\<close>

fun op_ok :: "overlay_op \<Rightarrow> bool" where
  "op_ok (OWrite p off bs) \<longleftrightarrow> unat off \<le> 8192 \<and> unat off + length bs < 2 ^ 64"
| "op_ok (OWriteAll p bs) \<longleftrightarrow> length bs < 2 ^ 64"
| "op_ok (ORead p off n) \<longleftrightarrow> unat off + unat n < 2 ^ 64"
| "op_ok _ \<longleftrightarrow> True"

text \<open>The files built into the kernel, by their paths without case.\<close>

definition embedded :: "'c vfs \<Rightarrow> files" where
  "embedded v p =
     (let q = map ascii_lower p in
      if q = ascii ''/bin/sh'' then Some (user_sh v) else if q = ascii ''/bin/edit'' then Some (user_edit v)
      else if q = ascii ''/etc/motd'' then Some g_motd_data else None)"

definition embedded_path :: "u8 list \<Rightarrow> bool" where
  "embedded_path p \<longleftrightarrow> list_ex (string_equals_ci p) [ascii ''/bin/sh'', ascii ''/bin/edit'', ascii ''/etc/motd'']"

text \<open>The abstract operation: result and bytes, the files before and the files after.\<close>

fun spec_step :: "files \<Rightarrow> overlay_op \<Rightarrow> files \<Rightarrow> int \<times> u8 list \<Rightarrow> files \<Rightarrow> bool" where
  "spec_step e (OCreate p) m a m' \<longleftrightarrow>
     (if length p < 64 then m' = snd (spec_create p m) \<and> a = (fst (spec_create p m), []) else m' = m \<and> a = (-1, []))"
| "spec_step e (OUnlink p) m a m' \<longleftrightarrow> m' = snd (spec_unlink p m) \<and> a = (fst (spec_unlink p m), [])"
| "spec_step e (OWrite p off bs) m a m' \<longleftrightarrow> spec_write p (unat off) bs m (fst a) m' \<and> snd a = []"
| "spec_step e (OWriteAll p bs) m a m' \<longleftrightarrow> m' = snd (spec_write_all p bs m) \<and> a = (fst (spec_write_all p bs m), [])"
| "spec_step e (ORead p off n) m a m' \<longleftrightarrow> m' = m \<and>
     (case spec_read p (unat off) (unat n) (m ++ e) of None \<Rightarrow> a = (-1, []) | Some bs \<Rightarrow> a = (int (length bs), bs))"

fun vfs_run :: "u32 \<Rightarrow> overlay_op list \<Rightarrow> 'c vfs \<Rightarrow> ((int \<times> u8 list) list \<times> 'c vfs) option" where
  "vfs_run uid [] v = Some ([], v)"
| "vfs_run uid (x # xs) v = do { (a, v) \<leftarrow> vfs_step uid x v; (as, v) \<leftarrow> vfs_run uid xs v; Some (a # as, v) }"

fun spec_run :: "files \<Rightarrow> overlay_op list \<Rightarrow> files \<Rightarrow> (int \<times> u8 list) list \<Rightarrow> files \<Rightarrow> bool" where
  "spec_run e [] m out m' \<longleftrightarrow> out = [] \<and> m' = m"
| "spec_run e (x # xs) m out m' \<longleftrightarrow> (\<exists>a as m1. out = a # as \<and> spec_step e x m a m1 \<and> spec_run e xs m1 as m')"

lemma string_equals_ci_iff: "string_equals_ci a b \<longleftrightarrow> map ascii_lower a = map ascii_lower b"
  by (induction a b rule: string_equals_ci.induct) auto

lemma vfs_lookup_none: "vfs_lookup (Some p) v = None \<longleftrightarrow> \<not> embedded_path p"
  by (simp add: vfs_lookup_def g_vfs_files_def embedded_path_def)

lemma lower_paths:
  "map ascii_lower (ascii ''/bin/sh'') = ascii ''/bin/sh''" "map ascii_lower (ascii ''/bin/edit'') = ascii ''/bin/edit''"
  "map ascii_lower (ascii ''/etc/motd'') = ascii ''/etc/motd''"
  by (simp_all add: ascii_def of_char_def ascii_lower_def)

lemma embedded_lookup: "embedded v p = map_option f_data (vfs_lookup (Some p) v)"
  by (simp add: embedded_def vfs_lookup_def g_vfs_files_def string_equals_ci_iff lower_paths Let_def)

lemma take_overwrite_front: "length bs \<le> length b \<Longrightarrow> take (length bs) (overwrite b 0 bs) = bs"
  by (simp add: overwrite_def)

lemma read_embedded_refines:
  fixes off n :: u64
  assumes "length (f_data f) < 2 ^ 63" and "unat n \<le> length b"
  defines "bs \<equiv> take (unat n) (drop (unat off) (f_data f))"
  shows "read_embedded f off b n = Some (int (length bs), overwrite b 0 bs)"
proof -
  have s: "unat (vfs_file_size (Some f)) = length (f_data f)"
    using assms(1) by (simp add: vfs_file_size_def unat_of_nat)
  show ?thesis
  proof (cases "vfs_file_size (Some f) \<le> off")
    case True
    then have "bs = []" using s by (simp add: bs_def word_le_nat_alt)
    then show ?thesis using True by (simp add: read_embedded_def overwrite_def Let_def)
  next
    case False
    let ?n = "if n < vfs_file_size (Some f) - off then n else vfs_file_size (Some f) - off"
    have av: "unat (vfs_file_size (Some f) - off) = length (f_data f) - unat off"
      using False s by (subst unat_sub_exact) (simp_all add: word_le_nat_alt)
    then have c: "unat ?n = length bs" by (auto simp: bs_def word_less_nat_alt)
    have lt: "unat off < length (f_data f)" using False s by (simp add: word_le_nat_alt)
    have "slice (f_data f) (unat off) (unat ?n) = Some bs"
      unfolding c slice_def using lt by (auto simp: bs_def min_def)
    moreover have "blit b 0 bs = Some (overwrite b 0 bs)" using assms(2) by (intro blit_overwrite) (simp add: bs_def)
    moreover have "sint ?n = int (length bs)" using c assms(1) sint_unat [of ?n] by (simp add: bs_def)
    ultimately show ?thesis using False by (simp add: read_embedded_def Let_def)
  qed
qed

definition embedded_ok :: "'c vfs \<Rightarrow> bool" where
  "embedded_ok v \<longleftrightarrow> length (user_sh v) < 2 ^ 63 \<and> length (user_edit v) < 2 ^ 63"

lemma embedded_length: "embedded_ok v \<Longrightarrow> vfs_lookup (Some p) v = Some f \<Longrightarrow> length (f_data f) < 2 ^ 63"
  by (auto simp: vfs_lookup_def g_vfs_files_def embedded_ok_def g_motd_data_def ascii_def split: if_splits)

lemma step_refines:
  assumes ok: "overlay_ok v" and em: "embedded_ok v" and x: "op_ok x"
  shows "\<exists>a us. vfs_step uid x v = Some (a, v\<lparr>g_user_files := us\<rparr>) \<and> overlay_ok (v\<lparr>g_user_files := us\<rparr>) \<and>
    spec_step (embedded v) x (ram_files v) a (ram_files (v\<lparr>g_user_files := us\<rparr>))"
proof (cases x)
  case (OCreate p)
  show ?thesis
  proof (cases "length p < 64")
    case True
    then show ?thesis using create_user_refines [OF ok, of p] vfs_create_overlay [OF ok True] OCreate
      by (cases "spec_create p (ram_files v)") fastforce
  next
    case False
    then show ?thesis using OCreate ok by (intro exI [of _ "(-1, [])"] exI [of _ "g_user_files v"]) (simp add: vfs_create_def)
  qed
next
  case (OUnlink p)
  then show ?thesis using vfs_unlink_refines [OF ok, of p _ _ uid] by (cases "spec_unlink p (ram_files v)") fastforce
next
  case (OWrite p off bs)
  then have h: "unat off \<le> 8192" "unat off + length bs < 2 ^ 64" "unat (of_nat (length bs) :: u64) = length bs"
    using x by (simp_all add: unat_of_nat)
  then show ?thesis using vfs_write_refines [OF ok h(1), of "of_nat (length bs)" bs uid p] OWrite by fastforce
next
  case (OWriteAll p bs)
  then have h: "unat (of_nat (length bs) :: u64) = length bs" using x by (simp add: unat_of_nat)
  then show ?thesis using vfs_write_all_refines [OF ok, of "of_nat (length bs)" bs p _ _ uid] OWriteAll
    by (cases "spec_write_all p bs (ram_files v)") fastforce
next
  case (ORead p off n)
  let ?b = "replicate (unat n) (0 :: u8)"
  have front: "take (length bs) (overwrite ?b 0 bs) = bs" if "length bs \<le> unat n" for bs
    using take_overwrite_front [of bs ?b] that by simp
  show ?thesis
  proof (cases "vfs_lookup (Some p) v")
    case None
    then have e: "embedded v p = None" by (simp add: embedded_lookup)
    have r: "spec_read p (unat off) (unat n) (ram_files v ++ embedded v) = spec_read p (unat off) (unat n) (ram_files v)"
      using e by (simp add: spec_read_def map_add_def)
    note vr = vfs_read_refines [OF ok None, of off n ?b]
    show ?thesis
    proof (cases "spec_read p (unat off) (unat n) (ram_files v)")
      case n: None
      then show ?thesis using vr x ok ORead r by (intro exI [of _ "(-1, [])"] exI [of _ "g_user_files v"]) simp
    next
      case (Some bs)
      then have "length bs \<le> unat n" by (auto simp: spec_read_def)
      then show ?thesis using Some vr x ok ORead r front [of bs]
        by (intro exI [of _ "(int (length bs), bs)"] exI [of _ "g_user_files v"]) simp
    qed
  next
    case (Some f)
    let ?bs = "take (unat n) (drop (unat off) (f_data f))"
    have "vfs_step uid x v = Some ((int (length ?bs), ?bs), v)"
      using Some ORead read_embedded_refines [OF embedded_length [OF em Some], of n ?b off] front [of ?bs]
      by (simp add: vfs_read_def)
    moreover have "spec_read p (unat off) (unat n) (ram_files v ++ embedded v) = Some ?bs"
      using Some by (simp add: spec_read_def embedded_lookup map_add_def)
    ultimately show ?thesis using ok ORead
      by (intro exI [of _ "(int (length ?bs), ?bs)"] exI [of _ "g_user_files v"]) simp
  qed
qed

text \<open>
  C9. Without a mounted disk the virtual file system is a store of at most 32 files of at most
  8192 bytes with names under 64 bytes, over the three files built into the kernel, which hide a
  file of the store from reading. Any sequence of creating, removing, writing, rewriting and reading
  files, in which no sum of an offset and a count wraps around and no write starts above
  8192, runs to its end for every user, and gives the results and the bytes that it gives on a
  finite map from paths to contents; the overlay stays consistent and represents the resulting
  map. Names that are too long, a full store and missing files give the map's errors; a write
  behind the end leaves a gap whose bytes are not determined.
\<close>

theorem vfs_overlay_refines_map:
  assumes "overlay_ok v" and "embedded_ok v" and "list_all op_ok ops"
  shows "\<exists>out v'. vfs_run uid ops v = Some (out, v') \<and> overlay_ok v' \<and>
    spec_run (embedded v) ops (ram_files v) out (ram_files v')"
  using assms
proof (induction ops arbitrary: v)
  case (Cons x xs)
  then obtain a us where s: "vfs_step uid x v = Some (a, v\<lparr>g_user_files := us\<rparr>)" "overlay_ok (v\<lparr>g_user_files := us\<rparr>)"
    "spec_step (embedded v) x (ram_files v) a (ram_files (v\<lparr>g_user_files := us\<rparr>))"
    using step_refines [of v x uid] by auto
  have e: "embedded (v\<lparr>g_user_files := us\<rparr>) = embedded v" "embedded_ok (v\<lparr>g_user_files := us\<rparr>)"
    using Cons.prems(2) by (auto simp: embedded_def Let_def embedded_ok_def intro!: ext)
  then obtain out v' where "vfs_run uid xs (v\<lparr>g_user_files := us\<rparr>) = Some (out, v')" "overlay_ok v'"
    "spec_run (embedded v) xs (ram_files (v\<lparr>g_user_files := us\<rparr>)) out (ram_files v')"
    using Cons.IH [OF s(2)] Cons.prems(3) by auto
  then show ?case using s(1,3) by (intro exI [of _ "a # out"] exI [of _ v']) auto
qed simp

definition empty_overlay :: "unit vfs" where
  "empty_overlay = \<lparr>g_user_files = replicate 32 \<lparr>uf_path = [], uf_data = replicate 8192 0, uf_size = 0, uf_used = False\<rparr>,
     g_ext2 = None, user_sh = [1], user_edit = [2]\<rparr>"

lemma empty_overlay_ok: "overlay_ok empty_overlay" "ram_files empty_overlay = Map.empty"
proof -
  show "overlay_ok empty_overlay"
    by (simp add: overlay_ok_def empty_overlay_def user_ok_def VFS_USER_MAX_SIZE_def list_all_iff)
  have "dom (ram_files empty_overlay) = {}" unfolding dom_ram_files by (simp add: empty_overlay_def)
  then show "ram_files empty_overlay = Map.empty" by (simp add: dom_eq_empty_conv)
qed

lemma spec_known:
  assumes "m p = Some c"
  shows "spec_step e (OWrite p off bs) m a m' \<longleftrightarrow> (\<exists>g. length g = unat off - length c \<and>
      a = (int (length (take (8192 - unat off) bs)), []) \<and> m' = m(p \<mapsto> written (unat off) g (take (8192 - unat off) bs) c))"
    "e p = None \<Longrightarrow> spec_step e (ORead p off n) m a m' \<longleftrightarrow> m' = m \<and>
      a = (int (length (take (unat n) (drop (unat off) c))), take (unat n) (drop (unat off) c))"
    "spec_step e (OWriteAll p bs) m a m' \<longleftrightarrow> a = (int (length (take 8192 bs)), []) \<and> m' = m(p \<mapsto> take 8192 bs)"
    "spec_step e (OUnlink p) m a m' \<longleftrightarrow> a = (0, []) \<and> m' = m(p := None)"
  using assms by (cases a; auto simp: spec_write_def spec_write_all_def spec_unlink_def spec_read_def writable_def content_def Let_def
      map_add_def)+

theorem vfs_overlay_refines_map_witness:
  "\<exists>v' g. vfs_run 7 [OWrite (ascii ''/a'') 0 [1, 2, 3], ORead (ascii ''/a'') 1 10, OWrite (ascii ''/a'') 4 [9], ORead (ascii ''/a'') 2 3,
      OWriteAll (ascii ''/a'') [8], OUnlink (ascii ''/a''), ORead (ascii ''/a'') 0 1, ORead (ascii ''/Bin/SH'') 0 4] empty_overlay =
    Some ([(3, []), (2, [2, 3]), (1, []), (3, [3, g, 9]), (1, []), (0, []), (-1, []), (1, [1])], v') \<and> overlay_ok v'"
proof -
  let ?ops = "\<lambda>p q. [OWrite p 0 [1, 2, 3], ORead p 1 10, OWrite p 4 [9], ORead p 2 3, OWriteAll p [8], OUnlink p, ORead p 0 1, ORead q 0 4]"
  have "embedded_ok empty_overlay" "list_all op_ok (?ops (ascii ''/a'') (ascii ''/Bin/SH''))"
    by (simp_all add: embedded_ok_def empty_overlay_def)
  note main = vfs_overlay_refines_map [OF empty_overlay_ok(1) this, of 7, unfolded empty_overlay_ok(2)]
  obtain out v' where r: "vfs_run 7 (?ops (ascii ''/a'') (ascii ''/Bin/SH'')) empty_overlay = Some (out, v')" "overlay_ok v'"
    "spec_run (embedded empty_overlay) (?ops (ascii ''/a'') (ascii ''/Bin/SH'')) Map.empty out (ram_files v')" using main by blast
  have "\<exists>g. out = [(3, []), (2, [2, 3]), (1, []), (3, [3, g, 9]), (1, []), (0, []), (-1, []), (1, [1])]"
    if "spec_run e (?ops p q) Map.empty out m" "length p < 64" "e p = None" "e q = Some [1]" for e p q m
  proof -
    have w: "spec_step e (OWrite p 0 [1, 2, 3]) Map.empty a m1 \<longleftrightarrow> a = (3, []) \<and> m1 = [p \<mapsto> [1, 2, 3]]" for a m1
      using that(2) by (cases a) (auto simp: spec_write_def writable_def content_def written_def Let_def)
    have none: "spec_step e (ORead p 0 1) Map.empty a m1 \<longleftrightarrow> a = (-1, []) \<and> m1 = Map.empty" for a m1
      using that(3) by (auto simp: spec_read_def map_add_def)
    have emb: "spec_step e (ORead q 0 4) Map.empty a m1 \<longleftrightarrow> a = (1, [1]) \<and> m1 = Map.empty" for a m1
      using that(4) by (auto simp: spec_read_def map_add_def)
    show ?thesis using that(1,3)
      by (auto simp: w none emb spec_known written_def length_Suc_conv simp del: spec_step.simps)
  qed
  moreover have "embedded empty_overlay (ascii ''/a'') = None" "embedded empty_overlay (ascii ''/Bin/SH'') = Some [1]" "length (ascii ''/a'') < 64"
    by (simp_all add: embedded_def Let_def ascii_def of_char_def ascii_lower_def empty_overlay_def)
  ultimately show ?thesis using r by metis
qed

text \<open>
  C33. A write to an existing overlay file at an offset above 8192 leaves the file's array: the
  clipped count \<open>VFS_USER_MAX_SIZE - offset\<close> wraps around, and the offset itself is not checked.
\<close>

theorem vfs_write_offset_out_of_bounds:
  assumes "overlay_ok v" and "p \<in> dom (ram_files v)" and "off > VFS_USER_MAX_SIZE"
  shows "vfs_write uid (Some p) off buf count v = None"
proof -
  obtain i where i: "find_index (named p) (g_user_files v) = Some i" using assms(2) by (auto simp: ram_files_def)
  have "i < 32" using find_index_Some(1) [OF i] overlay_okD(2) [OF assms(1)] by simp
  then have "length (uf_data (g_user_files v ! i)) = 8192" using overlay_okD(3) [OF assms(1)] by (simp add: user_ok_def)
  moreover have "unat off > 8192" using assms(3) by (simp add: VFS_USER_MAX_SIZE_def word_less_nat_alt)
  ultimately have "blit (uf_data (g_user_files v ! i)) (unat off) bs = None" for bs by (simp add: blit_def)
  then have "user_write i off buf count v = None" by (simp add: user_write_def Let_def bind_eq_None_conv)
  then show ?thesis using i overlay_okD(1) [OF assms(1)] by (simp add: vfs_write_def user_target_def find_user_file_named)
qed

definition one_file :: "unit vfs" where
  "one_file = \<lparr>g_user_files = \<lparr>uf_path = ascii ''/a'', uf_data = replicate 8192 0, uf_size = 0, uf_used = True\<rparr> #
       replicate 31 \<lparr>uf_path = [], uf_data = replicate 8192 0, uf_size = 0, uf_used = False\<rparr>,
     g_ext2 = None, user_sh = [1], user_edit = [2]\<rparr>"

lemma one_file_ok: "overlay_ok one_file" "ascii ''/a'' \<in> dom (ram_files one_file)"
proof -
  show "overlay_ok one_file" by (simp add: overlay_ok_def one_file_def user_ok_def VFS_USER_MAX_SIZE_def list_all_iff)
  show "ascii ''/a'' \<in> dom (ram_files one_file)" unfolding dom_ram_files by (simp add: one_file_def)
qed

theorem vfs_write_offset_out_of_bounds_witness: "vfs_write 0 (Some (ascii ''/a'')) 8193 [65] 1 one_file = None"
  by (rule vfs_write_offset_out_of_bounds [OF one_file_ok]) (simp add: VFS_USER_MAX_SIZE_def)

section \<open>A disk with one file\<close>

text \<open>
  The small formatted disk with a root directory of mode 755, whose block 8 holds one entry, the
  file \<open>a\<close> of mode 644 that user 5 owns.
\<close>

definition demo_table :: "ext2_inode list" where
  "demo_table = (replicate 16 zero_inode)
     [1 := zero_inode\<lparr>i_mode := 0x41ED, i_size := 1024, i_block := (replicate 15 0)[0 := 8]\<rparr>,
      11 := zero_inode\<lparr>i_mode := 0x81A4, i_uid := 5\<rparr>]"

definition demo_entry :: "u8 list" where
  "demo_entry = [12, 0, 0, 0, 0, 4, 1, 1, 97]"

definition demo_root :: "unit ext2_filesystem" where
  "demo_root =
     (case ext2_write_block (demo_fs demo_table\<lparr>block_bitmap := [255, 1]\<rparr>) 8 (pad 1024 demo_entry) of
        Some (_, fs) \<Rightarrow> fs | None \<Rightarrow> demo_fs demo_table)"

lemma demo_table_simps:
  "length demo_table = 16" "\<forall>i \<in> set demo_table. ext2_inode_ok i"
  "demo_table ! 11 = zero_inode\<lparr>i_mode := 0x81A4, i_uid := 5\<rparr>"
  "demo_table ! Suc 0 = zero_inode\<lparr>i_mode := 0x41ED, i_size := 1024, i_block := (replicate 15 0)[0 := 8]\<rparr>"
proof -
  show "\<forall>i \<in> set demo_table. ext2_inode_ok i"
    using zero_inode_ok unfolding ext2_inode_ok_def demo_table_def
    by (auto simp: in_set_conv_nth nth_list_update)
qed (simp_all add: demo_table_def)

lemma demo_root_disk:
  obtains d where "demo_root = demo_fs demo_table\<lparr>block_bitmap := [255, 1], fs_device := d\<rparr>" "fs_ok ram_good demo_root"
    "dsk ram_blk demo_root 8 = pad 1024 demo_entry"
proof -
  let ?fs = "demo_fs demo_table\<lparr>block_bitmap := [255, 1]\<rparr>"
  have "fs_ok ram_good ?fs"
    using demo_fs_ok [OF demo_table_simps(1,2)] demo_geom [of demo_table]
    by (simp add: fs_ok_def sb_wf_def bitmap_blocks_def table_start_def table_blocks_def)
  moreover have "unat (8 :: u32) < NB ?fs" "length (pad 1024 demo_entry) = BS ?fs"
    using pad_simps(1) [of demo_entry 1024] by (simp_all add: demo_geom demo_entry_def)
  ultimately obtain d where "ext2_write_block ?fs 8 (pad 1024 demo_entry) = Some (0, ?fs\<lparr>fs_device := d\<rparr>)"
    "fs_ok ram_good (?fs\<lparr>fs_device := d\<rparr>)"
    "dsk ram_blk (?fs\<lparr>fs_device := d\<rparr>) = (dsk ram_blk ?fs)(unat (8 :: u32) := pad 1024 demo_entry)"
    using ram.write_block [of ?fs 8 "pad 1024 demo_entry"] by blast
  then show ?thesis using that [of d] by (simp add: demo_root_def)
qed

lemma demo_root_fields:
  "inode_table demo_root = demo_table" "BS demo_root = 1024" "NB demo_root = 16" "NI demo_root = 16" "FD demo_root = 8"
  "block_bitmap demo_root = [255, 1]" "heap_replies demo_root = []" "no_fail demo_root" "fs_sb demo_root = demo_sb"
proof -
  obtain d where d: "demo_root = demo_fs demo_table\<lparr>block_bitmap := [255, 1], fs_device := d\<rparr>" by (rule demo_root_disk)
  show "inode_table demo_root = demo_table" "BS demo_root = 1024" "NB demo_root = 16" "NI demo_root = 16" "FD demo_root = 8"
  "block_bitmap demo_root = [255, 1]" "heap_replies demo_root = []" "no_fail demo_root" "fs_sb demo_root = demo_sb"
    unfolding d using demo_geom [of demo_table] demo_witness_fs(5) [of demo_table]
    by (simp_all add: no_fail_def) (simp_all add: demo_fs_def)
qed

lemma demo_root_files: "files_ok ram_good ram_blk demo_root"
proof -
  have ok: "fs_ok ram_good demo_root" by (rule demo_root_disk)
  have blocks: "i_block (demo_table ! k) = (if k = 1 then (replicate 15 0)[0 := 8] else replicate 15 0)" if "k < 16" for k
    using that by (simp add: demo_table_def nth_list_update)
  have nm: "nmap ram_blk demo_root k = (if k = (2, Slot 0) then 8 else 0)" for k
  proof (cases k)
    case (Pair n x)
    show ?thesis
    proof (cases "1 \<le> n \<and> n \<le> 16 \<and> node_valid 256 x")
      case True
      then have "nmap ram_blk demo_root k = node_blk (dsk ram_blk demo_root) (i_block (demo_table ! (n - 1))) x"
        using Pair by (simp add: nmap_def nodes_def demo_root_fields(1-8) iblocks_def)
      moreover have "n - 1 < 16" "n - 1 = 1 \<longleftrightarrow> n = 2" using True by auto
      ultimately show ?thesis using Pair True blocks [of "n - 1"]
        by (cases x) (auto simp: nth_list_update ptr_def)
    next
      case False
      then show ?thesis using Pair by (auto simp: nmap_def nodes_def demo_root_fields(1-8))
    qed
  qed
  then show ?thesis using ok unfolding files_ok_def nm
    by (auto simp: inj_nodes_def demo_root_fields(1-8) bit_used_def split: if_splits)
qed

lemma demo_lookup:
  "ext2_lookup_inode (Some (ascii ''/a'')) demo_root = Some (12, demo_root)"
  "ext2_lookup_inode (Some (ascii ''/'')) demo_root = Some (2, demo_root)"
proof -
  have rd: "ext2_read_block demo_root 8 (replicate 1024 0) = Some (0, pad 1024 demo_entry)"
  proof -
    have "fs_ok ram_good demo_root" "dsk ram_blk demo_root 8 = pad 1024 demo_entry" using demo_root_disk by blast+
    then show ?thesis using ram.read_block [of demo_root 8 "replicate 1024 0"] by (simp add: demo_root_fields(1-8))
  qed
  have pad: "pad 1024 demo_entry = demo_entry @ replicate 1015 0"
    by (simp add: pad_def overwrite_def demo_entry_def)
  have "find_scan (pad 1024 demo_entry) 1024 1024 [97] 0 = Some (Some 12)"
    unfolding pad by (subst find_scan.simps)
      (simp add: demo_entry_def de_inode_def de_name_len_def de_name_def slice_def cstr_def)
  moreover have "take 12 ((replicate 15 0)[0 := 8]) = 8 # replicate 11 (0 :: u32)" by (simp add: numeral_eq_Suc)
  ultimately have f: "find_entry_in_dir 2 [97] demo_root = Some (12, demo_root)"
    using rd by (simp add: find_entry_in_dir_def demo_root_fields demo_sb_def inode_at_def demo_table_simps is_dir_def
        EXT2_S_IFMT_def EXT2_S_IFDIR_def fs_kmalloc_def)
  have p: "parse_path_component [47, 97] 256 = (Some [97], [])" "parse_path_component [] 256 = (None, [])"
    by (simp_all add: parse_path_component_def SLASH_def)
  show "ext2_lookup_inode (Some (ascii ''/a'')) demo_root = Some (12, demo_root)"
    using f p by (simp add: ext2_lookup_inode_def ascii_def of_char_def SLASH_def lookup_step EXT2_ROOT_INODE_def)
  show "ext2_lookup_inode (Some (ascii ''/'')) demo_root = Some (2, demo_root)"
    by (simp add: ext2_lookup_inode_def ascii_def of_char_def SLASH_def EXT2_ROOT_INODE_def)
qed

section \<open>Files on the mounted disk\<close>

text \<open>
  C22. Writing and reading an existing file through its path: let a consistent disk be mounted and
  a path resolve to a regular file of the disk that neither an embedded nor an overlay file hides.
  Then \<open>vfs_write\<close> returns a number of bytes that is less than requested only on a full disk, and
  every path resolves afterwards to the inode it resolved to before. When the write was
  complete, \<open>vfs_read\<close> of the range through the same path returns the bytes written.
\<close>

theorem vfs_write_then_read:
  assumes "g_ext2 v = Some fs" and "files_ok ram_good ram_blk fs" and "no_fail fs"
    and "ext2_lookup_inode (Some p) fs = Some (n, fs1)" and "p \<noteq> []" and "hd p = SLASH"
    and "1 \<le> unat n" and "unat n < NI fs" and "\<not> is_dir (inode_table fs ! (unat n - 1))"
    and "\<not> embedded_path p" and "ram_files v p = None"
    and "unat off + unat sz < 2 ^ 32" and "unat off + unat sz \<le> max_bytes fs"
    and "0 < unat sz" and "unat sz \<le> length buf" and "unat sz \<le> length b"
  shows "\<exists>w v' fs'. vfs_write uid (Some p) off buf sz v = Some (int w, v') \<and> g_ext2 v' = Some fs' \<and>
    w \<le> unat sz \<and> (w < unat sz \<longrightarrow> full fs') \<and> files_ok ram_good ram_blk fs' \<and>
    (\<forall>q i f. ext2_lookup_inode q fs = Some (i, f) \<longrightarrow> (\<exists>f'. ext2_lookup_inode q fs' = Some (i, f'))) \<and>
    (w = unat sz \<longrightarrow> (\<exists>v''. vfs_read (Some p) off (Some b) sz v' =
       Some (int w, Some (take (unat sz) buf @ drop (unat sz) b), v'')))"
proof -
  note f = files_okD(1) [OF assms(2)]
  let ?off = "ucast off :: u32"
  have off: "unat ?off = unat off" using assms(12) by (simp add: unsigned_ucast_eq take_bit_nat_eq_self)
  obtain rs where fs1: "fs1 = fs\<lparr>heap_replies := rs\<rparr>" using lookup_frame [OF assms(4)] by blast
  have nf1: "no_fail fs1"
    using ram.lookup_same [OF f f assms(3,3) ram.same_dirs_refl [OF assms(2)] assms(4)] by blast
  have ok1: "files_ok ram_good ram_blk fs1" using assms(2) by (simp add: fs1)
  have w1: "unat n < NI fs1" "\<not> is_dir (inode_table fs1 ! (unat n - 1))" "unat ?off + unat sz < 2 ^ 32"
    "unat ?off + unat sz \<le> max_bytes fs1"
    using assms(8,9,12,13) off by (simp_all add: fs1 max_bytes_def)
  obtain w fs' where w: "ext2_write n ?off sz buf fs1 = Some (int w, fs')" "w \<le> unat sz" "w < unat sz \<longrightarrow> full fs'"
    "files_ok ram_good ram_blk fs'" "no_fail fs'" "wrote ram_blk (unat n) (unat ?off) w buf fs1 fs'"
    using ram.write_file [OF ok1 nf1 assms(7) w1(1,2,3,4) assms(15)] by blast
  have "same_dirs ram_blk fs1 fs'" using ram.wrote_same_dirs [OF ok1 w(4,6) assms(7)] w1 by simp
  then have sd: "same_dirs ram_blk fs fs'" by (simp add: fs1 same_dirs_def)
  note look = ram.lookup_same [OF f files_okD(1) [OF w(4)] assms(3) w(5) sd]
  have n0: "n \<noteq> 0" using assms(7) by auto
  let ?v = "v\<lparr>g_ext2 := Some fs'\<rparr>"
  have wr: "vfs_write uid (Some p) off buf sz v = Some (int w, ?v)"
    using assms(1,4,5,6) n0 w(1) by (simp add: vfs_write_def ext2_path_write_def)
  have "\<exists>v''. vfs_read (Some p) off (Some b) sz ?v = Some (int w, Some (take (unat sz) buf @ drop (unat sz) b), v'')" if wz: "w = unat sz"
  proof -
    obtain rs' where l: "ext2_lookup_inode (Some p) fs' = Some (n, fs'\<lparr>heap_replies := rs'\<rparr>)" "no_fail (fs'\<lparr>heap_replies := rs'\<rparr>)"
      using look [OF assms(4)] by blast
    have ok2: "files_ok ram_good ram_blk (fs'\<lparr>heap_replies := rs'\<rparr>)" using w(4) by simp
    have ni: "NI fs' = NI fs1" "unat n - 1 < length (inode_table fs1)"
      using w(6) w1(1) fs_okD(5) [OF files_okD(1) [OF ok1]] by (auto simp: wrote_def)
    have "\<exists>fs''. ext2_read n ?off sz b (fs'\<lparr>heap_replies := rs'\<rparr>) = Some (int (unat sz), take (unat sz) buf @ drop (unat sz) b, fs'')"
      by (rule ram.read_back [OF ok2 l(2) assms(7) _ w(6) [unfolded wz] _ _ w1(3) assms(14-16) ni(2)]) (use ni w1(1) in \<open>simp_all add: fun_eq_iff\<close>)
    moreover have "find_user_file (Some p) ?v = Some None"
      using assms(11) by (simp add: find_user_file_named ram_files_def)
    moreover have "vfs_lookup (Some p) ?v = None" using assms(10) by (simp add: vfs_lookup_none)
    ultimately show ?thesis using l(1) n0 wz by (auto simp: vfs_read_def)
  qed
  then show ?thesis using wr w look by fastforce
qed


definition demo_vfs :: "unit vfs" where
  "demo_vfs = empty_overlay\<lparr>g_ext2 := Some demo_root\<rparr>"

lemma demo_vfs_simps: "g_ext2 demo_vfs = Some demo_root" "ram_files demo_vfs p = None"
  using empty_overlay_ok(2) by (simp_all add: demo_vfs_def ram_files_def fun_eq_iff)

lemma demo_a: "ascii ''/a'' = [47, 97]" "\<not> embedded_path (ascii ''/a'')"
  by (simp_all add: ascii_def of_char_def embedded_path_def ascii_lower_def)

lemma demo_a_file: "\<not> is_dir (inode_table demo_root ! (unat (12 :: u32) - 1))"
  by (simp add: demo_root_fields demo_table_simps is_dir_def EXT2_S_IFMT_def EXT2_S_IFDIR_def)

theorem vfs_write_then_read_witness:
  "\<exists>w v' fs'. vfs_write 5 (Some (ascii ''/a'')) 0 [104, 105] 2 demo_vfs = Some (int w, v') \<and> g_ext2 v' = Some fs' \<and> w \<le> 2 \<and>
     (w < 2 \<longrightarrow> full fs') \<and> (\<exists>f. ext2_lookup_inode (Some (ascii ''/'')) fs' = Some (2, f)) \<and>
     (w = 2 \<longrightarrow> (\<exists>v''. vfs_read (Some (ascii ''/a'')) 0 (Some [0, 0]) 2 v' = Some (2, Some [104, 105], v'')))"
proof -
  have h: "ascii ''/a'' \<noteq> []" "hd (ascii ''/a'') = SLASH" "1 \<le> unat (12 :: u32)" "unat (12 :: u32) < NI demo_root"
    "unat (0 :: u64) + unat (2 :: u64) < 2 ^ 32" "unat (0 :: u64) + unat (2 :: u64) \<le> max_bytes demo_root"
    "0 < unat (2 :: u64)" "unat (2 :: u64) \<le> length [104, 105 :: u8]" "unat (2 :: u64) \<le> length [0, 0 :: u8]"
    by (simp_all add: demo_a SLASH_def demo_root_fields(1-8) max_bytes_def)
  from vfs_write_then_read [OF demo_vfs_simps(1) demo_root_files demo_root_fields(8) demo_lookup(1) h(1-4) demo_a_file demo_a(2)
      demo_vfs_simps(2) h(5-9), of 5]
  show ?thesis using demo_lookup(2) by force
qed

section \<open>Permissions\<close>

lemma bit_0x1FF: "bit (0x1FF :: u16) n \<longleftrightarrow> n < 9"
proof -
  have e: "(0x1FF :: u16) = mask 9" by (simp add: mask_eq_exp_minus_1)
  show ?thesis unfolding e bit_mask_iff by auto
qed

lemma bit_6: "bit (6 :: u16) n \<longleftrightarrow> n = 1 \<or> n = 2"
proof -
  have e: "(6 :: u16) = push_bit 1 (mask 2)" by (simp add: mask_eq_exp_minus_1)
  show ?thesis unfolding e bit_push_bit_iff bit_mask_iff by auto
qed

lemma and_six: "x AND 6 = 6 \<longleftrightarrow> bit x 1 \<and> bit x 2" for x :: u16
proof
  assume "x AND 6 = 6"
  then have "bit x n \<and> bit (6 :: u16) n \<longleftrightarrow> bit (6 :: u16) n" for n by (metis bit_and_iff)
  then show "bit x 1 \<and> bit x 2" unfolding bit_6 by blast
next
  assume "bit x 1 \<and> bit x 2"
  then show "x AND 6 = 6" by (intro bit_eqI) (unfold bit_and_iff bit_6, blast)
qed

lemma bit_mode: "bit ((m AND NOT 0x1FF) OR (mode AND 0x1FF)) k = (if k < 9 then bit mode k else bit m k)" for m mode :: u16
  unfolding bit_or_iff bit_and_iff bit_not_iff bit_0x1FF by (auto dest: bit_imp_possible_bit)

text \<open>
  The permission bits of a file for a user, who is the owner or one of the others: bit 2 is
  reading, bit 1 writing and bit 0 executing.
\<close>

definition allows :: "ext2_inode \<Rightarrow> u32 \<Rightarrow> nat \<Rightarrow> bool" where
  "allows i uid b \<longleftrightarrow> bit (i_mode i) (if uid = ucast (i_uid i) then b + 6 else b)"

lemma perm_ok_rw: "perm_ok i uid 6 \<longleftrightarrow> uid = 0 \<or> allows i uid 2 \<and> allows i uid 1"
  unfolding perm_ok_def Let_def and_six allows_def bit_drop_bit_eq bit_and_iff bit_0x1FF comp_def by (auto simp: numeral_2_eq_2)

text \<open>
  C32. The comments at \<open>vfs_create\<close>, \<open>vfs_unlink\<close> and \<open>vfs_mkdir\<close> say that they check write and
  execute permission on the parent directory. What decides is read and write permission. For a
  user other than root, a parent that the user may write and execute but not read makes all
  three return \<open>-EACCES\<close> with nothing changed but the state of the kernel heap; and a parent that
  the user may read and write but not execute lets all three do exactly what they do for root.
\<close>

theorem vfs_parent_check_wrong_bits:
  assumes "g_ext2 v = Some fs" and "p \<noteq> []" and "hd p = SLASH" and "length p < 64"
    and "ext2_lookup_inode (Some (parent_dir p 64)) fs = Some (d, fs1)" and "d \<noteq> 0" and "d < sb_inodes_count (fs_sb fs)"
    and "inode_at fs d = Some i" and "uid \<noteq> 0"
  shows "(allows i uid 1 \<and> allows i uid 0 \<and> \<not> allows i uid 2 \<longrightarrow>
      (\<exists>rs. let r = Some (- 13, v\<lparr>g_ext2 := Some (fs\<lparr>heap_replies := rs\<rparr>)\<rparr>) in
        vfs_create uid (Some p) v = r \<and> vfs_unlink uid (Some p) v = r \<and> vfs_mkdir uid (Some p) v = r)) \<and>
    (allows i uid 2 \<and> allows i uid 1 \<and> \<not> allows i uid 0 \<longrightarrow>
      vfs_create uid (Some p) v = vfs_create 0 (Some p) v \<and> vfs_unlink uid (Some p) v = vfs_unlink 0 (Some p) v \<and>
      vfs_mkdir uid (Some p) v = vfs_mkdir 0 (Some p) v)"
proof -
  obtain rs where rs: "fs1 = fs\<lparr>heap_replies := rs\<rparr>" using lookup_frame [OF assms(5)] by blast
  have "inode_at fs1 d = inode_at fs d" by (simp add: inode_at_def rs)
  then have "ext2_stat d fs1 = Some (0, Some i)" using assms(7,8) by (simp add: ext2_stat_def rs)
  then have ok: "vfs_access_ok u (parent_dir p 64) 6 v = Some (u = 0 \<or> allows i u 2 \<and> allows i u 1, v\<lparr>g_ext2 := Some fs1\<rparr>)" for u
    using assms(1,5,6) by (simp add: vfs_access_ok_def perm_ok_rw)
  have "vfs_create uid (Some p) v = r \<and> vfs_unlink uid (Some p) v = r \<and> vfs_mkdir uid (Some p) v = r"
    if "\<not> allows i uid 2" "r = Some (- 13, v\<lparr>g_ext2 := Some (fs\<lparr>heap_replies := rs\<rparr>)\<rparr>)" for r
    using that ok [of uid] assms(1-4,9) rs by (simp add: vfs_create_def vfs_unlink_def vfs_mkdir_def)
  moreover have "vfs_create uid (Some p) v = vfs_create 0 (Some p) v \<and> vfs_unlink uid (Some p) v = vfs_unlink 0 (Some p) v \<and>
      vfs_mkdir uid (Some p) v = vfs_mkdir 0 (Some p) v" if "allows i uid 2" "allows i uid 1"
    using that ok [of uid] ok [of 0] assms(1-4) by (simp add: vfs_create_def vfs_unlink_def vfs_mkdir_def)
  ultimately show ?thesis unfolding Let_def by blast
qed

text \<open>The disk with another mode for its root directory.\<close>

definition root_mode :: "u16 \<Rightarrow> unit vfs" where
  "root_mode m = demo_vfs\<lparr>g_ext2 := Some (demo_root\<lparr>inode_table := demo_table[1 := (demo_table ! 1)\<lparr>i_mode := m\<rparr>]\<rparr>)\<rparr>"

theorem vfs_parent_check_wrong_bits_witness:
  "(\<exists>v. vfs_create 7 (Some (ascii ''/n'')) (root_mode 0x41DB) = Some (- 13, v)) \<and>
   vfs_create 7 (Some (ascii ''/n'')) (root_mode 0x41F6) = vfs_create 0 (Some (ascii ''/n'')) (root_mode 0x41F6)"
proof -
  let ?fs = "\<lambda>m. demo_root\<lparr>inode_table := demo_table[1 := (demo_table ! 1)\<lparr>i_mode := m\<rparr>]\<rparr>"
  let ?i = "\<lambda>m. (demo_table ! 1)\<lparr>i_mode := m\<rparr>"
  have n: "ascii ''/n'' = [47, 110]" by (simp add: ascii_def of_char_def)
  have h: "ascii ''/n'' \<noteq> []" "hd (ascii ''/n'') = SLASH" "length (ascii ''/n'') < 64" "(7 :: u32) \<noteq> 0"
    by (simp_all add: n SLASH_def)
  have par: "parent_dir (ascii ''/n'') 64 = [47]" by (simp add: parent_dir_def n last_slash_def SLASH_def)
  have g: "g_ext2 (root_mode m) = Some (?fs m)" for m by (simp add: root_mode_def)
  have l: "ext2_lookup_inode (Some (parent_dir (ascii ''/n'') 64)) (?fs m) = Some (2, ?fs m)" for m
    unfolding par by (simp add: ext2_lookup_inode_def SLASH_def EXT2_ROOT_INODE_def)
  have i: "inode_at (?fs m) 2 = Some (?i m)" "2 < sb_inodes_count (fs_sb (?fs m))" for m
    by (simp_all add: inode_at_def demo_root_fields demo_table_simps(1) demo_sb_def)
  note main = vfs_parent_check_wrong_bits [OF g h(1-3) l _ i(2,1) h(4)]
  have "allows (?i 0x41DB) 7 1" "allows (?i 0x41DB) 7 0" "\<not> allows (?i 0x41DB) 7 2"
    "allows (?i 0x41F6) 7 2" "allows (?i 0x41F6) 7 1" "\<not> allows (?i 0x41F6) 7 0"
    by (simp_all add: allows_def demo_table_simps)
  then show ?thesis using main [of "0x41DB"] main [of "0x41F6"] by (auto simp: Let_def)
qed

text \<open>Changing an inode in the table and writing it back, where its blocks stay.\<close>

lemma inode_change_written:
  assumes ok1: "files_ok ram_good ram_blk fs1" and nf1: "no_fail fs1" and n: "1 \<le> unat n" "unat n \<le> NI fs1"
    and f: "\<And>i. i_block (f i) = i_block i" "\<And>i. ext2_inode_ok i \<Longrightarrow> ext2_inode_ok (f i)"
  shows "\<exists>fs2 fs'. upd_inode n f fs1 = Some fs2 \<and> ext2_write_inode n fs2 = Some (0, fs') \<and>
    files_ok ram_good ram_blk fs' \<and> inode_table fs' = (inode_table fs1)[unat n - 1 := f (inode_table fs1 ! (unat n - 1))] \<and>
    (\<forall>j pos. fbyte ram_blk fs' j pos = fbyte ram_blk fs1 j pos) \<and>
    take 256 (drop (inode_off fs1 (unat n)) (dsk ram_blk fs' (inode_blk fs1 (unat n)))) = ext2_inode_bytes (inode_table fs' ! (unat n - 1))"
proof -
  obtain fs2 where u: "upd_inode n f fs1 = Some fs2"
    "fs2 = fs1\<lparr>inode_table := (inode_table fs1)[unat n - 1 := f (inode_table fs1 ! (unat n - 1))]\<rparr>"
    "files_ok ram_good ram_blk fs2" "\<forall>m pos. fbyte ram_blk fs2 m pos = fbyte ram_blk fs1 m pos"
    using ram.size_update [OF ok1 n f] by blast
  have f2: "fs_ok ram_good fs2" "no_fail fs2" "unat n \<le> NI fs2"
    using files_okD(1) [OF u(3)] nf1 n(2) by (simp_all add: u(2) no_fail_def)
  obtain fs' D where w: "ext2_write_inode n fs2 = Some (0, fs')" "writes ram_good ram_blk fs2 D fs'"
    and D: "D = (dsk ram_blk fs2)(inode_blk fs2 (unat n) := overwrite (dsk ram_blk fs2 (inode_blk fs2 (unat n)))
      (inode_off fs2 (unat n)) (ext2_inode_bytes (inode_table fs2 ! (unat n - 1))))"
    using ram.write_inode [OF f2(1,2) n(1) f2(3)] by blast
  note ip = inode_pos [OF f2(1) n(1) f2(3)]
  have keep: "D b = dsk ram_blk fs2 b" if "FD fs2 \<le> b" for b using ip(2) that by (auto simp: D)
  note mw = ram.meta_writes [OF u(3) w(2) keep]
  have t: "inode_table fs' = inode_table fs2" "dsk ram_blk fs' = D" using w(2) by (simp_all add: writes_def)
  have "unat n - 1 < length (inode_table fs2)" using n(1) f2(3) fs_okD(5) [OF f2(1)] by linarith
  then have lx: "length (ext2_inode_bytes (inode_table fs2 ! (unat n - 1))) = 256"
    using fs_okD(6) [OF f2(1)] length_inode_bytes by simp
  have "inode_off fs2 (unat n) + 256 \<le> length (dsk ram_blk fs2 (inode_blk fs2 (unat n)))"
    using ram.dsk_length [OF f2(1) ip(3)] ip(1) by simp
  then have "take 256 (drop (inode_off fs2 (unat n)) (dsk ram_blk fs' (inode_blk fs2 (unat n)))) =
      ext2_inode_bytes (inode_table fs' ! (unat n - 1))"
    using take_drop_overwrite(1) lx unfolding t D by (metis fun_upd_same)
  moreover have "inode_off fs2 = inode_off fs1" "inode_blk fs2 = inode_blk fs1"
    by (simp_all add: u(2) inode_off_def inode_blk_def table_start_def bitmap_blocks_def fun_eq_iff)
  ultimately show ?thesis using u w(1) mw(1,3) t(1) by simp
qed

text \<open>
  C23. Permission bits change hands properly. \<open>vfs_chmod\<close> of an existing file fails with -1 and
  changes only the state of the kernel heap unless root or the owner calls it; otherwise the
  nine permission bits become those of the argument, the other bits of the mode, every other
  inode and every file's contents stay, and the inode's place on the disk holds the new inode.
\<close>

theorem vfs_chmod_owner_only:
  assumes "g_ext2 v = Some fs" and "files_ok ram_good ram_blk fs" and "no_fail fs"
    and "ext2_lookup_inode (Some p) fs = Some (n, fs1)" and "1 \<le> unat n" and "unat n \<le> NI fs"
  shows "if uid \<noteq> 0 \<and> uid \<noteq> ucast (i_uid (inode_table fs ! (unat n - 1)))
    then \<exists>rs. vfs_chmod uid (Some p) mode v = Some (- 1, v\<lparr>g_ext2 := Some (fs\<lparr>heap_replies := rs\<rparr>)\<rparr>)
    else \<exists>fs' m. vfs_chmod uid (Some p) mode v = Some (0, v\<lparr>g_ext2 := Some fs'\<rparr>) \<and> files_ok ram_good ram_blk fs' \<and>
      inode_table fs' = (inode_table fs)[unat n - 1 := (inode_table fs ! (unat n - 1))\<lparr>i_mode := m\<rparr>] \<and>
      (\<forall>k. bit m k = (if k < 9 then bit mode k else bit (i_mode (inode_table fs ! (unat n - 1))) k)) \<and>
      (\<forall>j pos. fbyte ram_blk fs' j pos = fbyte ram_blk fs j pos) \<and>
      take 256 (drop (inode_off fs (unat n)) (dsk ram_blk fs' (inode_blk fs (unat n)))) = ext2_inode_bytes (inode_table fs' ! (unat n - 1))"
proof -
  note f = files_okD(1) [OF assms(2)]
  let ?i = "inode_table fs ! (unat n - 1)"
  let ?f = "\<lambda>i. i\<lparr>i_mode := (i_mode i AND NOT 0x1FF) OR (mode AND 0x1FF)\<rparr>"
  obtain rs where rs: "fs1 = fs\<lparr>heap_replies := rs\<rparr>" using lookup_frame [OF assms(4)] by blast
  have nf1: "no_fail fs1"
    using ram.lookup_same [OF f f assms(3,3) ram.same_dirs_refl [OF assms(2)] assms(4)] by blast
  have ok1: "files_ok ram_good ram_blk fs1" using assms(2) by (simp add: rs)
  have n1: "unat n \<le> NI fs1" "n \<noteq> 0" using assms(5,6) by (auto simp: rs)
  have at: "inode_at fs1 n = Some ?i" using inode_at_eq [OF files_okD(1) [OF ok1] assms(5) n1(1)] by (simp add: rs)
  show ?thesis
  proof (cases "uid \<noteq> 0 \<and> uid \<noteq> ucast (i_uid ?i)")
    case True
    then show ?thesis using assms(1,4) n1(2) at rs by (auto simp: vfs_chmod_def)
  next
    case False
    obtain fs2 fs' where w: "upd_inode n ?f fs1 = Some fs2" "ext2_write_inode n fs2 = Some (0, fs')"
      "files_ok ram_good ram_blk fs'" "inode_table fs' = (inode_table fs1)[unat n - 1 := ?f (inode_table fs1 ! (unat n - 1))]"
      "\<forall>j pos. fbyte ram_blk fs' j pos = fbyte ram_blk fs1 j pos"
      "take 256 (drop (inode_off fs1 (unat n)) (dsk ram_blk fs' (inode_blk fs1 (unat n)))) = ext2_inode_bytes (inode_table fs' ! (unat n - 1))"
      using inode_change_written [OF ok1 nf1 assms(5) n1(1), of ?f] by (auto simp: ext2_inode_ok_def)
    moreover have "vfs_chmod uid (Some p) mode v = Some (0, v\<lparr>g_ext2 := Some fs'\<rparr>)"
      using assms(1,4) n1(2) at False w(1,2) by (auto simp: vfs_chmod_def)
    moreover have "inode_off fs1 = inode_off fs" "inode_blk fs1 = inode_blk fs"
      by (simp_all add: rs inode_off_def inode_blk_def table_start_def bitmap_blocks_def fun_eq_iff)
    ultimately have "vfs_chmod uid (Some p) mode v = Some (0, v\<lparr>g_ext2 := Some fs'\<rparr>) \<and> files_ok ram_good ram_blk fs' \<and>
      inode_table fs' = (inode_table fs)[unat n - 1 := ?f ?i] \<and>
      (\<forall>j pos. fbyte ram_blk fs' j pos = fbyte ram_blk fs j pos) \<and>
      take 256 (drop (inode_off fs (unat n)) (dsk ram_blk fs' (inode_blk fs (unat n)))) = ext2_inode_bytes (inode_table fs' ! (unat n - 1))"
      by (simp add: rs)
    then show ?thesis using False bit_mode by (simp only: if_False) blast
  qed
qed

theorem vfs_chmod_owner_only_witness:
  "(\<exists>rs. vfs_chmod 7 (Some (ascii ''/a'')) 0x180 demo_vfs = Some (- 1, demo_vfs\<lparr>g_ext2 := Some (demo_root\<lparr>heap_replies := rs\<rparr>)\<rparr>)) \<and>
   (\<exists>fs' m. vfs_chmod 5 (Some (ascii ''/a'')) 0x180 demo_vfs = Some (0, demo_vfs\<lparr>g_ext2 := Some fs'\<rparr>) \<and>
      inode_table fs' = demo_table[11 := (demo_table ! 11)\<lparr>i_mode := m\<rparr>] \<and> bit m 15 \<and> bit m 8 \<and> \<not> bit m 2)"
proof -
  have n: "1 \<le> unat (12 :: u32)" "unat (12 :: u32) \<le> NI demo_root" by (simp_all add: demo_root_fields(1-8))
  note c = vfs_chmod_owner_only [OF demo_vfs_simps(1) demo_root_files demo_root_fields(8) demo_lookup(1) n, where mode = "0x180"]
  have own: "i_uid (inode_table demo_root ! (unat (12 :: u32) - 1)) = 5" "i_mode (inode_table demo_root ! (unat (12 :: u32) - 1)) = 0x81A4"
    by (simp_all add: demo_root_fields demo_table_simps)
  show ?thesis
  proof
    show "\<exists>rs. vfs_chmod 7 (Some (ascii ''/a'')) 0x180 demo_vfs = Some (- 1, demo_vfs\<lparr>g_ext2 := Some (demo_root\<lparr>heap_replies := rs\<rparr>)\<rparr>)"
      using c [of 7] unfolding own by simp
    obtain fs' m where "vfs_chmod 5 (Some (ascii ''/a'')) 0x180 demo_vfs = Some (0, demo_vfs\<lparr>g_ext2 := Some fs'\<rparr>)"
      "inode_table fs' = (inode_table demo_root)[unat (12 :: u32) - 1 := (inode_table demo_root ! (unat (12 :: u32) - 1))\<lparr>i_mode := m\<rparr>]"
      "\<forall>k. bit m k = (if k < 9 then bit (0x180 :: u16) k else bit (0x81A4 :: u16) k)"
      using c [of 5] unfolding own by auto
    then show "\<exists>fs' m. vfs_chmod 5 (Some (ascii ''/a'')) 0x180 demo_vfs = Some (0, demo_vfs\<lparr>g_ext2 := Some fs'\<rparr>) \<and>
      inode_table fs' = demo_table[11 := (demo_table ! 11)\<lparr>i_mode := m\<rparr>] \<and> bit m 15 \<and> bit m 8 \<and> \<not> bit m 2"
      by (intro exI [of _ fs'] exI [of _ m]) (simp add: demo_root_fields)
  qed
qed

section \<open>Listing\<close>

























section \<open>Status of overlay files\<close>

text \<open>
  C34. An overlay file is invisible to \<open>vfs_stat_path\<close> and \<open>vfs_file_exists\<close>: without a disk, for a file of
  the overlay whose path has no capital letters, is none of the fixed and embedded paths and is
  not itself a directory prefix of another overlay file, both report that it does not exist,
  although \<open>vfs_open_ino\<close> finds it.
\<close>

theorem vfs_stat_misses_overlay_files:
  assumes "overlay_ok v" and "p \<in> dom (ram_files v)" and "length p < 64" and "p \<noteq> []" and "last p \<noteq> SLASH" and "\<not> embedded_path p"
    and "p \<notin> {ascii ''/bin'', ascii ''/etc'', ascii ''/home''}" and "\<forall>c \<in> set p. c < 65 \<or> 90 < c"
    and "\<forall>f \<in> set (g_user_files v). \<not> user_dir_prefix p f"
  shows "vfs_stat_path (Some p) st v = Some (0, st, v) \<and> vfs_file_exists (Some p) st v = Some (False, v) \<and>
    vfs_open_ino (Some p) v = Some (1, 0, v)"
proof -
  have low: "map ascii_lower p = p" by (rule map_idI) (use assms(8) in \<open>auto simp: ascii_lower_def\<close>)
  have "p \<noteq> ascii ''/''" using assms(5) by (auto simp: ascii_def of_char_def SLASH_def)
  then have "\<not> string_equals_ci p q" if "q \<in> {ascii ''/'', ascii ''/bin'', ascii ''/etc'', ascii ''/home''}" for q
    using assms(7) that low by (auto simp: string_equals_ci_iff ascii_def of_char_def ascii_lower_def)
  then have st: "vfs_stat_path (Some p) st v = Some (0, st, v)"
    using assms(3-6,9) overlay_okD(1) [OF assms(1)] vfs_lookup_none [of p v]
    by (simp add: vfs_stat_path_def ext2_vfs_stat_def)
  moreover have "vfs_open_ino (Some p) v = Some (1, 0, v)"
    using assms(2,6) overlay_okD(1) [OF assms(1)] vfs_lookup_none [of p v]
    by (auto simp: vfs_open_ino_def find_user_file_named ram_files_def domIff)
  ultimately show ?thesis by (simp add: vfs_file_exists_def)
qed

theorem vfs_stat_misses_overlay_files_witness:
  "vfs_file_exists (Some (ascii ''/a'')) \<lparr>st_kind = VFS_NODE_NONE, st_size = 0, st_mode = 0, st_uid = 0, st_gid = 0\<rparr> one_file =
     Some (False, one_file) \<and> vfs_open_ino (Some (ascii ''/a'')) one_file = Some (1, 0, one_file)"
proof -
  have "length (ascii ''/a'') < 64" "ascii ''/a'' \<noteq> []" "last (ascii ''/a'') \<noteq> SLASH"
    "ascii ''/a'' \<notin> {ascii ''/bin'', ascii ''/etc'', ascii ''/home''}" "\<forall>c \<in> set (ascii ''/a''). c < 65 \<or> 90 < c"
    "\<forall>f \<in> set (g_user_files one_file). \<not> user_dir_prefix (ascii ''/a'') f"
    by (simp_all add: ascii_def of_char_def SLASH_def one_file_def user_dir_prefix_def)
  from vfs_stat_misses_overlay_files [OF one_file_ok this(1-3) demo_a(2) this(4-6)] show ?thesis by blast
qed

end
