(* ===== verification/KString.thy ===== *)
theory KString
  imports Prelude
begin

text \<open>
  The kernel's memory and string routines (src/kernel/src/string.c) over byte memory. Each
  bulk routine exists twice in the source, as x86 string instructions and as the plain C
  loops of the arm64 build; both are modelled, \<open>_arm64\<close> marking the second. A routine gives
  back the pointer it returns and the memory it leaves. Loops that only a zero byte can stop
  are \<open>partial_function\<close>s.
\<close>

section \<open>Bulk copies and fills\<close>

text \<open>\<open>rep movsb\<close> with the direction flag clear and set, \<open>rep stosb\<close> and \<open>rep stosl\<close>.\<close>

fun rep_movsb :: "mem \<Rightarrow> u64 \<Rightarrow> u64 \<Rightarrow> nat \<Rightarrow> mem" where
  "rep_movsb m d s 0 = m"
| "rep_movsb m d s (Suc n) = rep_movsb (m(d := m s)) (d + 1) (s + 1) n"

fun rep_movsb_down :: "mem \<Rightarrow> u64 \<Rightarrow> u64 \<Rightarrow> nat \<Rightarrow> mem" where
  "rep_movsb_down m d s 0 = m"
| "rep_movsb_down m d s (Suc n) = rep_movsb_down (m(d := m s)) (d - 1) (s - 1) n"

fun rep_stosb :: "mem \<Rightarrow> u64 \<Rightarrow> u8 \<Rightarrow> nat \<Rightarrow> mem" where
  "rep_stosb m d v 0 = m"
| "rep_stosb m d v (Suc n) = rep_stosb (m(d := v)) (d + 1) v n"

fun rep_stosl :: "mem \<Rightarrow> u64 \<Rightarrow> u32 \<Rightarrow> nat \<Rightarrow> mem" where
  "rep_stosl m d v 0 = m"
| "rep_stosl m d v (Suc n) = rep_stosl (st32 m d v) (d + 4) v n"

definition memcpy :: "mem \<Rightarrow> u64 \<Rightarrow> u64 \<Rightarrow> u64 \<Rightarrow> u64 \<times> mem" where
  "memcpy m dest src count = (dest, rep_movsb m dest src (unat count))"

definition memmove :: "mem \<Rightarrow> u64 \<Rightarrow> u64 \<Rightarrow> u64 \<Rightarrow> u64 \<times> mem" where
  "memmove m dest src count =
     (if dest = src \<or> count = 0 then (dest, m)
      else if dest < src \<or> src + count \<le> dest then memcpy m dest src count
      else (dest, rep_movsb_down m (dest + count - 1) (src + count - 1) (unat count)))"

definition memset :: "mem \<Rightarrow> u64 \<Rightarrow> u32 \<Rightarrow> u64 \<Rightarrow> u64 \<times> mem" where
  "memset m dest value count = (dest, rep_stosb m dest (ucast value) (unat count))"

definition memset32 :: "mem \<Rightarrow> u64 \<Rightarrow> u32 \<Rightarrow> u64 \<Rightarrow> u64 \<times> mem" where
  "memset32 m dest value count = (dest, rep_stosl m dest value (unat count))"

text \<open>The arm64 loops: \<open>for (i = 0; i < count; i++)\<close> and \<open>for (i = count; i-- > 0;)\<close>.\<close>

fun copy_up :: "mem \<Rightarrow> u64 \<Rightarrow> u64 \<Rightarrow> nat \<Rightarrow> mem" where
  "copy_up m d s 0 = m"
| "copy_up m d s (Suc i) = (let m' = copy_up m d s i in m'(d + of_nat i := m' (s + of_nat i)))"

fun copy_down :: "mem \<Rightarrow> u64 \<Rightarrow> u64 \<Rightarrow> nat \<Rightarrow> mem" where
  "copy_down m d s 0 = m"
| "copy_down m d s (Suc i) = copy_down (m(d + of_nat i := m (s + of_nat i))) d s i"

fun fill_up :: "mem \<Rightarrow> u64 \<Rightarrow> u8 \<Rightarrow> nat \<Rightarrow> mem" where
  "fill_up m d v 0 = m"
| "fill_up m d v (Suc i) = (fill_up m d v i)(d + of_nat i := v)"

fun fill32_up :: "mem \<Rightarrow> u64 \<Rightarrow> u32 \<Rightarrow> nat \<Rightarrow> mem" where
  "fill32_up m d v 0 = m"
| "fill32_up m d v (Suc i) = st32 (fill32_up m d v i) (d + 4 * of_nat i) v"

definition memcpy_arm64 :: "mem \<Rightarrow> u64 \<Rightarrow> u64 \<Rightarrow> u64 \<Rightarrow> u64 \<times> mem" where
  "memcpy_arm64 m dest src count = (dest, copy_up m dest src (unat count))"

definition memmove_arm64 :: "mem \<Rightarrow> u64 \<Rightarrow> u64 \<Rightarrow> u64 \<Rightarrow> u64 \<times> mem" where
  "memmove_arm64 m dest src count =
     (if dest = src \<or> count = 0 then (dest, m)
      else if dest < src then (dest, copy_up m dest src (unat count))
      else (dest, copy_down m dest src (unat count)))"

definition memset_arm64 :: "mem \<Rightarrow> u64 \<Rightarrow> u32 \<Rightarrow> u64 \<Rightarrow> u64 \<times> mem" where
  "memset_arm64 m dest value count = (dest, fill_up m dest (ucast value) (unat count))"

definition memset32_arm64 :: "mem \<Rightarrow> u64 \<Rightarrow> u32 \<Rightarrow> u64 \<Rightarrow> u64 \<times> mem" where
  "memset32_arm64 m dest value count = (dest, fill32_up m dest value (unat count))"

section \<open>Comparison and strings\<close>

function memcmp_from :: "mem \<Rightarrow> u64 \<Rightarrow> u64 \<Rightarrow> nat \<Rightarrow> nat \<Rightarrow> int" where
  "memcmp_from m a b count i =
     (if i < count
      then let x = m (a + of_nat i); y = m (b + of_nat i)
           in if x \<noteq> y then int (unat x) - int (unat y) else memcmp_from m a b count (i + 1)
      else 0)"
  by pat_completeness auto
termination by (relation "measure (\<lambda>(m, a, b, count, i). count - i)") auto

declare memcmp_from.simps [simp del]

definition memcmp :: "mem \<Rightarrow> u64 \<Rightarrow> u64 \<Rightarrow> u64 \<Rightarrow> int" where
  "memcmp m left right count = memcmp_from m left right (unat count) 0"

partial_function (option) string_length_from :: "mem \<Rightarrow> u64 \<Rightarrow> u64 \<Rightarrow> u64 option" where
  "string_length_from m text len =
     (if m (text + len) \<noteq> 0 then string_length_from m text (len + 1) else Some len)"

definition string_length :: "mem \<Rightarrow> u64 \<Rightarrow> u64 option" where
  "string_length m text = (if text = 0 then Some 0 else string_length_from m text 0)"

definition strlen :: "mem \<Rightarrow> u64 \<Rightarrow> u64 option" where
  "strlen m text = string_length m text"

partial_function (option) strcmp_loop :: "mem \<Rightarrow> u64 \<Rightarrow> u64 \<Rightarrow> int option" where
  "strcmp_loop m l r =
     (if m l \<noteq> 0 \<and> m r \<noteq> 0 \<and> m l = m r then strcmp_loop m (l + 1) (r + 1)
      else Some (int (unat (m l)) - int (unat (m r))))"

definition strcmp :: "mem \<Rightarrow> u64 \<Rightarrow> u64 \<Rightarrow> int option" where
  "strcmp m left right =
     (if left = 0 \<and> right = 0 then Some 0
      else if left = 0 then Some (-1)
      else if right = 0 then Some 1
      else strcmp_loop m left right)"

partial_function (option) strcpy_loop :: "mem \<Rightarrow> u64 \<Rightarrow> u64 \<Rightarrow> mem option" where
  "strcpy_loop m d s =
     (let c = m s; m' = m(d := c)
      in if c \<noteq> 0 then strcpy_loop m' (d + 1) (s + 1) else Some m')"

definition strcpy :: "mem \<Rightarrow> u64 \<Rightarrow> u64 \<Rightarrow> (u64 \<times> mem) option" where
  "strcpy m dest src =
     (if dest = 0 \<or> src = 0 then Some (dest, m)
      else map_option (Pair dest) (strcpy_loop m dest src))"

text \<open>The two loops of \<open>strncpy\<close>; the first leaves without counting the zero it copied.\<close>

fun strncpy_copy :: "mem \<Rightarrow> u64 \<Rightarrow> u64 \<Rightarrow> nat \<Rightarrow> mem \<times> u64 \<times> nat" where
  "strncpy_copy m d s 0 = (m, d, 0)"
| "strncpy_copy m d s (Suc count) =
     (let c = m s; m' = m(d := c)
      in if c \<noteq> 0 then strncpy_copy m' (d + 1) (s + 1) count else (m', d + 1, Suc count))"

fun strncpy_pad :: "mem \<Rightarrow> u64 \<Rightarrow> nat \<Rightarrow> mem" where
  "strncpy_pad m d 0 = m"
| "strncpy_pad m d (Suc count) = strncpy_pad (m(d := 0)) (d + 1) count"

definition strncpy :: "mem \<Rightarrow> u64 \<Rightarrow> u64 \<Rightarrow> u64 \<Rightarrow> u64 \<times> mem" where
  "strncpy m dest src count =
     (if dest = 0 \<or> src = 0 then (dest, m)
      else let (m', d, n) = strncpy_copy m dest src (unat count)
           in (dest, strncpy_pad m' d n))"

partial_function (option) strrchr_loop :: "mem \<Rightarrow> u64 \<Rightarrow> u8 \<Rightarrow> u64 \<Rightarrow> u64 option" where
  "strrchr_loop m str c found =
     (if m str \<noteq> 0 then strrchr_loop m (str + 1) c (if m str = c then str else found)
      else Some found)"

definition strrchr :: "mem \<Rightarrow> u64 \<Rightarrow> u32 \<Rightarrow> u64 option" where
  "strrchr m str c = (if str = 0 then Some 0 else strrchr_loop m str (ucast c) 0)"

section \<open>Writes as lists of bytes\<close>

lemma mem_write_Nil [simp]: "mem_write m a [] = m"
  by (simp add: mem_write_def)

lemma mem_read_0 [simp]: "mem_read m a 0 = []"
  by (simp add: mem_read_def)

lemma mem_write_read_same: "mem_write m a (mem_read m a n) = m"
  by (auto simp: mem_write_def mem_read_def)

lemma mem_read_Suc: "mem_read m a (Suc n) = m a # mem_read m (a + 1) n"
  by (rule nth_equalityI) (auto simp: mem_read_def nth_Cons ac_simps split: nat.split simp del: upt_Suc)

lemma mem_read_snoc: "mem_read m a (Suc n) = mem_read m a n @ [m (a + of_nat n)]"
  by (simp add: mem_read_def)

lemma unat_max_u64: "unat (- 1 :: u64) = 2 ^ 64 - 1"
  by (simp add: unsigned_minus_1_eq_mask mask_eq_exp_minus_1)

lemma mem_write_Cons:
  assumes "length bs < 2 ^ 64"
  shows "mem_write (m(a := b)) (a + 1) bs = mem_write m a (b # bs)"
proof
  fix x
  show "mem_write (m(a := b)) (a + 1) bs x = mem_write m a (b # bs) x"
  proof (cases "x = a")
    case True
    have "unat (a - (a + 1)) = 2 ^ 64 - 1" by (simp add: unat_max_u64)
    with True assms show ?thesis by (simp add: mem_write_def)
  next
    case False
    then have "unat (x - (a + 1)) = unat (x - a) - 1" "0 < unat (x - a)"
      unfolding diff_diff_eq [symmetric] by (simp_all only: unat_minus_one unat_gt_0 right_minus_eq not_False_eq_True)
    then have "unat (x - a) = Suc (unat (x - (a + 1)))" by linarith
    with False show ?thesis by (simp add: mem_write_def)
  qed
qed

lemma mem_write_snoc:
  assumes "length bs < 2 ^ 64"
  shows "(mem_write m a bs)(a + of_nat (length bs) := b) = mem_write m a (bs @ [b])"
proof
  fix x
  have l: "unat (of_nat (length bs) :: u64) = length bs"
    using assms by (simp add: unat_of_nat)
  have "x = a + of_nat (length bs) \<longleftrightarrow> unat (x - a) = length bs"
    using l by (metis add_diff_cancel_left' diff_add_cancel add.commute word_unat_eq_iff)
  then show "((mem_write m a bs)(a + of_nat (length bs) := b)) x = mem_write m a (bs @ [b]) x"
    using assms by (auto simp: mem_write_def nth_append)
qed


lemma mem_read_upd_outside:
  assumes "n \<le> unat (x - a)"
  shows "mem_read (m(x := v)) a n = mem_read m a n"
proof -
  have "a + of_nat i \<noteq> x" if "i < n" for i
  proof
    assume "a + of_nat i = x"
    then have "unat (x - a) \<le> i" by (auto simp: unat_of_nat)
    with assms that show False by simp
  qed
  then show ?thesis unfolding mem_read_def by (intro map_cong) simp_all
qed

lemma rep_movsb_write:
  assumes "n \<le> 2 ^ 64" and "d = s \<or> n \<le> unat (d - s)"
  shows "rep_movsb m d s n = mem_write m d (mem_read m s n)"
  using assms
proof (induction n arbitrary: m d s)
  case (Suc n)
  have "n \<le> unat (d - (s + 1))"
  proof (cases "d = s")
    case True
    have "unat (s - (s + 1)) = 2 ^ 64 - 1" by (simp add: unat_max_u64)
    with True Suc.prems(1) show ?thesis by simp
  next
    case False
    then have "unat (d - (s + 1)) = unat (d - s) - 1"
      unfolding diff_diff_eq [symmetric] by (intro unat_minus_one) simp
    with False Suc.prems(2) show ?thesis by linarith
  qed
  then have "mem_read (m(d := m s)) (s + 1) n = mem_read m (s + 1) n"
    by (rule mem_read_upd_outside)
  moreover have "rep_movsb (m(d := m s)) (d + 1) (s + 1) n =
      mem_write (m(d := m s)) (d + 1) (mem_read (m(d := m s)) (s + 1) n)"
    using Suc.prems by (intro Suc.IH) auto
  ultimately show ?case
    using Suc.prems(1) by (simp add: mem_read_Suc mem_write_Cons)
qed simp

lemma rep_movsb_snoc:
  "rep_movsb m d s (Suc n) =
     (rep_movsb m d s n)(d + of_nat n := rep_movsb m d s n (s + of_nat n))"
proof (induction n arbitrary: m d s)
  case (Suc n)
  have "rep_movsb m d s (Suc (Suc n)) = rep_movsb (m(d := m s)) (d + 1) (s + 1) (Suc n)"
    by (rule rep_movsb.simps)
  also note Suc.IH
  finally show ?case by (simp only: rep_movsb.simps of_nat_Suc add.assoc)
qed simp

lemma copy_up_rep: "copy_up m d s n = rep_movsb m d s n"
  by (induction n) (simp_all add: Let_def rep_movsb_snoc del: rep_movsb.simps(2))

lemma copy_down_rep:
  "copy_down m d s n = rep_movsb_down m (d + of_nat n - 1) (s + of_nat n - 1) n"
  by (induction n arbitrary: m) (simp_all add: algebra_simps)

lemma copy_down_write:
  assumes "n \<le> 2 ^ 64" and "d = s \<or> n \<le> unat (s - d)"
  shows "copy_down m d s n = mem_write m d (mem_read m s n)"
  using assms
proof (induction n arbitrary: m)
  case (Suc n)
  let ?m = "m(d + of_nat n := m (s + of_nat n))"
  have n: "unat (of_nat n :: u64) = n" using Suc.prems by (simp add: unat_of_nat)
  have "n \<le> unat (d + of_nat n - s)"
  proof (cases "d = s")
    case False
    have "unat (s - d) + unat (d - s) = 2 ^ 64"
      using False unat_lt_exp [of s] unat_lt_exp [of d]
      by (auto simp: unat_sub_if' word_unat_eq_iff)
    moreover have "n < unat (s - d)" using False Suc.prems by simp
    ultimately have "unat (d - s + of_nat n) = unat (d - s) + n"
      using n by (subst unat_add_exact) auto
    moreover have "d + of_nat n - s = d - s + of_nat n" by simp
    ultimately show ?thesis by (simp only: le_add2)
  qed (simp add: n)
  then have "mem_read ?m s n = mem_read m s n" by (rule mem_read_upd_outside)
  moreover have "copy_down ?m d s n = mem_write ?m d (mem_read ?m s n)"
    using Suc.prems by (intro Suc.IH) auto
  moreover have "mem_write ?m d bs = (mem_write m d bs)(d + of_nat n := m (s + of_nat n))"
    if "length bs = n" for bs
    using that n by (auto simp: mem_write_def fun_eq_iff)
  ultimately show ?case
    using Suc.prems(1) mem_write_snoc [of "mem_read m s n" m d "m (s + of_nat n)"]
    by (simp add: mem_read_snoc)
qed simp


lemma rep_stosb_write: "n \<le> 2 ^ 64 \<Longrightarrow> rep_stosb m d v n = mem_write m d (replicate n v)"
  by (induction n arbitrary: m d) (simp_all add: mem_write_Cons)

lemma fill_up_write: "n \<le> 2 ^ 64 \<Longrightarrow> fill_up m d v n = mem_write m d (replicate n v)"
proof (induction n)
  case (Suc n)
  then show ?case
    using mem_write_snoc [of "replicate n v" m d v] by (simp add: replicate_append_same)
qed simp

lemma fill32_up_rep: "fill32_up m d v n = rep_stosl m d v n"
proof -
  have "rep_stosl m d v (Suc n) = st32 (rep_stosl m d v n) (d + 4 * of_nat n) v" for n
  proof (induction n arbitrary: m d)
    case (Suc n)
    have "rep_stosl m d v (Suc (Suc n)) = rep_stosl (st32 m d v) (d + 4) v (Suc n)"
      by (rule rep_stosl.simps)
    also note Suc.IH
    finally show ?case by (simp add: algebra_simps)
  qed simp
  then show ?thesis by (induction n) (simp_all del: rep_stosl.simps(2))
qed

text \<open>Two memory areas of the same block of addresses, neither of which wraps.\<close>

lemma forward_safe:
  fixes d s :: u64
  assumes "d < s \<or> s + of_nat n \<le> d" and "unat s + n < 2 ^ 64"
  shows "n \<le> unat (d - s)"
proof -
  have "unat (s + of_nat n) = unat s + n"
    using assms(2) by (subst unat_add_exact) (simp_all add: unat_of_nat)
  then show ?thesis
    using assms by (auto simp: unat_sub_if' word_less_nat_alt word_le_nat_alt)
qed

lemma backward_safe:
  fixes d s :: u64
  assumes "s < d" and "unat d + n \<le> 2 ^ 64"
  shows "n \<le> unat (s - d)"
  using assms by (auto simp: unat_sub_if' word_less_nat_alt)

section \<open>C strings in memory\<close>

text \<open>\<open>t\<close> is the string that starts at \<open>a\<close>: its bytes, none of them zero, then a zero.\<close>

definition cstr_at :: "mem \<Rightarrow> u64 \<Rightarrow> u8 list \<Rightarrow> bool" where
  "cstr_at m a t \<longleftrightarrow> 0 \<notin> set t \<and> mem_read m a (length t + 1) = t @ [0]"

lemma cstr_at_Nil [simp]: "cstr_at m a [] \<longleftrightarrow> m a = 0"
  by (simp add: cstr_at_def mem_read_Suc)

lemma cstr_at_Cons [simp]: "cstr_at m a (c # t) \<longleftrightarrow> c \<noteq> 0 \<and> m a = c \<and> cstr_at m (a + 1) t"
  by (auto simp: cstr_at_def mem_read_Suc)

lemma cstr_at_upd:
  assumes "length t < unat (x - a)"
  shows "cstr_at (m(x := v)) a t \<longleftrightarrow> cstr_at m a t"
  unfolding cstr_at_def using assms by (subst mem_read_upd_outside) simp_all

lemma string_length_from_cstr:
  "cstr_at m (a + n) t \<Longrightarrow> string_length_from m a n = Some (n + of_nat (length t))"
  by (induction t arbitrary: n)
    (subst string_length_from.simps, simp add: add.assoc [symmetric], simp add: ac_simps)+

lemma string_length_cstr:
  assumes "cstr_at m a t" and "a \<noteq> 0"
  shows "string_length m a = Some (of_nat (length t))"
  using assms string_length_from_cstr [of m a 0 t] by (simp add: string_length_def)

lemma strcmp_loop_stop:
  "m a = 0 \<or> m b = 0 \<or> m a \<noteq> m b \<Longrightarrow>
   strcmp_loop m a b = Some (int (unat (m a)) - int (unat (m b)))"
  by (subst strcmp_loop.simps) auto

lemma strcmp_loop_step:
  "\<lbrakk>m a \<noteq> 0; m a = m b\<rbrakk> \<Longrightarrow> strcmp_loop m a b = strcmp_loop m (a + 1) (b + 1)"
  by (subst strcmp_loop.simps) auto

lemma strcmp_loop_cstr:
  "\<lbrakk>cstr_at m a s; cstr_at m b t\<rbrakk> \<Longrightarrow> \<exists>r. strcmp_loop m a b = Some r \<and> (r = 0 \<longleftrightarrow> s = t)"
proof (induction s arbitrary: a b t)
  case Nil
  then have "strcmp_loop m a b = Some (int (unat (m a)) - int (unat (m b)))"
    by (intro strcmp_loop_stop) simp
  moreover have "m b = 0 \<longleftrightarrow> t = []" using Nil.prems(2) by (cases t) auto
  ultimately show ?case using Nil.prems(1) by (auto simp: uint_0_iff)
next
  case (Cons c s)
  show ?case
  proof (cases "m a = m b")
    case True
    then obtain t' where t: "t = c # t'" "cstr_at m (b + 1) t'" using Cons.prems by (cases t) auto
    with True Cons.prems Cons.IH [of "a + 1" "b + 1" t'] show ?thesis
      by (simp add: strcmp_loop_step)
  next
    case False
    then have "strcmp_loop m a b = Some (int (unat (m a)) - int (unat (m b)))"
      by (intro strcmp_loop_stop) simp
    moreover have "c # s \<noteq> t" using False Cons.prems by auto
    ultimately show ?thesis using False by (simp add: word_uint_eq_iff)
  qed
qed

lemma strcpy_loop_cstr:
  assumes "cstr_at m s t" and "length t < unat (d - s)" and "length t < 2 ^ 64"
  shows "strcpy_loop m d s = Some (mem_write m d (t @ [0]))"
  using assms
proof (induction t arbitrary: m d s)
  case Nil
  then show ?case
    using mem_write_Cons [of "[]" m d 0] by (subst strcpy_loop.simps) (simp add: Let_def)
next
  case (Cons c t)
  have "unat (d - (s + 1)) = unat (d - s) - 1"
    unfolding diff_diff_eq [symmetric] using Cons.prems(2) by (intro unat_minus_one) auto
  then have far: "length t < unat (d - (s + 1))" using Cons.prems(2) by simp
  have "strcpy_loop m d s = strcpy_loop (m(d := c)) (d + 1) (s + 1)"
    using Cons.prems(1) by (subst strcpy_loop.simps) (simp add: Let_def)
  also have "\<dots> = Some (mem_write (m(d := c)) (d + 1) (t @ [0]))"
    using Cons.prems far by (intro Cons.IH cstr_at_upd [OF far, THEN iffD2]) simp_all
  finally show ?case using Cons.prems(3) by (simp add: mem_write_Cons)
qed

section \<open>What the routines compute\<close>

text \<open>
  C24. Both builds of \<open>memmove\<close>, the one on the x86 string instructions and the plain loops
  of the arm64 build, are equivalent to the simultaneous copy: the \<open>count\<close> bytes at \<open>src\<close>, as
  they were before the call, are written at \<open>dest\<close> and nothing else changes, however the two
  areas overlap, as long as neither runs past the end of the address space. Each returns
  \<open>dest\<close>.
\<close>

theorem memmove_simultaneous:
  assumes "unat dest + unat count \<le> 2 ^ 64" and "unat src + unat count < 2 ^ 64"
  shows "memmove m dest src count = (dest, mem_write m dest (mem_read m src (unat count))) \<and>
    memmove_arm64 m dest src count = (dest, mem_write m dest (mem_read m src (unat count)))"
proof -
  let ?n = "unat count" and ?copy = "mem_write m dest (mem_read m src (unat count))"
  have n: "?n \<le> 2 ^ 64" "of_nat ?n = count" using unat_lt_exp [of count] by simp_all
  have same: "?copy = m" if "dest = src \<or> count = 0"
    using that by (auto simp: mem_write_read_same)
  have up: "rep_movsb m dest src ?n = ?copy" if "dest < src \<or> src + count \<le> dest"
    using forward_safe [of dest src ?n] that assms(2) n by (intro rep_movsb_write) simp_all
  have down: "copy_down m dest src ?n = ?copy" if "src < dest"
    using backward_safe [of src dest ?n] that assms(1) n by (intro copy_down_write) simp_all
  have down_rep: "rep_movsb_down m (dest + count - 1) (src + count - 1) ?n = ?copy" if "src < dest"
    using down [OF that] n by (simp add: copy_down_rep)
  have "memmove m dest src count = (dest, ?copy)"
    using same up down_rep by (auto simp: memmove_def memcpy_def not_less less_le)
  moreover have "memmove_arm64 m dest src count = (dest, ?copy)"
    using same up down by (auto simp: memmove_arm64_def copy_up_rep not_less less_le)
  ultimately show ?thesis by simp
qed

theorem memmove_simultaneous_witness:
  "snd (memmove (\<lambda>x. ucast x) 101 100 4) 102 = 101 \<and>
   memmove_arm64 (\<lambda>x. ucast x) 101 100 4 = memmove (\<lambda>x. ucast x) 101 100 4"
  using memmove_simultaneous [of 101 4 100 "\<lambda>x. ucast x"]
  by (simp add: mem_write_def mem_read_def)

text \<open>The other pairs of builds agree as well.\<close>

lemma builds_agree:
  "memcpy_arm64 m dest src count = memcpy m dest src count"
  "memset_arm64 m dest v count = memset m dest v count"
  "memset32_arm64 m dest v count = memset32 m dest v count"
  using unat_lt_exp [of count]
  by (simp_all add: memcpy_arm64_def memcpy_def copy_up_rep memset_arm64_def memset_def
      fill_up_write rep_stosb_write memset32_arm64_def memset32_def fill32_up_rep)

lemma memcpy_write:
  assumes "apart dest (unat count) src (unat count)"
  shows "memcpy m dest src count = (dest, mem_write m dest (mem_read m src (unat count)))"
proof (cases "count = 0")
  case False
  then have "unat count \<noteq> 0" by (simp add: unat_eq_zero)
  with assms have "unat count \<le> unat (dest - src)"
    by (auto simp: apart_def unat_sub_if')
  then show ?thesis
    using unat_lt_exp [of count] by (simp add: memcpy_def rep_movsb_write)
qed (simp add: memcpy_def)

lemma memset_write:
  "memset m dest v count = (dest, mem_write m dest (replicate (unat count) (ucast v)))"
  using unat_lt_exp [of count] by (simp add: memset_def rep_stosb_write)

lemma memcmp_from_zero:
  "memcmp_from m a b n i = 0 \<longleftrightarrow> (\<forall>k\<in>{i..<n}. m (a + of_nat k) = m (b + of_nat k))"
proof (induction m a b n i rule: memcmp_from.induct)
  case (1 m a b n i)
  show ?case
  proof (cases "i < n")
    case True
    then have "{i..<n} = insert i {i + 1..<n}" by auto
    with True 1 show ?thesis
      by (subst memcmp_from.simps) (simp add: Let_def word_uint_eq_iff)
  next
    case False
    then show ?thesis by (subst memcmp_from.simps) simp
  qed
qed

lemma memcmp_zero:
  "memcmp m left right count = 0 \<longleftrightarrow>
     mem_read m left (unat count) = mem_read m right (unat count)"
  by (auto simp: memcmp_def memcmp_from_zero mem_read_def)

lemma strcmp_zero:
  assumes "cstr_at m left s" and "cstr_at m right t" and "left \<noteq> 0" and "right \<noteq> 0"
  shows "\<exists>r. strcmp m left right = Some r \<and> (r = 0 \<longleftrightarrow> s = t)"
  using strcmp_loop_cstr [OF assms(1,2)] assms(3,4) by (simp add: strcmp_def)

lemma strcpy_write:
  assumes "cstr_at m src t" and "length t < unat (dest - src)" and "dest \<noteq> 0" and "src \<noteq> 0"
  shows "strcpy m dest src = Some (dest, mem_write m dest (t @ [0]))"
  using strcpy_loop_cstr [OF assms(1,2)] assms(2-4) unat_lt_exp [of "dest - src"]
  by (simp add: strcpy_def)

lemma strrchr_loop_absent:
  "\<lbrakk>cstr_at m a t; c \<notin> set t\<rbrakk> \<Longrightarrow> strrchr_loop m a c r = Some r"
proof (induction t arbitrary: a)
  case Nil
  then show ?case by (subst strrchr_loop.simps) simp
next
  case (Cons b t)
  then have "strrchr_loop m a c r = strrchr_loop m (a + 1) c r"
    by (subst strrchr_loop.simps) auto
  with Cons show ?case by simp
qed

lemma strrchr_loop_last:
  "\<lbrakk>cstr_at m a (u @ c # v); c \<notin> set v\<rbrakk> \<Longrightarrow>
   strrchr_loop m a c r = Some (a + of_nat (length u))"
proof (induction u arbitrary: a r)
  case Nil
  then have "strrchr_loop m a c r = strrchr_loop m (a + 1) c a"
    by (subst strrchr_loop.simps) simp
  also have "\<dots> = Some a" using Nil by (intro strrchr_loop_absent) simp_all
  finally show ?case by simp
next
  case (Cons b u)
  then have "strrchr_loop m a c r = strrchr_loop m (a + 1) c (if b = c then a else r)"
    by (subst strrchr_loop.simps) simp
  with Cons show ?case by (simp add: add.assoc)
qed

text \<open>The two loops of \<open>strncpy\<close> on a source that the destination does not run into.\<close>

lemma strncpy_pad_write: "n \<le> 2 ^ 64 \<Longrightarrow> strncpy_pad m d n = mem_write m d (replicate n 0)"
  by (induction n arbitrary: m d) (simp_all add: mem_write_Cons)

lemma strncpy_loops:
  assumes "cstr_at m s t" and "length t < unat (d - s)" and "n < 2 ^ 64"
  shows "(let (m', d', n') = strncpy_copy m d s n in strncpy_pad m' d' n') =
    mem_write m d (if length t < n then t @ replicate (n + 1 - length t) 0 else take n t)"
  using assms
proof (induction t arbitrary: m d s n)
  case Nil
  then show ?case
    by (cases n) (simp_all add: strncpy_pad_write Let_def mem_write_Cons del: strncpy_pad.simps)
next
  case (Cons c t)
  show ?case
  proof (cases n)
    case (Suc k)
    have "unat (d - (s + 1)) = unat (d - s) - 1"
      unfolding diff_diff_eq [symmetric] using Cons.prems(2) by (intro unat_minus_one) auto
    then have far: "length t < unat (d - (s + 1))" using Cons.prems(2) by simp
    have "(let (m', d', n') = strncpy_copy (m(d := c)) (d + 1) (s + 1) k in strncpy_pad m' d' n') =
      mem_write (m(d := c)) (d + 1)
        (if length t < k then t @ replicate (k + 1 - length t) 0 else take k t)"
      using Cons.prems far Suc by (intro Cons.IH cstr_at_upd [OF far, THEN iffD2]) simp_all
    moreover have "strncpy_copy m d s n = strncpy_copy (m(d := c)) (d + 1) (s + 1) k"
      using Suc Cons.prems(1) by (simp add: Let_def)
    ultimately show ?thesis
      using Suc Cons.prems(3) by (simp add: mem_write_Cons del: fun_upd_apply)
  qed simp
qed

text \<open>
  C25. What \<open>strncpy\<close> writes, with a destination that does not run into the source string \<open>t\<close>.
  A string of at least \<open>count\<close> bytes is cut to its first \<open>count\<close> bytes and gets no terminator.
  A shorter one is copied and padded with zeros, but the bytes written are \<open>count + 1\<close>: the
  terminator the first loop copies is not counted, so the second loop writes a full complement
  of zeros after it. The byte at \<open>dest + count\<close>, past the buffer of the caller, becomes zero.
\<close>

theorem strncpy_writes_one_more:
  assumes "cstr_at m src t" and "length t < unat (dest - src)" and "dest \<noteq> 0" and "src \<noteq> 0"
  shows "strncpy m dest src count =
      (dest, mem_write m dest (if length t < unat count
         then t @ replicate (unat count + 1 - length t) 0 else take (unat count) t)) \<and>
    (length t < unat count \<longrightarrow> snd (strncpy m dest src count) (dest + count) = 0)"
proof -
  have *: "strncpy m dest src count =
      (dest, mem_write m dest (if length t < unat count
         then t @ replicate (unat count + 1 - length t) 0 else take (unat count) t))"
    using strncpy_loops [OF assms(1,2), of "unat count"] assms(3,4) unat_lt_exp [of count]
    by (simp add: strncpy_def case_prod_unfold Let_def)
  show ?thesis
    by (simp add: * mem_write_def nth_append)
qed

text \<open>A seven byte buffer of ones at 32 after a call with \<open>count = 4\<close> on the string \<open>ab\<close>.\<close>

definition demo_string :: mem where
  "demo_string = mem_write (\<lambda>x. 1) 16 (ascii ''ab'' @ [0])"

lemma demo_string_cstr: "cstr_at demo_string 16 (ascii ''ab'')"
  by (simp add: demo_string_def ascii_def mem_write_def)

theorem strncpy_writes_one_more_witness:
  "mem_read (snd (strncpy demo_string 32 16 4)) 32 7 = ascii ''ab'' @ [0, 0, 0, 1, 1]"
proof -
  have "replicate 3 (0 :: u8) = [0, 0, 0]" by (simp add: eval_nat_numeral)
  then have "strncpy demo_string 32 16 4 = (32, mem_write demo_string 32 [97, 98, 0, 0, 0])"
    using strncpy_writes_one_more [OF demo_string_cstr, of 32 4] by (simp add: ascii_def)
  then show ?thesis
    by (simp add: mem_read_def mem_write_def ascii_def demo_string_def upt_rec nth_Cons')
qed

end
