(* ===== verification/Tty.thy ===== *)
theory Tty
  imports Fd "HOL-Library.Monad_Syntax"
begin

text \<open>
  The terminal of src/kernel/src/tty.c: the scrollback, the input buffers, the virtual screen
  and the parser of escape sequences. Arrays are lists of their declared length, and an access
  outside one, like the overflow of a signed \<open>int\<close>, is undefined behaviour: the operation has
  the value \<open>None\<close>. Lengths and counters the code keeps within the buffers are natural numbers.
  Of the handlers of keyboard and serial input, which also wake and interrupt processes, the
  changes of the line being typed are modelled: a typed character, backspace and Enter. Their
  search for Ctrl+C, which ends the keyboard handler before it changes anything, the filter for
  printable bytes of the serial handler, and the echo to the serial port are not.
\<close>

section \<open>The structure\<close>

definition TTY_MAX_LINES :: nat where "TTY_MAX_LINES = 64"
definition TTY_MAX_LINE_CHARS :: nat where "TTY_MAX_LINE_CHARS = 120"
definition TTY_INPUT_CAPACITY :: nat where "TTY_INPUT_CAPACITY = 96"
definition TTY_SCREEN_ROWS :: int where "TTY_SCREEN_ROWS = 25"
definition TTY_SCREEN_COLS :: int where "TTY_SCREEN_COLS = 80"

definition TTY_ATTR_NORMAL :: u8 where "TTY_ATTR_NORMAL = 0"
definition TTY_ATTR_INVERSE :: u8 where "TTY_ATTR_INVERSE = 1"

definition TTY_IOCTL_CLEAR :: u32 where "TTY_IOCTL_CLEAR = 1"
definition TTY_IOCTL_SET_RAW :: u32 where "TTY_IOCTL_SET_RAW = 2"
definition TTY_IOCTL_GET_RAW :: u32 where "TTY_IOCTL_GET_RAW = 3"

datatype ansi_state = ANSI_STATE_NORMAL | ANSI_STATE_ESCAPE | ANSI_STATE_BRACKET | ANSI_STATE_PARAMS

record tty =
  lines :: "u8 list list"
  line_count :: nat
  input :: "u8 list"
  input_length :: nat
  cooked_line :: "u8 list"
  cooked_length :: nat
  line_ready :: bool
  raw_input :: "u8 list"
  raw_length :: nat
  partial_output :: "u8 list"
  partial_length :: nat
  screen :: "u8 list list"
  screen_attr :: "u8 list list"
  cursor_row :: int
  cursor_col :: int
  saved_cursor_row :: int
  saved_cursor_col :: int
  current_attr :: u8
  ansi_mode :: bool
  parser :: ansi_state
  ansi_params :: "int list"
  ansi_param_count :: nat
  ansi_cmd :: u8
  revision :: u32
  waiter_pid :: u32
  raw_input_mode :: bool

section \<open>Checked accesses\<close>

definition aset :: "'a list \<Rightarrow> nat \<Rightarrow> 'a \<Rightarrow> 'a list option" where
  "aset xs i v = (if i < length xs then Some (xs[i := v]) else None)"

definition aget :: "'a list \<Rightarrow> nat \<Rightarrow> 'a option" where
  "aget xs i = (if i < length xs then Some (xs ! i) else None)"

definition grid_set :: "'a list list \<Rightarrow> int \<Rightarrow> int \<Rightarrow> 'a \<Rightarrow> 'a list list option" where
  "grid_set g row col v =
     (if 0 \<le> row \<and> nat row < length g \<and> 0 \<le> col \<and> nat col < length (g ! nat row)
      then Some (g[nat row := (g ! nat row)[nat col := v]]) else None)"

definition grid_get :: "'a list list \<Rightarrow> int \<Rightarrow> int \<Rightarrow> 'a option" where
  "grid_get g row col =
     (if 0 \<le> row \<and> nat row < length g \<and> 0 \<le> col \<and> nat col < length (g ! nat row)
      then Some (g ! nat row ! nat col) else None)"

text \<open>Signed \<open>int\<close> arithmetic.\<close>

definition INT_MAX :: int where "INT_MAX = 2147483647"

definition int_ok :: "int \<Rightarrow> int option" where
  "int_ok i = (if - INT_MAX - 1 \<le> i \<and> i \<le> INT_MAX then Some i else None)"

section \<open>Scrollback\<close>

definition tty_touch :: "tty \<Rightarrow> tty" where
  "tty_touch t = t\<lparr>revision := revision t + 1\<rparr>"

function tty_copy_from :: "u8 list \<Rightarrow> nat \<Rightarrow> u8 list \<Rightarrow> nat \<Rightarrow> u8 list option" where
  "tty_copy_from dest capacity src i =
     (if i < length src then
        if src ! i \<noteq> 0 \<and> i + 1 < capacity
        then aset dest i (src ! i) \<bind> (\<lambda>dest. tty_copy_from dest capacity src (i + 1))
        else aset dest i 0
      else None)"
  by pat_completeness auto
termination by (relation "measure (\<lambda>(dest, capacity, src, i). length src - i)") auto

definition tty_copy_text :: "u8 list \<Rightarrow> nat \<Rightarrow> u8 list \<Rightarrow> u8 list option" where
  "tty_copy_text dest capacity src =
     (if capacity = 0 then Some dest else tty_copy_from dest capacity src 0)"

function shift_lines :: "nat \<Rightarrow> u8 list list \<Rightarrow> u8 list list option" where
  "shift_lines i ls =
     (if i < TTY_MAX_LINES then
        do { dst \<leftarrow> aget ls (i - 1);
             src \<leftarrow> aget ls i;
             l \<leftarrow> tty_copy_text dst TTY_MAX_LINE_CHARS src;
             shift_lines (i + 1) (ls[i - 1 := l]) }
      else Some ls)"
  by pat_completeness auto
termination by (relation "measure (\<lambda>(i, ls). TTY_MAX_LINES - i)") auto

definition tty_append_display_line :: "u8 list \<Rightarrow> tty \<Rightarrow> tty option" where
  "tty_append_display_line text t =
     (if line_count t < TTY_MAX_LINES then
        do { dst \<leftarrow> aget (lines t) (line_count t);
             l \<leftarrow> tty_copy_text dst TTY_MAX_LINE_CHARS text;
             Some (tty_touch (t\<lparr>lines := (lines t)[line_count t := l], line_count := line_count t + 1\<rparr>)) }
      else
        do { ls \<leftarrow> shift_lines 1 (lines t);
             dst \<leftarrow> aget ls (TTY_MAX_LINES - 1);
             l \<leftarrow> tty_copy_text dst TTY_MAX_LINE_CHARS text;
             Some (tty_touch (t\<lparr>lines := ls[TTY_MAX_LINES - 1 := l]\<rparr>)) })"

definition tty_flush_partial_line :: "tty \<Rightarrow> tty option" where
  "tty_flush_partial_line t =
     do { p \<leftarrow> aset (partial_output t) (partial_length t) 0;
          t \<leftarrow> Some (t\<lparr>partial_output := p\<rparr>);
          t \<leftarrow> (if partial_length t > 0 then tty_append_display_line (partial_output t) t else Some t);
          p \<leftarrow> aset (partial_output t) 0 0;
          Some (t\<lparr>partial_length := 0, partial_output := p\<rparr>) }"

section \<open>Raw input\<close>

function shift_raw :: "nat \<Rightarrow> nat \<Rightarrow> nat \<Rightarrow> u8 list \<Rightarrow> u8 list option" where
  "shift_raw count i n buf =
     (if i < n then
        do { c \<leftarrow> aget buf i;
             buf \<leftarrow> aset buf (i - count) c;
             shift_raw count (i + 1) n buf }
      else Some buf)"
  by pat_completeness auto
termination by (relation "measure (\<lambda>(count, i, n, buf). n - i)") auto

definition tty_raw_input_shift_left :: "nat \<Rightarrow> tty \<Rightarrow> tty option" where
  "tty_raw_input_shift_left count t =
     (if count \<ge> raw_length t then
        do { r \<leftarrow> aset (raw_input t) 0 0; Some (t\<lparr>raw_length := 0, raw_input := r\<rparr>) }
      else
        do { r \<leftarrow> shift_raw count count (raw_length t) (raw_input t);
             r \<leftarrow> aset r (raw_length t - count) 0;
             Some (t\<lparr>raw_length := raw_length t - count, raw_input := r\<rparr>) })"

fun queue_raw :: "u8 list \<Rightarrow> tty \<Rightarrow> tty option" where
  "queue_raw [] t = Some t"
| "queue_raw (c # cs) t =
     (if raw_length t + 1 < TTY_INPUT_CAPACITY then
        do { r \<leftarrow> aset (raw_input t) (raw_length t) c;
             queue_raw cs (t\<lparr>raw_input := r, raw_length := raw_length t + 1\<rparr>) }
      else Some t)"

definition tty_queue_raw_input :: "u8 list \<Rightarrow> tty \<Rightarrow> tty option" where
  "tty_queue_raw_input data t =
     do { t \<leftarrow> queue_raw data t;
          r \<leftarrow> aset (raw_input t) (raw_length t) 0;
          Some (t\<lparr>raw_input := r\<rparr>) }"

definition tty_append_output_char :: "u8 \<Rightarrow> tty \<Rightarrow> tty option" where
  "tty_append_output_char c t =
     (if c = 13 then Some t
      else if c = 10 then tty_flush_partial_line t
      else if c = 8 then
        if partial_length t > 0
        then do { p \<leftarrow> aset (partial_output t) (partial_length t - 1) 0;
                  Some (t\<lparr>partial_length := partial_length t - 1, partial_output := p\<rparr>) }
        else Some t
      else
        do { t \<leftarrow> (if partial_length t + 1 \<ge> TTY_MAX_LINE_CHARS then tty_flush_partial_line t else Some t);
             p \<leftarrow> aset (partial_output t) (partial_length t) c;
             p \<leftarrow> aset p (partial_length t + 1) 0;
             Some (t\<lparr>partial_length := partial_length t + 1, partial_output := p\<rparr>) })"

section \<open>The virtual screen\<close>

definition screen_set :: "int \<Rightarrow> int \<Rightarrow> u8 \<Rightarrow> u8 \<Rightarrow> tty \<Rightarrow> tty option" where
  "screen_set row col c attr t =
     do { s \<leftarrow> grid_set (screen t) row col c;
          a \<leftarrow> grid_set (screen_attr t) row col attr;
          Some (t\<lparr>screen := s, screen_attr := a\<rparr>) }"

function clear_cells :: "int \<Rightarrow> int \<Rightarrow> int \<Rightarrow> tty \<Rightarrow> tty option" where
  "clear_cells row col stop t =
     (if col < stop then screen_set row col 32 TTY_ATTR_NORMAL t \<bind> clear_cells row (col + 1) stop
      else Some t)"
  by pat_completeness auto
termination by (relation "measure (\<lambda>(row, col, stop, t). nat (stop - col))") auto

function clear_rows :: "int \<Rightarrow> tty \<Rightarrow> tty option" where
  "clear_rows row t =
     (if row < TTY_SCREEN_ROWS then clear_cells row 0 TTY_SCREEN_COLS t \<bind> clear_rows (row + 1)
      else Some t)"
  by pat_completeness auto
termination by (relation "measure (\<lambda>(row, t). nat (TTY_SCREEN_ROWS - row))") auto

definition screen_clear :: "tty \<Rightarrow> tty option" where
  "screen_clear t = clear_rows 0 t"

definition screen_clear_line :: "int \<Rightarrow> tty \<Rightarrow> tty option" where
  "screen_clear_line row t =
     (if row < 0 \<or> row \<ge> TTY_SCREEN_ROWS then Some t else clear_cells row 0 TTY_SCREEN_COLS t)"

function clear_lines :: "int \<Rightarrow> int \<Rightarrow> tty \<Rightarrow> tty option" where
  "clear_lines i stop t =
     (if i < stop then screen_clear_line i t \<bind> clear_lines (i + 1) stop else Some t)"
  by pat_completeness auto
termination by (relation "measure (\<lambda>(i, stop, t). nat (stop - i))") auto

definition screen_clear_to_eol :: "tty \<Rightarrow> tty option" where
  "screen_clear_to_eol t =
     (if cursor_row t < 0 \<or> cursor_row t \<ge> TTY_SCREEN_ROWS then Some t
      else clear_cells (cursor_row t) (cursor_col t) TTY_SCREEN_COLS t)"

function scroll_cells :: "int \<Rightarrow> int \<Rightarrow> tty \<Rightarrow> tty option" where
  "scroll_cells row col t =
     (if col < TTY_SCREEN_COLS then
        do { c \<leftarrow> grid_get (screen t) (row + 1) col;
             a \<leftarrow> grid_get (screen_attr t) (row + 1) col;
             t \<leftarrow> screen_set row col c a t;
             scroll_cells row (col + 1) t }
      else Some t)"
  by pat_completeness auto
termination by (relation "measure (\<lambda>(row, col, t). nat (TTY_SCREEN_COLS - col))") auto

function scroll_rows :: "int \<Rightarrow> tty \<Rightarrow> tty option" where
  "scroll_rows row t =
     (if row < TTY_SCREEN_ROWS - 1 then scroll_cells row 0 t \<bind> scroll_rows (row + 1) else Some t)"
  by pat_completeness auto
termination by (relation "measure (\<lambda>(row, t). nat (TTY_SCREEN_ROWS - row))") auto

definition screen_scroll_up :: "tty \<Rightarrow> tty option" where
  "screen_scroll_up t = scroll_rows 0 t \<bind> clear_cells (TTY_SCREEN_ROWS - 1) 0 TTY_SCREEN_COLS"

text \<open>The scroll that \<open>screen_putc\<close> and a line feed make when the cursor has left the screen.\<close>

definition wrap_row :: "tty \<Rightarrow> tty option" where
  "wrap_row t =
     (if cursor_row t \<ge> TTY_SCREEN_ROWS
      then do { t \<leftarrow> screen_scroll_up t; Some (t\<lparr>cursor_row := TTY_SCREEN_ROWS - 1\<rparr>) }
      else Some t)"

definition screen_putc :: "u8 \<Rightarrow> tty \<Rightarrow> tty option" where
  "screen_putc c t =
     do { t \<leftarrow> wrap_row t;
          t \<leftarrow> (if cursor_col t \<ge> TTY_SCREEN_COLS
                then do { r \<leftarrow> int_ok (cursor_row t + 1); wrap_row (t\<lparr>cursor_col := 0, cursor_row := r\<rparr>) }
                else Some t);
          if cursor_row t \<ge> 0 \<and> cursor_col t \<ge> 0
          then do { t \<leftarrow> screen_set (cursor_row t) (cursor_col t) c (current_attr t) t;
                    n \<leftarrow> int_ok (cursor_col t + 1);
                    Some (t\<lparr>cursor_col := n\<rparr>) }
          else Some t }"

section \<open>Escape sequences\<close>

definition ansi_reset :: "tty \<Rightarrow> tty" where
  "ansi_reset t = t\<lparr>parser := ANSI_STATE_NORMAL, ansi_param_count := 0, ansi_cmd := 0\<rparr>"

definition ansi_param :: "nat \<Rightarrow> int \<Rightarrow> tty \<Rightarrow> int option" where
  "ansi_param i default_val t =
     (if i \<le> ansi_param_count t
      then do { p \<leftarrow> aget (ansi_params t) i; Some (if p > 0 then p else default_val) }
      else Some default_val)"

definition clamp :: "int \<Rightarrow> int \<Rightarrow> int" where
  "clamp n v = (let v = (if v < 0 then 0 else v) in if v \<ge> n then n - 1 else v)"

definition sgr_mode :: "int \<Rightarrow> u8 \<Rightarrow> u8" where
  "sgr_mode mode attr =
     (if mode = 0 then TTY_ATTR_NORMAL
      else if mode = 7 then TTY_ATTR_INVERSE
      else if mode = 27 then TTY_ATTR_NORMAL
      else attr)"

text \<open>The local copy \<open>params\<close> holds the first \<open>ansi_param_count + 1\<close> parameters.\<close>

definition ansi_local :: "tty \<Rightarrow> int list option" where
  "ansi_local t =
     (let n = min (ansi_param_count t + 1) 8
      in if n \<le> length (ansi_params t) then Some (take n (ansi_params t)) else None)"

definition ansi_cursor_position :: "tty \<Rightarrow> tty option" where
  "ansi_cursor_position t =
     do { r \<leftarrow> ansi_param 0 1 t;
          c \<leftarrow> ansi_param 1 1 t;
          Some (t\<lparr>cursor_row := clamp TTY_SCREEN_ROWS (r - 1), cursor_col := clamp TTY_SCREEN_COLS (c - 1)\<rparr>) }"

definition ansi_erase_display :: "int \<Rightarrow> tty \<Rightarrow> tty option" where
  "ansi_erase_display p t =
     (if p = 0 then
        do { t \<leftarrow> screen_clear_to_eol t;
             clear_lines (cursor_row t + 1) TTY_SCREEN_ROWS t }
      else if p = 1 then
        do { t \<leftarrow> clear_lines 0 (cursor_row t) t;
             clear_cells (cursor_row t) 0 (cursor_col t) t }
      else if p = 2 then screen_clear t
      else Some t)"

definition ansi_erase_line :: "int \<Rightarrow> tty \<Rightarrow> tty option" where
  "ansi_erase_line p t =
     (if p = 0 then screen_clear_to_eol t
      else if p = 1 then clear_cells (cursor_row t) 0 (cursor_col t) t
      else if p = 2 then screen_clear_line (cursor_row t) t
      else Some t)"

definition ansi_move :: "u8 \<Rightarrow> tty \<Rightarrow> tty option" where
  "ansi_move cmd t =
     do { p \<leftarrow> ansi_param 0 1 t;
          if cmd = 65 then
            do { r \<leftarrow> int_ok (cursor_row t - p); Some (t\<lparr>cursor_row := (if r < 0 then 0 else r)\<rparr>) }
          else if cmd = 66 then
            do { r \<leftarrow> int_ok (cursor_row t + p);
                 Some (t\<lparr>cursor_row := (if r \<ge> TTY_SCREEN_ROWS then TTY_SCREEN_ROWS - 1 else r)\<rparr>) }
          else if cmd = 67 then
            do { c \<leftarrow> int_ok (cursor_col t + p);
                 Some (t\<lparr>cursor_col := (if c \<ge> TTY_SCREEN_COLS then TTY_SCREEN_COLS - 1 else c)\<rparr>) }
          else
            do { c \<leftarrow> int_ok (cursor_col t - p); Some (t\<lparr>cursor_col := (if c < 0 then 0 else c)\<rparr>) } }"

definition ansi_execute :: "tty \<Rightarrow> tty option" where
  "ansi_execute t =
     do { params \<leftarrow> ansi_local t;
          t \<leftarrow> (let cmd = ansi_cmd t in
            if cmd = 72 \<or> cmd = 102 then ansi_cursor_position t
            else if cmd = 74 then aget params 0 \<bind> (\<lambda>p. ansi_erase_display p t)
            else if cmd = 75 then aget params 0 \<bind> (\<lambda>p. ansi_erase_line p t)
            else if cmd = 65 \<or> cmd = 66 \<or> cmd = 67 \<or> cmd = 68 then ansi_move cmd t
            else if cmd = 109 then
              if ansi_param_count t < length params
              then Some (t\<lparr>current_attr := fold sgr_mode params (current_attr t)\<rparr>) else None
            else if cmd = 115 then
              Some (t\<lparr>saved_cursor_row := cursor_row t, saved_cursor_col := cursor_col t\<rparr>)
            else if cmd = 117 then
              Some (t\<lparr>cursor_row := saved_cursor_row t, cursor_col := saved_cursor_col t\<rparr>)
            else Some t);
          Some (ansi_reset t) }"

definition ansi_normal_char :: "u8 \<Rightarrow> tty \<Rightarrow> tty option" where
  "ansi_normal_char c t =
     (if c = 0x1b then Some (t\<lparr>parser := ANSI_STATE_ESCAPE\<rparr>)
      else if c = 10 then
        do { r \<leftarrow> int_ok (cursor_row t + 1); wrap_row (t\<lparr>cursor_col := 0, cursor_row := r\<rparr>) }
      else if c = 13 then Some (t\<lparr>cursor_col := 0\<rparr>)
      else if c = 8 \<or> c = 0x7f then
        Some (if cursor_col t > 0 then t\<lparr>cursor_col := cursor_col t - 1\<rparr> else t)
      else if c = 9 then
        do { n \<leftarrow> int_ok (cursor_col t + 4);
             Some (t\<lparr>cursor_col := (if n div 4 * 4 \<ge> TTY_SCREEN_COLS then TTY_SCREEN_COLS - 1 else n div 4 * 4)\<rparr>) }
      else if c \<ge> 0x20 \<and> c < 0x7f then screen_putc c t
      else Some t)"

definition ansi_escape_char :: "u8 \<Rightarrow> tty \<Rightarrow> tty option" where
  "ansi_escape_char c t =
     (if c = 91 then
        do { ps \<leftarrow> aset (ansi_params t) 0 0;
             Some (t\<lparr>parser := ANSI_STATE_BRACKET, ansi_param_count := 0, ansi_params := ps\<rparr>) }
      else if c = 99 then
        do { t \<leftarrow> screen_clear t; Some (ansi_reset (t\<lparr>cursor_row := 0, cursor_col := 0\<rparr>)) }
      else if c = 55 then
        Some (ansi_reset (t\<lparr>saved_cursor_row := cursor_row t, saved_cursor_col := cursor_col t\<rparr>))
      else if c = 56 then
        Some (ansi_reset (t\<lparr>cursor_row := saved_cursor_row t, cursor_col := saved_cursor_col t\<rparr>))
      else if c = 77 then
        do { t \<leftarrow> (if cursor_row t = 0 then screen_scroll_up t
                   else int_ok (cursor_row t - 1) \<bind> (\<lambda>r. Some (t\<lparr>cursor_row := r\<rparr>)));
             Some (ansi_reset t) }
      else Some (ansi_reset t))"

definition is_digit :: "u8 \<Rightarrow> bool" where
  "is_digit c \<longleftrightarrow> 48 \<le> c \<and> c \<le> 57"

definition digit_value :: "u8 \<Rightarrow> int" where
  "digit_value c = uint c - 48"

definition ansi_bracket_char :: "u8 \<Rightarrow> tty \<Rightarrow> tty option" where
  "ansi_bracket_char c t =
     (if is_digit c then
        do { ps \<leftarrow> aset (ansi_params t) (ansi_param_count t) (digit_value c);
             Some (t\<lparr>ansi_params := ps, parser := ANSI_STATE_PARAMS\<rparr>) }
      else if c = 63 then
        do { ps \<leftarrow> aset (ansi_params t) 0 0;
             Some (t\<lparr>ansi_params := ps, parser := ANSI_STATE_PARAMS\<rparr>) }
      else if c = 59 then
        do { ps \<leftarrow> aset (ansi_params t) (ansi_param_count t) 0;
             t \<leftarrow> Some (t\<lparr>ansi_params := ps, ansi_param_count := ansi_param_count t + 1\<rparr>);
             Some (if ansi_param_count t \<ge> 8 then ansi_reset t else t) }
      else ansi_execute (t\<lparr>ansi_cmd := c\<rparr>))"

definition ansi_params_char :: "u8 \<Rightarrow> tty \<Rightarrow> tty option" where
  "ansi_params_char c t =
     (if is_digit c then
        do { p \<leftarrow> aget (ansi_params t) (ansi_param_count t);
             p \<leftarrow> int_ok (p * 10);
             p \<leftarrow> int_ok (p + digit_value c);
             ps \<leftarrow> aset (ansi_params t) (ansi_param_count t) p;
             Some (t\<lparr>ansi_params := ps\<rparr>) }
      else if c = 59 then
        if ansi_param_count t + 1 \<ge> 8
        then Some (ansi_reset (t\<lparr>ansi_param_count := ansi_param_count t + 1\<rparr>))
        else do { ps \<leftarrow> aset (ansi_params t) (ansi_param_count t + 1) 0;
                  Some (t\<lparr>ansi_param_count := ansi_param_count t + 1, ansi_params := ps\<rparr>) }
      else ansi_execute (t\<lparr>ansi_cmd := c\<rparr>))"

definition tty_process_ansi_char :: "u8 \<Rightarrow> tty \<Rightarrow> tty option" where
  "tty_process_ansi_char c t =
     (case parser t of
        ANSI_STATE_NORMAL \<Rightarrow> ansi_normal_char c t
      | ANSI_STATE_ESCAPE \<Rightarrow> ansi_escape_char c t
      | ANSI_STATE_BRACKET \<Rightarrow> ansi_bracket_char c t
      | ANSI_STATE_PARAMS \<Rightarrow> ansi_params_char c t)"

section \<open>Reading a line\<close>

text \<open>The two loops that fill the local buffer \<open>line\<close>: the pending output, then the input line.\<close>

function line_fill :: "nat \<Rightarrow> nat \<Rightarrow> u8 list \<Rightarrow> u8 list \<times> nat \<Rightarrow> (u8 list \<times> nat) option" where
  "line_fill i n src q =
     (if i < n \<and> snd q + 1 < TTY_MAX_LINE_CHARS then
        do { c \<leftarrow> aget src i;
             l \<leftarrow> aset (fst q) (snd q) c;
             line_fill (i + 1) n src (l, snd q + 1) }
      else Some q)"
  by pat_completeness auto
termination by (relation "measure (\<lambda>(i, n, src, q). n - i)") auto

definition tty_commit_input_line :: "tty \<Rightarrow> tty option" where
  "tty_commit_input_line t =
     do { q \<leftarrow> line_fill 0 (partial_length t) (partial_output t) (replicate TTY_MAX_LINE_CHARS 0, 0);
          q \<leftarrow> line_fill 0 (cooked_length t) (cooked_line t) q;
          l \<leftarrow> aset (fst q) (snd q) 0;
          t \<leftarrow> (if snd q > 0 then tty_append_display_line l t else Some t);
          p \<leftarrow> aset (partial_output t) 0 0;
          Some (t\<lparr>partial_length := 0, partial_output := p\<rparr>) }"

function copy_array :: "nat \<Rightarrow> nat \<Rightarrow> u8 list \<Rightarrow> u8 list \<Rightarrow> u8 list option" where
  "copy_array i n src dst =
     (if i < n then
        do { c \<leftarrow> aget src i; dst \<leftarrow> aset dst i c; copy_array (i + 1) n src dst }
      else Some dst)"
  by pat_completeness auto
termination by (relation "measure (\<lambda>(i, n, src, dst). n - i)") auto

text \<open>The raw path of a read: hand out what fits and shift the rest.\<close>

definition read_raw :: "u8 list \<Rightarrow> nat \<Rightarrow> tty \<Rightarrow> (int \<times> u8 list \<times> tty) option" where
  "read_raw out count t =
     (let to_copy = min (raw_length t) count
      in do { out \<leftarrow> copy_array 0 to_copy (raw_input t) out;
              t \<leftarrow> tty_raw_input_shift_left to_copy t;
              Some (int to_copy, out, t) })"

definition tty_fd_read :: "u8 list option \<Rightarrow> u64 \<Rightarrow> tty option \<Rightarrow> (int \<times> u8 list option \<times> tty option) option" where
  "tty_fd_read buffer count object =
     (case (object, buffer) of
        (Some t, Some out) \<Rightarrow>
          if count = 0 then Some (0, Some out, Some t)
          else if raw_length t > 0 then
            do { (n, out, t) \<leftarrow> read_raw out (unat count) t; Some (n, Some out, Some t) }
          else if \<not> line_ready t then Some (0, Some out, Some t)
          else
            do { t \<leftarrow> tty_commit_input_line t;
                 to_copy \<leftarrow> Some (if cooked_length t + 1 > TTY_INPUT_CAPACITY
                                  then TTY_INPUT_CAPACITY - 1 else cooked_length t);
                 r \<leftarrow> copy_array 0 to_copy (cooked_line t) (raw_input t);
                 r \<leftarrow> aset r to_copy 10;
                 cl \<leftarrow> aset (cooked_line t) 0 0;
                 t \<leftarrow> Some (t\<lparr>raw_input := r, raw_length := to_copy + 1, line_ready := False,
                             cooked_length := 0, cooked_line := cl, waiter_pid := 0\<rparr>);
                 (n, out, t) \<leftarrow> read_raw out (unat count) t;
                 Some (n, Some out, Some t) }
      | _ \<Rightarrow> Some (0, buffer, object))"

section \<open>Line input\<close>

text \<open>What the keyboard and the serial handler do to the input buffer in cooked mode.\<close>

definition type_char :: "u8 \<Rightarrow> tty \<Rightarrow> tty option" where
  "type_char c t =
     (if input_length t + 1 < TTY_INPUT_CAPACITY
      then do { i \<leftarrow> aset (input t) (input_length t) c;
                i \<leftarrow> aset i (input_length t + 1) 0;
                Some (t\<lparr>input := i, input_length := input_length t + 1\<rparr>) }
      else Some t)"

text \<open>
  The loop over the characters of a keyboard report that has no Ctrl+C in it, on a terminal in
  cooked mode.
\<close>

fun type_chars :: "u8 list \<Rightarrow> tty \<Rightarrow> tty option" where
  "type_chars [] t = Some t"
| "type_chars (c # cs) t = type_char c t \<bind> type_chars cs"

definition erase_char :: "tty \<Rightarrow> tty option" where
  "erase_char t =
     do { i \<leftarrow> aset (input t) (input_length t - 1) 0;
          Some (t\<lparr>input_length := input_length t - 1, input := i\<rparr>) }"

definition finish_line :: "tty \<Rightarrow> tty option" where
  "finish_line t =
     do { c \<leftarrow> copy_array 0 (min (input_length t) (TTY_INPUT_CAPACITY - 1)) (input t) (cooked_line t);
          c \<leftarrow> aset c (input_length t) 0;
          i \<leftarrow> aset (input t) 0 0;
          Some (t\<lparr>cooked_length := input_length t, cooked_line := c, line_ready := True,
                  input_length := 0, input := i\<rparr>) }"

section \<open>Writing, control, initialisation\<close>

fun ansi_chars :: "u8 list \<Rightarrow> tty \<Rightarrow> tty option" where
  "ansi_chars [] t = Some t"
| "ansi_chars (c # cs) t = tty_process_ansi_char c t \<bind> ansi_chars cs"

fun output_chars :: "u8 list \<Rightarrow> tty \<Rightarrow> tty option" where
  "output_chars [] t = Some t"
| "output_chars (c # cs) t = tty_append_output_char c t \<bind> output_chars cs"

definition enter_ansi_mode :: "tty \<Rightarrow> tty option" where
  "enter_ansi_mode t =
     do { t \<leftarrow> screen_clear (t\<lparr>ansi_mode := True\<rparr>); Some (t\<lparr>cursor_row := 0, cursor_col := 0\<rparr>) }"

text \<open>\<open>buffer\<close> holds the bytes of the caller's buffer; \<open>count\<close> of them are read.\<close>

definition tty_fd_write :: "u8 list option \<Rightarrow> u64 \<Rightarrow> tty option \<Rightarrow> (int \<times> tty option) option" where
  "tty_fd_write buffer count object =
     (case (object, buffer) of
        (Some t, Some text) \<Rightarrow>
          if unat count \<le> length text then
            let text = take (unat count) text in
            do { t \<leftarrow> (if \<not> ansi_mode t \<and> 0x1b \<in> set text then enter_ansi_mode t else Some t);
                 t \<leftarrow> (if ansi_mode t then map_option tty_touch (ansi_chars text t)
                      else map_option (\<lambda>t. if count > 0 then tty_touch t else t) (output_chars text t));
                 Some (sint count, Some t) }
          else None
      | _ \<Rightarrow> Some (- errno SYSCALL_EINVAL, object))"

text \<open>The fields that \<open>tty_init\<close> and \<open>tty_reset\<close> clear the same way, and the rest of each.\<close>

definition tty_clear_fields :: "tty \<Rightarrow> tty option" where
  "tty_clear_fields t =
     do { i \<leftarrow> aset (input t) 0 0;
          c \<leftarrow> aset (cooked_line t) 0 0;
          r \<leftarrow> aset (raw_input t) 0 0;
          p \<leftarrow> aset (partial_output t) 0 0;
          screen_clear (t\<lparr>line_count := 0, input_length := 0, input := i, cooked_length := 0, cooked_line := c,
            line_ready := False, raw_length := 0, raw_input := r, partial_length := 0, partial_output := p,
            waiter_pid := 0, cursor_row := 0, cursor_col := 0, saved_cursor_row := 0, saved_cursor_col := 0,
            current_attr := TTY_ATTR_NORMAL, ansi_mode := False, parser := ANSI_STATE_NORMAL,
            ansi_param_count := 0\<rparr>) }"

definition tty_init :: "tty \<Rightarrow> tty option" where
  "tty_init t = tty_clear_fields (t\<lparr>revision := 1, raw_input_mode := False\<rparr>)"

definition tty_reset :: "tty \<Rightarrow> tty option" where
  "tty_reset t = map_option tty_touch (tty_clear_fields t)"

text \<open>
  \<open>TTY_IOCTL_GET_RAW\<close> stores a word at the address \<open>arg\<close>; the last component of the result is
  that store.
\<close>

definition tty_fd_ioctl :: "u32 \<Rightarrow> u64 \<Rightarrow> tty option \<Rightarrow> (int \<times> tty option \<times> (u64 \<times> u32) option) option" where
  "tty_fd_ioctl request arg object =
     (case object of
        None \<Rightarrow> Some (- errno SYSCALL_EINVAL, None, None)
      | Some t \<Rightarrow>
          if request = TTY_IOCTL_CLEAR then do { t \<leftarrow> tty_reset t; Some (0, Some t, None) }
          else if request = TTY_IOCTL_SET_RAW then
            do { i \<leftarrow> aset (input t) 0 0;
                 Some (0, Some (t\<lparr>raw_input_mode := (arg \<noteq> 0), input_length := 0, input := i\<rparr>), None) }
          else if request = TTY_IOCTL_GET_RAW then
            if arg \<noteq> 0 then Some (0, Some t, Some (arg, if raw_input_mode t then 1 else 0))
            else Some (- errno SYSCALL_EINVAL, Some t, None)
          else Some (- errno SYSCALL_ENOSYS, Some t, None))"

declare tty_copy_from.simps [simp del] shift_lines.simps [simp del] shift_raw.simps [simp del]
  clear_cells.simps [simp del] clear_rows.simps [simp del] clear_lines.simps [simp del]
  scroll_cells.simps [simp del] scroll_rows.simps [simp del] line_fill.simps [simp del]
  copy_array.simps [simp del]

section \<open>The invariant\<close>

definition grid_ok :: "'a list list \<Rightarrow> bool" where
  "grid_ok g \<longleftrightarrow> length g = 25 \<and> (\<forall>r\<in>set g. length r = 80)"

definition grids_ok :: "tty \<Rightarrow> bool" where
  "grids_ok t \<longleftrightarrow> grid_ok (screen t) \<and> grid_ok (screen_attr t)"

definition buffers_ok :: "tty \<Rightarrow> bool" where
  "buffers_ok t \<longleftrightarrow>
     length (lines t) = TTY_MAX_LINES \<and> (\<forall>l\<in>set (lines t). length l = TTY_MAX_LINE_CHARS) \<and>
     line_count t \<le> TTY_MAX_LINES \<and>
     length (input t) = TTY_INPUT_CAPACITY \<and> input_length t < TTY_INPUT_CAPACITY \<and>
     length (cooked_line t) = TTY_INPUT_CAPACITY \<and> cooked_length t < TTY_INPUT_CAPACITY \<and>
     length (raw_input t) = TTY_INPUT_CAPACITY \<and> raw_length t < TTY_INPUT_CAPACITY \<and>
     length (partial_output t) = TTY_MAX_LINE_CHARS \<and> partial_length t < TTY_MAX_LINE_CHARS"

definition cursor_ok :: "tty \<Rightarrow> bool" where
  "cursor_ok t \<longleftrightarrow>
     0 \<le> cursor_row t \<and> cursor_row t < TTY_SCREEN_ROWS \<and>
     0 \<le> cursor_col t \<and> cursor_col t \<le> TTY_SCREEN_COLS \<and>
     0 \<le> saved_cursor_row t \<and> saved_cursor_row t < TTY_SCREEN_ROWS \<and>
     0 \<le> saved_cursor_col t \<and> saved_cursor_col t \<le> TTY_SCREEN_COLS"

definition parser_ok :: "tty \<Rightarrow> bool" where
  "parser_ok t \<longleftrightarrow> length (ansi_params t) = 8 \<and> ansi_param_count t < 8 \<and>
     (\<forall>p\<in>set (ansi_params t). 0 \<le> p \<and> p \<le> INT_MAX)"

definition tty_ok :: "tty \<Rightarrow> bool" where
  "tty_ok t \<longleftrightarrow> buffers_ok t \<and> grids_ok t \<and> cursor_ok t \<and> parser_ok t"

lemmas tty_sizes = TTY_MAX_LINES_def TTY_MAX_LINE_CHARS_def TTY_INPUT_CAPACITY_def
  TTY_SCREEN_ROWS_def TTY_SCREEN_COLS_def INT_MAX_def

text \<open>What the operations on the screen change: the two grids, which keep their shape.\<close>

definition regrid :: "tty \<Rightarrow> tty \<Rightarrow> bool" where
  "regrid t t' \<longleftrightarrow> (\<exists>s a. t' = t\<lparr>screen := s, screen_attr := a\<rparr> \<and> grid_ok s \<and> grid_ok a)"

lemma regrid_refl: "grids_ok t \<Longrightarrow> regrid t t"
  unfolding regrid_def grids_ok_def by (intro exI [of _ "screen t"] exI [of _ "screen_attr t"]) simp

lemma regridI: "\<lbrakk>grid_ok s; grid_ok a\<rbrakk> \<Longrightarrow> regrid t (t\<lparr>screen := s, screen_attr := a\<rparr>)"
  by (auto simp: regrid_def)

lemma regrid_trans:
  assumes "regrid t t'" and "regrid t' t''"
  shows "regrid t t''"
proof -
  from assms(1) obtain s a where t': "t' = t\<lparr>screen := s, screen_attr := a\<rparr>"
    by (auto simp: regrid_def)
  from assms(2) obtain s' a' where "t'' = t'\<lparr>screen := s', screen_attr := a'\<rparr>" "grid_ok s'" "grid_ok a'"
    by (auto simp: regrid_def)
  with t' show ?thesis by (simp add: regridI)
qed

lemma regrid_grids: "regrid t t' \<Longrightarrow> grids_ok t'"
  by (auto simp: regrid_def grids_ok_def)

lemma regrid_fields:
  "regrid t t' \<Longrightarrow> cursor_row t' = cursor_row t \<and> cursor_col t' = cursor_col t \<and>
     current_attr t' = current_attr t \<and> ansi_mode t' = ansi_mode t"
  by (auto simp: regrid_def)

lemma grid_set_ok:
  assumes "grid_ok g" and "0 \<le> row" and "row < 25" and "0 \<le> col" and "col < 80"
  shows "\<exists>g'. grid_set g row col v = Some g' \<and> grid_ok g'"
proof -
  have r: "nat row < 25" "nat col < 80" using assms by auto
  with assms(1) have l: "length (g ! nat row) = 80" by (simp add: grid_ok_def)
  have "grid_ok (g[nat row := (g ! nat row)[nat col := v]])"
    using assms(1) l set_update_subset_insert [of g "nat row" "(g ! nat row)[nat col := v]"]
    by (auto simp: grid_ok_def)
  then show ?thesis using assms r l by (simp add: grid_set_def grid_ok_def)
qed

lemma screen_set_regrid:
  assumes "grids_ok t" and "0 \<le> row" and "row < 25" and "0 \<le> col" and "col < 80"
  shows "\<exists>t'. screen_set row col c a t = Some t' \<and> regrid t t'"
  using grid_set_ok [of "screen t" row col c] grid_set_ok [of "screen_attr t" row col a] assms
  by (auto simp: screen_set_def grids_ok_def regridI)

lemma clear_cells_regrid:
  "\<lbrakk>grids_ok t; 0 \<le> row; row < 25; 0 \<le> col; stop \<le> 80\<rbrakk> \<Longrightarrow>
   \<exists>t'. clear_cells row col stop t = Some t' \<and> regrid t t'"
proof (induction row col stop t rule: clear_cells.induct)
  case (1 row col stop t)
  show ?case
  proof (cases "col < stop")
    case True
    then obtain t1 where t1: "screen_set row col 32 TTY_ATTR_NORMAL t = Some t1" "regrid t t1"
      using screen_set_regrid [of t row col] "1.prems" by fastforce
    moreover obtain t2 where "clear_cells row (col + 1) stop t1 = Some t2" "regrid t1 t2"
      using "1.IH" [OF True t1(1)] "1.prems" regrid_grids [OF t1(2)] by auto
    ultimately show ?thesis
      using True by (subst clear_cells.simps) (auto intro: regrid_trans)
  next
    case False
    then show ?thesis using "1.prems" by (subst clear_cells.simps) (simp add: regrid_refl)
  qed
qed

lemma clear_rows_regrid:
  "\<lbrakk>grids_ok t; 0 \<le> row\<rbrakk> \<Longrightarrow> \<exists>t'. clear_rows row t = Some t' \<and> regrid t t'"
proof (induction row t rule: clear_rows.induct)
  case (1 row t)
  show ?case
  proof (cases "row < TTY_SCREEN_ROWS")
    case True
    then obtain t1 where t1: "clear_cells row 0 TTY_SCREEN_COLS t = Some t1" "regrid t t1"
      using clear_cells_regrid [of t row 0 80] "1.prems"
      by (auto simp: TTY_SCREEN_ROWS_def TTY_SCREEN_COLS_def)
    moreover obtain t2 where "clear_rows (row + 1) t1 = Some t2" "regrid t1 t2"
      using "1.IH" [OF True t1(1)] "1.prems" regrid_grids [OF t1(2)] by auto
    ultimately show ?thesis
      using True by (subst clear_rows.simps) (auto intro: regrid_trans)
  next
    case False
    then show ?thesis using "1.prems" by (subst clear_rows.simps) (simp add: regrid_refl)
  qed
qed

lemma screen_clear_regrid: "grids_ok t \<Longrightarrow> \<exists>t'. screen_clear t = Some t' \<and> regrid t t'"
  by (simp add: screen_clear_def clear_rows_regrid)

lemma screen_clear_line_regrid:
  "grids_ok t \<Longrightarrow> \<exists>t'. screen_clear_line row t = Some t' \<and> regrid t t'"
  using clear_cells_regrid [of t row 0 80]
  by (auto simp: screen_clear_line_def TTY_SCREEN_ROWS_def TTY_SCREEN_COLS_def regrid_refl)

lemma clear_lines_regrid:
  "grids_ok t \<Longrightarrow> \<exists>t'. clear_lines i stop t = Some t' \<and> regrid t t'"
proof (induction i stop t rule: clear_lines.induct)
  case (1 i stop t)
  obtain t1 where t1: "screen_clear_line i t = Some t1" "regrid t t1"
    using screen_clear_line_regrid "1.prems" by blast
  show ?case
  proof (cases "i < stop")
    case True
    with t1 "1.IH" [OF True t1(1)] regrid_grids [OF t1(2)] show ?thesis
      by (subst clear_lines.simps) (auto intro: regrid_trans)
  next
    case False
    then show ?thesis using "1.prems" by (subst clear_lines.simps) (simp add: regrid_refl)
  qed
qed

lemma screen_clear_to_eol_regrid:
  "\<lbrakk>grids_ok t; 0 \<le> cursor_col t\<rbrakk> \<Longrightarrow> \<exists>t'. screen_clear_to_eol t = Some t' \<and> regrid t t'"
  using clear_cells_regrid [of t "cursor_row t" "cursor_col t" 80]
  by (auto simp: screen_clear_to_eol_def TTY_SCREEN_ROWS_def TTY_SCREEN_COLS_def regrid_refl)

lemma scroll_cells_regrid:
  "\<lbrakk>grids_ok t; 0 \<le> row; row < 24; 0 \<le> col\<rbrakk> \<Longrightarrow> \<exists>t'. scroll_cells row col t = Some t' \<and> regrid t t'"
proof (induction row col t rule: scroll_cells.induct)
  case (1 row col t)
  show ?case
  proof (cases "col < TTY_SCREEN_COLS")
    case True
    then have "nat (row + 1) < 25" "nat col < 80" using "1.prems" by (auto simp: TTY_SCREEN_COLS_def)
    moreover from this "1.prems"(1)
    have "length (screen t ! nat (row + 1)) = 80" "length (screen_attr t ! nat (row + 1)) = 80"
      by (auto simp: grids_ok_def grid_ok_def)
    ultimately obtain c a where ca: "grid_get (screen t) (row + 1) col = Some c"
      "grid_get (screen_attr t) (row + 1) col = Some a"
      using "1.prems" by (auto simp: grid_get_def grids_ok_def grid_ok_def)
    obtain t1 where t1: "screen_set row col c a t = Some t1" "regrid t t1"
      using screen_set_regrid [of t row col] "1.prems" True by (fastforce simp: TTY_SCREEN_COLS_def)
    moreover obtain t2 where "scroll_cells row (col + 1) t1 = Some t2" "regrid t1 t2"
      using "1.IH" [OF True ca t1(1)] "1.prems" regrid_grids [OF t1(2)] by auto
    ultimately show ?thesis
      using True ca by (subst scroll_cells.simps) (auto intro: regrid_trans)
  next
    case False
    then show ?thesis using "1.prems" by (subst scroll_cells.simps) (simp add: regrid_refl)
  qed
qed

lemma scroll_rows_regrid:
  "\<lbrakk>grids_ok t; 0 \<le> row\<rbrakk> \<Longrightarrow> \<exists>t'. scroll_rows row t = Some t' \<and> regrid t t'"
proof (induction row t rule: scroll_rows.induct)
  case (1 row t)
  show ?case
  proof (cases "row < TTY_SCREEN_ROWS - 1")
    case True
    then obtain t1 where t1: "scroll_cells row 0 t = Some t1" "regrid t t1"
      using scroll_cells_regrid [of t row 0] "1.prems" by (auto simp: TTY_SCREEN_ROWS_def)
    moreover obtain t2 where "scroll_rows (row + 1) t1 = Some t2" "regrid t1 t2"
      using "1.IH" [OF True t1(1)] "1.prems" regrid_grids [OF t1(2)] by auto
    ultimately show ?thesis
      using True by (subst scroll_rows.simps) (auto intro: regrid_trans)
  next
    case False
    then show ?thesis using "1.prems" by (subst scroll_rows.simps) (simp add: regrid_refl)
  qed
qed

lemma screen_scroll_up_regrid:
  assumes "grids_ok t"
  shows "\<exists>t'. screen_scroll_up t = Some t' \<and> regrid t t'"
proof -
  obtain t1 where t1: "scroll_rows 0 t = Some t1" "regrid t t1"
    using scroll_rows_regrid assms by blast
  moreover obtain t2 where "clear_cells (TTY_SCREEN_ROWS - 1) 0 TTY_SCREEN_COLS t1 = Some t2" "regrid t1 t2"
    using clear_cells_regrid [of t1 24 0 80] regrid_grids [OF t1(2)]
    by (auto simp: TTY_SCREEN_ROWS_def TTY_SCREEN_COLS_def)
  ultimately show ?thesis by (auto simp: screen_scroll_up_def intro: regrid_trans)
qed

lemma tty_okI: "\<lbrakk>buffers_ok t; grids_ok t; cursor_ok t; parser_ok t\<rbrakk> \<Longrightarrow> tty_ok t"
  by (simp add: tty_ok_def)

lemma tty_okD: "tty_ok t \<Longrightarrow> buffers_ok t" "tty_ok t \<Longrightarrow> grids_ok t" "tty_ok t \<Longrightarrow> cursor_ok t" "tty_ok t \<Longrightarrow> parser_ok t"
  by (simp_all add: tty_ok_def)

lemma regrid_buffers: "regrid t t' \<Longrightarrow> buffers_ok t' = buffers_ok t"
  by (auto simp: regrid_def buffers_ok_def)

lemma regrid_cursor: "regrid t t' \<Longrightarrow> cursor_ok t' = cursor_ok t"
  by (auto simp: regrid_def cursor_ok_def)

lemma regrid_parser: "regrid t t' \<Longrightarrow> parser_ok t' = parser_ok t"
  by (auto simp: regrid_def parser_ok_def)

lemma regrid_tty_ok: "\<lbrakk>tty_ok t; regrid t t'\<rbrakk> \<Longrightarrow> tty_ok t'"
  by (simp add: tty_ok_def regrid_buffers regrid_cursor regrid_parser regrid_grids)

lemma tty_ok_cursor_row: "\<lbrakk>tty_ok t; 0 \<le> r; r < 25\<rbrakk> \<Longrightarrow> tty_ok (t\<lparr>cursor_row := r\<rparr>)"
  by (simp add: tty_ok_def buffers_ok_def grids_ok_def cursor_ok_def parser_ok_def tty_sizes)

lemma tty_ok_cursor_col: "\<lbrakk>tty_ok t; 0 \<le> c; c \<le> 80\<rbrakk> \<Longrightarrow> tty_ok (t\<lparr>cursor_col := c\<rparr>)"
  by (simp add: tty_ok_def buffers_ok_def grids_ok_def cursor_ok_def parser_ok_def tty_sizes)

lemma tty_ok_cursor:
  "\<lbrakk>tty_ok t; 0 \<le> r; r < 25; 0 \<le> c; c \<le> 80\<rbrakk> \<Longrightarrow> tty_ok (t\<lparr>cursor_row := r, cursor_col := c\<rparr>)"
  by (simp add: tty_ok_def buffers_ok_def grids_ok_def cursor_ok_def parser_ok_def tty_sizes)

lemma tty_ok_saved:
  "tty_ok t \<Longrightarrow> tty_ok (t\<lparr>saved_cursor_row := cursor_row t, saved_cursor_col := cursor_col t\<rparr>)"
  "tty_ok t \<Longrightarrow> tty_ok (t\<lparr>cursor_row := saved_cursor_row t, cursor_col := saved_cursor_col t\<rparr>)"
  by (simp_all add: tty_ok_def buffers_ok_def grids_ok_def cursor_ok_def parser_ok_def)

lemma tty_ok_other:
  "tty_ok (t\<lparr>parser := s\<rparr>) = tty_ok t" "tty_ok (t\<lparr>current_attr := a\<rparr>) = tty_ok t"
  "tty_ok (t\<lparr>ansi_cmd := c\<rparr>) = tty_ok t" "tty_ok (t\<lparr>ansi_mode := b\<rparr>) = tty_ok t"
  "tty_ok (t\<lparr>waiter_pid := w\<rparr>) = tty_ok t" "tty_ok (t\<lparr>line_ready := b\<rparr>) = tty_ok t"
  "tty_ok (t\<lparr>raw_input_mode := b\<rparr>) = tty_ok t" "tty_ok (tty_touch t) = tty_ok t"
  by (simp_all add: tty_ok_def buffers_ok_def grids_ok_def cursor_ok_def parser_ok_def tty_touch_def)

lemma tty_ok_ansi_reset: "tty_ok t \<Longrightarrow> tty_ok (ansi_reset t)"
  by (simp add: tty_ok_def buffers_ok_def grids_ok_def cursor_ok_def parser_ok_def ansi_reset_def)

lemma tty_ok_params:
  "\<lbrakk>tty_ok t; length ps = 8; \<forall>p\<in>set ps. 0 \<le> p \<and> p \<le> INT_MAX; n < 8\<rbrakk> \<Longrightarrow>
   tty_ok (t\<lparr>ansi_params := ps, ansi_param_count := n\<rparr>)"
  "\<lbrakk>tty_ok t; length ps = 8; \<forall>p\<in>set ps. 0 \<le> p \<and> p \<le> INT_MAX\<rbrakk> \<Longrightarrow> tty_ok (t\<lparr>ansi_params := ps\<rparr>)"
  by (simp_all add: tty_ok_def buffers_ok_def grids_ok_def cursor_ok_def parser_ok_def)

lemma cursor_bounds:
  assumes "tty_ok t"
  shows "0 \<le> cursor_row t" "cursor_row t < 25" "0 \<le> cursor_col t" "cursor_col t \<le> 80"
  using assms by (simp_all add: tty_ok_def cursor_ok_def tty_sizes)

text \<open>Each operation is defined on a terminal that meets the invariant and keeps it.\<close>

definition keeps_tty :: "(tty \<Rightarrow> tty option) \<Rightarrow> bool" where
  "keeps_tty f \<longleftrightarrow> (\<forall>t. tty_ok t \<longrightarrow> (\<exists>t'. f t = Some t' \<and> tty_ok t'))"

lemma keeps_ttyD: "\<lbrakk>keeps_tty f; tty_ok t\<rbrakk> \<Longrightarrow> \<exists>t'. f t = Some t' \<and> tty_ok t'"
  by (simp add: keeps_tty_def)

lemma keeps_tty_bind: "\<lbrakk>keeps_tty f; keeps_tty g\<rbrakk> \<Longrightarrow> keeps_tty (\<lambda>t. f t \<bind> g)"
  by (fastforce simp: keeps_tty_def)

lemma keeps_regrid:
  "(\<And>t. tty_ok t \<Longrightarrow> \<exists>t'. f t = Some t' \<and> regrid t t') \<Longrightarrow> keeps_tty f"
  unfolding keeps_tty_def by (blast intro: regrid_tty_ok)

lemma keeps_screen_clear: "keeps_tty screen_clear"
  by (intro keeps_regrid screen_clear_regrid tty_okD)

lemma keeps_screen_clear_line: "keeps_tty (screen_clear_line r)"
  by (intro keeps_regrid screen_clear_line_regrid tty_okD)

lemma keeps_clear_lines: "keeps_tty (clear_lines i j)"
  by (intro keeps_regrid clear_lines_regrid tty_okD)

lemma keeps_screen_clear_to_eol: "keeps_tty screen_clear_to_eol"
  by (intro keeps_regrid screen_clear_to_eol_regrid tty_okD cursor_bounds)

lemma keeps_clear_to_cursor: "keeps_tty (\<lambda>t. clear_cells (cursor_row t) 0 (cursor_col t) t)"
  by (intro keeps_regrid clear_cells_regrid tty_okD cursor_bounds) simp_all

lemma keeps_screen_scroll_up: "keeps_tty screen_scroll_up"
  by (intro keeps_regrid screen_scroll_up_regrid tty_okD)

lemma wrap_row_ok:
  assumes "tty_ok t" and "0 \<le> r" and "r \<le> 25" and "0 \<le> c" and "c \<le> 80"
  shows "\<exists>t'. wrap_row (t\<lparr>cursor_col := c, cursor_row := r\<rparr>) = Some t' \<and> tty_ok t' \<and> cursor_col t' = c"
proof (cases "r < 25")
  case True
  then show ?thesis
    using assms tty_ok_cursor_row [OF tty_ok_cursor_col [of t c], of r] by (simp add: wrap_row_def tty_sizes)
next
  case False
  let ?t = "t\<lparr>cursor_col := c, cursor_row := r\<rparr>"
  have "grids_ok ?t" using assms(1) by (simp add: tty_ok_def grids_ok_def)
  then obtain t1 where t1: "screen_scroll_up ?t = Some t1" "regrid ?t t1"
    using screen_scroll_up_regrid by blast
  then have "tty_ok (t1\<lparr>cursor_row := 24\<rparr>) \<and> cursor_col t1 = c"
    using assms by (auto simp: regrid_def tty_ok_def buffers_ok_def grids_ok_def cursor_ok_def parser_ok_def tty_sizes)
  with t1(1) False assms(3) show ?thesis by (simp add: wrap_row_def tty_sizes)
qed

lemma wrap_row_id: "tty_ok t \<Longrightarrow> wrap_row t = Some t"
  using cursor_bounds [of t] by (simp add: wrap_row_def tty_sizes)

lemma keeps_screen_putc: "keeps_tty (screen_putc c)"
  unfolding keeps_tty_def
proof (intro allI impI)
  fix t
  assume ok: "tty_ok t"
  have row: "int_ok (cursor_row t + 1) = Some (cursor_row t + 1)"
    using cursor_bounds [OF ok] by (simp add: int_ok_def tty_sizes)
  obtain t1 where t1: "(if cursor_col t \<ge> TTY_SCREEN_COLS
      then do { r \<leftarrow> int_ok (cursor_row t + 1); wrap_row (t\<lparr>cursor_col := 0, cursor_row := r\<rparr>) }
      else Some t) = Some t1" "tty_ok t1" "cursor_col t1 < 80"
  proof (cases "cursor_col t \<ge> TTY_SCREEN_COLS")
    case True
    then show thesis
      using wrap_row_ok [OF ok, of "cursor_row t + 1" 0] cursor_bounds [OF ok] row that by auto
  next
    case False
    then show thesis using ok that by (simp add: tty_sizes)
  qed
  obtain t2 where t2: "screen_set (cursor_row t1) (cursor_col t1) c (current_attr t1) t1 = Some t2" "regrid t1 t2"
    using screen_set_regrid [OF tty_okD(2) [OF t1(2)]] cursor_bounds [OF t1(2)] t1(3) by blast
  have ok2: "tty_ok t2" using t1(2) t2(2) by (rule regrid_tty_ok)
  have col: "cursor_col t2 = cursor_col t1" using regrid_fields [OF t2(2)] by simp
  then have "int_ok (cursor_col t2 + 1) = Some (cursor_col t2 + 1)"
    using cursor_bounds [OF t1(2)] t1(3) by (simp add: int_ok_def tty_sizes)
  then have "screen_putc c t = Some (t2\<lparr>cursor_col := cursor_col t2 + 1\<rparr>)"
    using t1(1) t2(1) cursor_bounds [OF t1(2)] wrap_row_id [OF ok] by (simp add: screen_putc_def)
  moreover have "tty_ok (t2\<lparr>cursor_col := cursor_col t2 + 1\<rparr>)"
    using ok2 col t1(3) cursor_bounds [OF ok2] by (intro tty_ok_cursor_col) simp_all
  ultimately show "\<exists>t'. screen_putc c t = Some t' \<and> tty_ok t'" by blast
qed

text \<open>
  The only undefined behaviour of the parser: a numeric parameter that grows past the range
  of \<open>int\<close>, or a parameter that carries the cursor past it.
\<close>

definition ansi_overflow :: "u8 \<Rightarrow> tty \<Rightarrow> bool" where
  "ansi_overflow c t \<longleftrightarrow>
     (let p = max 1 (ansi_params t ! 0) in
      (parser t = ANSI_STATE_PARAMS \<and> is_digit c \<and>
         ansi_params t ! ansi_param_count t * 10 + digit_value c > INT_MAX) \<or>
      (parser t \<in> {ANSI_STATE_BRACKET, ANSI_STATE_PARAMS} \<and>
         (c = 66 \<and> cursor_row t + p > INT_MAX \<or> c = 67 \<and> cursor_col t + p > INT_MAX)))"

lemma param_bounds: "\<lbrakk>tty_ok t; i < 8\<rbrakk> \<Longrightarrow> 0 \<le> ansi_params t ! i \<and> ansi_params t ! i \<le> INT_MAX"
  by (simp add: tty_ok_def parser_ok_def)

lemma ansi_param_0: "tty_ok t \<Longrightarrow> ansi_param 0 1 t = Some (max 1 (ansi_params t ! 0))"
  by (auto simp: tty_ok_def parser_ok_def ansi_param_def aget_def)

lemma ansi_param_some:
  assumes "tty_ok t" and "i < 8"
  shows "\<exists>p. ansi_param i 1 t = Some p \<and> 1 \<le> p"
  using assms param_bounds [OF assms] by (auto simp: tty_ok_def parser_ok_def ansi_param_def aget_def)

lemma clamp_bounds: "0 < n \<Longrightarrow> 0 \<le> clamp n v \<and> clamp n v < n"
  by (simp add: clamp_def Let_def)

lemma keeps_ansi_cursor_position: "keeps_tty ansi_cursor_position"
  unfolding keeps_tty_def
proof (intro allI impI)
  fix t
  assume ok: "tty_ok t"
  obtain r c where rc: "ansi_param 0 1 t = Some r" "ansi_param 1 1 t = Some c"
    using ansi_param_some [OF ok, of 0] ansi_param_some [OF ok, of 1] by auto
  have "tty_ok (t\<lparr>cursor_row := clamp 25 (r - 1), cursor_col := clamp 80 (c - 1)\<rparr>)"
    using ok clamp_bounds [of 25 "r - 1"] clamp_bounds [of 80 "c - 1"] by (intro tty_ok_cursor) auto
  then show "\<exists>t'. ansi_cursor_position t = Some t' \<and> tty_ok t'"
    using rc by (simp add: ansi_cursor_position_def tty_sizes)
qed

lemma keeps_ansi_erase_display: "keeps_tty (ansi_erase_display p)"
proof -
  have "keeps_tty (\<lambda>t. screen_clear_to_eol t \<bind> (\<lambda>t. clear_lines (cursor_row t + 1) TTY_SCREEN_ROWS t))"
    using keeps_clear_lines by (intro keeps_tty_bind keeps_screen_clear_to_eol) (simp add: keeps_tty_def)
  moreover have "keeps_tty (\<lambda>t. clear_lines 0 (cursor_row t) t \<bind>
      (\<lambda>t. clear_cells (cursor_row t) 0 (cursor_col t) t))"
    using keeps_clear_lines by (intro keeps_tty_bind keeps_clear_to_cursor) (simp add: keeps_tty_def)
  ultimately show ?thesis
    using keeps_screen_clear by (simp add: keeps_tty_def ansi_erase_display_def)
qed

lemma keeps_ansi_erase_line: "keeps_tty (ansi_erase_line p)"
  using keeps_screen_clear_to_eol keeps_clear_to_cursor keeps_screen_clear_line
  by (simp add: keeps_tty_def ansi_erase_line_def)

lemma ansi_move_ok:
  assumes ok: "tty_ok t" and "c \<in> {65, 66, 67, 68}"
    and "c = 66 \<Longrightarrow> cursor_row t + max 1 (ansi_params t ! 0) \<le> INT_MAX"
    and "c = 67 \<Longrightarrow> cursor_col t + max 1 (ansi_params t ! 0) \<le> INT_MAX"
  shows "\<exists>t'. ansi_move c t = Some t' \<and> tty_ok t'"
proof -
  define p where "p = max 1 (ansi_params t ! 0)"
  have p: "ansi_param 0 1 t = Some p" "1 \<le> p" "p \<le> INT_MAX"
    using ansi_param_0 [OF ok] param_bounds [OF ok, of 0] by (simp_all add: p_def INT_MAX_def)
  have b: "0 \<le> cursor_row t" "cursor_row t < 25" "0 \<le> cursor_col t" "cursor_col t \<le> 80"
    using cursor_bounds [OF ok] by simp_all
  consider "c = 65" | "c = 66" | "c = 67" | "c = 68" using assms(2) by auto
  then show ?thesis
  proof cases
    case 1
    have "int_ok (cursor_row t - p) = Some (cursor_row t - p)" using p b by (simp add: int_ok_def tty_sizes)
    with 1 p b ok show ?thesis by (simp add: ansi_move_def tty_ok_cursor_row)
  next
    case 2
    have "int_ok (cursor_row t + p) = Some (cursor_row t + p)"
      using p b assms(3) [OF 2] by (simp add: int_ok_def tty_sizes p_def)
    with 2 p b ok show ?thesis by (simp add: ansi_move_def tty_ok_cursor_row tty_sizes)
  next
    case 3
    have "int_ok (cursor_col t + p) = Some (cursor_col t + p)"
      using p b assms(4) [OF 3] by (simp add: int_ok_def tty_sizes p_def)
    with 3 p b ok show ?thesis by (simp add: ansi_move_def tty_ok_cursor_col tty_sizes)
  next
    case 4
    have "int_ok (cursor_col t - p) = Some (cursor_col t - p)" using p b by (simp add: int_ok_def tty_sizes)
    with 4 p b ok show ?thesis by (simp add: ansi_move_def tty_ok_cursor_col)
  qed
qed

lemma ansi_execute_ok:
  assumes ok: "tty_ok t"
    and "ansi_cmd t = 66 \<Longrightarrow> cursor_row t + max 1 (ansi_params t ! 0) \<le> INT_MAX"
    and "ansi_cmd t = 67 \<Longrightarrow> cursor_col t + max 1 (ansi_params t ! 0) \<le> INT_MAX"
  shows "\<exists>t'. ansi_execute t = Some t' \<and> tty_ok t'"
proof -
  define ps where "ps = take (ansi_param_count t + 1) (ansi_params t)"
  have n: "ansi_param_count t < 8" "length (ansi_params t) = 8"
    using ok by (simp_all add: tty_ok_def parser_ok_def)
  then have ps: "ansi_local t = Some ps" "length ps = ansi_param_count t + 1"
    by (simp_all add: ansi_local_def ps_def Let_def)
  have "\<exists>t'. ansi_move (ansi_cmd t) t = Some t' \<and> tty_ok t'" if "ansi_cmd t \<in> {65, 66, 67, 68}"
    using that assms by (intro ansi_move_ok) auto
  moreover note keeps_ttyD [OF keeps_ansi_cursor_position ok] keeps_ttyD [OF keeps_ansi_erase_display ok, of "ps ! 0"]
    keeps_ttyD [OF keeps_ansi_erase_line ok, of "ps ! 0"] tty_ok_saved [OF ok]
  ultimately show ?thesis
    using ok ps by (auto simp: ansi_execute_def Let_def aget_def tty_ok_ansi_reset tty_ok_other)
qed

lemma ansi_normal_char_ok:
  assumes ok: "tty_ok t"
  shows "\<exists>t'. ansi_normal_char c t = Some t' \<and> tty_ok t'"
proof -
  have b: "0 \<le> cursor_row t" "cursor_row t < 25" "0 \<le> cursor_col t" "cursor_col t \<le> 80"
    using cursor_bounds [OF ok] by simp_all
  have "int_ok (cursor_row t + 1) = Some (cursor_row t + 1)" "int_ok (cursor_col t + 4) = Some (cursor_col t + 4)"
    using b by (simp_all add: int_ok_def tty_sizes)
  moreover have "\<exists>t'. wrap_row (t\<lparr>cursor_col := 0, cursor_row := cursor_row t + 1\<rparr>) = Some t' \<and> tty_ok t'"
    using wrap_row_ok [OF ok, of "cursor_row t + 1" 0] b by auto
  moreover have "tty_ok (t\<lparr>cursor_col := if (cursor_col t + 4) div 4 * 4 \<ge> 80 then 79 else (cursor_col t + 4) div 4 * 4\<rparr>)"
    using ok b by (intro tty_ok_cursor_col) (auto simp: pos_imp_zdiv_nonneg_iff)
  moreover have "tty_ok (t\<lparr>cursor_col := 0\<rparr>)" "cursor_col t > 0 \<Longrightarrow> tty_ok (t\<lparr>cursor_col := cursor_col t - 1\<rparr>)"
    using ok b by (auto intro: tty_ok_cursor_col)
  ultimately show ?thesis
    using keeps_ttyD [OF keeps_screen_putc ok, of c] ok
    by (simp add: ansi_normal_char_def tty_ok_other tty_sizes split: if_splits)
qed

lemma params_update:
  "\<lbrakk>length ps = 8; \<forall>p\<in>set ps. 0 \<le> p \<and> p \<le> INT_MAX; i < 8; 0 \<le> v; v \<le> INT_MAX\<rbrakk> \<Longrightarrow>
   aset ps i v = Some (ps[i := v]) \<and> length (ps[i := v]) = 8 \<and> (\<forall>p\<in>set (ps[i := v]). 0 \<le> p \<and> p \<le> INT_MAX)"
  using set_update_subset_insert [of ps i v] by (auto simp: aset_def)

lemma params_of: "tty_ok t \<Longrightarrow> length (ansi_params t) = 8 \<and> ansi_param_count t < 8 \<and>
    (\<forall>p\<in>set (ansi_params t). 0 \<le> p \<and> p \<le> INT_MAX)"
  by (simp add: tty_ok_def parser_ok_def)

lemma ansi_escape_char_ok:
  assumes ok: "tty_ok t"
  shows "\<exists>t'. ansi_escape_char c t = Some t' \<and> tty_ok t'"
proof -
  have b: "0 \<le> cursor_row t" "cursor_row t < 25" using cursor_bounds [OF ok] by simp_all
  then have "cursor_row t \<noteq> 0 \<Longrightarrow> int_ok (cursor_row t - 1) = Some (cursor_row t - 1)"
    by (simp add: int_ok_def tty_sizes)
  moreover have "cursor_row t \<noteq> 0 \<Longrightarrow> tty_ok (ansi_reset (t\<lparr>cursor_row := cursor_row t - 1\<rparr>))"
    using ok b by (intro tty_ok_ansi_reset tty_ok_cursor_row) auto
  moreover have "\<exists>t'. screen_clear t = Some t' \<and> tty_ok (ansi_reset (t'\<lparr>cursor_row := 0, cursor_col := 0\<rparr>))"
    using keeps_ttyD [OF keeps_screen_clear ok] tty_ok_cursor [of _ 0 0] by (fastforce intro: tty_ok_ansi_reset)
  moreover have "\<exists>t'. screen_scroll_up t = Some t' \<and> tty_ok (ansi_reset t')"
    using keeps_ttyD [OF keeps_screen_scroll_up ok] by (auto intro: tty_ok_ansi_reset)
  moreover have "aset (ansi_params t) 0 0 = Some ((ansi_params t)[0 := 0])"
    "tty_ok (t\<lparr>parser := ANSI_STATE_BRACKET, ansi_param_count := 0, ansi_params := (ansi_params t)[0 := 0]\<rparr>)"
    using params_update [of "ansi_params t" 0 0] params_of [OF ok] ok
    by (auto simp: INT_MAX_def tty_ok_def buffers_ok_def grids_ok_def cursor_ok_def parser_ok_def)
  ultimately show ?thesis
    using ok tty_ok_saved [OF ok] by (auto simp: ansi_escape_char_def tty_ok_ansi_reset)
qed

lemma digit_value_bounds: "is_digit c \<Longrightarrow> 0 \<le> digit_value c \<and> digit_value c \<le> 9"
  by (auto simp: is_digit_def digit_value_def word_le_def)

lemma ansi_bracket_char_ok:
  assumes ok: "tty_ok t" and "parser t = ANSI_STATE_BRACKET" and "\<not> ansi_overflow c t"
  shows "\<exists>t'. ansi_bracket_char c t = Some t' \<and> tty_ok t'"
proof -
  have ps: "length (ansi_params t) = 8" "ansi_param_count t < 8" using params_of [OF ok] by simp_all
  have upd: "aset (ansi_params t) i v = Some ((ansi_params t)[i := v]) \<and>
      tty_ok (t\<lparr>ansi_params := (ansi_params t)[i := v], parser := s\<rparr>)" if "i < 8" "0 \<le> v" "v \<le> 9" for i v s
    using params_update [of "ansi_params t" i v] params_of [OF ok] that ok
    by (auto simp: INT_MAX_def tty_ok_other intro!: tty_ok_params)
  let ?t = "t\<lparr>ansi_params := (ansi_params t)[ansi_param_count t := 0], ansi_param_count := ansi_param_count t + 1\<rparr>"
  have "tty_ok (ansi_reset ?t)" "ansi_param_count t + 1 < 8 \<Longrightarrow> tty_ok ?t"
    using params_update [of "ansi_params t" "ansi_param_count t" 0] params_of [OF ok] ok
    by (auto simp: INT_MAX_def tty_ok_def buffers_ok_def grids_ok_def cursor_ok_def parser_ok_def ansi_reset_def)
  moreover have "\<exists>t'. ansi_execute (t\<lparr>ansi_cmd := c\<rparr>) = Some t' \<and> tty_ok t'"
    using assms by (intro ansi_execute_ok) (auto simp: tty_ok_other ansi_overflow_def Let_def)
  ultimately show ?thesis
    using ps upd [of 0 0] upd [of "ansi_param_count t" "digit_value c"] upd [of "ansi_param_count t" 0]
      digit_value_bounds [of c]
    by (auto simp: ansi_bracket_char_def)
qed

lemma ansi_params_char_ok:
  assumes ok: "tty_ok t" and "parser t = ANSI_STATE_PARAMS" and "\<not> ansi_overflow c t"
  shows "\<exists>t'. ansi_params_char c t = Some t' \<and> tty_ok t'"
proof -
  have ps: "length (ansi_params t) = 8" "ansi_param_count t < 8" using params_of [OF ok] by simp_all
  define p where "p = ansi_params t ! ansi_param_count t"
  have p: "0 \<le> p" "p \<le> INT_MAX" using param_bounds [OF ok ps(2)] by (simp_all add: p_def)
  have dig: "p * 10 + digit_value c \<le> INT_MAX" if "is_digit c"
    using assms(2,3) that by (auto simp: ansi_overflow_def p_def Let_def)
  have "int_ok (p * 10) = Some (p * 10)" "int_ok (p * 10 + digit_value c) = Some (p * 10 + digit_value c)"
    if "is_digit c"
    using dig [OF that] digit_value_bounds [OF that] p by (auto simp: int_ok_def INT_MAX_def)
  moreover have "aset (ansi_params t) i v = Some ((ansi_params t)[i := v]) \<and>
      tty_ok (t\<lparr>ansi_params := (ansi_params t)[i := v]\<rparr>)" if "i < 8" "0 \<le> v" "v \<le> INT_MAX" for i v
    using params_update [of "ansi_params t" i v] params_of [OF ok] that ok by (auto intro!: tty_ok_params)
  moreover have "tty_ok (ansi_reset (t\<lparr>ansi_param_count := ansi_param_count t + 1\<rparr>))"
    using ok by (auto simp: tty_ok_def buffers_ok_def grids_ok_def cursor_ok_def parser_ok_def ansi_reset_def)
  moreover have "tty_ok (t\<lparr>ansi_param_count := ansi_param_count t + 1, ansi_params := (ansi_params t)[ansi_param_count t + 1 := 0]\<rparr>)"
    if "ansi_param_count t + 1 < 8"
    using params_update [of "ansi_params t" "ansi_param_count t + 1" 0] params_of [OF ok] that ok
    by (auto simp: INT_MAX_def tty_ok_def buffers_ok_def grids_ok_def cursor_ok_def parser_ok_def)
  moreover have "\<exists>t'. ansi_execute (t\<lparr>ansi_cmd := c\<rparr>) = Some t' \<and> tty_ok t'"
    using assms by (intro ansi_execute_ok) (auto simp: tty_ok_other ansi_overflow_def Let_def)
  ultimately show ?thesis
    using ps p dig digit_value_bounds [of c]
    by (auto simp: ansi_params_char_def aget_def p_def [symmetric] INT_MAX_def aset_def)
qed

lemma tty_process_ansi_char_ok:
  assumes "tty_ok t" and "\<not> ansi_overflow c t"
  shows "\<exists>t'. tty_process_ansi_char c t = Some t' \<and> tty_ok t'"
  using ansi_normal_char_ok [OF assms(1)] ansi_escape_char_ok [OF assms(1)]
    ansi_bracket_char_ok [OF assms(1) _ assms(2)] ansi_params_char_ok [OF assms(1) _ assms(2)]
  by (cases "parser t") (simp_all add: tty_process_ansi_char_def)

section \<open>Buffers\<close>

lemma tty_copy_from_some:
  "\<lbrakk>length dest = capacity; capacity \<le> length src; i < capacity\<rbrakk> \<Longrightarrow>
   \<exists>d. tty_copy_from dest capacity src i = Some d \<and> length d = capacity"
proof (induction dest capacity src i rule: tty_copy_from.induct)
  case (1 dest capacity src i)
  have i: "i < length src" using "1.prems" by simp
  show ?case
  proof (cases "src ! i \<noteq> 0 \<and> i + 1 < capacity")
    case True
    have "aset dest i (src ! i) = Some (dest[i := src ! i])" using "1.prems" by (simp add: aset_def)
    with 1 i True show ?thesis by (subst tty_copy_from.simps) auto
  next
    case False
    with "1.prems" i show ?thesis by (subst tty_copy_from.simps) (auto simp: aset_def)
  qed
qed

lemma tty_copy_text_some:
  "\<lbrakk>length dest = 120; length src = 120\<rbrakk> \<Longrightarrow>
   \<exists>d. tty_copy_text dest TTY_MAX_LINE_CHARS src = Some d \<and> length d = 120"
  using tty_copy_from_some [of dest 120 src 0] by (simp add: tty_copy_text_def tty_sizes)

lemma update_lengths:
  "\<lbrakk>\<forall>l\<in>set ls. length l = n; length l' = n\<rbrakk> \<Longrightarrow> \<forall>l\<in>set (ls[i := l']). length l = n"
  using set_update_subset_insert [of ls i l'] by auto

lemma shift_lines_some:
  "\<lbrakk>length ls = 64; \<forall>l\<in>set ls. length l = 120; 1 \<le> i\<rbrakk> \<Longrightarrow>
   \<exists>ls'. shift_lines i ls = Some ls' \<and> length ls' = 64 \<and> (\<forall>l\<in>set ls'. length l = 120)"
proof (induction i ls rule: shift_lines.induct)
  case (1 i ls)
  show ?case
  proof (cases "i < TTY_MAX_LINES")
    case True
    then have g: "aget ls (i - 1) = Some (ls ! (i - 1))" "aget ls i = Some (ls ! i)"
      using "1.prems" by (simp_all add: aget_def tty_sizes)
    obtain d where d: "tty_copy_text (ls ! (i - 1)) TTY_MAX_LINE_CHARS (ls ! i) = Some d" "length d = 120"
      using tty_copy_text_some [of "ls ! (i - 1)" "ls ! i"] "1.prems" True by (auto simp: tty_sizes)
    have "\<exists>ls'. shift_lines (i + 1) (ls[i - 1 := d]) = Some ls' \<and> length ls' = 64 \<and> (\<forall>l\<in>set ls'. length l = 120)"
      using "1.prems" d(2) by (intro "1.IH" [OF True g d(1)] update_lengths) auto
    with True g d(1) show ?thesis by (subst shift_lines.simps) auto
  next
    case False
    with "1.prems" show ?thesis by (subst shift_lines.simps) auto
  qed
qed

lemma tty_ok_lines:
  "\<lbrakk>tty_ok t; length ls = 64; \<forall>l\<in>set ls. length l = 120; n \<le> 64\<rbrakk> \<Longrightarrow> tty_ok (t\<lparr>lines := ls, line_count := n\<rparr>)"
  "\<lbrakk>tty_ok t; length ls = 64; \<forall>l\<in>set ls. length l = 120\<rbrakk> \<Longrightarrow> tty_ok (t\<lparr>lines := ls\<rparr>)"
  by (simp_all add: tty_ok_def buffers_ok_def grids_ok_def cursor_ok_def parser_ok_def tty_sizes)

lemma append_display_line_ok:
  assumes ok: "tty_ok t" and "length msg = 120"
  shows "\<exists>t'. tty_append_display_line msg t = Some t' \<and> tty_ok t' \<and> partial_output t' = partial_output t \<and>
    partial_length t' = partial_length t \<and> cooked_line t' = cooked_line t \<and> cooked_length t' = cooked_length t \<and>
    raw_input t' = raw_input t \<and> raw_length t' = raw_length t"
proof -
  have ls: "length (lines t) = 64" "\<forall>l\<in>set (lines t). length l = 120" "line_count t \<le> 64"
    using ok by (simp_all add: tty_ok_def buffers_ok_def tty_sizes)
  show ?thesis
  proof (cases "line_count t < 64")
    case True
    then obtain d where d: "tty_copy_text (lines t ! line_count t) TTY_MAX_LINE_CHARS msg = Some d" "length d = 120"
      using tty_copy_text_some [of "lines t ! line_count t" msg] ls assms(2) by auto
    have "tty_ok (t\<lparr>lines := (lines t)[line_count t := d], line_count := line_count t + 1\<rparr>)"
      using ls d(2) True by (intro tty_ok_lines(1) ok update_lengths) auto
    with d(1) True ls(1) show ?thesis
      by (simp add: tty_append_display_line_def aget_def tty_sizes tty_ok_other) (simp add: tty_touch_def)
  next
    case False
    obtain ls' where ls': "shift_lines 1 (lines t) = Some ls'" "length ls' = 64" "\<forall>l\<in>set ls'. length l = 120"
      using shift_lines_some [of "lines t" 1] ls by auto
    then obtain d where d: "tty_copy_text (ls' ! 63) TTY_MAX_LINE_CHARS msg = Some d" "length d = 120"
      using tty_copy_text_some [of "ls' ! 63" msg] assms(2) by auto
    have "tty_ok (t\<lparr>lines := ls'[63 := d]\<rparr>)"
      using ls' d(2) by (intro tty_ok_lines(2) ok update_lengths) auto
    with d(1) False ls' show ?thesis
      by (simp add: tty_append_display_line_def aget_def tty_sizes tty_ok_other) (simp add: tty_touch_def)
  qed
qed

lemma tty_ok_partial:
  "\<lbrakk>tty_ok t; length p = 120; n < 120\<rbrakk> \<Longrightarrow> tty_ok (t\<lparr>partial_length := n, partial_output := p\<rparr>)"
  "\<lbrakk>tty_ok t; length p = 120\<rbrakk> \<Longrightarrow> tty_ok (t\<lparr>partial_output := p\<rparr>)"
  by (simp_all add: tty_ok_def buffers_ok_def grids_ok_def cursor_ok_def parser_ok_def tty_sizes)

lemma partial_bounds: "tty_ok t \<Longrightarrow> length (partial_output t) = 120 \<and> partial_length t < 120"
  by (simp add: tty_ok_def buffers_ok_def tty_sizes)

lemma flush_partial_ok:
  assumes ok: "tty_ok t"
  shows "\<exists>t'. tty_flush_partial_line t = Some t' \<and> tty_ok t' \<and> partial_length t' = 0"
proof -
  note b = partial_bounds [OF ok]
  define t1 where "t1 = t\<lparr>partial_output := (partial_output t)[partial_length t := 0]\<rparr>"
  have t1: "tty_ok t1" "length (partial_output t1) = 120" "partial_length t1 = partial_length t"
    using ok b by (auto simp: t1_def intro: tty_ok_partial)
  obtain t2 where t2: "(if partial_length t1 > 0 then tty_append_display_line (partial_output t1) t1 else Some t1) = Some t2"
    "tty_ok t2"
    using append_display_line_ok [OF t1(1,2)] t1(1) by (cases "partial_length t1 > 0") auto
  have "tty_flush_partial_line t = Some (t2\<lparr>partial_length := 0, partial_output := (partial_output t2)[0 := 0]\<rparr>)"
    using b t2(1) partial_bounds [OF t2(2)]
    by (cases "partial_length t > 0") (auto simp: tty_flush_partial_line_def aset_def t1_def)
  moreover have "tty_ok (t2\<lparr>partial_length := 0, partial_output := (partial_output t2)[0 := 0]\<rparr>)"
    using partial_bounds [OF t2(2)] by (intro tty_ok_partial t2) auto
  ultimately show ?thesis by auto
qed

lemma keeps_output_char: "keeps_tty (tty_append_output_char c)"
  unfolding keeps_tty_def
proof (intro allI impI)
  fix t
  assume ok: "tty_ok t"
  note b = partial_bounds [OF ok]
  obtain t1 where t1: "(if partial_length t + 1 \<ge> TTY_MAX_LINE_CHARS then tty_flush_partial_line t else Some t) = Some t1"
    "tty_ok t1" "partial_length t1 + 1 < 120"
    using flush_partial_ok [OF ok] ok by (cases "partial_length t + 1 \<ge> TTY_MAX_LINE_CHARS") (auto simp: tty_sizes)
  have "tty_ok (t1\<lparr>partial_length := partial_length t1 + 1,
      partial_output := (partial_output t1)[partial_length t1 := c, partial_length t1 + 1 := 0]\<rparr>)"
    using partial_bounds [OF t1(2)] t1(3) by (intro tty_ok_partial t1) auto
  moreover have "tty_ok (t\<lparr>partial_length := partial_length t - 1, partial_output := (partial_output t)[partial_length t - 1 := 0]\<rparr>)"
    using b by (intro tty_ok_partial ok) auto
  ultimately show "\<exists>t'. tty_append_output_char c t = Some t' \<and> tty_ok t'"
    using t1(1,3) partial_bounds [OF t1(2)] b flush_partial_ok [OF ok] ok
    by (auto simp: tty_append_output_char_def aset_def)
qed

lemma output_chars_ok: "tty_ok t \<Longrightarrow> \<exists>t'. output_chars cs t = Some t' \<and> tty_ok t'"
proof (induction cs arbitrary: t)
  case (Cons c cs)
  then show ?case using keeps_ttyD [OF keeps_output_char, of t c] by fastforce
qed simp

section \<open>Delivery of input\<close>

text \<open>The bytes a reader has not had yet: the raw buffer, then the finished line with its end.\<close>

definition pending :: "tty \<Rightarrow> u8 list" where
  "pending t = take (raw_length t) (raw_input t) @
     (if line_ready t then take (cooked_length t) (cooked_line t) @ [10] else [])"

lemma copy_array_some:
  "\<lbrakk>i \<le> n; n \<le> length src; n \<le> length dst\<rbrakk> \<Longrightarrow>
   copy_array i n src dst = Some (take i dst @ drop i (take n src) @ drop n dst)"
proof (induction i n src dst rule: copy_array.induct)
  case (1 i n src dst)
  show ?case
  proof (cases "i < n")
    case True
    then have a: "aget src i = Some (src ! i)" "aset dst i (src ! i) = Some (dst[i := src ! i])"
      using "1.prems" by (simp_all add: aget_def aset_def)
    have "copy_array i n src dst = copy_array (i + 1) n src (dst[i := src ! i])"
      using True a by (subst copy_array.simps) simp
    also have "\<dots> = Some (take (i + 1) (dst[i := src ! i]) @ drop (i + 1) (take n src) @ drop n (dst[i := src ! i]))"
      using "1.IH" [OF True a] "1.prems" True by simp
    also have "take (i + 1) (dst[i := src ! i]) = take i dst @ [src ! i]"
      using True "1.prems" by (simp add: take_Suc_conv_app_nth)
    also have "(take i dst @ [src ! i]) @ drop (i + 1) (take n src) @ drop n (dst[i := src ! i]) =
        take i dst @ drop i (take n src) @ drop n dst"
      using True "1.prems" Cons_nth_drop_Suc [of i "take n src"] by simp
    finally show ?thesis .
  next
    case False
    with "1.prems" show ?thesis by (subst copy_array.simps) simp
  qed
qed

lemma shift_raw_some:
  "\<lbrakk>count \<le> i; i \<le> n; n \<le> length buf\<rbrakk> \<Longrightarrow>
   \<exists>b. shift_raw count i n buf = Some b \<and> length b = length buf \<and>
     (\<forall>j < i - count. b ! j = buf ! j) \<and> (\<forall>j. i - count \<le> j \<and> j < n - count \<longrightarrow> b ! j = buf ! (j + count))"
proof (induction count i n buf rule: shift_raw.induct)
  case (1 count i n buf)
  show ?case
  proof (cases "i < n")
    case True
    define b1 where "b1 = buf[i - count := buf ! i]"
    have a: "aget buf i = Some (buf ! i)" "aset buf (i - count) (buf ! i) = Some b1"
      using True "1.prems" by (simp_all add: aget_def aset_def b1_def)
    obtain b where b: "shift_raw count (i + 1) n b1 = Some b" "length b = length buf"
      "\<forall>j < i + 1 - count. b ! j = b1 ! j" "\<forall>j. i + 1 - count \<le> j \<and> j < n - count \<longrightarrow> b ! j = b1 ! (j + count)"
      using "1.IH" [OF True a] "1.prems" True by (auto simp: b1_def)
    have "b ! j = buf ! (j + count)" if "i - count \<le> j" "j < n - count" for j
    proof (cases "j = i - count")
      case True
      with b(3) "1.prems" \<open>i < n\<close> show ?thesis by (simp add: b1_def)
    next
      case False
      with that b(4) "1.prems" have "b ! j = b1 ! (j + count)" by simp
      with False that show ?thesis by (simp add: b1_def)
    qed
    moreover have "b ! j = buf ! j" if "j < i - count" for j
      using b(3) that by (simp add: b1_def)
    moreover have "shift_raw count i n buf = Some b"
      using True a b(1) by (subst shift_raw.simps) simp
    ultimately show ?thesis using b(2) by blast
  next
    case False
    with "1.prems" show ?thesis by (subst shift_raw.simps) auto
  qed
qed

lemma shift_left_some:
  assumes "length (raw_input t) = 96" and "raw_length t \<le> 96" and "0 < n" and "n \<le> raw_length t"
  shows "\<exists>r. tty_raw_input_shift_left n t = Some (t\<lparr>raw_length := raw_length t - n, raw_input := r\<rparr>) \<and> length r = 96 \<and>
    take (raw_length t - n) r = drop n (take (raw_length t) (raw_input t))"
proof (cases "n < raw_length t")
  case True
  then obtain b where b: "shift_raw n n (raw_length t) (raw_input t) = Some b" "length b = 96"
    "\<forall>j. j < raw_length t - n \<longrightarrow> b ! j = raw_input t ! (j + n)"
    using shift_raw_some [of n n "raw_length t" "raw_input t"] assms by auto
  have "take (raw_length t - n) (b[raw_length t - n := 0]) = drop n (take (raw_length t) (raw_input t))"
    using b(2,3) assms(1,2) by (auto intro!: nth_equalityI simp: add.commute)
  moreover have "raw_length t - n < 96" using assms by linarith
  ultimately show ?thesis
    using True b(1,2) by (auto simp: tty_raw_input_shift_left_def aset_def)
next
  case False
  with assms show ?thesis
    by (intro exI [of _ "(raw_input t)[0 := 0]"]) (simp add: tty_raw_input_shift_left_def aset_def)
qed

lemma tty_ok_raw:
  "\<lbrakk>tty_ok t; length r = 96; n < 96\<rbrakk> \<Longrightarrow> tty_ok (t\<lparr>raw_length := n, raw_input := r\<rparr>)"
  by (simp add: tty_ok_def buffers_ok_def grids_ok_def cursor_ok_def parser_ok_def tty_sizes)

lemma read_raw_some:
  assumes "tty_ok (t\<lparr>raw_length := 0\<rparr>)" and "0 < raw_length t" and "raw_length t \<le> 96" and "0 < count"
    and "count \<le> length out"
  shows "\<exists>t'. read_raw out count t =
      Some (int (min (raw_length t) count), take (min (raw_length t) count) (raw_input t) @ drop (min (raw_length t) count) out, t') \<and>
    tty_ok t' \<and> take (raw_length t') (raw_input t') = drop (min (raw_length t) count) (take (raw_length t) (raw_input t)) \<and>
    raw_length t' = raw_length t - min (raw_length t) count \<and>
    line_ready t' = line_ready t \<and> cooked_line t' = cooked_line t \<and> cooked_length t' = cooked_length t"
proof -
  let ?n = "min (raw_length t) count"
  have r: "length (raw_input t) = 96" using assms(1) by (simp add: tty_ok_def buffers_ok_def tty_sizes)
  obtain r' where r': "tty_raw_input_shift_left ?n t = Some (t\<lparr>raw_length := raw_length t - ?n, raw_input := r'\<rparr>)"
    "length r' = 96" "take (raw_length t - ?n) r' = drop ?n (take (raw_length t) (raw_input t))"
    using shift_left_some [OF r assms(3), of ?n] assms(2,4) by auto
  have "tty_ok (t\<lparr>raw_length := raw_length t - ?n, raw_input := r'\<rparr>)"
    using tty_ok_raw [OF assms(1) r'(2), of "raw_length t - ?n"] assms(2-4) by simp
  with r' show ?thesis
    using copy_array_some [of 0 ?n "raw_input t" out] assms r by (simp add: read_raw_def Let_def)
qed

lemma line_fill_some:
  "\<lbrakk>n \<le> length src; length (fst q) = 120; snd q < 120\<rbrakk> \<Longrightarrow>
   \<exists>q'. line_fill i n src q = Some q' \<and> length (fst q') = 120 \<and> snd q' < 120"
proof (induction i n src q rule: line_fill.induct)
  case (1 i n src q)
  show ?case
  proof (cases "i < n \<and> snd q + 1 < TTY_MAX_LINE_CHARS")
    case True
    then have a: "aget src i = Some (src ! i)" "aset (fst q) (snd q) (src ! i) = Some ((fst q)[snd q := src ! i])"
      using "1.prems" by (simp_all add: aget_def aset_def)
    with True "1.IH" [OF True a] "1.prems" show ?thesis
      by (subst line_fill.simps) (simp add: tty_sizes)
  next
    case False
    then have "line_fill i n src q = Some q" by (subst line_fill.simps) (rule if_not_P)
    with "1.prems" show ?thesis by blast
  qed
qed

lemma commit_input_line_ok:
  assumes ok: "tty_ok t"
  shows "\<exists>t'. tty_commit_input_line t = Some t' \<and> tty_ok t' \<and> cooked_line t' = cooked_line t \<and>
    cooked_length t' = cooked_length t \<and> raw_input t' = raw_input t \<and> raw_length t' = raw_length t"
proof -
  have b: "partial_length t \<le> length (partial_output t)" "cooked_length t \<le> length (cooked_line t)"
    using ok by (simp_all add: tty_ok_def buffers_ok_def)
  obtain q where q: "line_fill 0 (partial_length t) (partial_output t) (replicate TTY_MAX_LINE_CHARS 0, 0) = Some q"
    "length (fst q) = 120" "snd q < 120"
    using line_fill_some [OF b(1), of "(replicate TTY_MAX_LINE_CHARS 0, 0)" 0] by (auto simp: tty_sizes)
  obtain q' where q': "line_fill 0 (cooked_length t) (cooked_line t) q = Some q'" "length (fst q') = 120" "snd q' < 120"
    using line_fill_some [OF b(2) q(2,3)] by blast
  define l where "l = (fst q')[snd q' := 0]"
  obtain t1 where t1: "(if snd q' > 0 then tty_append_display_line l t else Some t) = Some t1" "tty_ok t1"
    "cooked_line t1 = cooked_line t" "cooked_length t1 = cooked_length t" "raw_input t1 = raw_input t"
    "raw_length t1 = raw_length t"
    using append_display_line_ok [OF ok, of l] q'(2) ok by (cases "snd q' > 0") (auto simp: l_def)
  have "tty_commit_input_line t = Some (t1\<lparr>partial_length := 0, partial_output := (partial_output t1)[0 := 0]\<rparr>)"
    using q q' t1(1) partial_bounds [OF t1(2)]
    by (cases "snd q' > 0") (auto simp: tty_commit_input_line_def aset_def l_def)
  moreover have "tty_ok (t1\<lparr>partial_length := 0, partial_output := (partial_output t1)[0 := 0]\<rparr>)"
    using partial_bounds [OF t1(2)] by (intro tty_ok_partial t1) auto
  ultimately show ?thesis using t1(3-) by simp
qed

text \<open>
  A read takes bytes from the front of what is pending. It empties the raw buffer before it
  turns to a finished line.
\<close>

lemma tty_fd_read_pending:
  assumes ok: "tty_ok t" and count: "count \<noteq> 0" "unat count \<le> length out"
  shows "\<exists>n out' t'. tty_fd_read (Some out) count (Some t) = Some (int n, Some out', Some t') \<and> tty_ok t' \<and>
    take n out' = take n (pending t) \<and> drop n out' = drop n out \<and> length out' = length out \<and>
    pending t' = drop n (pending t) \<and> n \<le> length (pending t) \<and>
    n = min (unat count) (if raw_length t > 0 then raw_length t else length (pending t)) \<and>
    (line_ready t' \<longrightarrow> line_ready t \<and> raw_length t > 0)"
proof -
  have b: "length (raw_input t) = 96" "raw_length t < 96" "length (cooked_line t) = 96" "cooked_length t < 96"
    using ok by (simp_all add: tty_ok_def buffers_ok_def tty_sizes)
  have c: "0 < unat count" using count(1) by (simp add: unat_gt_0)
  show ?thesis
  proof (cases "raw_length t > 0")
    case True
    let ?n = "min (raw_length t) (unat count)"
    have "tty_ok (t\<lparr>raw_length := 0\<rparr>)"
      using ok by (simp add: tty_ok_def buffers_ok_def grids_ok_def cursor_ok_def parser_ok_def tty_sizes)
    then obtain t' where t': "read_raw out (unat count) t = Some (int ?n, take ?n (raw_input t) @ drop ?n out, t')"
      "tty_ok t'" "take (raw_length t') (raw_input t') = drop ?n (take (raw_length t) (raw_input t))"
      "line_ready t' = line_ready t" "cooked_line t' = cooked_line t" "cooked_length t' = cooked_length t"
      using read_raw_some [of t "unat count" out] True b(2) c count(2) by auto
    have "tty_fd_read (Some out) count (Some t) = Some (int ?n, Some (take ?n (raw_input t) @ drop ?n out), Some t')"
      using True t'(1) count(1) by (simp add: tty_fd_read_def)
    with t' True b count(2) show ?thesis
      by (intro exI [of _ ?n] exI [of _ "take ?n (raw_input t) @ drop ?n out"] exI [of _ t'])
        (auto simp: pending_def min_def)
  next
    case False
    show ?thesis
    proof (cases "line_ready t")
      case True
      obtain t1 where t1: "tty_commit_input_line t = Some t1" "tty_ok t1" "cooked_line t1 = cooked_line t"
        "cooked_length t1 = cooked_length t" "raw_input t1 = raw_input t"
        using commit_input_line_ok [OF ok] by blast
      define r where "r = (take (cooked_length t) (cooked_line t) @ drop (cooked_length t) (raw_input t))[cooked_length t := 10]"
      define t2 where "t2 = t1\<lparr>raw_input := r, raw_length := cooked_length t + 1, line_ready := False,
          cooked_length := 0, cooked_line := (cooked_line t)[0 := 0], waiter_pid := 0\<rparr>"
      have r: "length r = 96" "take (cooked_length t + 1) r = take (cooked_length t) (cooked_line t) @ [10]"
        using b by (simp_all add: r_def take_Suc_conv_app_nth list_update_append)
      let ?n = "min (raw_length t2) (unat count)"
      have t2: "raw_length t2 = cooked_length t + 1" "raw_input t2 = r" "\<not> line_ready t2" by (simp_all add: t2_def)
      have "tty_ok (t2\<lparr>raw_length := 0\<rparr>)"
        using t1(2) r(1) b by (simp add: t2_def tty_ok_def buffers_ok_def grids_ok_def cursor_ok_def parser_ok_def tty_sizes)
      then obtain t' where t': "read_raw out (unat count) t2 = Some (int ?n, take ?n (raw_input t2) @ drop ?n out, t')"
        "tty_ok t'" "take (raw_length t') (raw_input t') = drop ?n (take (raw_length t2) (raw_input t2))"
        "line_ready t' = line_ready t2"
        using read_raw_some [of t2 "unat count" out] b(4) c count(2) t2(1) by auto
      have "copy_array 0 (cooked_length t) (cooked_line t) (raw_input t) =
          Some (take (cooked_length t) (cooked_line t) @ drop (cooked_length t) (raw_input t))"
        using copy_array_some [of 0 "cooked_length t" "cooked_line t" "raw_input t"] b by simp
      then have "tty_fd_read (Some out) count (Some t) = Some (int ?n, Some (take ?n (raw_input t2) @ drop ?n out), Some t')"
        using False True t1 t'(1) count(1) b
        by (simp add: tty_fd_read_def aset_def tty_sizes t2_def r_def length_greater_0_conv [symmetric]
            del: length_greater_0_conv)
      moreover have p: "pending t = take (raw_length t2) (raw_input t2)"
        using False True r(2) t2 by (simp add: pending_def)
      moreover have "length (pending t) = raw_length t2" using p r(1) t2 b(4) by simp
      ultimately show ?thesis
        using t' t2 False r(1) b count(2)
        by (intro exI [of _ ?n] exI [of _ "take ?n (raw_input t2) @ drop ?n out"] exI [of _ t'])
          (auto simp: pending_def min_def)
    next
      case no_line: False
      then have "tty_fd_read (Some out) count (Some t) = Some (0, Some out, Some t)"
        using False count(1) by (simp add: tty_fd_read_def)
      then show ?thesis
        using False no_line ok by (intro exI [of _ 0] exI [of _ out] exI [of _ t]) (simp add: pending_def)
    qed
  qed
qed

lemma ansi_chars_ok:
  "tty_ok t \<Longrightarrow> (\<exists>t'. ansi_chars cs t = Some t' \<and> tty_ok t') \<or>
     (\<exists>k t1. k < length cs \<and> ansi_chars (take k cs) t = Some t1 \<and> tty_ok t1 \<and> ansi_overflow (cs ! k) t1)"
proof (induction cs arbitrary: t)
  case (Cons c cs)
  show ?case
  proof (cases "ansi_overflow c t")
    case True
    then show ?thesis using Cons.prems by (intro disjI2 exI [of _ 0] exI [of _ t]) simp
  next
    case False
    then obtain t1 where t1: "tty_process_ansi_char c t = Some t1" "tty_ok t1"
      using tty_process_ansi_char_ok Cons.prems by blast
    from Cons.IH [OF t1(2)] show ?thesis
    proof (elim disjE exE conjE)
      fix t'
      assume "ansi_chars cs t1 = Some t'" "tty_ok t'"
      then show ?thesis using t1(1) by auto
    next
      fix k t2
      assume "k < length cs" "ansi_chars (take k cs) t1 = Some t2" "tty_ok t2" "ansi_overflow (cs ! k) t2"
      then show ?thesis using t1(1) by (intro disjI2 exI [of _ "Suc k"] exI [of _ t2]) simp
    qed
  qed
qed simp

lemma enter_ansi_mode_ok: "tty_ok t \<Longrightarrow> \<exists>t'. enter_ansi_mode t = Some t' \<and> tty_ok t' \<and> ansi_mode t'"
  using screen_clear_regrid [of "t\<lparr>ansi_mode := True\<rparr>"] regrid_tty_ok [of "t\<lparr>ansi_mode := True\<rparr>"]
    regrid_fields [of "t\<lparr>ansi_mode := True\<rparr>"]
  by (fastforce simp: enter_ansi_mode_def tty_ok_other tty_okD intro!: tty_ok_cursor)

lemma tty_clear_fields_ok:
  assumes ok: "tty_ok t"
  shows "\<exists>t'. tty_clear_fields t = Some t' \<and> tty_ok t'"
proof -
  have b: "length (input t) = 96" "length (cooked_line t) = 96" "length (raw_input t) = 96" "length (partial_output t) = 120"
    using ok by (simp_all add: tty_ok_def buffers_ok_def tty_sizes)
  define u where "u = t\<lparr>line_count := 0, input_length := 0, input := (input t)[0 := 0], cooked_length := 0,
    cooked_line := (cooked_line t)[0 := 0], line_ready := False, raw_length := 0, raw_input := (raw_input t)[0 := 0],
    partial_length := 0, partial_output := (partial_output t)[0 := 0],
    waiter_pid := 0, cursor_row := 0, cursor_col := 0, saved_cursor_row := 0, saved_cursor_col := 0,
    current_attr := TTY_ATTR_NORMAL, ansi_mode := False, parser := ANSI_STATE_NORMAL, ansi_param_count := 0\<rparr>"
  have "tty_ok u"
    using ok by (simp add: u_def tty_ok_def buffers_ok_def grids_ok_def cursor_ok_def parser_ok_def tty_sizes)
  moreover have "aset (input t) 0 0 = Some ((input t)[0 := 0])" "aset (cooked_line t) 0 0 = Some ((cooked_line t)[0 := 0])"
    "aset (raw_input t) 0 0 = Some ((raw_input t)[0 := 0])" "aset (partial_output t) 0 0 = Some ((partial_output t)[0 := 0])"
    unfolding aset_def b by simp_all
  then have "tty_clear_fields t = screen_clear u" by (simp add: tty_clear_fields_def u_def)
  ultimately show ?thesis using keeps_ttyD [OF keeps_screen_clear] by simp
qed

lemma set_raw_ok:
  assumes ok: "tty_ok t"
  shows "aset (input t) 0 0 = Some ((input t)[0 := 0]) \<and>
    tty_ok (t\<lparr>raw_input_mode := b, input_length := 0, input := (input t)[0 := 0]\<rparr>)"
proof -
  have "length (input t) = 96" using ok by (simp add: tty_ok_def buffers_ok_def tty_sizes)
  then have "aset (input t) 0 0 = Some ((input t)[0 := 0])" unfolding aset_def by simp
  with ok show ?thesis
    by (simp add: tty_ok_def buffers_ok_def grids_ok_def cursor_ok_def parser_ok_def tty_sizes)
qed

lemma tty_fd_write_type_safe:
  assumes "tty_ok t" and n: "unat count \<le> length bytes"
  shows "(\<exists>t'. tty_fd_write (Some bytes) count (Some t) = Some (sint count, Some t') \<and> tty_ok t') \<or>
      (\<exists>t0 k t1. (t0 = t \<or> enter_ansi_mode t = Some t0) \<and> k < unat count \<and>
        ansi_chars (take k bytes) t0 = Some t1 \<and> tty_ok t1 \<and> ansi_overflow (bytes ! k) t1)"
proof (cases "ansi_mode t \<or> 0x1b \<in> set (take (unat count) bytes)")
  case True
  let ?bs = "take (unat count) bytes"
  from True obtain t0 where t0: "(if \<not> ansi_mode t \<and> 0x1b \<in> set ?bs then enter_ansi_mode t else Some t) = Some t0"
    "tty_ok t0" "ansi_mode t0" "t0 = t \<or> enter_ansi_mode t = Some t0"
    using enter_ansi_mode_ok [OF assms(1)] assms(1) by (cases "ansi_mode t") auto
  from ansi_chars_ok [OF t0(2), of ?bs] show ?thesis
  proof (elim disjE exE conjE)
    fix t'
    assume "ansi_chars ?bs t0 = Some t'" "tty_ok t'"
    then show ?thesis using n t0(1,3) by (auto simp: tty_fd_write_def Let_def tty_ok_other)
  next
    fix k t1
    assume "k < length ?bs" "ansi_chars (take k ?bs) t0 = Some t1" "tty_ok t1" "ansi_overflow (?bs ! k) t1"
    then have "k < unat count \<and> ansi_chars (take k bytes) t0 = Some t1 \<and> tty_ok t1 \<and> ansi_overflow (bytes ! k) t1"
      using n by (simp add: min_absorb2)
    with t0(4) show ?thesis by blast
  qed
next
  case False
  then show ?thesis
    using output_chars_ok [OF assms(1), of "take (unat count) bytes"] n
    by (auto simp: tty_fd_write_def Let_def tty_ok_other)
qed

text \<open>
  C26. The type invariant of a terminal. On a terminal that meets it, every read, every control
  request and every write of bytes is defined (no array is accessed out of bounds) and leads to a
  terminal that meets it again: all lengths and counters stay inside their buffers, the screen
  keeps its shape and the cursor stays on it. The one exception is spelt out: a write is
  undefined only if, after a prefix of its bytes, the next byte is a digit that takes a
  parameter past the largest \<open>int\<close>, or a cursor command whose parameter takes the cursor past
  it.
\<close>

theorem tty_operations_type_safe:
  assumes "tty_ok t"
  shows "(\<forall>count out. unat count \<le> length out \<longrightarrow>
      (\<exists>n out' t'. tty_fd_read (Some out) count (Some t) = Some (n, Some out', Some t') \<and> tty_ok t' \<and>
        length out' = length out)) \<and>
    (\<forall>request arg. \<exists>n t' w. tty_fd_ioctl request arg (Some t) = Some (n, Some t', w) \<and> tty_ok t') \<and>
    (\<forall>bytes count. unat count \<le> length bytes \<longrightarrow>
      (\<exists>t'. tty_fd_write (Some bytes) count (Some t) = Some (sint count, Some t') \<and> tty_ok t') \<or>
      (\<exists>t0 k t1. (t0 = t \<or> enter_ansi_mode t = Some t0) \<and> k < unat count \<and>
        ansi_chars (take k bytes) t0 = Some t1 \<and> tty_ok t1 \<and> ansi_overflow (bytes ! k) t1))"
proof (intro conjI allI impI)
  fix count :: u64 and out :: "u8 list"
  assume "unat count \<le> length out"
  then show "\<exists>n out' t'. tty_fd_read (Some out) count (Some t) = Some (n, Some out', Some t') \<and> tty_ok t' \<and>
      length out' = length out"
    using tty_fd_read_pending [OF assms, of count out] assms by (cases "count = 0") (auto simp: tty_fd_read_def)
next
  fix request arg
  show "\<exists>n t' w. tty_fd_ioctl request arg (Some t) = Some (n, Some t', w) \<and> tty_ok t'"
    using tty_clear_fields_ok [OF assms] set_raw_ok [OF assms]
    by (auto simp: tty_fd_ioctl_def tty_reset_def tty_ok_other assms)
qed (rule tty_fd_write_type_safe [OF assms])

definition demo_tty :: tty where
  "demo_tty = \<lparr>lines = replicate 64 (replicate 120 0), line_count = 0, input = replicate 96 0, input_length = 0,
     cooked_line = replicate 96 0, cooked_length = 0, line_ready = False, raw_input = replicate 96 0, raw_length = 0,
     partial_output = replicate 120 0, partial_length = 0, screen = replicate 25 (replicate 80 32),
     screen_attr = replicate 25 (replicate 80 0), cursor_row = 0, cursor_col = 0, saved_cursor_row = 0,
     saved_cursor_col = 0, current_attr = 0, ansi_mode = False, parser = ANSI_STATE_NORMAL,
     ansi_params = replicate 8 0, ansi_param_count = 0, ansi_cmd = 0, revision = 1, waiter_pid = 0,
     raw_input_mode = False\<rparr>"

lemma demo_tty_ok: "tty_ok demo_tty"
  by (simp add: demo_tty_def tty_ok_def buffers_ok_def grids_ok_def grid_ok_def cursor_ok_def parser_ok_def tty_sizes)

theorem tty_operations_type_safe_witness:
  "\<exists>n t' w. tty_fd_ioctl 1 0 (Some demo_tty) = Some (n, Some t', w) \<and> tty_ok t'"
  using tty_operations_type_safe [OF demo_tty_ok] by blast

section \<open>The cursor overflow\<close>

definition cursor_down_max :: "u8 list" where
  "cursor_down_max = [27, 91] @ ascii ''2147483647B''"

lemma cursor_down_max_effect:
  assumes ok: "tty_ok t" and normal: "parser t = ANSI_STATE_NORMAL"
  shows "ansi_chars cursor_down_max t =
    (if cursor_row t > 0 then None
     else Some (t\<lparr>ansi_params := (ansi_params t)[0 := 2147483647], cursor_row := 24, ansi_param_count := 0, ansi_cmd := 0\<rparr>))"
proof -
  have l: "length (ansi_params t) = 8" using params_of [OF ok] by simp
  have c: "0 \<le> cursor_row t" "cursor_row t < 25" using cursor_bounds [OF ok] by simp_all
  have bytes: "cursor_down_max = [27, 91, 50, 49, 52, 55, 52, 56, 51, 54, 52, 55, 66]"
    by (simp add: cursor_down_max_def ascii_def)
  show ?thesis
    unfolding bytes using l c normal
    by (simp add: tty_process_ansi_char_def ansi_normal_char_def ansi_escape_char_def ansi_bracket_char_def
        ansi_params_char_def is_digit_def digit_value_def aset_def aget_def int_ok_def ansi_execute_def ansi_local_def
        ansi_move_def ansi_param_def ansi_reset_def INT_MAX_def TTY_SCREEN_ROWS_def take_Suc_conv_app_nth)
qed

lemma ansi_chars_append: "ansi_chars (xs @ ys) t = ansi_chars xs t \<bind> ansi_chars ys"
  by (induction xs arbitrary: t) (simp_all split: bind_split)

lemma regrid_parser_state: "regrid t t' \<Longrightarrow> parser t' = parser t"
  by (auto simp: regrid_def)

lemma enter_ansi_mode_parser:
  assumes "tty_ok t" and "enter_ansi_mode t = Some t'"
  shows "parser t' = parser t"
proof -
  obtain u where "screen_clear (t\<lparr>ansi_mode := True\<rparr>) = Some u" "regrid (t\<lparr>ansi_mode := True\<rparr>) u"
    using screen_clear_regrid [of "t\<lparr>ansi_mode := True\<rparr>"] assms(1) by (auto simp: tty_ok_other tty_okD)
  with assms(2) show ?thesis by (auto simp: enter_ansi_mode_def dest!: regrid_parser_state)
qed

text \<open>
  C35. Any program that can write to a terminal can make the kernel overflow a signed
  \<open>int\<close>: on a terminal that is not in the middle of an escape sequence, the sequence "move the
  cursor 2147483647 rows down", sent twice, is undefined behaviour in \<open>ansi_execute\<close> whatever
  the terminal shows (the sum is made before it is compared with the height of the screen).
\<close>

theorem tty_write_cursor_overflow:
  assumes "tty_ok t" and "parser t = ANSI_STATE_NORMAL"
  shows "tty_fd_write (Some (cursor_down_max @ cursor_down_max)) 26 (Some t) = None"
proof -
  have twice: "ansi_chars (cursor_down_max @ cursor_down_max) u = None"
    if u: "tty_ok u" "parser u = ANSI_STATE_NORMAL" for u
  proof (cases "cursor_row u > 0")
    case False
    let ?v = "u\<lparr>ansi_params := (ansi_params u)[0 := 2147483647], cursor_row := 24, ansi_param_count := 0, ansi_cmd := 0\<rparr>"
    have "tty_ok ?v"
      using u(1) params_update [of "ansi_params u" 0 2147483647] params_of [OF u(1)]
      by (auto simp: INT_MAX_def tty_ok_def buffers_ok_def grids_ok_def cursor_ok_def parser_ok_def tty_sizes)
    then have "ansi_chars cursor_down_max ?v = None"
      using u(2) by (subst cursor_down_max_effect) simp_all
    with False show ?thesis
      unfolding ansi_chars_append by (subst cursor_down_max_effect [OF u]) simp
  qed (simp add: ansi_chars_append cursor_down_max_effect [OF u])
  have l: "length (cursor_down_max @ cursor_down_max) = 26" "0x1b \<in> set (cursor_down_max @ cursor_down_max)"
    by (simp_all add: cursor_down_max_def ascii_def)
  obtain t0 where t0: "(if \<not> ansi_mode t then enter_ansi_mode t else Some t) = Some t0" "tty_ok t0" "ansi_mode t0"
    "parser t0 = ANSI_STATE_NORMAL"
    using enter_ansi_mode_ok [OF assms(1)] enter_ansi_mode_parser [OF assms(1)] assms by (cases "ansi_mode t") auto
  have "take (unat (26 :: u64)) (cursor_down_max @ cursor_down_max) = cursor_down_max @ cursor_down_max"
    using l(1) by simp
  then show ?thesis
    using t0 l twice [OF t0(2,4)] by (simp add: tty_fd_write_def Let_def split: if_splits)
qed

theorem tty_write_cursor_overflow_witness:
  "tty_fd_write (Some (cursor_down_max @ cursor_down_max)) 26 (Some demo_tty) = None"
  by (rule tty_write_cursor_overflow [OF demo_tty_ok]) (simp add: demo_tty_def)

section \<open>Delivery of a typed line\<close>

lemma type_chars_some:
  "\<lbrakk>tty_ok t; input_length t + length s < 96\<rbrakk> \<Longrightarrow>
   \<exists>i. type_chars s t = Some (t\<lparr>input := i, input_length := input_length t + length s\<rparr>) \<and> length i = 96 \<and>
     take (input_length t + length s) i = take (input_length t) (input t) @ s"
proof (induction s arbitrary: t)
  case Nil
  then show ?case by (intro exI [of _ "input t"]) (simp add: tty_ok_def buffers_ok_def tty_sizes)
next
  case (Cons c s)
  have b: "length (input t) = 96" using Cons.prems by (simp add: tty_ok_def buffers_ok_def tty_sizes)
  let ?i = "(input t)[input_length t := c, input_length t + 1 := 0]"
  let ?t = "t\<lparr>input := ?i, input_length := input_length t + 1\<rparr>"
  have t: "type_char c t = Some ?t"
    using Cons.prems b by (simp add: type_char_def aset_def tty_sizes)
  have "tty_ok ?t"
    using Cons.prems b by (simp add: tty_ok_def buffers_ok_def grids_ok_def cursor_ok_def parser_ok_def tty_sizes)
  then obtain i where i: "type_chars s ?t = Some (?t\<lparr>input := i, input_length := input_length ?t + length s\<rparr>)"
    "length i = 96" "take (input_length ?t + length s) i = take (input_length ?t) (input ?t) @ s"
    using Cons.IH [of ?t] Cons.prems by auto
  have "take (input_length ?t) (input ?t) = take (input_length t) (input t) @ [c]"
    using Cons.prems b by (simp add: take_Suc_conv_app_nth)
  with i t show ?case by (intro exI [of _ i]) simp
qed

lemma finish_line_some:
  assumes ok: "tty_ok t"
  shows "\<exists>t'. finish_line t = Some t' \<and> tty_ok t' \<and> line_ready t' \<and> raw_length t' = raw_length t \<and>
    raw_input t' = raw_input t \<and> take (cooked_length t') (cooked_line t') = take (input_length t) (input t)"
proof -
  have b: "length (input t) = 96" "input_length t < 96" "length (cooked_line t) = 96"
    using ok by (simp_all add: tty_ok_def buffers_ok_def tty_sizes)
  define c where "c = (take (input_length t) (input t) @ drop (input_length t) (cooked_line t))[input_length t := 0]"
  have "copy_array 0 (input_length t) (input t) (cooked_line t) =
      Some (take (input_length t) (input t) @ drop (input_length t) (cooked_line t))"
    using copy_array_some [of 0 "input_length t" "input t" "cooked_line t"] b by simp
  moreover have "aset (input t) 0 0 = Some ((input t)[0 := 0])" unfolding aset_def b by simp
  ultimately have "finish_line t = Some (t\<lparr>cooked_length := input_length t, cooked_line := c, line_ready := True,
      input_length := 0, input := (input t)[0 := 0]\<rparr>)"
    using b by (simp add: finish_line_def c_def tty_sizes aset_def [of _ "input_length t"] min_def)
  moreover have "length c = 96" "take (input_length t) c = take (input_length t) (input t)"
    using b by (simp_all add: c_def)
  ultimately show ?thesis
    using ok b by (simp add: tty_ok_def buffers_ok_def grids_ok_def cursor_ok_def parser_ok_def tty_sizes)
qed

text \<open>Successive reads, each into a buffer of its size: the bytes delivered.\<close>

fun tty_reads :: "u64 list \<Rightarrow> tty \<Rightarrow> (u8 list \<times> tty) option" where
  "tty_reads [] t = Some ([], t)"
| "tty_reads (n # ns) t =
     (case tty_fd_read (Some (replicate (unat n) 0)) n (Some t) of
        Some (k, Some out, Some t') \<Rightarrow> map_option (map_prod ((@) (take (nat k) out)) id) (tty_reads ns t')
      | _ \<Rightarrow> None)"

lemma tty_reads_pending:
  "\<lbrakk>tty_ok t; 0 \<notin> set ns; raw_length t > 0 \<longrightarrow> \<not> line_ready t\<rbrakk> \<Longrightarrow>
   \<exists>t'. tty_reads ns t = Some (take (sum_list (map unat ns)) (pending t), t') \<and> tty_ok t' \<and>
     pending t' = drop (sum_list (map unat ns)) (pending t)"
proof (induction ns arbitrary: t)
  case (Cons n ns)
  let ?out = "replicate (unat n) (0 :: u8)"
  have n: "n \<noteq> 0" "unat n \<le> length ?out" using Cons.prems by auto
  have len: "(if raw_length t > 0 then raw_length t else length (pending t)) = length (pending t)"
    using Cons.prems(1,3) by (auto simp: pending_def tty_ok_def buffers_ok_def tty_sizes)
  from tty_fd_read_pending [OF Cons.prems(1) n] obtain k out t1 where r:
    "tty_fd_read (Some ?out) n (Some t) = Some (int k, Some out, Some t1)" "tty_ok t1"
    "take k out = take k (pending t)" "pending t1 = drop k (pending t)" "k = min (unat n) (length (pending t))"
    "line_ready t1 \<longrightarrow> line_ready t \<and> raw_length t > 0"
    unfolding len by blast
  obtain t2 where t2: "tty_reads ns t1 = Some (take (sum_list (map unat ns)) (pending t1), t2)" "tty_ok t2"
    "pending t2 = drop (sum_list (map unat ns)) (pending t1)"
    using Cons.IH [OF r(2)] Cons.prems r(6) by auto
  have "take k (pending t) @ take m (drop k (pending t)) = take (unat n + m) (pending t)"
    "drop m (drop k (pending t)) = drop (unat n + m) (pending t)" for m
    using r(5) by (auto simp: take_add min_def add.commute [of m])
  with r t2 show ?case by simp
qed (simp add: pending_def)

text \<open>
  C27. A line typed in cooked mode reaches the reader exactly once. With no input pending, after
  the characters \<open>s\<close> (as many as fit) and Enter, any sequence of non-empty reads, single
  bytes included, returns in order the first bytes of what was typed, with its
  end of line; once enough has been asked for nothing is pending.
\<close>

theorem tty_line_roundtrip:
  assumes "tty_ok t" and "raw_length t = 0" and "input_length t = 0" and "length s < TTY_INPUT_CAPACITY"
    and "0 \<notin> set counts"
  shows "\<exists>t1 t2. type_chars s t \<bind> finish_line = Some t1 \<and>
    tty_reads counts t1 = Some (take (sum_list (map unat counts)) (s @ [10]), t2) \<and> tty_ok t2 \<and>
    pending t2 = drop (sum_list (map unat counts)) (s @ [10])"
proof -
  obtain i where i: "type_chars s t = Some (t\<lparr>input := i, input_length := length s\<rparr>)" "length i = 96" "take (length s) i = s"
    using type_chars_some [OF assms(1), of s] assms(3,4) by (auto simp: tty_sizes)
  have "tty_ok (t\<lparr>input := i, input_length := length s\<rparr>)"
    using assms(1,4) i(2) by (simp add: tty_ok_def buffers_ok_def grids_ok_def cursor_ok_def parser_ok_def tty_sizes)
  from finish_line_some [OF this] obtain t1 where t1:
    "finish_line (t\<lparr>input := i, input_length := length s\<rparr>) = Some t1" "tty_ok t1" "line_ready t1" "raw_length t1 = 0"
    "take (cooked_length t1) (cooked_line t1) = s"
    using i(3) assms(2) by auto
  have "pending t1 = s @ [10]" using t1(3-5) by (simp add: pending_def)
  with tty_reads_pending [OF t1(2) assms(5)] t1(1,4) i(1) show ?thesis by auto
qed

theorem tty_line_roundtrip_witness:
  "\<exists>t1 t2. type_chars (ascii ''ls'') demo_tty \<bind> finish_line = Some t1 \<and>
    tty_reads [1, 1, 1] t1 = Some (ascii ''ls'' @ [10], t2) \<and> pending t2 = []"
proof -
  have "raw_length demo_tty = 0" "input_length demo_tty = 0" "length (ascii ''ls'') < TTY_INPUT_CAPACITY"
    by (simp_all add: demo_tty_def ascii_def TTY_INPUT_CAPACITY_def)
  from tty_line_roundtrip [OF demo_tty_ok this, of "[1, 1, 1]"] show ?thesis
    by (simp add: ascii_def) blast
qed

end
