(* ===== verification/Paging.thy ===== *)
theory Paging
  imports KString
begin

text \<open>
  The page tables of src/kernel/src/paging.c over physical memory. The kernel runs identity
  mapped, so a pointer to a table is its physical address. The static tables of the boot code
  are a record of addresses. The control register CR3 is a value that loading replaces.

  \<open>mmu_walk\<close> is the four level walk the processor makes, with the present, write, user and
  page size bits.
\<close>

section \<open>Tables in memory\<close>

definition tab_get :: "mem \<Rightarrow> u64 \<Rightarrow> nat \<Rightarrow> u64" where
  "tab_get m tab i = ld64 m (tab + 8 * of_nat i)"

definition tab_set :: "u64 \<Rightarrow> nat \<Rightarrow> u64 \<Rightarrow> mem \<Rightarrow> mem" where
  "tab_set tab i v m = st64 m (tab + 8 * of_nat i) v"

record boot_tables =
  pml4_table :: u64
  pdp_table :: u64
  pd_table0 :: u64
  pd_table1 :: u64
  pd_table2 :: u64
  pd_table3 :: u64
  framebuffer_pts :: "u64 list"

definition pd_table_for_index :: "boot_tables \<Rightarrow> u64 \<Rightarrow> u64" where
  "pd_table_for_index b pdp_index =
     (if pdp_index = 0 then pd_table0 b
      else if pdp_index = 1 then pd_table1 b
      else if pdp_index = 2 then pd_table2 b
      else if pdp_index = 3 then pd_table3 b
      else 0)"

definition fill_4k_page_table :: "u64 \<Rightarrow> u64 \<Rightarrow> u64 \<Rightarrow> mem \<Rightarrow> mem" where
  "fill_4k_page_table tab base_addr flags m =
     fold (\<lambda>i. tab_set tab i ((base_addr + of_nat i * 0x1000) OR flags)) [0..<512] m"

definition install_page_table :: "boot_tables \<Rightarrow> u64 \<Rightarrow> u64 \<Rightarrow> mem \<Rightarrow> mem" where
  "install_page_table b region_base tab m =
     (let pdp_index = drop_bit 30 region_base AND 0x1ff;
          pd_index = drop_bit 21 region_base AND 0x1ff;
          pd = pd_table_for_index b pdp_index
      in if pd = 0 then m else tab_set pd (unat pd_index) (tab OR 0x03) m)"

fun remap_loop :: "boot_tables \<Rightarrow> u64 list \<Rightarrow> u64 \<Rightarrow> u64 \<Rightarrow> mem \<Rightarrow> mem" where
  "remap_loop b [] next_region region_end m = m"
| "remap_loop b (tab # tabs) next_region region_end m =
     (if next_region < region_end then
        remap_loop b tabs (next_region + 0x200000) region_end
          (install_page_table b next_region tab (fill_4k_page_table tab next_region 0x9b m))
      else m)"

definition paging_remap_framebuffer :: "boot_tables \<Rightarrow> u64 \<Rightarrow> u64 \<Rightarrow> mem \<Rightarrow> mem" where
  "paging_remap_framebuffer b framebuffer_addr framebuffer_size m =
     remap_loop b (take 4 (framebuffer_pts b)) (framebuffer_addr AND NOT 0x1fffff)
       (framebuffer_addr + framebuffer_size) m"

section \<open>The tables of a process\<close>

definition clear_entries :: "u64 \<Rightarrow> nat \<Rightarrow> nat \<Rightarrow> mem \<Rightarrow> mem" where
  "clear_entries tab lo hi m = fold (\<lambda>i. tab_set tab i 0) [lo..<hi] m"

function map_pages :: "u64 \<Rightarrow> nat \<Rightarrow> u64 \<Rightarrow> nat \<Rightarrow> nat \<Rightarrow> nat \<Rightarrow> mem \<Rightarrow> mem" where
  "map_pages tabs count phys first i pages m =
     (if i < pages then
        let page = first + i in
        if page div 512 \<ge> count then m
        else map_pages tabs count phys first (i + 1) pages
               (tab_set tabs (page div 512 * 512 + page mod 512) ((phys + of_nat i * 0x1000) OR 0x07) m)
      else m)"
  by pat_completeness auto
termination by (relation "measure (\<lambda>(tabs, count, phys, first, i, pages, m). pages - i)") auto

declare map_pages.simps [simp del]

definition paging_map_user_process ::
  "boot_tables \<Rightarrow> u64 \<Rightarrow> u64 \<Rightarrow> u64 \<Rightarrow> u64 \<Rightarrow> u64 \<Rightarrow> u64 \<Rightarrow> u64 \<Rightarrow> nat \<Rightarrow> mem \<Rightarrow> mem" where
  "paging_map_user_process b user_virtual_base user_stack_top code_physical code_size stack_physical stack_size
       page_tables page_table_count m =
     (let code_pages = unat ((code_size + 0xfff) div 0x1000);
          stack_pages = unat ((stack_size + 0xfff) div 0x1000);
          stack_base_page = unat (((user_stack_top - stack_size) - user_virtual_base) div 0x1000);
          m = clear_entries page_tables 0 (page_table_count * 512) m;
          m = map_pages page_tables page_table_count code_physical 0 0 code_pages m;
          m = map_pages page_tables page_table_count stack_physical stack_base_page 0 stack_pages m;
          m = tab_set (pml4_table b) 0 (tab_get m (pml4_table b) 0 OR 0x04) m
      in tab_set (pdp_table b) 0 (tab_get m (pdp_table b) 0 OR 0x04) m)"

definition copy_entries :: "u64 \<Rightarrow> u64 \<Rightarrow> nat \<Rightarrow> mem \<Rightarrow> mem" where
  "copy_entries dst src n m = fold (\<lambda>i m. tab_set dst i (tab_get m src i) m) [0..<n] m"

definition splice_tables :: "u64 \<Rightarrow> nat \<Rightarrow> u64 \<Rightarrow> nat \<Rightarrow> mem \<Rightarrow> mem" where
  "splice_tables pd0 pd_index user_page_tables count m =
     fold (\<lambda>i. tab_set pd0 (pd_index + i) ((user_page_tables + of_nat (i * 512) * 8) OR 0x07)) [0..<count] m"

definition paging_build_process_tables ::
  "boot_tables \<Rightarrow> u64 \<Rightarrow> u64 \<Rightarrow> u64 \<Rightarrow> u64 \<Rightarrow> u64 \<Rightarrow> nat \<Rightarrow> mem \<Rightarrow> u64 \<times> mem" where
  "paging_build_process_tables b pml4 pdp pd0 user_virtual_base user_page_tables page_table_count m =
     (let pd_index = unat (drop_bit 21 user_virtual_base AND 0x1ff) in
      if pml4 = 0 \<or> pdp = 0 \<or> pd0 = 0 \<or> user_page_tables = 0 then (0, m)
      else
        let m = copy_entries pd0 (pd_table0 b) 512 m;
            m = splice_tables pd0 pd_index user_page_tables page_table_count m;
            m = tab_set pdp 0 (pd0 OR 0x07) m;
            m = tab_set pdp 1 (pd_table1 b OR 0x03) m;
            m = tab_set pdp 2 (pd_table2 b OR 0x03) m;
            m = tab_set pdp 3 (pd_table3 b OR 0x03) m;
            m = clear_entries pdp 4 512 m;
            m = tab_set pml4 0 (pdp OR 0x07) m;
            m = clear_entries pml4 1 512 m
        in (pml4, m))"

definition paging_load_cr3 :: "u64 \<Rightarrow> u64 \<Rightarrow> u64" where
  "paging_load_cr3 cr3 old = (if cr3 = 0 then old else cr3)"

definition paging_read_cr3 :: "u64 \<Rightarrow> u64" where
  "paging_read_cr3 cr3 = cr3"

section \<open>The walk of the processor\<close>

text \<open>The address bits 12 to 51 of an entry.\<close>

definition PTE_ADDR :: u64 where
  "PTE_ADDR = mask 52 AND NOT (mask 12)"

text \<open>A translation: the physical address, and whether user mode may use it and write to it.\<close>

definition walk_leaf :: "bool \<Rightarrow> bool \<Rightarrow> u64 \<Rightarrow> nat \<Rightarrow> u64 \<Rightarrow> (u64 \<times> bool \<times> bool) option" where
  "walk_leaf u w e bits va =
     (if bit e 0 then Some ((e AND PTE_ADDR AND NOT (mask bits)) + (va AND mask bits), u \<and> bit e 2, w \<and> bit e 1)
      else None)"

definition canonical :: "u64 \<Rightarrow> bool" where
  "canonical va \<longleftrightarrow> unat va < 2 ^ 47 \<or> 2 ^ 64 - 2 ^ 47 \<le> unat va"

definition mmu_walk :: "mem \<Rightarrow> u64 \<Rightarrow> u64 \<Rightarrow> (u64 \<times> bool \<times> bool) option" where
  "mmu_walk m cr3 va =
     (if \<not> canonical va then None
      else let e4 = tab_get m (cr3 AND PTE_ADDR) (unat (drop_bit 39 va AND 0x1ff)) in
      if \<not> bit e4 0 then None
      else let e3 = tab_get m (e4 AND PTE_ADDR) (unat (drop_bit 30 va AND 0x1ff)) in
      if \<not> bit e3 0 then None
      else if bit e3 7 then walk_leaf (bit e4 2) (bit e4 1) e3 30 va
      else let e2 = tab_get m (e3 AND PTE_ADDR) (unat (drop_bit 21 va AND 0x1ff)) in
      if \<not> bit e2 0 then None
      else if bit e2 7 then walk_leaf (bit e4 2 \<and> bit e3 2) (bit e4 1 \<and> bit e3 1) e2 21 va
      else let e1 = tab_get m (e2 AND PTE_ADDR) (unat (drop_bit 12 va AND 0x1ff)) in
      walk_leaf (bit e4 2 \<and> bit e3 2 \<and> bit e2 2) (bit e4 1 \<and> bit e3 1 \<and> bit e2 1) e1 12 va)"

section \<open>Reading tables back\<close>

text \<open>A table of \<open>n\<close> entries that does not wrap around the address space.\<close>

definition tab_in :: "u64 \<Rightarrow> nat \<Rightarrow> bool" where
  "tab_in t n \<longleftrightarrow> unat t + 8 * n \<le> 2 ^ 64"

lemma unat_entry:
  assumes "tab_in t n" and "i < n"
  shows "unat (t + 8 * of_nat i) = unat t + 8 * i"
proof -
  have "8 * i < 2 ^ 64" using assms by (simp add: tab_in_def)
  then have "unat (8 * of_nat i :: u64) = 8 * i"
    by (simp add: unat_word_ariths unat_of_nat mod_mult_right_eq)
  with assms show ?thesis by (subst unat_add_exact) (simp_all add: tab_in_def)
qed

lemma tab_get_set_same [simp]: "tab_get (tab_set t i v m) t i = v"
  by (simp add: tab_get_def tab_set_def mem_simps)

lemma tab_get_set_index:
  assumes "tab_in t n" and "i < n" and "j < n" and "i \<noteq> j"
  shows "tab_get (tab_set t i v m) t j = tab_get m t j"
proof -
  have "apart (t + 8 * of_nat i) 8 (t + 8 * of_nat j) 8"
    using assms unat_entry [of t n i] unat_entry [of t n j] by (auto simp: apart_def tab_in_def)
  then show ?thesis by (simp add: tab_get_def tab_set_def mem_simps)
qed

lemma tab_get_set_apart:
  assumes "apart t (8 * n) u (8 * k)" and "i < n" and "j < k"
  shows "tab_get (tab_set t i v m) u j = tab_get m u j"
proof -
  have "tab_in t n" "tab_in u k" using assms(1) by (simp_all add: apart_def tab_in_def)
  then have "apart (t + 8 * of_nat i) 8 (u + 8 * of_nat j) 8"
    using assms unat_entry [of t n i] unat_entry [of u k j] by (auto simp: apart_def)
  then show ?thesis by (simp add: tab_get_def tab_set_def mem_simps)
qed

lemma tab_get_fold_apart:
  assumes "apart t (8 * n) u (8 * k)" and "\<forall>i\<in>set is. f i < n" and "j < k"
  shows "tab_get (fold (\<lambda>i. tab_set t (f i) (v i)) is m) u j = tab_get m u j"
  using assms(2) by (induction "is" arbitrary: m) (simp_all add: tab_get_set_apart [OF assms(1) _ assms(3)])

lemma tab_get_fold_index:
  assumes "tab_in t n" and "j < n"
  shows "\<forall>i\<in>set is. f i < n \<Longrightarrow> j \<notin> f ` set is \<Longrightarrow>
    tab_get (fold (\<lambda>i. tab_set t (f i) (v i)) is m) t j = tab_get m t j"
  by (induction "is" arbitrary: m) (auto simp: tab_get_set_index [OF assms(1) _ assms(2)])

lemma tab_get_fold_hit:
  assumes "tab_in t n"
  shows "\<forall>i\<in>set is. f i < n \<Longrightarrow> distinct (map f is) \<Longrightarrow> k \<in> set is \<Longrightarrow>
    tab_get (fold (\<lambda>i. tab_set t (f i) (v i)) is m) t (f k) = v k"
proof (induction "is" arbitrary: m)
  case (Cons i "is")
  show ?case
  proof (cases "k = i")
    case True
    then show ?thesis
      using Cons.prems by (simp add: tab_get_fold_index [OF assms])
  next
    case False
    then show ?thesis using Cons by auto
  qed
qed simp

lemma tab_get_clear:
  assumes "tab_in t n" and "j < n" and "hi \<le> n"
  shows "tab_get (clear_entries t lo hi m) t j = (if lo \<le> j \<and> j < hi then 0 else tab_get m t j)"
  using tab_get_fold_hit [OF assms(1), of "[lo..<hi]" "\<lambda>i. i" j "\<lambda>i. 0" m]
    tab_get_fold_index [OF assms(1,2), of "[lo..<hi]" "\<lambda>i. i" "\<lambda>i. 0" m] assms(3)
  by (auto simp: clear_entries_def)

lemma tab_get_clear_apart:
  assumes "apart t (8 * n) u (8 * k)" and "hi \<le> n" and "j < k"
  shows "tab_get (clear_entries t lo hi m) u j = tab_get m u j"
  unfolding clear_entries_def using assms(2) by (intro tab_get_fold_apart [OF assms(1) _ assms(3)]) auto

lemma tab_get_splice:
  assumes "tab_in t n" and "j < n" and "d + c \<le> n"
  shows "tab_get (splice_tables t d u c m) t j =
    (if d \<le> j \<and> j < d + c then (u + of_nat ((j - d) * 512) * 8) OR 7 else tab_get m t j)"
proof (cases "d \<le> j \<and> j < d + c")
  case True
  then show ?thesis
    using tab_get_fold_hit [OF assms(1), of "[0..<c]" "\<lambda>i. d + i" "j - d" "\<lambda>i. (u + of_nat (i * 512) * 8) OR 7" m] assms(3)
    by (simp add: splice_tables_def distinct_map inj_on_def less_diff_conv2)
next
  case False
  then have "j \<notin> (\<lambda>i. d + i) ` set [0..<c]" by auto
  then show ?thesis
    using False tab_get_fold_index [OF assms(1,2), of "[0..<c]" "\<lambda>i. d + i"] assms(3)
    by (auto simp: splice_tables_def)
qed

lemma tab_get_splice_apart:
  assumes "apart t (8 * n) u (8 * k)" and "d + c \<le> n" and "j < k"
  shows "tab_get (splice_tables t d v c m) u j = tab_get m u j"
  unfolding splice_tables_def using assms(2) by (intro tab_get_fold_apart [OF assms(1) _ assms(3)]) auto

lemma copy_entries_fold:
  assumes "apart dst (8 * n) src (8 * n)"
  shows "copy_entries dst src n m = fold (\<lambda>i. tab_set dst i (tab_get m src i)) [0..<n] m"
proof -
  have "fold (\<lambda>i m. tab_set dst i (tab_get m src i) m) [0..<k] m =
      fold (\<lambda>i. tab_set dst i (tab_get m src i)) [0..<k] m" if "k \<le> n" for k
    using that
  proof (induction k)
    case (Suc k)
    have "tab_get (fold (\<lambda>i. tab_set dst i (tab_get m src i)) [0..<k] m) src k = tab_get m src k"
      using Suc.prems by (intro tab_get_fold_apart [OF assms, of _ "\<lambda>i. i"]) auto
    with Suc show ?case by simp
  qed simp
  then show ?thesis by (simp add: copy_entries_def)
qed

lemma tab_get_copy:
  assumes "apart dst (8 * n) src (8 * n)" and "j < n"
  shows "tab_get (copy_entries dst src n m) dst j = tab_get m src j"
proof -
  have "tab_in dst n" using assms(1) by (simp add: apart_def tab_in_def)
  from tab_get_fold_hit [OF this, of "[0..<n]" "\<lambda>i. i" j "tab_get m src" m] assms show ?thesis
    by (simp add: copy_entries_fold)
qed

lemma tab_get_copy_apart:
  assumes "apart dst (8 * n) src (8 * n)" and "apart dst (8 * n) u (8 * k)" and "j < k"
  shows "tab_get (copy_entries dst src n m) u j = tab_get m u j"
  unfolding copy_entries_fold [OF assms(1)] by (intro tab_get_fold_apart [OF assms(2) _ assms(3)]) auto

lemma map_pages_get:
  assumes "tab_in tabs (count * 512)" and "first + pages \<le> count * 512" and "p < count * 512"
  shows "tab_get (map_pages tabs count phys first i pages m) tabs p =
    (if first + i \<le> p \<and> p < first + pages then (phys + of_nat (p - first) * 0x1000) OR 0x07 else tab_get m tabs p)"
  using assms
proof (induction tabs count phys first i pages m rule: map_pages.induct)
  case (1 tabs count phys first i pages m)
  show ?case
  proof (cases "i < pages")
    case True
    let ?m = "tab_set tabs (first + i) ((phys + of_nat i * 0x1000) OR 0x07) m"
    have fit: "\<not> (first + i) div 512 \<ge> count" "first + i < count * 512"
      using True "1.prems"(2) by (auto simp: not_le less_mult_imp_div_less)
    have eq: "map_pages tabs count phys first i pages m = map_pages tabs count phys first (i + 1) pages ?m"
      using True fit by (subst map_pages.simps) (simp add: Let_def)
    have "tab_get (map_pages tabs count phys first (i + 1) pages ?m) tabs p =
      (if first + (i + 1) \<le> p \<and> p < first + pages then (phys + of_nat (p - first) * 0x1000) OR 0x07 else tab_get ?m tabs p)"
      using "1.IH" [OF True refl fit(1)] "1.prems" by simp
    moreover have "tab_get ?m tabs p = (if p = first + i then (phys + of_nat i * 0x1000) OR 0x07 else tab_get m tabs p)"
      using tab_get_set_index [OF "1.prems"(1) fit(2) "1.prems"(3)] by auto
    ultimately show ?thesis using True by (auto simp: eq)
  next
    case False
    then show ?thesis by (subst map_pages.simps) auto
  qed
qed

lemma map_pages_apart:
  assumes "apart tabs (8 * (count * 512)) u (8 * k)" and "j < k"
  shows "tab_get (map_pages tabs count phys first i pages m) u j = tab_get m u j"
  using assms
proof (induction tabs count phys first i pages m rule: map_pages.induct)
  case (1 tabs count phys first i pages m)
  show ?case
  proof (cases "i < pages \<and> \<not> (first + i) div 512 \<ge> count")
    case True
    then have "first + i < count * 512" by (simp add: not_le div_less_iff_less_mult)
    then have "tab_get (tab_set tabs (first + i) v m) u j = tab_get m u j" for v
      using "1.prems" by (intro tab_get_set_apart)
    with True 1 show ?thesis by (subst map_pages.simps) (simp add: Let_def)
  next
    case False
    then show ?thesis by (subst map_pages.simps) (auto simp: Let_def)
  qed
qed

section \<open>The address space of a process\<close>

text \<open>The layout constants of include/process.h.\<close>

definition PROCESS_USER_BASE :: u64 where "PROCESS_USER_BASE = 0x20000000"
definition PROCESS_USER_REGION_BYTES :: u64 where "PROCESS_USER_REGION_BYTES = 0x10000000"
definition PROCESS_USER_STACK_SIZE :: u64 where "PROCESS_USER_STACK_SIZE = 0x100000"
definition PROCESS_USER_IMAGE_SIZE :: u64 where
  "PROCESS_USER_IMAGE_SIZE = PROCESS_USER_REGION_BYTES - PROCESS_USER_STACK_SIZE"
definition PROCESS_USER_STACK_TOP_OFFSET :: u64 where
  "PROCESS_USER_STACK_TOP_OFFSET = PROCESS_USER_REGION_BYTES"
definition PROCESS_USER_PAGE_TABLE_COUNT :: nat where "PROCESS_USER_PAGE_TABLE_COUNT = 128"

lemmas user_layout = PROCESS_USER_BASE_def PROCESS_USER_REGION_BYTES_def PROCESS_USER_STACK_SIZE_def
  PROCESS_USER_IMAGE_SIZE_def PROCESS_USER_STACK_TOP_OFFSET_def PROCESS_USER_PAGE_TABLE_COUNT_def

lemma page_table_count_region:
  "PROCESS_USER_PAGE_TABLE_COUNT = unat (PROCESS_USER_REGION_BYTES div 0x200000)"
  by (simp add: user_layout)

text \<open>A page-aligned physical address below the 52-bit limit.\<close>

definition page_addr :: "u64 \<Rightarrow> bool" where
  "page_addr x \<longleftrightarrow> take_bit 12 x = 0 \<and> take_bit 52 x = x"

lemma page_addr_bits: "page_addr x \<Longrightarrow> bit x n \<Longrightarrow> 12 \<le> n \<and> n < 52"
proof -
  assume x: "page_addr x" and n: "bit x n"
  have "\<not> n < 12" using x n bit_take_bit_iff [of 12 x n] by (auto simp: page_addr_def)
  moreover have "n < 52" using x n bit_take_bit_iff [of 52 x n] by (simp add: page_addr_def)
  ultimately show ?thesis by simp
qed

lemma pte_flags:
  assumes "page_addr x" and "k \<le> 3"
  shows "bit (x OR mask k) n \<longleftrightarrow> bit x n \<or> n < k" and "(x OR mask k) AND PTE_ADDR = x" and "\<not> bit (x OR mask k) 7"
proof -
  show b: "bit (x OR mask k) n \<longleftrightarrow> bit x n \<or> n < k" for n
    using assms(2) by (auto simp: bit_simps)
  show "(x OR mask k) AND PTE_ADDR = x"
    using page_addr_bits [OF assms(1)] assms(2)
    by (intro bit_word_eqI) (fastforce simp: PTE_ADDR_def bit_simps)
  show "\<not> bit (x OR mask k) 7"
    using page_addr_bits [OF assms(1), of 7] assms(2) by (auto simp: b)
qed

lemma flag_masks: "(7 :: u64) = mask 3" "(3 :: u64) = mask 2"
  by (simp_all add: mask_eq_exp_minus_1)

lemma leaf_page:
  assumes "page_addr x"
  shows "walk_leaf u w (x OR 7) 12 va = Some (x + (va AND mask 12), u, w)"
proof -
  have "(x OR mask 3) AND PTE_ADDR AND NOT (mask 12) = x"
    using page_addr_bits [OF assms] by (intro bit_word_eqI) (fastforce simp: PTE_ADDR_def bit_simps)
  then show ?thesis
    unfolding walk_leaf_def flag_masks using assms by (simp add: pte_flags)
qed

lemma leaf_absent: "walk_leaf u w 0 n va = None"
  by (simp add: walk_leaf_def)

lemma unat_index: "unat (drop_bit k (va :: u64) AND 0x1ff) = unat va div 2 ^ k mod 512"
proof -
  have m: "(0x1ff :: u64) = mask 9" by (simp add: mask_eq_exp_minus_1)
  have "unat (drop_bit k va AND 0x1ff) = take_bit 9 (drop_bit k (unat va))"
    unfolding m using take_bit_nat_eq_self [OF unat_lt_exp [of va]]
    by (simp add: take_bit_eq_mask [symmetric] unsigned_take_bit_eq unsigned_drop_bit_eq take_bit_nat_eq_self)
  then show ?thesis by (simp add: take_bit_eq_mod drop_bit_eq_div)
qed

lemma canonical_index:
  assumes "canonical va" and "unat va div 2 ^ 39 mod 512 = 0"
  shows "unat va < 2 ^ 39"
proof -
  define q where "q = unat va div 2 ^ 39"
  have "unat va < 2 ^ 47 \<Longrightarrow> q < 256" "2 ^ 64 - 2 ^ 47 \<le> unat va \<Longrightarrow> 33554176 \<le> q \<and> q < 33554432"
    using unat_lt_exp [of va] by (auto simp: q_def div_less_iff_less_mult less_eq_div_iff_mult_less_eq)
  moreover have "\<not> (33554176 \<le> q \<and> q < 33554432 \<and> q mod 512 = 0)" by presburger
  moreover have "q mod 512 = 0" using assms(2) by (simp only: q_def)
  ultimately have "q = 0" using assms(1) unfolding canonical_def by (metis mod_less less_trans [of q 256 512] numeral_less_iff semiring_norm(76,78,81))
  then show ?thesis by (simp add: q_def div_eq_0_iff)
qed

text \<open>Where a process's tables lie, and that the boot directory is closed to user mode.\<close>

definition tables_placed :: "boot_tables \<Rightarrow> u64 \<Rightarrow> u64 \<Rightarrow> u64 \<Rightarrow> u64 \<Rightarrow> bool" where
  "tables_placed b pml4 pdp pd0 tabs \<longleftrightarrow>
     (\<forall>a\<in>{pml4, pdp, pd0, tabs, pd_table1 b, pd_table2 b, pd_table3 b}. page_addr a \<and> a \<noteq> 0) \<and>
     sorted_wrt (\<lambda>(a, n) (c, k). apart a (8 * n) c (8 * k))
       [(pml4, 512), (pdp, 512), (pd0, 512), (tabs, 65536), (pd_table0 b, 512), (pml4_table b, 512), (pdp_table b, 512)] \<and>
     unat tabs + 0x80000 \<le> 2 ^ 52"

definition kernel_only :: "mem \<Rightarrow> u64 \<Rightarrow> bool" where
  "kernel_only m pd \<longleftrightarrow> (\<forall>i<512. \<not> bit (tab_get m pd i) 2)"

definition user_entry :: "u64 \<Rightarrow> nat \<Rightarrow> u64 \<Rightarrow> nat \<Rightarrow> u64" where
  "user_entry code code_pages stack p =
     (if p < code_pages then (code + of_nat p * 0x1000) OR 0x07
      else if 0xff00 \<le> p then (stack + of_nat (p - 0xff00) * 0x1000) OR 0x07
      else 0)"

definition process_address_space ::
  "boot_tables \<Rightarrow> u64 \<Rightarrow> u64 \<Rightarrow> u64 \<Rightarrow> u64 \<Rightarrow> u64 \<Rightarrow> u64 \<Rightarrow> u64 \<Rightarrow> mem \<Rightarrow> u64 \<times> mem" where
  "process_address_space b pml4 pdp pd0 tabs code code_size stack m =
     paging_build_process_tables b pml4 pdp pd0 PROCESS_USER_BASE tabs PROCESS_USER_PAGE_TABLE_COUNT
       (paging_map_user_process b PROCESS_USER_BASE (PROCESS_USER_BASE + PROCESS_USER_STACK_TOP_OFFSET)
         code code_size stack PROCESS_USER_STACK_SIZE tabs PROCESS_USER_PAGE_TABLE_COUNT m)"

lemma apart_sym: "apart a n b k \<Longrightarrow> apart b k a n"
  by (auto simp: apart_def)

lemma map_user_entry:
  assumes placed: "tables_placed b pml4 pdp pd0 tabs" and size: "code_size \<le> PROCESS_USER_IMAGE_SIZE" and p: "p < 65536"
  shows "tab_get (paging_map_user_process b PROCESS_USER_BASE (PROCESS_USER_BASE + PROCESS_USER_STACK_TOP_OFFSET)
      code code_size stack PROCESS_USER_STACK_SIZE tabs PROCESS_USER_PAGE_TABLE_COUNT m) tabs p =
    user_entry code (unat ((code_size + 0xfff) div 0x1000)) stack p"
proof -
  define n where "n = unat ((code_size + 0xfff) div 0x1000)"
  have "unat code_size \<le> 0xff00000" using size by (simp add: user_layout word_le_nat_alt)
  then have "unat (code_size + 0xfff) = unat code_size + 0xfff" by (simp add: unat_add_numeral_exact)
  then have n: "n \<le> 0xff00" using \<open>unat code_size \<le> 0xff00000\<close> by (simp add: n_def unat_div)
  have ap: "apart tabs 524288 (pml4_table b) 4096" "apart tabs 524288 (pdp_table b) 4096"
    using placed by (simp_all add: tables_placed_def)
  then have tin: "tab_in tabs (128 * 512)" by (simp add: apart_def tab_in_def)
  have other: "tab_get (tab_set (pml4_table b) 0 v m) tabs p = tab_get m tabs p"
    "tab_get (tab_set (pdp_table b) 0 v m) tabs p = tab_get m tabs p" for v m
    using tab_get_set_apart [of "pml4_table b" 512 tabs 65536 0 p] tab_get_set_apart [of "pdp_table b" 512 tabs 65536 0 p]
      ap p by (simp_all add: apart_def disj_commute)
  have "tab_get (map_pages tabs 128 stack 0xff00 0 0x100 (map_pages tabs 128 code 0 0 n (clear_entries tabs 0 65536 m))) tabs p =
      user_entry code n stack p"
    using map_pages_get [OF tin, where first = 65280 and pages = 256 and p = p]
      map_pages_get [OF tin, where first = 0 and pages = n and p = p] tab_get_clear [of tabs 65536 p 65536 0] tin n p
    by (auto simp: user_entry_def)
  then show ?thesis
    by (simp add: paging_map_user_process_def user_layout other n_def Let_def)
qed

lemma map_user_boot:
  assumes placed: "tables_placed b pml4 pdp pd0 tabs" and i: "i < 512"
  shows "tab_get (paging_map_user_process b PROCESS_USER_BASE (PROCESS_USER_BASE + PROCESS_USER_STACK_TOP_OFFSET)
      code code_size stack PROCESS_USER_STACK_SIZE tabs PROCESS_USER_PAGE_TABLE_COUNT m) (pd_table0 b) i =
    tab_get m (pd_table0 b) i"
proof -
  have ap: "apart tabs (8 * (128 * 512)) (pd_table0 b) (8 * 512)" "apart (pml4_table b) (8 * 512) (pd_table0 b) (8 * 512)"
    "apart (pdp_table b) (8 * 512) (pd_table0 b) (8 * 512)"
    using placed by (simp_all add: tables_placed_def apart_sym)
  have "tab_get (clear_entries tabs 0 65536 m) (pd_table0 b) i = tab_get m (pd_table0 b) i" for m
    using tab_get_clear_apart [OF ap(1), of 65536 i 0] i by simp
  moreover have "tab_get (tab_set (pml4_table b) 0 v m) (pd_table0 b) i = tab_get m (pd_table0 b) i"
    "tab_get (tab_set (pdp_table b) 0 v m) (pd_table0 b) i = tab_get m (pd_table0 b) i" for v m
    using tab_get_set_apart [OF ap(2) _ i, of 0] tab_get_set_apart [OF ap(3) _ i, of 0] by simp_all
  ultimately show ?thesis
    by (simp add: paging_map_user_process_def PROCESS_USER_PAGE_TABLE_COUNT_def Let_def map_pages_apart [OF ap(1) i])
qed

lemma unat_code_pages:
  assumes "code_size \<le> PROCESS_USER_IMAGE_SIZE"
  shows "unat ((code_size + 0xfff) div 0x1000) \<le> 0xff00"
proof -
  have "unat code_size \<le> 0xff00000" using assms by (simp add: user_layout word_le_nat_alt)
  then show ?thesis by (simp add: unat_add_numeral_exact unat_div)
qed

text \<open>The four levels that \<open>process_address_space\<close> leaves.\<close>

lemma address_space_tables:
  assumes placed: "tables_placed b pml4 pdp pd0 tabs" and size: "code_size \<le> PROCESS_USER_IMAGE_SIZE"
    and result: "process_address_space b pml4 pdp pd0 tabs code code_size stack m = (cr3, m')"
  shows "cr3 = pml4"
    and "i < 512 \<Longrightarrow> tab_get m' pml4 i = (if i = 0 then pdp OR 7 else 0)"
    and "i < 512 \<Longrightarrow> tab_get m' pdp i = (if i = 0 then pd0 OR 7 else if i = 1 then pd_table1 b OR 3
      else if i = 2 then pd_table2 b OR 3 else if i = 3 then pd_table3 b OR 3 else 0)"
    and "i < 512 \<Longrightarrow> tab_get m' pd0 i = (if 256 \<le> i \<and> i < 384 then (tabs + of_nat ((i - 256) * 512) * 8) OR 7
      else tab_get m (pd_table0 b) i)"
    and "p < 65536 \<Longrightarrow> tab_get m' tabs p = user_entry code (unat ((code_size + 0xfff) div 0x1000)) stack p"
proof -
  define m1 where "m1 = paging_map_user_process b PROCESS_USER_BASE (PROCESS_USER_BASE + PROCESS_USER_STACK_TOP_OFFSET)
      code code_size stack PROCESS_USER_STACK_SIZE tabs PROCESS_USER_PAGE_TABLE_COUNT m"
  have nz: "pml4 \<noteq> 0" "pdp \<noteq> 0" "pd0 \<noteq> 0" "tabs \<noteq> 0" using placed by (simp_all add: tables_placed_def)
  have ix: "unat (drop_bit 21 PROCESS_USER_BASE AND 0x1ff) = 256" unfolding unat_index by (simp add: user_layout)
  define m2 where "m2 = splice_tables pd0 256 tabs 128 (copy_entries pd0 (pd_table0 b) 512 m1)"
  define m3 where "m3 = clear_entries pdp 4 512 (tab_set pdp 3 (pd_table3 b OR 3) (tab_set pdp 2 (pd_table2 b OR 3)
     (tab_set pdp 1 (pd_table1 b OR 3) (tab_set pdp 0 (pd0 OR 7) m2))))"
  have m': "cr3 = pml4" "m' = clear_entries pml4 1 512 (tab_set pml4 0 (pdp OR 7) m3)"
    using result nz unfolding process_address_space_def paging_build_process_tables_def m1_def [symmetric] ix
    by (auto simp: Let_def PROCESS_USER_PAGE_TABLE_COUNT_def m2_def m3_def)
  have ap: "apart pml4 (8 * 512) pdp (8 * 512)" "apart pml4 (8 * 512) pd0 (8 * 512)" "apart pml4 (8 * 512) tabs (8 * 65536)"
    "apart pdp (8 * 512) pd0 (8 * 512)" "apart pdp (8 * 512) tabs (8 * 65536)" "apart pd0 (8 * 512) tabs (8 * 65536)"
    "apart pd0 (8 * 512) (pd_table0 b) (8 * 512)"
    using placed by (simp_all add: tables_placed_def)
  then have tin: "tab_in pml4 512" "tab_in pdp 512" "tab_in pd0 512" by (simp_all add: apart_def tab_in_def)
  have top: "tab_get m' u j = tab_get m3 u j" if "apart pml4 (8 * 512) u (8 * k)" "j < k" for u j k
    using that by (simp add: m'(2) tab_get_clear_apart [OF that(1)] tab_get_set_apart [OF that(1)])
  have mid: "tab_get m3 u j = tab_get m2 u j" if "apart pdp (8 * 512) u (8 * k)" "j < k" for u j k
    using that by (simp add: m3_def tab_get_clear_apart [OF that(1)] tab_get_set_apart [OF that(1)])
  show "cr3 = pml4" by (rule m')
  show "tab_get m' pml4 i = (if i = 0 then pdp OR 7 else 0)" if "i < 512"
    using that tab_get_clear [OF tin(1) that, of 512 1] by (auto simp: m'(2))
  show "tab_get m' pdp i = (if i = 0 then pd0 OR 7 else if i = 1 then pd_table1 b OR 3
      else if i = 2 then pd_table2 b OR 3 else if i = 3 then pd_table3 b OR 3 else 0)" if "i < 512"
  proof -
    have "tab_get (tab_set pdp k v m) pdp i = (if k = i then v else tab_get m pdp i)" if "k < 512" for k v m
      using tab_get_set_index [OF tin(2) that \<open>i < 512\<close>] by auto
    with that show ?thesis
      using top [OF ap(1) that] tab_get_clear [OF tin(2) that, of 512 4] by (auto simp: m3_def)
  qed
  show "tab_get m' pd0 i = (if 256 \<le> i \<and> i < 384 then (tabs + of_nat ((i - 256) * 512) * 8) OR 7
      else tab_get m (pd_table0 b) i)" if "i < 512"
    using top [OF ap(2) that] mid [OF ap(4) that] tab_get_splice [OF tin(3) that, of 256 128]
      tab_get_copy [OF ap(7) that] map_user_boot [OF placed that]
    by (simp add: m2_def m1_def)
  show "tab_get m' tabs p = user_entry code (unat ((code_size + 0xfff) div 0x1000)) stack p" if "p < 65536"
    using top [OF ap(3) that] mid [OF ap(5) that] tab_get_splice_apart [OF ap(6) _ that, of 256 128]
      tab_get_copy_apart [OF ap(7,6) that] map_user_entry [OF placed size that]
    by (simp add: m2_def m1_def)
qed

lemma page_addr_nat: "page_addr x \<longleftrightarrow> unat x mod 4096 = 0 \<and> unat x < 2 ^ 52"
proof -
  have "unat (take_bit 12 x) = unat x mod 2 ^ 12" "unat (take_bit 52 x) = unat x mod 2 ^ 52"
    unfolding unsigned_take_bit_eq by (simp_all add: take_bit_eq_mod)
  moreover have "n mod 2 ^ 52 = n \<longleftrightarrow> n < (2 ^ 52 :: nat)" for n
    by (metis mod_less mod_less_divisor zero_less_power zero_less_numeral)
  ultimately show ?thesis
    unfolding page_addr_def word_unat_eq_iff by simp
qed

lemma unat_page_offset:
  assumes "unat (x :: u64) + 4096 * n \<le> 2 ^ 52" and "k < n"
  shows "unat (x + of_nat k * 0x1000) = unat x + k * 4096"
proof -
  have "unat (of_nat k * 0x1000 :: u64) = k * 4096"
    using assms by (simp add: unat_word_ariths unat_of_nat mod_mult_left_eq)
  then show ?thesis using assms by (subst unat_add_exact) simp_all
qed

lemma page_addr_add:
  assumes "page_addr x" and "unat x + 4096 * n \<le> 2 ^ 52" and "k < n"
  shows "page_addr (x + of_nat k * 0x1000)"
proof -
  have "unat x + k * 4096 < 2 ^ 52" using assms(2,3) by simp
  then show ?thesis
    using assms(1) unat_page_offset [OF assms(2,3)] by (simp add: page_addr_nat mod_add_left_eq [symmetric])
qed

lemma unat_page_low: "unat ((va :: u64) AND mask 12) = unat va mod 4096"
  unfolding take_bit_eq_mask [symmetric] unsigned_take_bit_eq by (simp add: take_bit_eq_mod)

lemma window_page:
  fixes v :: nat
  assumes "0x20000000 \<le> v"
  shows "(v - 0x20000000) div 4096 = v div 4096 - 0x20000"
proof -
  define w where "w = v - 0x20000000"
  have "v = w + 131072 * 4096" using assms by (simp add: w_def)
  then have "v div 4096 = 131072 + w div 4096" by (simp only: div_mult_self1 [of 4096 w 131072] zero_neq_numeral not_False_eq_True)
  then show ?thesis by (simp add: w_def)
qed

lemma window_indices:
  fixes v :: nat
  assumes "0x20000000 \<le> v" and "v < 0x30000000"
  shows "v div 2 ^ 39 mod 512 = 0" "v div 2 ^ 30 mod 512 = 0" "256 \<le> v div 2 ^ 21 mod 512" "v div 2 ^ 21 mod 512 < 384"
    "(v div 2 ^ 21 mod 512 - 256) * 512 + v div 2 ^ 12 mod 512 = (v - 0x20000000) div 4096"
proof -
  define q where "q = v div 4096"
  define a where "a = q div 512"
  define r where "r = q mod 512"
  have q: "0x20000 \<le> q" "q < 0x30000"
    unfolding q_def using assms by (simp_all add: less_eq_div_iff_mult_less_eq div_less_iff_less_mult)
  have d: "v div 2 ^ 21 = a" "v div 2 ^ 12 = q"
    using div_mult2_eq [of v 4096 512] by (simp_all add: q_def a_def)
  have a: "256 \<le> a" "a < 384"
    unfolding a_def using q by (simp_all add: less_eq_div_iff_mult_less_eq div_less_iff_less_mult)
  then have s: "a mod 512 = a" by simp
  have z: "v div 2 ^ 39 = 0" "v div 2 ^ 30 = 0" using assms(2) by (intro div_less, simp)+
  show "v div 2 ^ 39 mod 512 = 0" "v div 2 ^ 30 mod 512 = 0" unfolding z by simp_all
  show "256 \<le> v div 2 ^ 21 mod 512" "v div 2 ^ 21 mod 512 < 384" unfolding d s by (rule a)+
  have "a * 512 + r = q" unfolding a_def r_def by (rule div_mult_mod_eq)
  then have "(a - 256) * 512 + r = q - 0x20000" using a q by linarith
  then show "(v div 2 ^ 21 mod 512 - 256) * 512 + v div 2 ^ 12 mod 512 = (v - 0x20000000) div 4096"
    unfolding d s window_page [OF assms(1)] q_def [symmetric] r_def .
qed

lemma user_walk:
  assumes placed: "tables_placed b pml4 pdp pd0 tabs" and size: "code_size \<le> PROCESS_USER_IMAGE_SIZE"
    and result: "process_address_space b pml4 pdp pd0 tabs code code_size stack m = (cr3, m')"
    and va: "0x20000000 \<le> unat va" "unat va < 0x30000000"
  shows "mmu_walk m' cr3 va = walk_leaf True True
    (user_entry code (unat ((code_size + 0xfff) div 0x1000)) stack ((unat va - 0x20000000) div 4096)) 12 va"
proof -
  note tab = address_space_tables [OF placed size result] and ix = window_indices [OF va]
  define i2 where "i2 = unat va div 2 ^ 21 mod 512"
  define j where "j = i2 - 256"
  have pa: "page_addr pml4" "page_addr pdp" "page_addr pd0" "page_addr tabs" "unat tabs + 4096 * 128 \<le> 2 ^ 52"
    using placed by (simp_all add: tables_placed_def)
  have i2: "256 \<le> i2" "i2 < 384" "j < 128" using ix(3,4) by (simp_all add: j_def i2_def)
  define t where "t = tabs + of_nat j * 0x1000"
  have t: "page_addr t" unfolding t_def using pa(4,5) i2(3) by (rule page_addr_add)
  have "of_nat (j * 512) * 8 = (of_nat j * 0x1000 :: u64)" by simp
  then have e2: "tab_get m' pd0 i2 = t OR 7"
    using tab(4) [of i2] i2 unfolding j_def [symmetric] t_def by (simp add: mult.commute)
  have "t + 8 * of_nat i = tabs + 8 * of_nat (j * 512 + i)" for i
    by (simp add: t_def algebra_simps)
  then have e1: "tab_get m' t i = tab_get m' tabs (j * 512 + i)" for i
    unfolding tab_get_def by (simp only:)
  have "(unat va - 0x20000000) div 4096 < 65536" using va by (simp add: div_less_iff_less_mult)
  then have leaf: "tab_get m' t (unat va div 2 ^ 12 mod 512) =
      user_entry code (unat ((code_size + 0xfff) div 0x1000)) stack ((unat va - 0x20000000) div 4096)"
    unfolding e1 j_def i2_def ix(5) by (rule tab(5))
  have "canonical va" using va by (simp add: canonical_def)
  moreover have "pml4 AND PTE_ADDR = pml4" using pte_flags(2) [OF pa(1), of 0] by simp
  moreover note flags = pte_flags(2,3) [OF pa(2), of 3, folded flag_masks] pte_flags(2,3) [OF pa(3), of 3, folded flag_masks]
    pte_flags(2,3) [OF t, of 3, folded flag_masks]
  moreover have "bit (x OR 7 :: u64) 0" "bit (x OR 7 :: u64) 1" "bit (x OR 7 :: u64) 2" for x
    unfolding flag_masks by (simp_all add: bit_simps)
  ultimately show ?thesis
    unfolding mmu_walk_def unat_index ix(1,2) i2_def [symmetric] using tab(1) tab(2) [of 0] tab(3) [of 0] e2 leaf by (simp add: Let_def)
qed

lemma window_offset:
  assumes "0x20000000 \<le> unat va" and "unat va < 0x30000000" and "off = va - PROCESS_USER_BASE" and "p = unat off div 4096"
  shows "of_nat p * 0x1000 + (va AND mask 12) = off"
proof -
  have off: "unat off = unat va - 0x20000000" using assms(1,3) by (simp add: PROCESS_USER_BASE_def unat_sub_exact)
  have "unat va mod 4096 = unat off mod 4096"
    using assms(1) off mod_mult_self1 [of "unat off" 131072 4096] by simp
  then have low: "unat (va AND mask 12) = unat off mod 4096" by (simp add: unat_page_low)
  have "unat (of_nat p * 0x1000 :: u64) = p * 4096"
    using unat_page_offset [of 0 "p + 1" p] assms(2,4) off by (simp add: div_less_iff_less_mult)
  moreover have "unat off < 0x10000000" using assms(1,2) off by linarith
  ultimately have "unat (of_nat p * 0x1000 + (va AND mask 12)) = p * 4096 + unat off mod 4096"
    using low assms(4) by (subst unat_add_exact) simp_all
  then show ?thesis unfolding word_unat_eq_iff assms(4) by (simp only: div_mult_mod_eq)
qed

lemma walk_user_levels:
  assumes "mmu_walk m cr3 va = Some (pa, True, w)"
    and "e4 = tab_get m (cr3 AND PTE_ADDR) (unat (drop_bit 39 va AND 0x1ff))"
    and "e3 = tab_get m (e4 AND PTE_ADDR) (unat (drop_bit 30 va AND 0x1ff))"
    and "e2 = tab_get m (e3 AND PTE_ADDR) (unat (drop_bit 21 va AND 0x1ff))"
  shows "canonical va" "bit e4 0" "bit e3 2" "\<not> bit e3 7 \<Longrightarrow> bit e2 2"
  using assms(1) unfolding mmu_walk_def assms(2-4) [symmetric] Let_def walk_leaf_def
  by (simp_all split: if_splits)

lemma outside_walk:
  assumes placed: "tables_placed b pml4 pdp pd0 tabs" and size: "code_size \<le> PROCESS_USER_IMAGE_SIZE"
    and result: "process_address_space b pml4 pdp pd0 tabs code code_size stack m = (cr3, m')"
    and boot: "kernel_only m (pd_table0 b)"
    and va: "\<not> (0x20000000 \<le> unat va \<and> unat va < 0x30000000)"
  shows "mmu_walk m' cr3 va \<noteq> Some (pa, True, w)"
proof
  assume walk: "mmu_walk m' cr3 va = Some (pa, True, w)"
  note tab = address_space_tables [OF placed size result]
  have pg: "page_addr pml4" "page_addr pdp" "page_addr pd0" "page_addr (pd_table1 b)" "page_addr (pd_table2 b)"
    "page_addr (pd_table3 b)"
    using placed by (simp_all add: tables_placed_def)
  define i4 i3 i2 where "i4 = unat va div 2 ^ 39 mod 512" and "i3 = unat va div 2 ^ 30 mod 512"
    and "i2 = unat va div 2 ^ 21 mod 512"
  have i: "i4 < 512" "i3 < 512" "i2 < 512" by (simp_all add: i4_def i3_def i2_def)
  have top: "pml4 AND PTE_ADDR = pml4" using pte_flags(2) [OF pg(1), of 0] by simp
  note lev = walk_user_levels [OF walk refl refl refl, unfolded unat_index tab(1) top, folded i4_def i3_def i2_def]
  have "i4 = 0" using lev(2) tab(2) [OF i(1)] by (auto split: if_splits)
  then have small: "unat va < 2 ^ 39" using canonical_index [OF lev(1)] by (simp add: i4_def)
  have e4: "tab_get m' pml4 i4 AND PTE_ADDR = pdp"
    using tab(2) [OF i(1)] \<open>i4 = 0\<close> pte_flags(2) [OF pg(2), of 3] by (simp add: flag_masks)
  have no_user: "\<not> bit (x OR 3) 2" if "page_addr x" for x
    unfolding flag_masks using that page_addr_bits [OF that, of 2] by (auto simp: bit_simps)
  have "i3 = 0" using lev(3) tab(3) [OF i(2)] no_user pg(4-6) unfolding e4 by (auto split: if_splits)
  have e3: "tab_get m' pdp i3 AND PTE_ADDR = pd0" "\<not> bit (tab_get m' pdp i3) 7"
    using tab(3) [OF i(2)] \<open>i3 = 0\<close> pte_flags(2,3) [OF pg(3), of 3] by (simp_all add: flag_masks)
  have "bit (tab_get m' pd0 i2) 2" using lev(4) e3 unfolding e4 by simp
  moreover have "\<not> (256 \<le> i2 \<and> i2 < 384)"
  proof
    assume i2: "256 \<le> i2 \<and> i2 < 384"
    have "unat va < 2 ^ 30"
    proof -
      have "unat va div 2 ^ 30 < 512" using small by (simp add: div_less_iff_less_mult)
      then have "unat va div 2 ^ 30 = 0" using \<open>i3 = 0\<close> by (simp add: i3_def)
      then show ?thesis by (simp add: div_eq_0_iff)
    qed
    then have "unat va div 2 ^ 21 < 512" by (simp add: div_less_iff_less_mult)
    then have "i2 = unat va div 2 ^ 21" by (simp add: i2_def)
    then have "256 * 2 ^ 21 \<le> unat va" "unat va < 384 * 2 ^ 21"
      using i2 by (simp_all add: less_eq_div_iff_mult_less_eq div_less_iff_less_mult)
    with va show False by simp
  qed
  ultimately show False
    using boot tab(4) [OF i(3)] i(3) by (auto simp: kernel_only_def)
qed

lemma inside_walk:
  assumes placed: "tables_placed b pml4 pdp pd0 tabs" and boot: "kernel_only m (pd_table0 b)"
    and size: "code_size \<le> PROCESS_USER_IMAGE_SIZE"
    and code: "page_addr code" "unat code + 0xff00000 \<le> 2 ^ 52"
    and stack: "page_addr stack" "unat stack + 0x100000 \<le> 2 ^ 52"
    and result: "process_address_space b pml4 pdp pd0 tabs code code_size stack m = (cr3, m')"
    and va: "0x20000000 \<le> unat va \<and> unat va < 0x30000000"
  shows "mmu_walk m' cr3 va = Some (pa, True, w) \<longleftrightarrow> w \<and>
    (PROCESS_USER_BASE \<le> va \<and> unat (va - PROCESS_USER_BASE) < 4096 * unat ((code_size + 0xfff) div 0x1000) \<and>
       pa = code + (va - PROCESS_USER_BASE) \<or>
     0x2ff00000 \<le> va \<and> va < 0x30000000 \<and> pa = stack + (va - 0x2ff00000))"
proof -
  define n where "n = unat ((code_size + 0xfff) div 0x1000)"
  define p where "p = (unat va - 0x20000000) div 4096"
  have n: "n \<le> 0xff00" using unat_code_pages [OF size] by (simp add: n_def)
  have walk: "mmu_walk m' cr3 va = walk_leaf True True (user_entry code n stack p) 12 va"
    using user_walk [OF placed size result] va by (simp add: n_def p_def)
  define off where "off = va - PROCESS_USER_BASE"
  have off: "unat off = unat va - 0x20000000"
    using va by (simp add: off_def PROCESS_USER_BASE_def unat_sub_exact)
  moreover have "unat va - 0x20000000 < 0x10000000" using va by linarith
  ultimately have p: "p = unat off div 4096" "p < 0x10000" by (simp_all add: p_def div_less_iff_less_mult)
  have low: "of_nat p * 0x1000 + (va AND mask 12) = off" by (rule window_offset [OF _ _ off_def p(1)]) (use va in simp_all)
  have in_code: "unat off < 4096 * n \<longleftrightarrow> p < n" using p(1) by (simp add: div_less_iff_less_mult mult.commute)
  have in_stack: "0x2ff00000 \<le> va \<and> va < 0x30000000 \<longleftrightarrow> 0xff00 \<le> p"
    using va off p(1) by (auto simp: word_le_nat_alt word_less_nat_alt less_eq_div_iff_mult_less_eq)
  have base: "PROCESS_USER_BASE \<le> va" using va by (simp add: PROCESS_USER_BASE_def word_le_nat_alt)
  consider "p < n" | "n \<le> p" "p < 0xff00" | "0xff00 \<le> p" by linarith
  then show ?thesis
  proof cases
    case 1
    then have "page_addr (code + of_nat p * 0x1000)" using code n by (intro page_addr_add [of _ "0xff00"]) simp_all
    then have "mmu_walk m' cr3 va = Some (code + off, True, True)"
      using 1 by (simp add: walk user_entry_def leaf_page add.assoc low)
    with 1 n base in_code in_stack show ?thesis by (auto simp: off_def [symmetric] n_def [symmetric])
  next
    case 2
    then have "mmu_walk m' cr3 va = None" by (simp add: walk user_entry_def leaf_absent)
    with 2 in_code in_stack show ?thesis by (auto simp: off_def [symmetric] n_def [symmetric])
  next
    case 3
    then have "page_addr (stack + of_nat (p - 0xff00) * 0x1000)"
      using stack p(2) by (intro page_addr_add [of _ "0x100"]) simp_all
    moreover have "of_nat (p - 0xff00) * 0x1000 + (va AND mask 12) = va - 0x2ff00000"
      using 3 low by (simp add: of_nat_diff off_def PROCESS_USER_BASE_def algebra_simps)
    ultimately have "mmu_walk m' cr3 va = Some (stack + (va - 0x2ff00000), True, True)"
      using 3 n by (simp add: walk user_entry_def leaf_page add.assoc)
    with 3 n in_code in_stack show ?thesis by (auto simp: off_def [symmetric] n_def [symmetric])
  qed
qed

text \<open>
  C4. Isolation of a process. After \<open>process_load_image_slot\<close> has called
  \<open>paging_map_user_process\<close> and \<open>paging_build_process_tables\<close>, the addresses that user mode can
  reach under the returned CR3 are exactly those of the image, from \<open>PROCESS_USER_BASE\<close> on, and
  those of the stack in the top megabyte of the user region. They translate to the physical pages
  given for the image and the stack, in order, and all are writable. Every other address of
  the 64-bit space, those of the kernel included, is out of reach of user mode.
\<close>

theorem process_pages_isolated:
  assumes placed: "tables_placed b pml4 pdp pd0 tabs" and boot: "kernel_only m (pd_table0 b)"
    and size: "code_size \<le> PROCESS_USER_IMAGE_SIZE"
    and code: "page_addr code" "unat code + 0xff00000 \<le> 2 ^ 52"
    and stack: "page_addr stack" "unat stack + 0x100000 \<le> 2 ^ 52"
    and result: "process_address_space b pml4 pdp pd0 tabs code code_size stack m = (cr3, m')"
  shows "mmu_walk m' cr3 va = Some (pa, True, w) \<longleftrightarrow> w \<and>
    (PROCESS_USER_BASE \<le> va \<and> unat (va - PROCESS_USER_BASE) < 4096 * unat ((code_size + 0xfff) div 0x1000) \<and>
       pa = code + (va - PROCESS_USER_BASE) \<or>
     0x2ff00000 \<le> va \<and> va < 0x30000000 \<and> pa = stack + (va - 0x2ff00000))"
proof (cases "0x20000000 \<le> unat va \<and> unat va < 0x30000000")
  case True
  with assms show ?thesis by (rule inside_walk)
next
  case False
  have "\<not> (PROCESS_USER_BASE \<le> va \<and> unat (va - PROCESS_USER_BASE) < 4096 * unat ((code_size + 0xfff) div 0x1000))"
  proof
    assume va: "PROCESS_USER_BASE \<le> va \<and> unat (va - PROCESS_USER_BASE) < 4096 * unat ((code_size + 0xfff) div 0x1000)"
    then have "unat (va - PROCESS_USER_BASE) = unat va - 0x20000000" "0x20000000 \<le> unat va"
      by (simp_all add: PROCESS_USER_BASE_def word_le_nat_alt unat_sub_exact)
    with va unat_code_pages [OF size] False show False by linarith
  qed
  moreover have "\<not> (0x2ff00000 \<le> va \<and> va < 0x30000000)"
    using False by (auto simp: word_le_nat_alt word_less_nat_alt)
  ultimately show ?thesis
    using outside_walk [OF placed size result boot False, of pa w] by blast
qed

definition demo_tables :: boot_tables where
  "demo_tables = \<lparr>pml4_table = 0x5000, pdp_table = 0x6000, pd_table0 = 0x4000, pd_table1 = 0x7000,
     pd_table2 = 0x8000, pd_table3 = 0x9000, framebuffer_pts = []\<rparr>"

lemma demo_tables_placed: "tables_placed demo_tables 0x1000 0x2000 0x3000 0x100000"
  by (simp add: tables_placed_def demo_tables_def page_addr_nat apart_def)

lemma kernel_only_zero: "kernel_only (\<lambda>x. 0) t"
proof -
  have "le_dec (replicate n 0) = (0 :: u64)" for n by (induction n) simp_all
  then have "tab_get (\<lambda>x. 0) t i = 0" for i
    by (simp add: tab_get_def ld64_def mem_read_def map_replicate_const del: upt_Suc)
  then show ?thesis by (simp add: kernel_only_def)
qed

theorem process_pages_isolated_witness:
  "case process_address_space demo_tables 0x1000 0x2000 0x3000 0x100000 0x400000 0x2000 0x500000 (\<lambda>x. 0) of
     (cr3, m) \<Rightarrow> mmu_walk m cr3 0x20001004 = Some (0x401004, True, True) \<and>
       mmu_walk m cr3 0x2ff00008 = Some (0x500008, True, True) \<and> \<not> (\<exists>pa w. mmu_walk m cr3 0x100000 = Some (pa, True, w))"
proof -
  obtain cr3 m where r: "process_address_space demo_tables 0x1000 0x2000 0x3000 0x100000 0x400000 0x2000 0x500000 (\<lambda>x. 0) = (cr3, m)"
    by (rule prod.exhaust)
  have "page_addr 0x400000" "page_addr 0x500000" "0x2000 \<le> PROCESS_USER_IMAGE_SIZE"
    by (simp_all add: page_addr_nat user_layout)
  note iso = process_pages_isolated [OF demo_tables_placed kernel_only_zero this(3) this(1) _ this(2) _ r, simplified, unfolded user_layout]
  from iso [of "0x20001004" "0x401004" True] iso [of "0x2ff00008" "0x500008" True] iso [of "0x100000"] r show ?thesis
    by simp
qed

end
