(* ===== verification/Process.thy ===== *)
theory Process
  imports Paging Tty KAlloc_Correct Journal Pty Vfs
begin

text \<open>
  The process table and the scheduler of src/kernel/src/process.c, with the per-CPU data of
  cpu.c, the clock of timer.c, and the interrupt handlers that change the state of a process.

  A \<open>struct process *\<close> is the index of its slot and a null pointer is \<open>None\<close>. \<open>this_cpu()\<close> is
  the index of the CPU that runs the function, its first argument. Every handler runs under the
  big kernel lock, so a handler is one step on the record \<open>kernel\<close>. The C strings of a process
  are lists of the bytes before the terminator. The value \<open>None\<close> is a kernel that has crashed or
  does not return: a loop of the heap that does not end, or an undefined operation of a terminal.

  Two calls leave the modelled part: \<open>audio_release_voice\<close> and \<open>desktop_app_close_for_pid\<close>
  release a process's resources elsewhere and do not touch the process table. They are recorded
  in the list \<open>ext_calls\<close>. The first frees a voice of the sound driver; the second hides the
  windows of the process and frees their pixels on the graphics heap (window.c), a heap of its
  own that is not part of the record \<open>kernel\<close>.
\<close>

section \<open>Data\<close>

definition PROCESS_MAX_COUNT :: nat where "PROCESS_MAX_COUNT = 48"
definition PROCESS_VFS_HANDLE_CAPACITY :: nat where "PROCESS_VFS_HANDLE_CAPACITY = 8"
definition PROCESS_HEAP_MAX_CHUNKS :: nat where "PROCESS_HEAP_MAX_CHUNKS = 2048"
definition PROCESS_KERNEL_STACK_SIZE :: nat where "PROCESS_KERNEL_STACK_SIZE = 65536"
definition KSTACK_CANARY :: u64 where "KSTACK_CANARY = 0x4f56455242414421"
definition KSTACK_POISON :: u8 where "KSTACK_POISON = 0xAB"
definition USER_CODE_SELECTOR :: u64 where "USER_CODE_SELECTOR = 0x20"
definition USER_DATA_SELECTOR :: u64 where "USER_DATA_SELECTOR = 0x18"

datatype process_state = PROCESS_STATE_EMPTY | PROCESS_STATE_READY | PROCESS_STATE_RUNNING
  | PROCESS_STATE_SLEEPING | PROCESS_STATE_WAITING | PROCESS_STATE_EXITED | PROCESS_STATE_WAITING_IO

datatype process_run_result = PROCESS_RUN_NONE | PROCESS_RUN_YIELDED | PROCESS_RUN_EXITED | PROCESS_RUN_BLOCKED

record interrupt_frame =
  rax :: u64
  rbx :: u64
  rcx :: u64
  rdx :: u64
  rbp :: u64
  rdi :: u64
  rsi :: u64
  r8 :: u64
  r9 :: u64
  r10 :: u64
  r11 :: u64
  r12 :: u64
  r13 :: u64
  r14 :: u64
  r15 :: u64
  rip :: u64
  cs :: u64
  rflags :: u64
  rsp :: u64
  ss :: u64

text \<open>The operation tables a descriptor can refer to, and the objects behind them.\<close>

datatype ops_ptr = Stdio_ops | Vfs_ops | Tty_ops | Pty_master_ops | Pty_slave_ops

datatype kobject = Vfs_handle nat nat | Tty_object nat | Pty_object nat

record process_vfs_handle =
  vh_file :: "vfs_file option"
  vh_offset :: u64
  vh_used :: bool
  vh_kind :: u8
  vh_path :: "u8 list"
  vh_cached_ino :: u32

record process =
  p_pid :: u32
  p_parent_pid :: u32
  p_wait_target_pid :: u32
  p_entry :: u64
  p_user_stack_top :: u64
  p_user_virtual_base :: u64
  p_code_size :: u64
  p_user_image_allocation :: u64
  p_user_image_pages :: u64
  p_user_image_capacity :: u64
  p_user_page_tables :: u64
  p_cr3 :: u64
  p_heap_start :: u64
  p_heap_break :: u64
  p_heap_chunks :: "u64 list"
  p_heap_chunk_count :: u32
  p_loaded :: bool
  p_state :: process_state
  p_exit_code :: u32
  p_runtime_ticks :: u64
  p_switch_count :: u64
  p_preempt_count :: u64
  p_wake_tick :: u64
  p_pending_read_fd :: int
  p_pending_read_buffer :: u64
  p_pending_read_count :: u64
  p_vfs_handles :: "process_vfs_handle list"
  p_fd_table :: "(ops_ptr, kobject) fd_table"
  p_syscalls :: "nat option"
  p_context :: interrupt_frame
  p_kernel_stack_top :: u64
  p_kresume_rsp :: u64
  p_is_thread :: bool
  p_cwd :: "u8 list"
  p_spawn_arg :: "u8 list"
  p_name :: "u8 list"
  p_uid :: u32
  p_gid :: u32
  p_running_on_cpu :: int
  p_fpu_state :: "u8 list"

text \<open>
  A CPU: its \<open>struct cpu\<close> and the registers the scheduler loads, that is CR3, the ring 0 stack of
  the task state segment and the floating point registers in the layout of \<open>FXSAVE\<close>.
\<close>

record cpu =
  c_index :: u32
  c_apic_id :: u32
  c_ticks :: u64
  c_allocs :: u64
  c_current :: "nat option"
  c_sched_cursor :: u32
  c_resume_rsp :: u64
  c_resume_result :: process_run_result
  c_slices :: u64
  c_busy_ticks :: u64
  c_cr3 :: u64
  c_rsp0 :: u64
  c_fpu :: "u8 list"

datatype ext_call = Audio_release_voice u32 | Desktop_app_close_for_pid u32

text \<open>Where the linker put the static arrays of process.c, and the tables of the boot code.\<close>

record statics =
  g_user_stacks :: u64
  g_user_page_tables :: u64
  g_proc_pml4 :: u64
  g_proc_pdp :: u64
  g_proc_pd0 :: u64
  g_kernel_stacks :: u64
  boot :: boot_tables

record 'c kernel =
  g_processes :: "process list"
  g_next_pid :: u32
  cpus :: "cpu list"
  g_cpu_count :: u32
  g_window_manager_requested :: bool
  g_desktop_uid :: u32
  g_image_alloc_quarantine :: "u64 list"
  heap :: kmem
  jrnl :: journal
  clock :: ktimer
  ttys :: "tty list"
  ptys :: pty_state
  vfsys :: "'c vfs"
  desktop_active :: bool
  g_fault_regs :: "u64 list"
  statics :: statics
  ext_calls :: "ext_call list"

abbreviation proc :: "'c kernel \<Rightarrow> nat \<Rightarrow> process" where
  "proc k i \<equiv> g_processes k ! i"

abbreviation this_cpu :: "nat \<Rightarrow> 'c kernel \<Rightarrow> cpu" where
  "this_cpu c k \<equiv> cpus k ! c"

definition upd_proc :: "nat \<Rightarrow> (process \<Rightarrow> process) \<Rightarrow> 'c kernel \<Rightarrow> 'c kernel" where
  "upd_proc i f k = k\<lparr>g_processes := (g_processes k)[i := f (g_processes k ! i)]\<rparr>"

definition upd_cpu :: "nat \<Rightarrow> (cpu \<Rightarrow> cpu) \<Rightarrow> 'c kernel \<Rightarrow> 'c kernel" where
  "upd_cpu c f k = k\<lparr>cpus := (cpus k)[c := f (cpus k ! c)]\<rparr>"

definition upd_mem :: "(mem \<Rightarrow> mem) \<Rightarrow> 'c kernel \<Rightarrow> 'c kernel" where
  "upd_mem f k = k\<lparr>heap := (heap k)\<lparr>bytes := f (bytes (heap k))\<rparr>\<rparr>"

definition with_heap :: "(kmem \<Rightarrow> kmem option) \<Rightarrow> 'c kernel \<Rightarrow> 'c kernel option" where
  "with_heap f k = map_option (\<lambda>h. k\<lparr>heap := h\<rparr>) (f (heap k))"

definition klog :: "journal_level \<Rightarrow> u32 \<Rightarrow> u8 list \<Rightarrow> 'c kernel \<Rightarrow> 'c kernel" where
  "klog level pid msg k = k\<lparr>jrnl := journal_log (clock k) level pid (Some msg) (jrnl k)\<rparr>"

definition klog_hex :: "journal_level \<Rightarrow> u32 \<Rightarrow> string \<Rightarrow> u64 \<Rightarrow> 'c kernel \<Rightarrow> 'c kernel" where
  "klog_hex level pid msg v k = k\<lparr>jrnl := journal_log_hex (clock k) level pid (Some (ascii msg)) v (jrnl k)\<rparr>"

definition ext_call :: "ext_call \<Rightarrow> 'c kernel \<Rightarrow> 'c kernel" where
  "ext_call e k = k\<lparr>ext_calls := ext_calls k @ [e]\<rparr>"

definition set_current :: "nat \<Rightarrow> nat option \<Rightarrow> 'c kernel \<Rightarrow> 'c kernel" where
  "set_current c s = upd_cpu c (\<lambda>x. x\<lparr>c_current := s\<rparr>)"

definition set_result :: "nat \<Rightarrow> process_run_result \<Rightarrow> 'c kernel \<Rightarrow> 'c kernel" where
  "set_result c r = upd_cpu c (\<lambda>x. x\<lparr>c_resume_result := r\<rparr>)"

text \<open>The end of every handler that gives up the CPU.\<close>

definition deschedule :: "nat \<Rightarrow> process_run_result \<Rightarrow> 'c kernel \<Rightarrow> 'c kernel" where
  "deschedule c r k = set_current c None (set_result c r k)"

section \<open>Registering a CPU\<close>

definition CPU_MAX :: nat where "CPU_MAX = 32"

definition cpu_register :: "u32 \<Rightarrow> 'c kernel \<Rightarrow> nat \<times> 'c kernel" where
  "cpu_register apic_id k =
     (let idx = unat (g_cpu_count k);
          k = (if idx < CPU_MAX then k\<lparr>g_cpu_count := of_nat idx + 1\<rparr> else k);
          idx = (if idx \<ge> CPU_MAX then CPU_MAX - 1 else idx)
      in (idx, upd_cpu idx (\<lambda>x. x\<lparr>c_index := of_nat idx, c_apic_id := apic_id, c_ticks := 0, c_allocs := 0,
            c_current := None, c_sched_cursor := 0, c_resume_rsp := 0, c_resume_result := PROCESS_RUN_NONE,
            c_slices := 0, c_busy_ticks := 0\<rparr>) k))"

definition cpu_count :: "'c kernel \<Rightarrow> u32" where
  "cpu_count k = g_cpu_count k"

definition cpu_get :: "u32 \<Rightarrow> nat option" where
  "cpu_get index = (if unat index < CPU_MAX then Some (unat index) else None)"

section \<open>The clock\<close>

definition timer_tick :: "'c kernel \<Rightarrow> 'c kernel" where
  "timer_tick k = k\<lparr>clock := (clock k)\<lparr>tick_count := tick_count (clock k) + 1\<rparr>\<rparr>"

definition timer_tick_count :: "'c kernel \<Rightarrow> u64" where
  "timer_tick_count k = tick_count (clock k)"

definition timer_frequency_hz :: "'c kernel \<Rightarrow> u32" where
  "timer_frequency_hz k = frequency_hz (clock k)"

definition process_wake_ready :: "u64 \<Rightarrow> 'c kernel \<Rightarrow> 'c kernel" where
  "process_wake_ready current_tick k = k\<lparr>g_processes := map
     (\<lambda>p. if p_state p = PROCESS_STATE_SLEEPING \<and> p_wake_tick p \<le> current_tick
           then p\<lparr>p_wake_tick := 0, p_state := PROCESS_STATE_READY\<rparr> else p) (g_processes k)\<rparr>"

section \<open>Kernel stacks\<close>

definition kstack_canary :: "nat \<Rightarrow> 'c kernel \<Rightarrow> u64" where
  "kstack_canary slot k = g_kernel_stacks (statics k) + of_nat (slot * PROCESS_KERNEL_STACK_SIZE)"

text \<open>The stack of a slot is filled with the poison byte, then the canary is put at its low end.\<close>

definition kstack_arm :: "nat \<Rightarrow> 'c kernel \<Rightarrow> 'c kernel" where
  "kstack_arm slot k = upd_mem (\<lambda>m. st64
     (mem_write m (kstack_canary slot k) (replicate PROCESS_KERNEL_STACK_SIZE KSTACK_POISON))
     (kstack_canary slot k) KSTACK_CANARY) k"

definition kstack_canary_init :: "'c kernel \<Rightarrow> 'c kernel" where
  "kstack_canary_init k = fold kstack_arm [0..<PROCESS_MAX_COUNT] k"

definition kstack_highwater :: "nat \<Rightarrow> 'c kernel \<Rightarrow> nat" where
  "kstack_highwater slot k =
     (case List.find (\<lambda>j. bytes (heap k) (kstack_canary slot k + of_nat j) \<noteq> KSTACK_POISON)
             [8..<PROCESS_KERNEL_STACK_SIZE] of
        Some j \<Rightarrow> PROCESS_KERNEL_STACK_SIZE - j
      | None \<Rightarrow> 0)"

section \<open>Slots\<close>

definition process_reset_vfs_handles :: "nat \<Rightarrow> 'c kernel \<Rightarrow> 'c kernel" where
  "process_reset_vfs_handles i = upd_proc i (\<lambda>p. p\<lparr>p_vfs_handles :=
     map (\<lambda>h. h\<lparr>vh_file := None, vh_offset := 0, vh_used := False\<rparr>) (take PROCESS_VFS_HANDLE_CAPACITY (p_vfs_handles p)) @
     drop PROCESS_VFS_HANDLE_CAPACITY (p_vfs_handles p)\<rparr>)"

text \<open>The first slot from \<open>i\<close> on that meets a condition.\<close>

definition first_slot :: "(process \<Rightarrow> bool) \<Rightarrow> 'c kernel \<Rightarrow> nat option" where
  "first_slot P k = List.find (\<lambda>i. P (proc k i)) [0..<PROCESS_MAX_COUNT]"

definition process_find_by_pid :: "u32 \<Rightarrow> 'c kernel \<Rightarrow> nat option" where
  "process_find_by_pid pid k =
     (if pid = 0 then None else first_slot (\<lambda>p. p_loaded p \<and> p_pid p = pid) k)"

definition process_find_exited_child :: "u32 \<Rightarrow> u32 \<Rightarrow> 'c kernel \<Rightarrow> nat option" where
  "process_find_exited_child parent_pid wait_target_pid k =
     first_slot (\<lambda>p. p_loaded p \<and> p_state p = PROCESS_STATE_EXITED \<and> p_running_on_cpu p = -1 \<and>
       p_parent_pid p = parent_pid \<and> (wait_target_pid = 0 \<or> p_pid p = wait_target_pid)) k"

definition process_image_free :: "u64 \<Rightarrow> kmem \<Rightarrow> kmem option" where
  "process_image_free ptr h =
     (if ptr = 0 then Some h else if image_heap_ready h then image_free ptr h else kfree ptr h)"

function free_chunks :: "nat \<Rightarrow> nat \<Rightarrow> nat \<Rightarrow> 'c kernel \<Rightarrow> 'c kernel option" where
  "free_chunks n i slot k =
     (if i < n then
        let chunk = p_heap_chunks (proc k slot) ! i in
        if chunk \<noteq> 0 then
          do { k \<leftarrow> with_heap (kfree chunk) k;
               free_chunks n (i + 1) slot (upd_proc slot (\<lambda>p. p\<lparr>p_heap_chunks := (p_heap_chunks p)[i := 0]\<rparr>) k) }
        else free_chunks n (i + 1) slot k
      else Some k)"
  by pat_completeness auto
termination by (relation "measure (\<lambda>(n, i, slot, k). n - i)") auto

declare free_chunks.simps [simp del]

definition process_free_heap_chunks :: "nat \<Rightarrow> 'c kernel \<Rightarrow> 'c kernel option" where
  "process_free_heap_chunks i k =
     (if p_is_thread (proc k i) then Some k
      else do { k \<leftarrow> free_chunks (unat (p_heap_chunk_count (proc k i))) 0 i k;
                Some (upd_proc i (\<lambda>p. p\<lparr>p_heap_chunk_count := 0, p_heap_start := 0, p_heap_break := 0\<rparr>) k) })"

text \<open>The image and the heap pages of a slot, which a thread only borrows.\<close>

definition free_image :: "nat \<Rightarrow> 'c kernel \<Rightarrow> 'c kernel option" where
  "free_image i k =
     (if \<not> p_is_thread (proc k i) \<and> p_user_image_allocation (proc k i) \<noteq> 0
      then do { k \<leftarrow> process_free_heap_chunks i k;
                with_heap (process_image_free (p_user_image_allocation (proc k i))) k }
      else Some k)"

definition process_reap :: "nat \<Rightarrow> 'c kernel \<Rightarrow> 'c kernel option" where
  "process_reap i k =
     (let p = proc k i;
          k = (if p_loaded p
               then klog_hex JOURNAL_INFO (p_pid p) ''kstack peak bytes='' (of_nat (kstack_highwater i k)) k else k);
          k = ext_call (Audio_release_voice (p_pid p)) k;
          k = upd_proc i (\<lambda>p. p\<lparr>p_loaded := False, p_state := PROCESS_STATE_EMPTY, p_pid := 0, p_parent_pid := 0,
                p_wait_target_pid := 0, p_exit_code := 0, p_entry := 0, p_user_stack_top := 0,
                p_user_virtual_base := 0, p_code_size := 0\<rparr>) k
      in do { k \<leftarrow> free_image i k;
              k \<leftarrow> Some (upd_proc i (\<lambda>p. p\<lparr>p_is_thread := False, p_user_image_allocation := 0,
                    p_user_image_pages := 0, p_user_image_capacity := 0, p_user_page_tables := 0, p_cr3 := 0,
                    p_heap_start := 0, p_heap_break := 0, p_heap_chunk_count := 0, p_runtime_ticks := 0,
                    p_switch_count := 0, p_preempt_count := 0, p_wake_tick := 0, p_pending_read_fd := -1,
                    p_pending_read_buffer := 0, p_pending_read_count := 0\<rparr>) k);
              k \<leftarrow> Some (process_reset_vfs_handles i k);
              Some (upd_proc i (\<lambda>p. p\<lparr>p_cwd := ascii ''/'', p_spawn_arg := [], p_name := []\<rparr>) k) })"

function find_free_from :: "nat \<Rightarrow> 'c kernel \<Rightarrow> (nat option \<times> 'c kernel) option" where
  "find_free_from slot k =
     (if slot < PROCESS_MAX_COUNT then
        if \<not> p_loaded (proc k slot) \<or> p_state (proc k slot) = PROCESS_STATE_EMPTY then Some (Some slot, k)
        else if p_state (proc k slot) = PROCESS_STATE_EXITED then
          do { k \<leftarrow> process_reap slot k; Some (Some slot, k) }
        else find_free_from (slot + 1) k
      else Some (None, k))"
  by pat_completeness auto
termination by (relation "measure (\<lambda>(slot, k). PROCESS_MAX_COUNT - slot)") auto

declare find_free_from.simps [simp del]

definition process_find_free_slot :: "'c kernel \<Rightarrow> (nat option \<times> 'c kernel) option" where
  "process_find_free_slot k = find_free_from 0 k"

definition process_set_name :: "nat \<Rightarrow> u8 list option \<Rightarrow> 'c kernel \<Rightarrow> 'c kernel" where
  "process_set_name i name k =
     (let name = (if name = None \<or> name = Some [] then ascii ''process'' else the name)
      in upd_proc i (\<lambda>p. p\<lparr>p_name := take 31 name\<rparr>) k)"

definition process_wake_waiter :: "nat \<Rightarrow> 'c kernel \<Rightarrow> 'c kernel option" where
  "process_wake_waiter child k =
     (let c = proc k child in
      if p_parent_pid c = 0 then Some k
      else case process_find_by_pid (p_parent_pid c) k of
        None \<Rightarrow> Some k
      | Some parent \<Rightarrow>
          let q = proc k parent in
          if p_state q \<noteq> PROCESS_STATE_WAITING then Some k
          else if p_wait_target_pid q \<noteq> 0 \<and> p_wait_target_pid q \<noteq> p_pid c then Some k
          else process_reap child (upd_proc parent (\<lambda>q. q\<lparr>p_wait_target_pid := 0,
                 p_context := (p_context q)\<lparr>rax := ucast (p_pid c), rdx := ucast (p_exit_code c)\<rparr>,
                 p_state := PROCESS_STATE_READY\<rparr>) k))"

text \<open>Every slot whose canary has been overwritten is killed, the canary is put back.\<close>

definition canary_slot :: "nat \<Rightarrow> nat \<Rightarrow> 'c kernel \<Rightarrow> (bool \<times> 'c kernel) option" where
  "canary_slot c i k =
     (if \<not> p_loaded (proc k i) \<or> ld64 (bytes (heap k)) (kstack_canary i k) = KSTACK_CANARY then Some (False, k)
      else let k = klog_hex JOURNAL_FAULT (p_pid (proc k i)) ''KERNEL STACK OVERFLOW, killed; slot='' (of_nat i) k;
               k = upd_mem (\<lambda>m. st64 m (kstack_canary i k) KSTACK_CANARY) k in
        if p_state (proc k i) \<noteq> PROCESS_STATE_EXITED \<and> p_state (proc k i) \<noteq> PROCESS_STATE_EMPTY then
          let k = (if desktop_active k then ext_call (Desktop_app_close_for_pid (p_pid (proc k i))) k else k);
              k = upd_proc i (\<lambda>p. p\<lparr>p_exit_code := of_int (- errno SYSCALL_EFAULT), p_state := PROCESS_STATE_EXITED\<rparr>) k
          in do { k \<leftarrow> process_wake_waiter i k;
                  Some (True, if c_current (this_cpu c k) = Some i then set_current c None k else k) }
        else Some (True, k))"

function canary_from :: "nat \<Rightarrow> nat \<Rightarrow> bool \<Rightarrow> 'c kernel \<Rightarrow> (bool \<times> 'c kernel) option" where
  "canary_from c i found k =
     (if i < PROCESS_MAX_COUNT
      then do { (f, k) \<leftarrow> canary_slot c i k; canary_from c (i + 1) (found \<or> f) k }
      else Some (found, k))"
  by pat_completeness auto
termination by (relation "measure (\<lambda>(c, i, found, k). PROCESS_MAX_COUNT - i)") auto

declare canary_from.simps [simp del]

definition kstack_canary_check :: "nat \<Rightarrow> 'c kernel \<Rightarrow> (bool \<times> 'c kernel) option" where
  "kstack_canary_check c k = canary_from c 0 False k"

definition initial_fpu :: "u8 list" where
  "initial_fpu = (replicate 512 0)[0 := 0x7f, 1 := 0x03, 24 := 0x80, 25 := 0x1f]"

definition process_setup_context :: "nat \<Rightarrow> 'c kernel \<Rightarrow> 'c kernel" where
  "process_setup_context i k = upd_proc i (\<lambda>p. p\<lparr>p_kresume_rsp := 0, p_running_on_cpu := -1,
     p_context := \<lparr>rax = 0, rbx = 0, rcx = 0, rdx = 0, rbp = 0, rdi = 0, rsi = 0, r8 = 0, r9 = 0, r10 = 0, r11 = 0,
       r12 = 0, r13 = 0, r14 = 0, r15 = 0, rip = p_entry p, cs = USER_CODE_SELECTOR OR 0x03, rflags = 0x202,
       rsp = (p_user_stack_top p AND NOT 15) - 8, ss = USER_DATA_SELECTOR OR 0x03\<rparr>,
     p_fpu_state := initial_fpu\<rparr>) (kstack_arm i k)"

section \<open>Choosing a process\<close>

definition runnable :: "process \<Rightarrow> bool" where
  "runnable p \<longleftrightarrow> p_running_on_cpu p = -1 \<and>
     (p_state p = PROCESS_STATE_READY \<or> p_state p = PROCESS_STATE_WAITING_IO \<and> p_kresume_rsp p \<noteq> 0)"

function pick_from :: "nat \<Rightarrow> u32 \<Rightarrow> 'c kernel \<Rightarrow> nat option \<times> 'c kernel" where
  "pick_from c attempt k =
     (if unat attempt < PROCESS_MAX_COUNT then
        let slot = (c_sched_cursor (this_cpu c k) + attempt) mod of_nat PROCESS_MAX_COUNT in
        if runnable (proc k (unat slot))
        then (Some (unat slot),
              upd_cpu c (\<lambda>x. x\<lparr>c_sched_cursor := (slot + 1) mod of_nat PROCESS_MAX_COUNT\<rparr>) k)
        else pick_from c (attempt + 1) k
      else (None, k))"
  by pat_completeness auto
termination
  by (relation "measure (\<lambda>(c, attempt, k). PROCESS_MAX_COUNT - unat attempt)")
     (auto simp: PROCESS_MAX_COUNT_def unat_add_numeral_exact unat_word_ariths)

declare pick_from.simps [simp del]

definition process_pick_next_ready :: "nat \<Rightarrow> 'c kernel \<Rightarrow> nat option \<times> 'c kernel" where
  "process_pick_next_ready c k = pick_from c 0 k"

definition init_slot :: "nat \<Rightarrow> 'c kernel \<Rightarrow> 'c kernel" where
  "init_slot i k =
     (let k = upd_proc i (\<lambda>p. p\<lparr>p_pid := 0, p_parent_pid := 0, p_wait_target_pid := 0, p_entry := 0,
            p_user_stack_top := 0, p_user_virtual_base := 0, p_user_image_allocation := 0, p_user_image_pages := 0,
            p_user_image_capacity := 0, p_user_page_tables := 0, p_cr3 := 0, p_heap_start := 0, p_heap_break := 0,
            p_heap_chunks := replicate PROCESS_HEAP_MAX_CHUNKS 0, p_heap_chunk_count := 0, p_code_size := 0,
            p_loaded := False, p_state := PROCESS_STATE_EMPTY, p_exit_code := 0, p_runtime_ticks := 0,
            p_switch_count := 0, p_preempt_count := 0, p_wake_tick := 0, p_pending_read_fd := -1,
            p_pending_read_buffer := 0, p_pending_read_count := 0,
            p_kernel_stack_top := kstack_canary i k + of_nat PROCESS_KERNEL_STACK_SIZE,
            p_kresume_rsp := 0, p_running_on_cpu := -1, p_is_thread := False\<rparr>) k;
          k = process_reset_vfs_handles i k
      in upd_proc i (\<lambda>p. p\<lparr>p_cwd := ascii ''/'', p_spawn_arg := [], p_name := []\<rparr>) k)"

definition process_init :: "nat \<Rightarrow> 'c kernel \<Rightarrow> 'c kernel" where
  "process_init c k =
     (let k = upd_cpu c (\<lambda>x. x\<lparr>c_current := None, c_sched_cursor := 0, c_resume_rsp := 0,
                c_resume_result := PROCESS_RUN_NONE\<rparr>) (k\<lparr>g_next_pid := 0, g_window_manager_requested := False\<rparr>)
      in kstack_canary_init (fold init_slot [0..<PROCESS_MAX_COUNT] k))"

section \<open>A time slice\<close>

text \<open>
  \<open>process_run_ready_slice\<close> is cut where it leaves the kernel. \<open>slice_begin\<close> is the part up to
  \<open>process_run_slice\<close> or \<open>process_resume_blocked\<close>, and gives the chosen slot and how it is entered;
  \<open>slice_end\<close> is the part after their return, with the local variables \<open>process\<close> and \<open>result\<close>.
\<close>

datatype entry = Enter_user interrupt_frame | Resume_kernel u64

definition dispatch :: "nat \<Rightarrow> nat \<Rightarrow> 'c kernel \<Rightarrow> entry \<times> 'c kernel" where
  "dispatch c i k =
     (let k = set_current c (Some i) k;
          k = upd_proc i (\<lambda>p. p\<lparr>p_state := PROCESS_STATE_RUNNING,
                p_running_on_cpu := sint (c_index (this_cpu c k))\<rparr>) k;
          k = upd_cpu c (\<lambda>x. x\<lparr>c_slices := c_slices x + 1\<rparr>) k;
          k = upd_proc i (\<lambda>p. p\<lparr>p_switch_count := p_switch_count p + 1\<rparr>) k;
          k = upd_cpu c (\<lambda>x. x\<lparr>c_cr3 := paging_load_cr3 (p_cr3 (proc k i)) (c_cr3 x),
                c_rsp0 := p_kernel_stack_top (proc k i), c_fpu := p_fpu_state (proc k i)\<rparr>) k;
          parked = p_kresume_rsp (proc k i);
          k = set_result c PROCESS_RUN_NONE k
      in if parked \<noteq> 0 then (Resume_kernel parked, upd_proc i (\<lambda>p. p\<lparr>p_kresume_rsp := 0\<rparr>) k)
         else (Enter_user (p_context (proc k i)), k))"

definition slice_begin :: "nat \<Rightarrow> 'c kernel \<Rightarrow> ((nat \<times> entry) option \<times> 'c kernel) option" where
  "slice_begin c k =
     do { (_, k) \<leftarrow> kstack_canary_check c k;
          Some (case process_pick_next_ready c k of
              (None, k) \<Rightarrow> (None, k)
            | (Some i, k) \<Rightarrow> let (en, k) = dispatch c i k in (Some (i, en), k)) }"

definition slice_end :: "nat \<Rightarrow> nat \<Rightarrow> 'c kernel \<Rightarrow> (process_run_result \<times> 'c kernel) option" where
  "slice_end c i k =
     (let result = c_resume_result (this_cpu c k);
          k = upd_proc i (\<lambda>p. p\<lparr>p_fpu_state := c_fpu (this_cpu c k), p_running_on_cpu := -1\<rparr>) k
      in do { k \<leftarrow> (if p_state (proc k i) = PROCESS_STATE_EXITED then process_wake_waiter i k else Some k);
              Some (result,
                if result \<noteq> PROCESS_RUN_YIELDED \<or> p_preempt_count (proc k i) = 0
                then upd_proc i (\<lambda>p. p\<lparr>p_runtime_ticks := p_runtime_ticks p + 1\<rparr>) k else k) })"

text \<open>\<open>process_yield_blocking\<close> up to the switch of stacks, which parks the stack pointer \<open>parked\<close>.\<close>

definition process_yield_blocking :: "nat \<Rightarrow> u64 \<Rightarrow> 'c kernel \<Rightarrow> 'c kernel" where
  "process_yield_blocking c parked k =
     (case c_current (this_cpu c k) of
        None \<Rightarrow> k
      | Some i \<Rightarrow> upd_proc i (\<lambda>p. p\<lparr>p_kresume_rsp := parked\<rparr>)
          (set_result c PROCESS_RUN_BLOCKED (upd_proc i (\<lambda>p. p\<lparr>p_state := PROCESS_STATE_WAITING_IO\<rparr>) k)))"

definition process_has_current :: "nat \<Rightarrow> 'c kernel \<Rightarrow> bool" where
  "process_has_current c k \<longleftrightarrow> c_current (this_cpu c k) \<noteq> None"

definition current_field :: "(process \<Rightarrow> u32) \<Rightarrow> nat \<Rightarrow> 'c kernel \<Rightarrow> u32" where
  "current_field f c k = (case c_current (this_cpu c k) of None \<Rightarrow> 0 | Some i \<Rightarrow> f (proc k i))"

definition process_current_pid :: "nat \<Rightarrow> 'c kernel \<Rightarrow> u32" where
  "process_current_pid = current_field p_pid"

definition process_current_uid :: "nat \<Rightarrow> 'c kernel \<Rightarrow> u32" where
  "process_current_uid = current_field p_uid"

definition process_current_gid :: "nat \<Rightarrow> 'c kernel \<Rightarrow> u32" where
  "process_current_gid = current_field p_gid"

section \<open>Timer interrupts\<close>

text \<open>The part the two timer handlers share: the interrupted process gives up the CPU.\<close>

definition preempt :: "nat \<Rightarrow> interrupt_frame \<Rightarrow> 'c kernel \<Rightarrow> bool \<times> 'c kernel" where
  "preempt c frame k =
     (case c_current (this_cpu c k) of
        None \<Rightarrow> (False, k)
      | Some i \<Rightarrow>
          if cs frame AND 0x03 \<noteq> 0x03 then (False, k)
          else let k = upd_cpu c (\<lambda>x. x\<lparr>c_busy_ticks := c_busy_ticks x + 1\<rparr>) k;
                   k = upd_proc i (\<lambda>p. p\<lparr>p_runtime_ticks := p_runtime_ticks p + 1,
                         p_preempt_count := p_preempt_count p + 1, p_context := frame\<rparr>) k
               in (True,
                   if p_state (proc k i) = PROCESS_STATE_EXITED then deschedule c PROCESS_RUN_EXITED k
                   else deschedule c PROCESS_RUN_YIELDED (upd_proc i (\<lambda>p. p\<lparr>p_state := PROCESS_STATE_READY\<rparr>) k)))"

definition timer_handle_interrupt :: "nat \<Rightarrow> interrupt_frame \<Rightarrow> 'c kernel \<Rightarrow> bool \<times> 'c kernel" where
  "timer_handle_interrupt c frame k =
     (let k = timer_tick k;
          k = upd_cpu c (\<lambda>x. x\<lparr>c_ticks := c_ticks x + 1\<rparr>) k;
          k = process_wake_ready (timer_tick_count k) k
      in preempt c frame k)"

definition process_ap_timer :: "nat \<Rightarrow> interrupt_frame \<Rightarrow> 'c kernel \<Rightarrow> bool \<times> 'c kernel" where
  "process_ap_timer c frame k =
     (let k = upd_cpu c (\<lambda>x. x\<lparr>c_ticks := c_ticks x + 1\<rparr>) k in preempt c frame k)"

section \<open>Ending a process\<close>

definition process_clear_pending_tty_wait :: "nat \<Rightarrow> 'c kernel \<Rightarrow> 'c kernel" where
  "process_clear_pending_tty_wait i k =
     (let p = proc k i in
      if p_pending_read_fd p < 0 \<or> p_pending_read_fd p \<ge> int FD_TABLE_CAPACITY then k
      else let entry = p_fd_table p ! nat (p_pending_read_fd p) in
        if e_used entry = 0 \<or> e_ops entry \<noteq> Some Tty_ops then k
        else case e_object entry of
          Some (Tty_object t) \<Rightarrow>
            let k = (if waiter_pid (ttys k ! t) = p_pid p
                     then k\<lparr>ttys := (ttys k)[t := (ttys k ! t)\<lparr>waiter_pid := 0\<rparr>]\<rparr> else k)
            in upd_proc i (\<lambda>p. p\<lparr>p_pending_read_fd := -1, p_pending_read_buffer := 0, p_pending_read_count := 0\<rparr>) k
        | _ \<Rightarrow> k)"

definition close_app :: "u32 \<Rightarrow> 'c kernel \<Rightarrow> 'c kernel" where
  "close_app pid k = (if desktop_active k then ext_call (Desktop_app_close_for_pid pid) k else k)"

definition terminate_slot :: "u32 \<Rightarrow> nat \<Rightarrow> 'c kernel \<Rightarrow> 'c kernel" where
  "terminate_slot code i = upd_proc i (\<lambda>p. p\<lparr>p_exit_code := code, p_state := PROCESS_STATE_EXITED\<rparr>)"

definition leave_if_current :: "nat \<Rightarrow> nat \<Rightarrow> 'c kernel \<Rightarrow> 'c kernel" where
  "leave_if_current c i k =
     (if c_current (this_cpu c k) = Some i then deschedule c PROCESS_RUN_EXITED k else k)"

definition kill_sibling :: "nat \<Rightarrow> nat \<Rightarrow> nat \<Rightarrow> 'c kernel \<Rightarrow> 'c kernel option" where
  "kill_sibling c owner i k =
     (let t = proc k i in
      if i = owner \<or> \<not> p_loaded t \<or> \<not> p_is_thread t then Some k
      else if p_state t = PROCESS_STATE_EXITED \<or> p_state t = PROCESS_STATE_EMPTY then Some k
      else if p_user_page_tables t \<noteq> p_user_page_tables (proc k owner) then Some k
      else do { k \<leftarrow> process_wake_waiter i (terminate_slot (-1) i (process_clear_pending_tty_wait i k));
                k \<leftarrow> Some (leave_if_current c i k);
                Some (klog_hex JOURNAL_INFO (p_pid (proc k i)) ''thread reaped with owner pid=''
                        (ucast (p_pid (proc k owner))) k) })"

function kill_siblings_from :: "nat \<Rightarrow> nat \<Rightarrow> nat \<Rightarrow> 'c kernel \<Rightarrow> 'c kernel option" where
  "kill_siblings_from c owner i k =
     (if i < PROCESS_MAX_COUNT
      then do { k \<leftarrow> kill_sibling c owner i k; kill_siblings_from c owner (i + 1) k } else Some k)"
  by pat_completeness auto
termination by (relation "measure (\<lambda>(c, owner, i, k). PROCESS_MAX_COUNT - i)") auto

declare kill_siblings_from.simps [simp del]

definition process_kill_sibling_threads :: "nat \<Rightarrow> nat \<Rightarrow> 'c kernel \<Rightarrow> 'c kernel option" where
  "process_kill_sibling_threads c owner k =
     (if p_is_thread (proc k owner) \<or> p_user_page_tables (proc k owner) = 0 then Some k
      else kill_siblings_from c owner 0 k)"

definition process_kill :: "nat \<Rightarrow> u32 \<Rightarrow> 'c kernel \<Rightarrow> (int \<times> 'c kernel) option" where
  "process_kill c pid k =
     (case process_find_by_pid pid k of
        None \<Rightarrow> Some (- errno SYSCALL_EINVAL, k)
      | Some i \<Rightarrow>
          if p_state (proc k i) = PROCESS_STATE_EMPTY then Some (- errno SYSCALL_EINVAL, k)
          else if p_state (proc k i) = PROCESS_STATE_EXITED then Some (0, k)
          else do { k \<leftarrow> Some (terminate_slot (-1) i (close_app pid (process_clear_pending_tty_wait i k)));
                    k \<leftarrow> process_kill_sibling_threads c i k;
                    k \<leftarrow> process_wake_waiter i k;
                    Some (0, leave_if_current c i k) })"

definition waits_on_terminal :: "kobject \<Rightarrow> process \<Rightarrow> bool" where
  "waits_on_terminal stdin_object p \<longleftrightarrow> p_loaded p \<and> \<not> p_is_thread p \<and>
     p_state p = PROCESS_STATE_WAITING \<and> p_wait_target_pid p \<noteq> 0 \<and>
     e_used (p_fd_table p ! 0) \<noteq> 0 \<and> e_object (p_fd_table p ! 0) = Some stdin_object"

function interrupt_from :: "nat \<Rightarrow> kobject \<Rightarrow> nat \<Rightarrow> int \<Rightarrow> 'c kernel \<Rightarrow> (int \<times> 'c kernel) option" where
  "interrupt_from c stdin_object i killed k =
     (if i < PROCESS_MAX_COUNT then
        if waits_on_terminal stdin_object (proc k i)
        then do { (_, k) \<leftarrow> process_kill c (p_wait_target_pid (proc k i)) k;
                  interrupt_from c stdin_object (i + 1) (killed + 1) k }
        else interrupt_from c stdin_object (i + 1) killed k
      else Some (killed, k))"
  by pat_completeness auto
termination by (relation "measure (\<lambda>(c, ob, i, n, k). PROCESS_MAX_COUNT - i)") auto

declare interrupt_from.simps [simp del]

definition process_interrupt_terminal :: "nat \<Rightarrow> kobject option \<Rightarrow> 'c kernel \<Rightarrow> (int \<times> 'c kernel) option" where
  "process_interrupt_terminal c stdin_object k =
     (case stdin_object of None \<Rightarrow> Some (0, k) | Some ob \<Rightarrow> interrupt_from c ob 0 0 k)"

definition process_pid_alive :: "u32 \<Rightarrow> 'c kernel \<Rightarrow> bool" where
  "process_pid_alive pid k \<longleftrightarrow>
     (case process_find_by_pid pid k of
        None \<Rightarrow> False
      | Some i \<Rightarrow> p_state (proc k i) \<noteq> PROCESS_STATE_EMPTY \<and> p_state (proc k i) \<noteq> PROCESS_STATE_EXITED)"

definition process_take_window_manager_request :: "'c kernel \<Rightarrow> bool \<times> 'c kernel" where
  "process_take_window_manager_request k =
     (g_window_manager_requested k, k\<lparr>g_window_manager_requested := False\<rparr>)"

section \<open>Faults in user mode\<close>

text \<open>An eight-byte load through the page tables; \<open>None\<close> is a page fault inside the kernel.\<close>

definition vm_byte :: "mem \<Rightarrow> u64 \<Rightarrow> u64 \<Rightarrow> u8 option" where
  "vm_byte m cr3 va = map_option (\<lambda>(pa, _). m pa) (mmu_walk m cr3 va)"

definition vm_ld64 :: "mem \<Rightarrow> u64 \<Rightarrow> u64 \<Rightarrow> u64 option" where
  "vm_ld64 m cr3 va =
     (let bs = map (\<lambda>j. vm_byte m cr3 (va + of_nat j)) [0..<8]
      in if None \<in> set bs then None else Some (ld64 (\<lambda>a. the (bs ! unat a)) 0))"

fun dump_user_backtrace :: "nat \<Rightarrow> u64 \<Rightarrow> u64 \<Rightarrow> u32 \<Rightarrow> 'c kernel \<Rightarrow> 'c kernel option" where
  "dump_user_backtrace 0 cr3 bp pid k = Some k"
| "dump_user_backtrace (Suc frames) cr3 bp pid k =
     (if bp \<ge> 0x21f00000 \<and> bp + 16 \<le> 0x22000000 then
        do { parent \<leftarrow> vm_ld64 (bytes (heap k)) cr3 bp;
             ret \<leftarrow> vm_ld64 (bytes (heap k)) cr3 (bp + 8);
             k \<leftarrow> Some (klog_hex JOURNAL_FAULT pid ''     rbp='' bp (klog_hex JOURNAL_FAULT pid ''  bt rip='' ret k));
             if parent = 0 \<or> parent \<le> bp then Some k else dump_user_backtrace frames cr3 parent pid k }
      else Some k)"

text \<open>The indices of the register snapshot, and the journal lines of a crash report.\<close>

definition FREG_RAX :: nat where "FREG_RAX = 0"
definition FREG_RBX :: nat where "FREG_RBX = 1"
definition FREG_RCX :: nat where "FREG_RCX = 2"
definition FREG_RDX :: nat where "FREG_RDX = 3"
definition FREG_RSI :: nat where "FREG_RSI = 4"
definition FREG_RDI :: nat where "FREG_RDI = 5"
definition FREG_RBP :: nat where "FREG_RBP = 6"
definition FREG_R8 :: nat where "FREG_R8 = 7"
definition FREG_R9 :: nat where "FREG_R9 = 8"
definition FREG_R10 :: nat where "FREG_R10 = 9"
definition FREG_R11 :: nat where "FREG_R11 = 10"
definition FREG_R12 :: nat where "FREG_R12 = 11"
definition FREG_R13 :: nat where "FREG_R13 = 12"
definition FREG_R14 :: nat where "FREG_R14 = 13"
definition FREG_R15 :: nat where "FREG_R15 = 14"
definition FREG_RFLAGS :: nat where "FREG_RFLAGS = 15"
definition FREG_RSP :: nat where "FREG_RSP = 17"

definition crash_lines :: "nat \<Rightarrow> u64 \<Rightarrow> u64 \<Rightarrow> u64 \<Rightarrow> u64 \<Rightarrow> 'c kernel \<Rightarrow> (string \<times> u64) list" where
  "crash_lines i rip' cr2 error_code cr3 k =
     [(''user fault, killed; rip='', rip'), (''  cr2='', cr2), (''  err='', error_code),
      (''  rax='', g_fault_regs k ! FREG_RAX), (''  rbx='', g_fault_regs k ! FREG_RBX),
      (''  rcx='', g_fault_regs k ! FREG_RCX), (''  rdx='', g_fault_regs k ! FREG_RDX),
      (''  rsi='', g_fault_regs k ! FREG_RSI), (''  rdi='', g_fault_regs k ! FREG_RDI),
      (''  rbp='', g_fault_regs k ! FREG_RBP), (''  rsp='', g_fault_regs k ! FREG_RSP),
      (''  r8= '', g_fault_regs k ! FREG_R8), (''  r9= '', g_fault_regs k ! FREG_R9),
      (''  r10='', g_fault_regs k ! FREG_R10), (''  r11='', g_fault_regs k ! FREG_R11),
      (''  r12='', g_fault_regs k ! FREG_R12), (''  r13='', g_fault_regs k ! FREG_R13),
      (''  r14='', g_fault_regs k ! FREG_R14), (''  r15='', g_fault_regs k ! FREG_R15),
      (''  rflags='', g_fault_regs k ! FREG_RFLAGS),
      (''  ctx.rbx='', rbx (p_context (proc k i))), (''  ctx.rsp='', rsp (p_context (proc k i))),
      (''  ctx.rip='', rip (p_context (proc k i))),
      (''  cr3 expected='', p_cr3 (proc k i)), (''  cr3 actual='', paging_read_cr3 cr3)]"

definition log_lines :: "journal_level \<Rightarrow> u32 \<Rightarrow> (string \<times> u64) list \<Rightarrow> 'c kernel \<Rightarrow> 'c kernel" where
  "log_lines level pid = fold (\<lambda>(msg, v). klog_hex level pid msg v)"

definition process_handle_user_fault ::
  "nat \<Rightarrow> u64 \<Rightarrow> u64 \<Rightarrow> u64 \<Rightarrow> 'c kernel \<Rightarrow> (bool \<times> 'c kernel) option" where
  "process_handle_user_fault c rip' cr2 error_code k =
     (case c_current (this_cpu c k) of
        None \<Rightarrow> Some (False, k)
      | Some i \<Rightarrow>
          if p_state (proc k i) = PROCESS_STATE_EMPTY \<or> p_state (proc k i) = PROCESS_STATE_EXITED then Some (False, k)
          else let named = (p_name (proc k i) \<noteq> []) in
            do { (_, k) \<leftarrow> kstack_canary_check c k;
                 k \<leftarrow> Some (klog_hex JOURNAL_FAULT (p_pid (proc k i)) ''  kstack peak bytes='' (of_nat (kstack_highwater i k)) k);
                 k \<leftarrow> dump_user_backtrace 24 (c_cr3 (this_cpu c k)) (g_fault_regs k ! FREG_RBP) (p_pid (proc k i)) k;
                 k \<leftarrow> Some (process_clear_pending_tty_wait i k);
                 k \<leftarrow> Some (close_app (p_pid (proc k i)) k);
                 k \<leftarrow> Some (terminate_slot (of_int (- errno SYSCALL_EFAULT)) i k);
                 k \<leftarrow> Some (klog JOURNAL_FAULT (p_pid (proc k i))
                        (if named then p_name (proc k i) else ascii ''process'') k);
                 k \<leftarrow> Some (log_lines JOURNAL_FAULT (p_pid (proc k i))
                        (crash_lines i rip' cr2 error_code (c_cr3 (this_cpu c k)) k) k);
                 k \<leftarrow> process_kill_sibling_threads c i k;
                 k \<leftarrow> process_wake_waiter i k;
                 Some (True, deschedule c PROCESS_RUN_EXITED k) })"

section \<open>Threads\<close>

definition process_create_thread ::
  "nat \<Rightarrow> u64 \<Rightarrow> u64 \<Rightarrow> u64 \<Rightarrow> 'c kernel \<Rightarrow> (int \<times> 'c kernel) option" where
  "process_create_thread parent entry stack_top arg k =
     (if entry = 0 \<or> stack_top = 0 then Some (- errno SYSCALL_EINVAL, k)
      else do {
        (slot, k) \<leftarrow> process_find_free_slot k;
        case slot of
          None \<Rightarrow> Some (- errno SYSCALL_ENOMEM, k)
        | Some i \<Rightarrow>
            let q = proc k parent;
                k = upd_proc i (\<lambda>p. p\<lparr>p_user_page_tables := p_user_page_tables q, p_cr3 := p_cr3 q,
                      p_user_virtual_base := p_user_virtual_base q, p_user_image_allocation := p_user_image_allocation q,
                      p_user_image_pages := p_user_image_pages q, p_user_image_capacity := p_user_image_capacity q,
                      p_code_size := p_code_size q, p_heap_start := p_heap_start q, p_heap_break := p_heap_break q,
                      p_heap_chunks := replicate PROCESS_HEAP_MAX_CHUNKS 0, p_heap_chunk_count := 0,
                      p_is_thread := True, p_entry := entry, p_user_stack_top := stack_top\<rparr>) k;
                k = process_setup_context i k;
                k = k\<lparr>g_next_pid := g_next_pid k + 1\<rparr>;
                k = upd_proc i (\<lambda>p. p\<lparr>p_context := (p_context p)\<lparr>rdi := arg\<rparr>,
                      p_kernel_stack_top := kstack_canary i k + of_nat PROCESS_KERNEL_STACK_SIZE,
                      p_kresume_rsp := 0, p_running_on_cpu := -1,
                      p_pid := g_next_pid k, p_parent_pid := p_pid q, p_wait_target_pid := 0, p_loaded := True,
                      p_state := PROCESS_STATE_READY, p_exit_code := 0, p_runtime_ticks := 0, p_switch_count := 0,
                      p_preempt_count := 0, p_wake_tick := 0, p_pending_read_fd := -1, p_pending_read_buffer := 0,
                      p_pending_read_count := 0\<rparr>) k;
                k = process_reset_vfs_handles i k;
                k = upd_proc i (\<lambda>p. p\<lparr>p_cwd := take 255 (p_cwd q), p_spawn_arg := [], p_fd_table := p_fd_table q,
                      p_syscalls := Some i\<rparr>) k;
                k = process_set_name i (Some (p_name q)) k;
                pid = p_pid (proc k i);
                k = log_lines JOURNAL_INFO pid [(''thread spawn slot='', of_nat i), (''  thread parent='', ucast (p_pid q)),
                      (''  thread cr3='', p_cr3 (proc k i))] k
            in Some (sint pid, k) })"

section \<open>System calls on processes\<close>

text \<open>
  A system call handler gets the frame of registers and gives it back, with \<open>True\<close> when the process
  has given up the CPU. \<open>syscall_guard\<close> is the beginning of \<open>syscall_handle_interrupt\<close>, before the
  number of the call is looked at.
\<close>

type_synonym 'c handler = "nat \<Rightarrow> nat \<Rightarrow> interrupt_frame \<Rightarrow> 'c kernel \<Rightarrow> (bool \<times> interrupt_frame \<times> 'c kernel) option"

definition syscall_guard :: "nat \<Rightarrow> 'c handler \<Rightarrow> interrupt_frame \<Rightarrow> 'c kernel \<Rightarrow> (bool \<times> interrupt_frame \<times> 'c kernel) option" where
  "syscall_guard c handler frame k =
     (case c_current (this_cpu c k) of
        None \<Rightarrow> Some (True, frame, deschedule c PROCESS_RUN_EXITED k)
      | Some i \<Rightarrow>
          if p_state (proc k i) = PROCESS_STATE_EXITED then Some (True, frame, deschedule c PROCESS_RUN_EXITED k)
          else handler c i frame k)"

definition park :: "nat \<Rightarrow> (process \<Rightarrow> process) \<Rightarrow> nat \<Rightarrow> 'c kernel \<Rightarrow> 'c kernel" where
  "park i f c k = deschedule c PROCESS_RUN_YIELDED (upd_proc i f k)"

definition sys_yield :: "'c handler" where
  "sys_yield c i frame k = Some (True, frame,
     park i (\<lambda>p. p\<lparr>p_context := frame\<lparr>rax := 0\<rparr>, p_state := PROCESS_STATE_READY\<rparr>) c k)"

definition sys_exit :: "'c handler" where
  "sys_exit c i frame k =
     (let k = close_app (p_pid (proc k i)) k;
          k = terminate_slot (ucast (rdi frame)) i k;
          k = klog_hex JOURNAL_INFO (p_pid (proc k i)) ''process exited, code='' (rdi frame) k
      in do { k \<leftarrow> process_kill_sibling_threads c i k;
              k \<leftarrow> process_wake_waiter i k;
              Some (True, frame, deschedule c PROCESS_RUN_EXITED k) })"

definition sys_pty_interrupt :: "'c handler" where
  "sys_pty_interrupt c i frame k =
     (let master_fd = sint (ucast (rdi frame) :: u32) in
      if master_fd < 0 \<or> master_fd \<ge> int FD_TABLE_CAPACITY
      then Some (False, frame\<lparr>rax := of_int (- errno SYSCALL_EINVAL)\<rparr>, k)
      else let entry = p_fd_table (proc k i) ! nat master_fd in
        if e_used entry = 0 \<or> e_ops entry \<noteq> Some Pty_master_ops \<or> e_object entry = None
        then Some (False, frame\<lparr>rax := of_int (- errno SYSCALL_EINVAL)\<rparr>, k)
        else do { (n, k) \<leftarrow> process_interrupt_terminal c (e_object entry) k;
                  Some (False, frame\<lparr>rax := of_int n\<rparr>, k) })"

definition sys_thread_create :: "'c handler" where
  "sys_thread_create c i frame k =
     do { (tid, k) \<leftarrow> process_create_thread i (rdi frame) (rsi frame) (rdx frame) k;
          Some (False, frame\<lparr>rax := of_int tid\<rparr>, k) }"

definition sys_waitpid :: "'c handler" where
  "sys_waitpid c i frame k =
     (let wait_pid = ucast (rdi frame) in
      case process_find_exited_child (p_pid (proc k i)) wait_pid k of
        Some j \<Rightarrow>
          do { k' \<leftarrow> process_reap j k;
               Some (False, frame\<lparr>rax := ucast (p_pid (proc k j)), rdx := ucast (p_exit_code (proc k j))\<rparr>, k') }
      | None \<Rightarrow> Some (True, frame,
          park i (\<lambda>p. p\<lparr>p_context := frame\<lparr>rax := 0, rdx := 0\<rparr>, p_wait_target_pid := wait_pid,
            p_state := PROCESS_STATE_WAITING\<rparr>) c k))"

definition sleep_until :: "nat \<Rightarrow> u64 \<Rightarrow> interrupt_frame \<Rightarrow> nat \<Rightarrow> 'c kernel \<Rightarrow> 'c kernel" where
  "sleep_until i ticks frame c k =
     (let now = timer_tick_count k;
          wake_tick = (if ticks \<ge> -1 - now then -1 else now + ticks)
      in park i (\<lambda>p. p\<lparr>p_context := frame\<lparr>rax := 0\<rparr>, p_wake_tick := wake_tick, p_state := PROCESS_STATE_SLEEPING\<rparr>) c k)"

definition sys_timer_sleep :: "'c handler" where
  "sys_timer_sleep c i frame k =
     (if rdi frame = 0 then Some (False, frame\<lparr>rax := 0\<rparr>, k)
      else Some (True, frame\<lparr>rax := 0\<rparr>, sleep_until i (rdi frame) frame c k))"

definition sys_sleep_ms :: "'c handler" where
  "sys_sleep_ms c i frame k =
     (let ticks = (rdi frame * ucast (timer_frequency_hz k) + 999) div 1000
      in Some (True, frame\<lparr>rax := 0\<rparr>, sleep_until i (if ticks = 0 then 1 else ticks) frame c k))"

definition sys_windowmgr_start :: "'c handler" where
  "sys_windowmgr_start c i frame k =
     (let uid = p_uid (proc k i);
          k = k\<lparr>g_window_manager_requested := True, g_desktop_uid := uid\<rparr>
      in Some (False, frame\<lparr>rax := 0\<rparr>, upd_proc 0 (\<lambda>p. p\<lparr>p_uid := uid, p_gid := uid\<rparr>) k))"

definition sys_process_kill :: "'c handler" where
  "sys_process_kill c i frame k =
     (let target_pid = ucast (rdi frame) in
      case process_find_by_pid target_pid k of
        None \<Rightarrow> Some (False, frame\<lparr>rax := of_int (- errno SYSCALL_EINVAL)\<rparr>, k)
      | Some j \<Rightarrow>
          if p_state (proc k j) = PROCESS_STATE_EMPTY
          then Some (False, frame\<lparr>rax := of_int (- errno SYSCALL_EINVAL)\<rparr>, k)
          else if p_uid (proc k i) \<noteq> 0 \<and> p_uid (proc k i) \<noteq> p_uid (proc k j)
          then Some (False, frame\<lparr>rax := of_int (- errno SYSCALL_EPERM)\<rparr>, k)
          else do { (result, k) \<leftarrow> process_kill c target_pid k;
                    Some (c_current (this_cpu c k) = None, frame\<lparr>rax := of_int result\<rparr>, k) })"

definition sys_getpid :: "'c handler" where
  "sys_getpid c i frame k = Some (False, frame\<lparr>rax := ucast (p_pid (proc k i))\<rparr>, k)"

definition sys_getppid :: "'c handler" where
  "sys_getppid c i frame k = Some (False, frame\<lparr>rax := ucast (p_parent_pid (proc k i))\<rparr>, k)"

definition sys_getuid :: "'c handler" where
  "sys_getuid c i frame k = Some (False, frame\<lparr>rax := ucast (p_uid (proc k i))\<rparr>, k)"

definition sys_getgid :: "'c handler" where
  "sys_getgid c i frame k = Some (False, frame\<lparr>rax := ucast (p_gid (proc k i))\<rparr>, k)"

definition sys_setuid :: "'c handler" where
  "sys_setuid c i frame k =
     (let new_uid = ucast (rdi frame) in
      if p_uid (proc k i) \<noteq> 0 \<and> new_uid \<noteq> p_uid (proc k i)
      then Some (False, frame\<lparr>rax := of_int (- errno SYSCALL_EPERM)\<rparr>, k)
      else Some (False, frame\<lparr>rax := 0\<rparr>, upd_proc i (\<lambda>p. p\<lparr>p_uid := new_uid\<rparr>) k))"

datatype syscall_number = SYS_YIELD | SYS_EXIT | SYS_WAITPID | SYS_TIMER_SLEEP | SYS_WINDOWMGR_START
  | SYS_PROCESS_KILL | SYS_THREAD_CREATE | SYS_PTY_INTERRUPT | SYS_GETPID | SYS_GETPPID | SYS_GETUID | SYS_GETGID
  | SYS_SETUID | SYS_SLEEP_MS

fun process_syscall :: "syscall_number \<Rightarrow> 'c handler" where
  "process_syscall SYS_YIELD = sys_yield"
| "process_syscall SYS_EXIT = sys_exit"
| "process_syscall SYS_WAITPID = sys_waitpid"
| "process_syscall SYS_TIMER_SLEEP = sys_timer_sleep"
| "process_syscall SYS_WINDOWMGR_START = sys_windowmgr_start"
| "process_syscall SYS_PROCESS_KILL = sys_process_kill"
| "process_syscall SYS_THREAD_CREATE = sys_thread_create"
| "process_syscall SYS_PTY_INTERRUPT = sys_pty_interrupt"
| "process_syscall SYS_GETPID = sys_getpid"
| "process_syscall SYS_GETPPID = sys_getppid"
| "process_syscall SYS_GETUID = sys_getuid"
| "process_syscall SYS_GETGID = sys_getgid"
| "process_syscall SYS_SETUID = sys_setuid"
| "process_syscall SYS_SLEEP_MS = sys_sleep_ms"

definition process_syscall_interrupt ::
  "nat \<Rightarrow> syscall_number \<Rightarrow> interrupt_frame \<Rightarrow> 'c kernel \<Rightarrow> (bool \<times> interrupt_frame \<times> 'c kernel) option" where
  "process_syscall_interrupt c number = syscall_guard c (process_syscall number)"

section \<open>Counts and snapshots\<close>

definition count_slots :: "(process \<Rightarrow> bool) \<Rightarrow> 'c kernel \<Rightarrow> u32" where
  "count_slots P k = of_nat (length (filter (\<lambda>i. P (proc k i)) [0..<PROCESS_MAX_COUNT]))"

definition process_loaded_count :: "'c kernel \<Rightarrow> u32" where
  "process_loaded_count = count_slots (\<lambda>p. p_loaded p \<and> p_state p \<noteq> PROCESS_STATE_EXITED)"

definition process_ready_count :: "'c kernel \<Rightarrow> u32" where
  "process_ready_count = count_slots (\<lambda>p. p_state p = PROCESS_STATE_READY)"

definition process_running_count :: "'c kernel \<Rightarrow> u32" where
  "process_running_count = count_slots (\<lambda>p. p_state p = PROCESS_STATE_RUNNING)"

definition process_sleeping_count :: "'c kernel \<Rightarrow> u32" where
  "process_sleeping_count = count_slots (\<lambda>p. p_state p = PROCESS_STATE_SLEEPING)"

definition process_snapshot_count :: u32 where
  "process_snapshot_count = of_nat PROCESS_MAX_COUNT"

record process_snapshot =
  ps_pid :: u32
  ps_parent_pid :: u32
  ps_runtime_ticks :: u64
  ps_switch_count :: u64
  ps_preempt_count :: u64
  ps_wake_tick :: u64
  ps_state :: process_state
  ps_loaded :: bool
  ps_name :: "u8 list"
  ps_mem_bytes :: u64
  ps_thread_count :: u32
  ps_is_thread :: bool
  ps_uid :: u32

definition align_up_page_size :: "u64 \<Rightarrow> u64" where
  "align_up_page_size v = (v + 0xfff) AND NOT 0xfff"

definition process_get_snapshot :: "u32 \<Rightarrow> 'c kernel \<Rightarrow> process_snapshot option" where
  "process_get_snapshot slot k =
     (if unat slot \<ge> PROCESS_MAX_COUNT then None
      else let p = proc k (unat slot);
               threads = (if p_user_page_tables p \<noteq> 0
                 then count_slots (\<lambda>q. p_loaded q \<and> p_state q \<noteq> PROCESS_STATE_EXITED \<and>
                        p_user_page_tables q = p_user_page_tables p) k else 0)
           in Some \<lparr>ps_pid = p_pid p, ps_parent_pid = p_parent_pid p, ps_runtime_ticks = p_runtime_ticks p,
                ps_switch_count = p_switch_count p, ps_preempt_count = p_preempt_count p, ps_wake_tick = p_wake_tick p,
                ps_state = p_state p, ps_loaded = p_loaded p, ps_name = take 31 (p_name p),
                ps_mem_bytes = p_user_image_capacity p +
                  (if p_heap_break p \<ge> p_heap_start p then align_up_page_size (p_heap_break p - p_heap_start p) else 0) +
                  PROCESS_USER_STACK_SIZE + of_nat PROCESS_KERNEL_STACK_SIZE,
                ps_thread_count = (if threads \<noteq> 0 then threads else 1),
                ps_is_thread = p_is_thread p, ps_uid = p_uid p\<rparr>)"

section \<open>A small system\<close>

text \<open>Two processes that are ready to run, on two CPUs, with every other slot empty.\<close>

definition zero_frame :: interrupt_frame where
  "zero_frame = \<lparr>rax = 0, rbx = 0, rcx = 0, rdx = 0, rbp = 0, rdi = 0, rsi = 0, r8 = 0, r9 = 0, r10 = 0, r11 = 0,
     r12 = 0, r13 = 0, r14 = 0, r15 = 0, rip = 0, cs = 0x23, rflags = 0x202, rsp = 0, ss = 0x1b\<rparr>"

definition empty_process :: process where
  "empty_process = \<lparr>p_pid = 0, p_parent_pid = 0, p_wait_target_pid = 0, p_entry = 0, p_user_stack_top = 0,
     p_user_virtual_base = 0, p_code_size = 0, p_user_image_allocation = 0, p_user_image_pages = 0,
     p_user_image_capacity = 0, p_user_page_tables = 0, p_cr3 = 0, p_heap_start = 0, p_heap_break = 0,
     p_heap_chunks = replicate PROCESS_HEAP_MAX_CHUNKS 0, p_heap_chunk_count = 0, p_loaded = False,
     p_state = PROCESS_STATE_EMPTY, p_exit_code = 0, p_runtime_ticks = 0, p_switch_count = 0, p_preempt_count = 0,
     p_wake_tick = 0, p_pending_read_fd = -1, p_pending_read_buffer = 0, p_pending_read_count = 0,
     p_vfs_handles = replicate PROCESS_VFS_HANDLE_CAPACITY
       \<lparr>vh_file = None, vh_offset = 0, vh_used = False, vh_kind = 0, vh_path = [], vh_cached_ino = 0\<rparr>,
     p_fd_table = replicate FD_TABLE_CAPACITY fd_closed, p_syscalls = None, p_context = zero_frame,
     p_kernel_stack_top = 0, p_kresume_rsp = 0, p_is_thread = False, p_cwd = ascii ''/'', p_spawn_arg = [],
     p_name = [], p_uid = 0, p_gid = 0, p_running_on_cpu = -1, p_fpu_state = replicate 512 0\<rparr>"

definition ready_process :: "u32 \<Rightarrow> u32 \<Rightarrow> u64 \<Rightarrow> process" where
  "ready_process pid parent cr3 = empty_process\<lparr>p_pid := pid, p_parent_pid := parent, p_loaded := True,
     p_state := PROCESS_STATE_READY, p_cr3 := cr3\<rparr>"

definition idle_cpu :: "u32 \<Rightarrow> cpu" where
  "idle_cpu n = \<lparr>c_index = n, c_apic_id = n, c_ticks = 0, c_allocs = 0, c_current = None, c_sched_cursor = 0,
     c_resume_rsp = 0, c_resume_result = PROCESS_RUN_NONE, c_slices = 0, c_busy_ticks = 0, c_cr3 = 0x1000,
     c_rsp0 = 0, c_fpu = replicate 512 0\<rparr>"

definition demo_statics :: statics where
  "demo_statics = \<lparr>g_user_stacks = 0x1000000, g_user_page_tables = 0x8000000, g_proc_pml4 = 0x400000,
     g_proc_pdp = 0x500000, g_proc_pd0 = 0x600000, g_kernel_stacks = 0x700000, boot = demo_tables\<rparr>"

definition demo_kernel :: "unit kernel" where
  "demo_kernel = \<lparr>g_processes = (replicate PROCESS_MAX_COUNT empty_process)
       [0 := ready_process 1 0 0x400000, 1 := ready_process 2 1 0x401000],
     g_next_pid = 2, cpus = [idle_cpu 0, idle_cpu 1], g_cpu_count = 2, g_window_manager_requested = False,
     g_desktop_uid = 0, g_image_alloc_quarantine = [],
     heap = demo_kmem\<lparr>bytes := st64 (st64 (bytes demo_kmem) 0x700000 KSTACK_CANARY) 0x710000 KSTACK_CANARY\<rparr>,
     jrnl = journal_demo, clock = \<lparr>tick_count = 0, frequency_hz = 100\<rparr>, ttys = [demo_tty], ptys = pty_demo,
     vfsys = \<lparr>g_user_files = [], g_ext2 = None, user_sh = [], user_edit = []\<rparr>, desktop_active = False,
     g_fault_regs = replicate 18 0, statics = demo_statics, ext_calls = []\<rparr>"

end
