(* ===== verification/Scheduler.thy ===== *)
theory Scheduler
  imports Process
begin

text \<open>
  Runs of the kernel on several CPUs, and the round robin of \<open>process_pick_next_ready\<close>.
\<close>

section \<open>What the operations keep\<close>

text \<open>
  Every operation on the process table is built from a few updates of the kernel state. A predicate
  that those updates keep is kept by the operations.
\<close>

locale kernel_frame =
  fixes P :: "'c kernel \<Rightarrow> bool"
  assumes P_proc: "P k \<Longrightarrow> P (upd_proc i f k)"
    and P_heap: "P k \<Longrightarrow> P (k\<lparr>heap := h\<rparr>)"
    and P_jrnl: "P k \<Longrightarrow> P (k\<lparr>jrnl := j\<rparr>)"
    and P_ttys: "P k \<Longrightarrow> P (k\<lparr>ttys := ts\<rparr>)"
    and P_ext: "P k \<Longrightarrow> P (k\<lparr>ext_calls := es\<rparr>)"
    and P_next: "P k \<Longrightarrow> P (k\<lparr>g_next_pid := n\<rparr>)"
    and P_clock: "P k \<Longrightarrow> P (k\<lparr>clock := t\<rparr>)"
    and P_wm: "P k \<Longrightarrow> P (k\<lparr>g_window_manager_requested := b\<rparr>)"
    and P_uid: "P k \<Longrightarrow> P (k\<lparr>g_desktop_uid := u\<rparr>)"
    and P_table: "P k \<Longrightarrow> length ps = length (g_processes k) \<Longrightarrow> P (k\<lparr>g_processes := ps\<rparr>)"
    and P_cpu: "P k \<Longrightarrow> (\<And>x. c_sched_cursor (g x) = c_sched_cursor x) \<Longrightarrow> (\<And>x. c_index (g x) = c_index x) \<Longrightarrow>
      P (upd_cpu c g k)"
begin

lemma P_mem: "P k \<Longrightarrow> P (upd_mem f k)"
  by (simp add: upd_mem_def P_heap)

lemma P_klog: "P k \<Longrightarrow> P (klog l pid m k)" "P k \<Longrightarrow> P (klog_hex l pid s v k)"
  by (simp_all add: klog_def klog_hex_def P_jrnl)

lemma P_ext_call: "P k \<Longrightarrow> P (ext_call e k)"
  by (simp add: ext_call_def P_ext)

lemma P_cpu_fields: "P k \<Longrightarrow> P (set_current c s k)" "P k \<Longrightarrow> P (set_result c r k)" "P k \<Longrightarrow> P (deschedule c r k)"
  by (simp_all add: set_current_def set_result_def deschedule_def P_cpu)

lemma P_with_heap: "with_heap f k = Some k' \<Longrightarrow> P k \<Longrightarrow> P k'"
  by (auto simp: with_heap_def P_heap)

lemma P_arm: "P k \<Longrightarrow> P (kstack_arm i k)"
  by (simp add: kstack_arm_def P_mem)

lemma P_log_lines: "P k \<Longrightarrow> P (log_lines l pid ls k)"
  unfolding log_lines_def by (induction ls arbitrary: k) (auto simp: P_klog)

lemma P_reset: "P k \<Longrightarrow> P (process_reset_vfs_handles i k)"
  by (simp add: process_reset_vfs_handles_def P_proc)

lemma P_close_app: "P k \<Longrightarrow> P (close_app pid k)"
  by (simp add: close_app_def P_ext_call)

lemma P_terminate: "P k \<Longrightarrow> P (terminate_slot code i k)"
  by (simp add: terminate_slot_def P_proc)

lemma P_leave: "P k \<Longrightarrow> P (leave_if_current c i k)"
  by (simp add: leave_if_current_def P_cpu_fields)

lemma P_clear_pending: "P k \<Longrightarrow> P (process_clear_pending_tty_wait i k)"
  by (auto simp: process_clear_pending_tty_wait_def Let_def P_proc P_ttys split: option.splits kobject.splits)

lemma P_setup: "P k \<Longrightarrow> P (process_setup_context i k)"
  by (simp add: process_setup_context_def P_proc P_arm)

lemma P_set_name: "P k \<Longrightarrow> P (process_set_name i nm k)"
  by (simp add: process_set_name_def Let_def P_proc)

lemma P_park: "P k \<Longrightarrow> P (park i f c k)"
  by (simp add: park_def P_proc P_cpu_fields)

lemma P_sleep: "P k \<Longrightarrow> P (sleep_until i t frame c k)"
  by (simp add: sleep_until_def Let_def P_park)

lemmas P_total = P_proc P_mem P_klog P_ext_call P_cpu_fields P_arm P_log_lines P_reset P_close_app P_terminate
  P_leave P_clear_pending P_setup P_set_name P_park P_sleep P_next P_ttys P_wm P_uid

lemma P_free_chunks: "free_chunks n i slot k = Some k' \<Longrightarrow> P k \<Longrightarrow> P k'"
proof (induction n i slot k rule: free_chunks.induct)
  case (1 n i slot k)
  show ?case
  proof (cases "i < n \<and> p_heap_chunks (proc k slot) ! i \<noteq> 0")
    case True
    with "1.prems"(1) obtain k1 where k1: "with_heap (kfree (p_heap_chunks (proc k slot) ! i)) k = Some k1"
      "free_chunks n (i + 1) slot (upd_proc slot (\<lambda>p. p\<lparr>p_heap_chunks := (p_heap_chunks p)[i := 0]\<rparr>) k1) = Some k'"
      by (auto simp: free_chunks.simps [of n i] Let_def split: bind_splits)
    with "1.IH"(1) [OF _ refl _ k1] True P_with_heap [OF k1(1) "1.prems"(2)] show ?thesis by (simp add: P_proc)
  next
    case False
    with "1.prems" "1.IH"(2) show ?thesis
      by (cases "i < n") (auto simp: free_chunks.simps [of n i] Let_def)
  qed
qed

lemma P_free_image: "free_image i k = Some k' \<Longrightarrow> P k \<Longrightarrow> P k'"
  by (auto simp: free_image_def process_free_heap_chunks_def P_total
      dest!: P_free_chunks P_with_heap split: if_splits bind_splits)

lemma P_reap: "process_reap i k = Some k' \<Longrightarrow> P k \<Longrightarrow> P k'"
  by (auto simp: process_reap_def Let_def P_total dest!: P_free_image split: if_splits bind_splits)

lemma P_wake_waiter: "process_wake_waiter i k = Some k' \<Longrightarrow> P k \<Longrightarrow> P k'"
  by (auto simp: process_wake_waiter_def Let_def P_total dest!: P_reap split: if_splits option.splits)

lemma P_find_free: "find_free_from s k = Some (r, k') \<Longrightarrow> P k \<Longrightarrow> P k'"
proof (induction s k rule: find_free_from.induct)
  case (1 s k)
  from "1.prems" "1.IH" show ?case
    by (auto simp: find_free_from.simps [of s] dest: P_reap split: if_splits bind_splits)
qed

lemma P_canary_slot: "canary_slot c i k = Some (f, k') \<Longrightarrow> P k \<Longrightarrow> P k'"
  by (auto simp: canary_slot_def Let_def P_total dest!: P_wake_waiter split: if_splits bind_splits)

lemma P_canary_from: "canary_from c i b k = Some (f, k') \<Longrightarrow> P k \<Longrightarrow> P k'"
proof (induction c i b k rule: canary_from.induct)
  case (1 c i b k)
  show ?case
  proof (cases "i < PROCESS_MAX_COUNT")
    case True
    with "1.prems"(1) obtain g k1 where "canary_slot c i k = Some (g, k1)" "canary_from c (i + 1) (b \<or> g) k1 = Some (f, k')"
      by (auto simp: canary_from.simps [of c i] split: bind_splits)
    with "1.IH" [OF True] "1.prems"(2) show ?thesis by (metis P_canary_slot)
  next
    case False
    with "1.prems" show ?thesis by (simp add: canary_from.simps [of c i])
  qed
qed

lemma P_canary_check: "kstack_canary_check c k = Some (f, k') \<Longrightarrow> P k \<Longrightarrow> P k'"
  by (simp add: kstack_canary_check_def P_canary_from)

lemma P_kill_sibling: "kill_sibling c w i k = Some k' \<Longrightarrow> P k \<Longrightarrow> P k'"
  by (auto simp: kill_sibling_def Let_def P_total dest!: P_wake_waiter split: if_splits bind_splits)

lemma P_kill_siblings_from: "kill_siblings_from c w i k = Some k' \<Longrightarrow> P k \<Longrightarrow> P k'"
proof (induction c w i k rule: kill_siblings_from.induct)
  case (1 c w i k)
  show ?case
  proof (cases "i < PROCESS_MAX_COUNT")
    case True
    with "1.prems"(1) obtain k1 where "kill_sibling c w i k = Some k1" "kill_siblings_from c w (i + 1) k1 = Some k'"
      by (auto simp: kill_siblings_from.simps [of c w i] split: bind_splits)
    with "1.IH" [OF True] "1.prems"(2) show ?thesis by (metis P_kill_sibling)
  next
    case False
    with "1.prems" show ?thesis by (simp add: kill_siblings_from.simps [of c w i])
  qed
qed

lemma P_kill_siblings: "process_kill_sibling_threads c w k = Some k' \<Longrightarrow> P k \<Longrightarrow> P k'"
  by (auto simp: process_kill_sibling_threads_def split: if_splits dest: P_kill_siblings_from)

lemma P_kill: "process_kill c pid k = Some (r, k') \<Longrightarrow> P k \<Longrightarrow> P k'"
  by (auto simp: process_kill_def P_total dest!: P_kill_siblings P_wake_waiter
      split: option.splits if_splits bind_splits)

lemma P_interrupt_from: "interrupt_from c ob i n k = Some (r, k') \<Longrightarrow> P k \<Longrightarrow> P k'"
proof (induction c ob i n k rule: interrupt_from.induct)
  case (1 c ob i n k)
  show ?case
  proof (cases "i < PROCESS_MAX_COUNT \<and> waits_on_terminal ob (proc k i)")
    case True
    with "1.prems"(1) obtain g k1 where k1: "process_kill c (p_wait_target_pid (proc k i)) k = Some (g, k1)"
      "interrupt_from c ob (i + 1) (n + 1) k1 = Some (r, k')"
      by (auto simp: interrupt_from.simps [of c ob i] split: bind_splits)
    with "1.IH"(1) True "1.prems"(2) show ?thesis by (metis P_kill)
  next
    case False
    with "1.prems" "1.IH"(2) show ?thesis
      by (cases "i < PROCESS_MAX_COUNT") (auto simp: interrupt_from.simps [of c ob i])
  qed
qed

lemma P_interrupt_terminal: "process_interrupt_terminal c ob k = Some (r, k') \<Longrightarrow> P k \<Longrightarrow> P k'"
  by (auto simp: process_interrupt_terminal_def split: option.splits dest: P_interrupt_from)

lemma P_backtrace: "dump_user_backtrace n cr3 bp pid k = Some k' \<Longrightarrow> P k \<Longrightarrow> P k'"
proof (induction n arbitrary: bp k)
  case (Suc n)
  from Suc.prems show ?case
    by (auto split: if_splits bind_splits simp: P_klog intro: Suc.IH)
qed simp

lemma P_fault:
  assumes "process_handle_user_fault c a b e k = Some (r, k')" and "P k"
  shows "P k'"
proof (cases "c_current (this_cpu c k)")
  case (Some i)
  show ?thesis
  proof (cases "p_state (proc k i) = PROCESS_STATE_EMPTY \<or> p_state (proc k i) = PROCESS_STATE_EXITED")
    case False
    with assms(1) Some show ?thesis
      by (auto simp: process_handle_user_fault_def Let_def split: bind_splits
          dest!: P_canary_check [OF _ assms(2)] P_backtrace P_kill_siblings P_wake_waiter simp: P_total)
  qed (use assms Some in \<open>simp add: process_handle_user_fault_def\<close>)
qed (use assms in \<open>simp add: process_handle_user_fault_def\<close>)

lemma P_create_thread: "process_create_thread q e s a k = Some (r, k') \<Longrightarrow> P k \<Longrightarrow> P k'"
  by (auto simp: process_create_thread_def process_find_free_slot_def Let_def split: if_splits bind_splits option.splits
      dest!: P_find_free simp: P_total)

lemma P_preempt: "preempt c frame k = (b, k') \<Longrightarrow> P k \<Longrightarrow> P k'"
  by (auto simp: preempt_def Let_def P_total P_cpu split: option.splits if_splits)

lemma P_timer: "timer_handle_interrupt c frame k = (b, k') \<Longrightarrow> P k \<Longrightarrow> P k'"
  unfolding timer_handle_interrupt_def timer_tick_def process_wake_ready_def Let_def
  by (erule P_preempt) (simp add: P_clock P_cpu P_table)

lemma P_ap_timer: "process_ap_timer c frame k = (b, k') \<Longrightarrow> P k \<Longrightarrow> P k'"
  unfolding process_ap_timer_def Let_def by (erule P_preempt) (simp add: P_cpu)

lemma P_yield_blocking: "P k \<Longrightarrow> P (process_yield_blocking c rsp' k)"
  by (auto simp: process_yield_blocking_def P_total split: option.splits)

lemma P_slice_end: "slice_end c i k = Some (r, k') \<Longrightarrow> P k \<Longrightarrow> P k'"
  by (auto simp: slice_end_def Let_def P_total dest!: P_wake_waiter split: if_splits bind_splits)

lemma P_dispatch: "dispatch c i k = (en, k') \<Longrightarrow> P k \<Longrightarrow> P k'"
  by (auto simp: dispatch_def Let_def P_total P_cpu split: if_splits)

lemma P_exit: "sys_exit c i frame k = Some (b, f', k') \<Longrightarrow> P k \<Longrightarrow> P k'"
  by (auto simp: sys_exit_def Let_def P_total dest!: P_kill_siblings P_wake_waiter split: bind_splits)

lemma P_handler: "process_syscall s c i frame k = Some (b, f', k') \<Longrightarrow> P k \<Longrightarrow> P k'"
proof (cases s)
  case SYS_PROCESS_KILL
  assume "process_syscall s c i frame k = Some (b, f', k')" "P k"
  with SYS_PROCESS_KILL show ?thesis
    by (auto simp: sys_process_kill_def Let_def dest!: P_kill split: option.splits if_splits bind_splits)
next
  case SYS_PTY_INTERRUPT
  assume "process_syscall s c i frame k = Some (b, f', k')" "P k"
  with SYS_PTY_INTERRUPT show ?thesis
    by (auto simp: sys_pty_interrupt_def Let_def dest!: P_interrupt_terminal split: if_splits bind_splits)
qed (auto simp: sys_yield_def sys_waitpid_def sys_timer_sleep_def sys_windowmgr_start_def sys_thread_create_def
    sys_getpid_def sys_getppid_def sys_getuid_def sys_getgid_def sys_setuid_def sys_sleep_ms_def Let_def P_total
    dest: P_exit dest!: P_reap P_create_thread split: option.splits if_splits bind_splits)

lemma P_syscall: "process_syscall_interrupt c s frame k = Some (b, f', k') \<Longrightarrow> P k \<Longrightarrow> P k'"
  by (auto simp: process_syscall_interrupt_def syscall_guard_def P_total dest: P_handler
      split: option.splits if_splits)

end

definition cursors :: "'c kernel \<Rightarrow> u32 list" where
  "cursors k = map c_sched_cursor (cpus k)"

lemma cursors_upd_cpu:
  assumes "\<And>x. c_sched_cursor (f x) = c_sched_cursor x"
  shows "cursors (upd_cpu c f k) = cursors k"
  by (cases "c < length (cpus k)") (simp_all add: cursors_def upd_cpu_def map_update assms list_update_same_conv list_update_beyond)

interpretation sched: kernel_frame "\<lambda>k. cursors k = xs"
  by unfold_locales (auto simp: cursors_upd_cpu, auto simp: cursors_def upd_proc_def)

section \<open>Runs\<close>

text \<open>
  One step of one CPU, under the big kernel lock. The last rule is everything else that happens: user
  programs, other system calls and the rest of the kernel may change any part of the state but the
  cursors, which no other code of the kernel mentions.
\<close>

datatype event = Choose nat "(nat \<times> entry) option" | End_slice nat | Timer nat | Ap_timer nat
  | Syscall nat syscall_number | Fault nat | Block nat | Kill nat u32 | Environment

inductive kernel_step :: "event \<Rightarrow> 'c kernel \<Rightarrow> 'c kernel \<Rightarrow> bool" where
  choose: "slice_begin c k = Some (r, k') \<Longrightarrow> kernel_step (Choose c r) k k'"
| end_slice: "slice_end c i k = Some (r, k') \<Longrightarrow> kernel_step (End_slice c) k k'"
| timer: "timer_handle_interrupt c frame k = (b, k') \<Longrightarrow> kernel_step (Timer c) k k'"
| ap_timer: "process_ap_timer c frame k = (b, k') \<Longrightarrow> kernel_step (Ap_timer c) k k'"
| syscall: "process_syscall_interrupt c s frame k = Some (b, frame', k') \<Longrightarrow> kernel_step (Syscall c s) k k'"
| fault: "process_handle_user_fault c a cr2 e k = Some (b, k') \<Longrightarrow> kernel_step (Fault c) k k'"
| block: "kernel_step (Block c) k (process_yield_blocking c parked k)"
| kill: "process_kill c pid k = Some (r, k') \<Longrightarrow> kernel_step (Kill c pid) k k'"
| environment: "cursors k' = cursors k \<Longrightarrow> kernel_step Environment k k'"

inductive_cases choose_stepE: "kernel_step (Choose c r) k k'"

fun kernel_run :: "'c kernel \<Rightarrow> (event \<times> 'c kernel) list \<Rightarrow> bool" where
  "kernel_run k [] \<longleftrightarrow> True"
| "kernel_run k ((e, k1) # es) \<longleftrightarrow> kernel_step e k k1 \<and> kernel_run k1 es"

lemma step_cursors: "kernel_step e k k' \<Longrightarrow> (\<forall>c r. e \<noteq> Choose c r) \<Longrightarrow> cursors k' = cursors k"
  by (induction rule: kernel_step.induct)
    (simp_all add: sched.P_slice_end sched.P_timer sched.P_ap_timer sched.P_syscall
      sched.P_fault sched.P_kill sched.P_yield_blocking)

section \<open>Round robin\<close>

text \<open>How far a slot is ahead of a position of the ring of \<open>n\<close> slots.\<close>

definition ring_gap :: "nat \<Rightarrow> nat \<Rightarrow> nat \<Rightarrow> nat" where
  "ring_gap n cur i = (i + n - cur) mod n"

lemma mod_once: "n \<le> m \<Longrightarrow> m < 2 * n \<Longrightarrow> m mod n = m - (n::nat)"
  by (simp add: le_mod_geq)

lemma ring_gap_eq:
  assumes "cur < n" "i < n"
  shows "ring_gap n cur i = (if cur \<le> i then i - cur else i + n - cur)"
proof (cases "cur \<le> i")
  case True
  with assms mod_once [of n "i + n - cur"] show ?thesis by (simp add: ring_gap_def)
qed (use assms in \<open>simp add: ring_gap_def\<close>)

lemma ring_gap_add:
  assumes "cur < n" "i < n"
  shows "(cur + ring_gap n cur i) mod n = i"
  using assms by (cases "cur \<le> i") (simp_all add: ring_gap_eq)

lemma ring_gap_closer:
  assumes "cur < n" "i < n" "a < ring_gap n cur i"
  shows "ring_gap n ((cur + a + 1) mod n) i < ring_gap n cur i"
proof (cases "cur + a + 1 < n")
  case True
  then show ?thesis using assms by (auto simp: ring_gap_eq split: if_splits)
next
  case False
  then have "cur + a + 1 < 2 * n" "\<not> cur \<le> i" using assms by (auto simp: ring_gap_eq split: if_splits)
  with False have "(cur + a + 1) mod n = cur + a + 1 - n" by (intro mod_once) auto
  with assms False \<open>\<not> cur \<le> i\<close> show ?thesis by (auto simp: ring_gap_eq split: if_splits)
qed
text \<open>How many slots lie between the cursor of a CPU and a slot.\<close>

definition distance :: "nat \<Rightarrow> nat \<Rightarrow> 'c kernel \<Rightarrow> nat" where
  "distance c i k = ring_gap PROCESS_MAX_COUNT (unat (c_sched_cursor (this_cpu c k))) i"

definition stacks_intact :: "'c kernel \<Rightarrow> bool" where
  "stacks_intact k \<longleftrightarrow> (\<forall>i<PROCESS_MAX_COUNT. p_loaded (proc k i) \<longrightarrow>
     ld64 (bytes (heap k)) (kstack_canary i k) = KSTACK_CANARY)"

lemma canary_from_intact: "stacks_intact k \<Longrightarrow> canary_from c i b k = Some (b, k)"
proof (induction c i b k rule: canary_from.induct)
  case (1 c i b k)
  show ?case
  proof (cases "i < PROCESS_MAX_COUNT")
    case True
    with "1.prems" have slot: "canary_slot c i k = Some (False, k)" by (auto simp: canary_slot_def stacks_intact_def)
    with "1.IH" [OF True slot refl] "1.prems" True show ?thesis by (simp add: canary_from.simps [of c i])
  qed (simp add: canary_from.simps [of c i])
qed

lemma canary_check_intact: "stacks_intact k \<Longrightarrow> kstack_canary_check c k = Some (False, k)"
  by (simp add: kstack_canary_check_def canary_from_intact)

lemma pick_slot:
  fixes cur :: u32
  assumes "unat cur < PROCESS_MAX_COUNT" "unat a < PROCESS_MAX_COUNT"
  shows "unat ((cur + a) mod of_nat PROCESS_MAX_COUNT) = (unat cur + unat a) mod PROCESS_MAX_COUNT"
  using assms by (simp add: PROCESS_MAX_COUNT_def unat_mod unat_word_ariths)

lemma pick_from_finds:
  assumes "unat a \<le> distance c i k" "i < PROCESS_MAX_COUNT" "runnable (proc k i)"
    and "unat (c_sched_cursor (this_cpu c k)) < PROCESS_MAX_COUNT"
  shows "\<exists>a'. unat a \<le> a' \<and> a' \<le> distance c i k \<and>
    pick_from c a k = (Some ((unat (c_sched_cursor (this_cpu c k)) + a') mod PROCESS_MAX_COUNT),
      upd_cpu c (\<lambda>x. x\<lparr>c_sched_cursor := of_nat ((unat (c_sched_cursor (this_cpu c k)) + a' + 1) mod PROCESS_MAX_COUNT)\<rparr>) k)"
  using assms
proof (induction c a k rule: pick_from.induct)
  case (1 c a k)
  define cur where "cur = c_sched_cursor (this_cpu c k)"
  have d: "distance c i k < PROCESS_MAX_COUNT" by (simp add: distance_def ring_gap_def PROCESS_MAX_COUNT_def)
  with "1.prems"(1) have a: "unat a < PROCESS_MAX_COUNT" by simp
  have cur: "unat cur < PROCESS_MAX_COUNT" using "1.prems"(4) by (simp add: cur_def)
  define slot where "slot = (cur + a) mod of_nat PROCESS_MAX_COUNT"
  have slot: "unat slot = (unat cur + unat a) mod PROCESS_MAX_COUNT"
    unfolding slot_def by (rule pick_slot [OF cur a])
  show ?case
  proof (cases "runnable (proc k (unat slot))")
    case True
    have "unat slot < PROCESS_MAX_COUNT" by (simp add: slot PROCESS_MAX_COUNT_def)
    then have "unat ((slot + 1) mod of_nat PROCESS_MAX_COUNT) = (unat slot + 1) mod PROCESS_MAX_COUNT"
      using pick_slot [of slot 1] by (simp add: PROCESS_MAX_COUNT_def)
    then have nxt: "(slot + 1) mod of_nat PROCESS_MAX_COUNT = (of_nat ((unat cur + unat a + 1) mod PROCESS_MAX_COUNT) :: u32)"
      using slot by (simp add: word_unat_eq_iff unat_of_nat mod_Suc_eq PROCESS_MAX_COUNT_def)
    from True a show ?thesis
      unfolding pick_from.simps [of c a] cur_def [symmetric] Let_def slot_def [symmetric]
      using "1.prems"(1) nxt slot by (intro exI [of _ "unat a"]) simp
  next
    case False
    have "unat a \<noteq> distance c i k"
    proof
      assume "unat a = distance c i k"
      then have "unat slot = i"
        using slot ring_gap_add [OF cur "1.prems"(2)] by (simp add: distance_def cur_def)
      with False "1.prems"(3) show False by simp
    qed
    with "1.prems"(1) have "unat a < distance c i k" by simp
    moreover have "unat (a + 1) = unat a + 1" using a by (simp add: unat_word_ariths PROCESS_MAX_COUNT_def)
    ultimately obtain a' where a': "unat a + 1 \<le> a'" "a' \<le> distance c i k"
      "pick_from c (a + 1) k = (Some ((unat cur + a') mod PROCESS_MAX_COUNT),
        upd_cpu c (\<lambda>x. x\<lparr>c_sched_cursor := of_nat ((unat cur + a' + 1) mod PROCESS_MAX_COUNT)\<rparr>) k)"
      using "1.IH" [OF a refl _ _ "1.prems"(2-4)] False unfolding cur_def slot_def by auto
    then show ?thesis
      unfolding pick_from.simps [of c a] cur_def [symmetric] Let_def slot_def [symmetric]
      using False a by (intro exI [of _ a']) simp
  qed
qed

lemma slice_begin_intact: "stacks_intact k \<Longrightarrow> \<exists>x. slice_begin c k = Some x"
  by (simp add: slice_begin_def canary_check_intact)

text \<open>One choice of CPU \<open>c\<close> while slot \<open>i\<close> is runnable: slot \<open>i\<close> itself, or the cursor comes closer.\<close>

lemma choose_progress:
  assumes "slice_begin c k = Some (r, k')" "stacks_intact k" "runnable (proc k i)" "i < PROCESS_MAX_COUNT"
    and "c < length (cpus k)" "unat (c_sched_cursor (this_cpu c k)) < PROCESS_MAX_COUNT"
  shows "(\<exists>en. r = Some (i, en)) \<or>
    distance c i k' < distance c i k"
    "unat (c_sched_cursor (this_cpu c k')) < PROCESS_MAX_COUNT"
    "length (cpus k') = length (cpus k)"
proof -
  define cur where "cur = unat (c_sched_cursor (this_cpu c k))"
  obtain a where a: "a \<le> distance c i k" "process_pick_next_ready c k = (Some ((cur + a) mod PROCESS_MAX_COUNT),
      upd_cpu c (\<lambda>x. x\<lparr>c_sched_cursor := of_nat ((cur + a + 1) mod PROCESS_MAX_COUNT)\<rparr>) k)"
    using pick_from_finds [of 0 c i k] assms by (auto simp: process_pick_next_ready_def cur_def)
  define slot where "slot = (cur + a) mod PROCESS_MAX_COUNT"
  define k1 where "k1 = upd_cpu c (\<lambda>x. x\<lparr>c_sched_cursor := of_nat ((cur + a + 1) mod PROCESS_MAX_COUNT)\<rparr>) k"
  have k1: "cursors k1 = (cursors k)[c := of_nat ((cur + a + 1) mod PROCESS_MAX_COUNT)]"
    by (simp add: k1_def cursors_def upd_cpu_def map_update)
  obtain en where en: "r = Some (slot, en)" "dispatch c slot k1 = (en, k')"
    using assms(1) unfolding slice_begin_def canary_check_intact [OF assms(2)]
    by (auto simp: a(2) slot_def k1_def split: prod.splits)
  have k': "cursors k' = (cursors k)[c := of_nat ((cur + a + 1) mod PROCESS_MAX_COUNT)]"
    using sched.P_dispatch [OF en(2) refl] k1 by simp
  then show len: "length (cpus k') = length (cpus k)" by (metis cursors_def length_list_update length_map)
  have cur': "c_sched_cursor (this_cpu c k') = of_nat ((cur + a + 1) mod PROCESS_MAX_COUNT)"
    using arg_cong [OF k', of "\<lambda>l. l ! c"] assms(5) len by (simp add: cursors_def)
  then show "unat (c_sched_cursor (this_cpu c k')) < PROCESS_MAX_COUNT"
    by (simp add: unat_of_nat PROCESS_MAX_COUNT_def)
  have cur: "cur < PROCESS_MAX_COUNT" using assms(6) by (simp add: cur_def)
  have d: "distance c i k = ring_gap PROCESS_MAX_COUNT cur i" by (simp add: distance_def cur_def)
  show "(\<exists>en. r = Some (i, en)) \<or> distance c i k' < distance c i k"
  proof (cases "slot = i")
    case False
    then have "a < distance c i k"
      using a(1) ring_gap_add [OF cur assms(4)] by (auto simp: slot_def d less_le)
    moreover have "distance c i k' = ring_gap PROCESS_MAX_COUNT ((cur + a + 1) mod PROCESS_MAX_COUNT) i"
      by (simp add: distance_def cur' unat_of_nat PROCESS_MAX_COUNT_def)
    ultimately show ?thesis using ring_gap_closer [OF cur assms(4)] d by simp
  qed (use en in auto)
qed

fun choices :: "nat \<Rightarrow> (event \<times> 'c kernel) list \<Rightarrow> nat" where
  "choices c [] = 0"
| "choices c ((e, k1) # es) = (case e of Choose c' r \<Rightarrow> if c' = c then 1 else 0 | _ \<Rightarrow> 0) + choices c es"

text \<open>Slot \<open>i\<close> can run, and no kernel stack has overflowed, whenever CPU \<open>c\<close> makes a choice.\<close>

fun ready_at_choices :: "nat \<Rightarrow> nat \<Rightarrow> 'c kernel \<Rightarrow> (event \<times> 'c kernel) list \<Rightarrow> bool" where
  "ready_at_choices c i k [] \<longleftrightarrow> True"
| "ready_at_choices c i k ((e, k1) # es) \<longleftrightarrow>
     (case e of Choose c' r \<Rightarrow> c' = c \<longrightarrow> stacks_intact k \<and> runnable (proc k i) | _ \<Rightarrow> True) \<and>
     ready_at_choices c i k1 es"

lemma pick_from_cursors: "pick_from c a k = (r, k') \<Longrightarrow> \<exists>v. cursors k' = (cursors k)[c := v]"
proof (induction c a k rule: pick_from.induct)
  case (1 c a k)
  show ?case
  proof (cases "unat a < PROCESS_MAX_COUNT")
    case True
    then show ?thesis
      using "1.IH" [OF True refl] "1.prems"
      by (auto simp: pick_from.simps [of c a] Let_def cursors_def upd_cpu_def map_update split: if_splits)
  next
    case False
    with "1.prems" have "k' = k" by (simp add: pick_from.simps [of c a])
    then show ?thesis by (intro exI [of _ "cursors k ! c"]) simp
  qed
qed

lemma choose_cursors:
  assumes "slice_begin c k = Some (r, k')"
  shows "\<exists>v. cursors k' = (cursors k)[c := v]"
proof -
  obtain b k1 where k1: "kstack_canary_check c k = Some (b, k1)"
    using assms by (auto simp: slice_begin_def split: bind_splits)
  obtain s k2 where k2: "process_pick_next_ready c k1 = (s, k2)" by force
  have "cursors k' = cursors k2"
    using assms k1 k2 by (auto simp: slice_begin_def split: option.splits prod.splits dest: sched.P_dispatch)
  moreover obtain v where "cursors k2 = (cursors k1)[c := v]"
    using pick_from_cursors k2 unfolding process_pick_next_ready_def by blast
  ultimately show ?thesis using sched.P_canary_check [OF k1 refl] by auto
qed

lemma other_step:
  assumes "kernel_step e k k'" "\<And>r. e \<noteq> Choose c r"
  shows "c < length (cpus k) \<Longrightarrow> c_sched_cursor (this_cpu c k') = c_sched_cursor (this_cpu c k)"
    and "length (cpus k') = length (cpus k)"
proof -
  obtain d v where dv: "cursors k' = (cursors k)[d := v]" "d \<noteq> c \<or> v = cursors k ! c"
  proof (cases "\<exists>d r. e = Choose d r")
    case True
    then obtain d r where "e = Choose d r" by blast
    with assms that show ?thesis by (metis choose_stepE choose_cursors)
  next
    case False
    then have "cursors k' = (cursors k)[c := cursors k ! c]" using step_cursors [OF assms(1)] by simp
    with that show ?thesis by blast
  qed
  then show len: "length (cpus k') = length (cpus k)" by (metis cursors_def length_list_update length_map)
  assume "c < length (cpus k)"
  then show "c_sched_cursor (this_cpu c k') = c_sched_cursor (this_cpu c k)"
    using arg_cong [OF dv(1), of "\<lambda>l. l ! c"] dv(2) len by (cases "d = c") (auto simp: cursors_def)
qed

text \<open>
  C6. No process starves. In every run of the kernel, with any number of CPUs, a slot that can run
  whenever CPU \<open>c\<close> makes a choice is entered by CPU \<open>c\<close> at the latest when it has made one choice for
  each slot between its cursor and the slot, that is after at most 48 choices.
\<close>

theorem scheduler_no_starvation:
  assumes "kernel_run k es" and "ready_at_choices c i k es" and "i < PROCESS_MAX_COUNT"
    and "c < length (cpus k)" and "unat (c_sched_cursor (this_cpu c k)) < PROCESS_MAX_COUNT"
    and "distance c i k < choices c es"
  shows "\<exists>en k'. (Choose c (Some (i, en)), k') \<in> set es"
  using assms
proof (induction es arbitrary: k)
  case (Cons x es)
  obtain e k1 where x: "x = (e, k1)" by force
  from Cons.prems x have step: "kernel_step e k k1" and run: "kernel_run k1 es" "ready_at_choices c i k1 es" by auto
  show ?case
  proof (cases "\<exists>r. e = Choose c r")
    case True
    then obtain r where e: "e = Choose c r" by blast
    with step have sb: "slice_begin c k = Some (r, k1)" by (auto elim: choose_stepE)
    have rdy: "stacks_intact k" "runnable (proc k i)" using Cons.prems(2) x e by auto
    note progress = choose_progress [OF sb rdy Cons.prems(3-5)]
    show ?thesis
    proof (cases "\<exists>en. r = Some (i, en)")
      case True
      with x e show ?thesis by auto
    next
      case False
      with progress(1) Cons.prems(6) x e have "distance c i k1 < choices c es" by simp
      with Cons.IH [OF run Cons.prems(3)] progress(2,3) Cons.prems(4) show ?thesis by auto
    qed
  next
    case False
    then have ne: "\<And>r. e \<noteq> Choose c r" by blast
    note keep = other_step [OF step ne]
    have "distance c i k1 = distance c i k" using keep(1) [OF Cons.prems(4)] by (simp add: distance_def)
    moreover have "choices c (x # es) = choices c es" using ne x by (cases e) auto
    ultimately have "distance c i k1 < choices c es" using Cons.prems(6) by simp
    with Cons.IH [OF run Cons.prems(3)] keep Cons.prems(4,5) show ?thesis by auto
  qed
qed simp

lemmas demo_simps = demo_kernel_def ready_process_def empty_process_def idle_cpu_def PROCESS_MAX_COUNT_def

lemma demo_stacks: "stacks_intact demo_kernel"
proof -
  have "ld64 (bytes (heap demo_kernel)) (kstack_canary i demo_kernel) = KSTACK_CANARY" if "i < 2" for i
    using that by (auto simp: less_2_cases_iff demo_kernel_def demo_statics_def kstack_canary_def
        PROCESS_KERNEL_STACK_SIZE_def mem_simps apart_def)
  moreover have "\<not> p_loaded (proc demo_kernel i)" if "2 \<le> i" "i < PROCESS_MAX_COUNT" for i
    using that by (auto simp: demo_simps)
  ultimately show ?thesis unfolding stacks_intact_def by (metis not_le)
qed

lemma demo_facts:
  "runnable (proc demo_kernel 0)" "runnable (proc demo_kernel 1)"
  "length (cpus demo_kernel) = 2" "c_sched_cursor (this_cpu 0 demo_kernel) = 0"
  by (simp_all add: demo_simps runnable_def)

theorem scheduler_no_starvation_witness:
  "\<exists>r k' en. slice_begin 0 demo_kernel = Some (r, k') \<and> r = Some (0, en)"
proof -
  obtain r k' where sb: "slice_begin 0 demo_kernel = Some (r, k')"
    using slice_begin_intact [OF demo_stacks] by fastforce
  let ?es = "[(Choose 0 r, k')]"
  have "kernel_run demo_kernel ?es" using sb by (simp add: kernel_step.choose)
  moreover have "ready_at_choices 0 0 demo_kernel ?es" by (simp add: demo_stacks demo_facts)
  moreover have "distance 0 0 demo_kernel < choices 0 ?es"
    by (simp add: distance_def ring_gap_def demo_facts PROCESS_MAX_COUNT_def)
  ultimately have "\<exists>en k''. (Choose 0 (Some (0, en)), k'') \<in> set ?es"
    using scheduler_no_starvation [of demo_kernel ?es 0 0] demo_facts by (simp add: PROCESS_MAX_COUNT_def)
  then show ?thesis using sb by auto
qed

end
