(* ===== verification/Process_Correct.thy ===== *)
theory Process_Correct
  imports Scheduler
begin

text \<open>
  The life of a process: what \<open>process_reap\<close> gives back, how the exit status reaches the parent,
  and what happens to a process that is killed while another CPU runs it.
\<close>

named_theorems kernel_simps

section \<open>Updates of the state\<close>

definition table_ok :: "'c kernel \<Rightarrow> bool" where
  "table_ok k \<longleftrightarrow> length (g_processes k) = PROCESS_MAX_COUNT"

lemma nth_update_if: "xs[i := x] ! j = (if i = j \<and> i < length xs then x else xs ! j)"
  by (cases "i < length xs") (auto simp: list_update_beyond nth_list_update)

lemma g_processes_upd_proc [kernel_simps]:
  "g_processes (upd_proc i f k) = (g_processes k)[i := f (g_processes k ! i)]"
  by (simp add: upd_proc_def)

lemma upd_proc_fields [kernel_simps]:
  "cpus (upd_proc i f k) = cpus k" "heap (upd_proc i f k) = heap k" "ttys (upd_proc i f k) = ttys k"
  "desktop_active (upd_proc i f k) = desktop_active k" "clock (upd_proc i f k) = clock k"
  by (simp_all add: upd_proc_def)

lemma log_fields [kernel_simps]:
  "g_processes (klog_hex l p s v k) = g_processes k" "cpus (klog_hex l p s v k) = cpus k" "heap (klog_hex l p s v k) = heap k"
  "desktop_active (klog_hex l p s v k) = desktop_active k" "ttys (klog_hex l p s v k) = ttys k"
  by (simp_all add: klog_hex_def)

lemma ext_call_fields [kernel_simps]:
  "g_processes (ext_call e k) = g_processes k" "cpus (ext_call e k) = cpus k" "heap (ext_call e k) = heap k"
  "desktop_active (ext_call e k) = desktop_active k"
  by (simp_all add: ext_call_def)

lemma close_app_fields [kernel_simps]:
  "g_processes (close_app pid k) = g_processes k" "cpus (close_app pid k) = cpus k" "heap (close_app pid k) = heap k"
  by (simp_all add: close_app_def kernel_simps)

lemma deschedule_fields [kernel_simps]:
  "g_processes (set_current c s k) = g_processes k" "g_processes (set_result c r k) = g_processes k"
  "g_processes (deschedule c r k) = g_processes k" "heap (deschedule c r k) = heap k"
  "g_processes (upd_cpu c f k) = g_processes k" "heap (upd_cpu c f k) = heap k"
  "cpus (upd_cpu c f k) = (cpus k)[c := f (cpus k ! c)]"
  by (simp_all add: set_current_def set_result_def deschedule_def upd_cpu_def)

lemma terminate_fields [kernel_simps]:
  "g_processes (terminate_slot code i k) =
     (g_processes k)[i := (proc k i)\<lparr>p_exit_code := code, p_state := PROCESS_STATE_EXITED\<rparr>]"
  "cpus (terminate_slot code i k) = cpus k" "heap (terminate_slot code i k) = heap k"
  by (simp_all add: terminate_slot_def kernel_simps)

section \<open>What reaping does to the table\<close>

definition reaped :: "u64 list \<Rightarrow> process \<Rightarrow> process" where
  "reaped chunks p = p\<lparr>p_loaded := False, p_state := PROCESS_STATE_EMPTY, p_pid := 0, p_parent_pid := 0,
     p_wait_target_pid := 0, p_exit_code := 0, p_entry := 0, p_user_stack_top := 0, p_user_virtual_base := 0,
     p_code_size := 0, p_is_thread := False, p_user_image_allocation := 0, p_user_image_pages := 0,
     p_user_image_capacity := 0, p_user_page_tables := 0, p_cr3 := 0, p_heap_start := 0, p_heap_break := 0,
     p_heap_chunks := chunks, p_heap_chunk_count := 0, p_runtime_ticks := 0, p_switch_count := 0,
     p_preempt_count := 0, p_wake_tick := 0, p_pending_read_fd := -1, p_pending_read_buffer := 0,
     p_pending_read_count := 0,
     p_vfs_handles := map (\<lambda>h. h\<lparr>vh_file := None, vh_offset := 0, vh_used := False\<rparr>)
         (take PROCESS_VFS_HANDLE_CAPACITY (p_vfs_handles p)) @ drop PROCESS_VFS_HANDLE_CAPACITY (p_vfs_handles p),
     p_cwd := ascii ''/'', p_spawn_arg := [], p_name := []\<rparr>"

text \<open>Only the heap, the journal, the recorded calls and one slot differ between \<open>k\<close> and \<open>k'\<close>.\<close>

definition slot_change :: "nat \<Rightarrow> process \<Rightarrow> 'c kernel \<Rightarrow> 'c kernel \<Rightarrow> bool" where
  "slot_change i p k k' \<longleftrightarrow> g_processes k' = (g_processes k)[i := p] \<and> g_next_pid k' = g_next_pid k \<and>
     cpus k' = cpus k \<and> g_cpu_count k' = g_cpu_count k \<and>
     g_window_manager_requested k' = g_window_manager_requested k \<and> g_desktop_uid k' = g_desktop_uid k \<and>
     g_image_alloc_quarantine k' = g_image_alloc_quarantine k \<and> clock k' = clock k \<and> ttys k' = ttys k \<and>
     ptys k' = ptys k \<and> vfsys k' = vfsys k \<and> desktop_active k' = desktop_active k \<and>
     g_fault_regs k' = g_fault_regs k \<and> statics k' = statics k"

lemma slot_change_refl: "slot_change i (proc k i) k k"
  by (simp add: slot_change_def)

lemma slot_change_trans:
  "slot_change i p k k1 \<Longrightarrow> slot_change i q k1 k2 \<Longrightarrow> slot_change i q k k2"
  by (simp add: slot_change_def)

lemma slot_change_proc: "slot_change i p k k' \<Longrightarrow> i < length (g_processes k) \<Longrightarrow> proc k' i = p"
  by (simp add: slot_change_def)

lemma slot_change_upd: "slot_change i (f (proc k i)) k (upd_proc i f k)"
  by (simp add: slot_change_def upd_proc_def)

lemma slot_change_then:
  assumes "slot_change i p k k1" "i < length (g_processes k)"
  shows "slot_change i (f p) k (upd_proc i f k1)"
  using slot_change_trans [OF assms(1) slot_change_upd [of i f k1]] slot_change_proc [OF assms] by simp

lemma slot_change_heap: "with_heap f k = Some k' \<Longrightarrow> slot_change i (proc k i) k k'"
  by (auto simp: with_heap_def slot_change_def)

lemma free_chunks_change:
  assumes "i < length (g_processes k)"
  shows "free_chunks n x i k = Some k' \<Longrightarrow> \<exists>cs. slot_change i ((proc k i)\<lparr>p_heap_chunks := cs\<rparr>) k k'"
  using assms
proof (induction n x i k rule: free_chunks.induct)
  case (1 n x i k)
  have stop: "\<exists>cs. slot_change i ((proc k i)\<lparr>p_heap_chunks := cs\<rparr>) k k"
    using slot_change_refl [of i k] by (intro exI [of _ "p_heap_chunks (proc k i)"]) simp
  show ?case
  proof (cases "x < n")
    case True
    show ?thesis
    proof (cases "p_heap_chunks (proc k i) ! x \<noteq> 0")
      case chunk: True
      define f where "f = (\<lambda>p :: process. p\<lparr>p_heap_chunks := (p_heap_chunks p)[x := 0]\<rparr>)"
      from chunk True "1.prems"(1) obtain k1 where k1: "with_heap (kfree (p_heap_chunks (proc k i) ! x)) k = Some k1"
        "free_chunks n (x + 1) i (upd_proc i f k1) = Some k'"
        by (auto simp: free_chunks.simps [of n x] Let_def f_def split: bind_splits)
      have ch: "slot_change i (f (proc k i)) k (upd_proc i f k1)"
        by (rule slot_change_then [OF slot_change_heap [OF k1(1)] "1.prems"(2)])
      have "i < length (g_processes (upd_proc i f k1))" using ch "1.prems"(2) by (simp add: slot_change_def)
      with "1.IH"(1) [OF True refl chunk k1(1)] k1(2) obtain cs
        where "slot_change i ((proc (upd_proc i f k1) i)\<lparr>p_heap_chunks := cs\<rparr>) (upd_proc i f k1) k'"
        unfolding f_def by blast
      with slot_change_trans [OF ch this] slot_change_proc [OF ch "1.prems"(2)] show ?thesis by (auto simp: f_def)
    next
      case False
      with True "1.prems" "1.IH"(2) show ?thesis by (simp add: free_chunks.simps [of n x])
    qed
  next
    case False
    with "1.prems" stop show ?thesis by (simp add: free_chunks.simps [of n x])
  qed
qed

lemma free_image_change:
  assumes "free_image i k = Some k'" "i < length (g_processes k)"
  shows "\<exists>cs n s b. slot_change i ((proc k i)\<lparr>p_heap_chunks := cs, p_heap_chunk_count := n, p_heap_start := s,
    p_heap_break := b\<rparr>) k k'"
proof (cases "\<not> p_is_thread (proc k i) \<and> p_user_image_allocation (proc k i) \<noteq> 0")
  case True
  define f where "f = (\<lambda>p :: process. p\<lparr>p_heap_chunk_count := 0, p_heap_start := 0, p_heap_break := 0\<rparr>)"
  from True assms obtain k1 a where k1: "free_chunks (unat (p_heap_chunk_count (proc k i))) 0 i k = Some k1"
    "with_heap (process_image_free a) (upd_proc i f k1) = Some k'"
    by (auto simp: free_image_def process_free_heap_chunks_def f_def split: bind_splits)
  obtain cs where cs: "slot_change i ((proc k i)\<lparr>p_heap_chunks := cs\<rparr>) k k1"
    using free_chunks_change [OF assms(2) k1(1)] by blast
  have "slot_change i (f ((proc k i)\<lparr>p_heap_chunks := cs\<rparr>)) k (upd_proc i f k1)"
    by (rule slot_change_then [OF cs assms(2)])
  from slot_change_trans [OF this slot_change_heap [OF k1(2)]] slot_change_proc [OF this assms(2)]
  show ?thesis by (auto simp: f_def)
next
  case False
  with assms have "k' = k" by (auto simp: free_image_def split: if_splits)
  with slot_change_refl [of i k] show ?thesis
    by (intro exI [of _ "p_heap_chunks (proc k i)"] exI [of _ "p_heap_chunk_count (proc k i)"]
        exI [of _ "p_heap_start (proc k i)"] exI [of _ "p_heap_break (proc k i)"]) simp
qed

lemma reap_change:
  assumes "process_reap i k = Some k'" "i < length (g_processes k)"
  shows "\<exists>cs. slot_change i (reaped cs (proc k i)) k k'"
proof -
  define f where "f = (\<lambda>p :: process. p\<lparr>p_loaded := False, p_state := PROCESS_STATE_EMPTY, p_pid := 0, p_parent_pid := 0,
     p_wait_target_pid := 0, p_exit_code := 0, p_entry := 0, p_user_stack_top := 0,
     p_user_virtual_base := 0, p_code_size := 0\<rparr>)"
  define g where "g = (\<lambda>p :: process. p\<lparr>p_is_thread := False, p_user_image_allocation := 0,
     p_user_image_pages := 0, p_user_image_capacity := 0, p_user_page_tables := 0, p_cr3 := 0,
     p_heap_start := 0, p_heap_break := 0, p_heap_chunk_count := 0, p_runtime_ticks := 0,
     p_switch_count := 0, p_preempt_count := 0, p_wake_tick := 0, p_pending_read_fd := -1,
     p_pending_read_buffer := 0, p_pending_read_count := 0\<rparr>)"
  define h where "h = (\<lambda>p :: process. p\<lparr>p_cwd := ascii ''/'', p_spawn_arg := [], p_name := []\<rparr>)"
  define r where "r = (\<lambda>p :: process. p\<lparr>p_vfs_handles :=
     map (\<lambda>h. h\<lparr>vh_file := None, vh_offset := 0, vh_used := False\<rparr>) (take PROCESS_VFS_HANDLE_CAPACITY (p_vfs_handles p)) @
     drop PROCESS_VFS_HANDLE_CAPACITY (p_vfs_handles p)\<rparr>)"
  define k0 where "k0 = ext_call (Audio_release_voice (p_pid (proc k i))) (if p_loaded (proc k i)
     then klog_hex JOURNAL_INFO (p_pid (proc k i)) ''kstack peak bytes='' (of_nat (kstack_highwater i k)) k else k)"
  have k0: "slot_change i (proc k i) k k0" by (simp add: k0_def slot_change_def klog_hex_def ext_call_def)
  obtain k1 where k1: "free_image i (upd_proc i f k0) = Some k1"
    and k': "k' = upd_proc i h (upd_proc i r (upd_proc i g k1))"
    using assms(1) unfolding process_reap_def Let_def process_reset_vfs_handles_def f_def [symmetric] g_def [symmetric]
      h_def [symmetric] r_def [symmetric] k0_def [symmetric]
    by (auto split: bind_splits)
  have c1: "slot_change i (f (proc k i)) k (upd_proc i f k0)" by (rule slot_change_then [OF k0 assms(2)])
  have "i < length (g_processes (upd_proc i f k0))" using c1 assms(2) by (simp add: slot_change_def)
  from free_image_change [OF k1 this] slot_change_proc [OF c1 assms(2)] obtain cs n s b
    where "slot_change i ((f (proc k i))\<lparr>p_heap_chunks := cs, p_heap_chunk_count := n, p_heap_start := s,
      p_heap_break := b\<rparr>) (upd_proc i f k0) k1" by auto
  then have c2: "slot_change i ((f (proc k i))\<lparr>p_heap_chunks := cs, p_heap_chunk_count := n, p_heap_start := s,
      p_heap_break := b\<rparr>) k k1" by (rule slot_change_trans [OF c1])
  note c3 = slot_change_then [OF c2 assms(2), of g]
  note c4 = slot_change_then [OF slot_change_then [OF c3 assms(2), of r] assms(2), of h]
  moreover have "h (r (g ((f (proc k i))\<lparr>p_heap_chunks := cs, p_heap_chunk_count := n, p_heap_start := s, p_heap_break := b\<rparr>))) =
      reaped cs (proc k i)"
    by (simp add: f_def g_def h_def r_def reaped_def)
  ultimately show ?thesis using k' by metis
qed

lemma reaped_simps [simp]:
  "\<not> p_loaded (reaped ch p)" "p_state (reaped ch p) = PROCESS_STATE_EMPTY" "p_pid (reaped ch p) = 0"
  "p_cr3 (reaped ch p) = 0" "p_context (reaped ch p) = p_context p" "p_running_on_cpu (reaped ch p) = p_running_on_cpu p"
  "p_kresume_rsp (reaped ch p) = p_kresume_rsp p" "p_parent_pid (reaped ch p) = 0" "p_preempt_count (reaped ch p) = 0"
  by (simp_all add: reaped_def)

section \<open>Waking the parent\<close>

lemma first_slotD:
  assumes "first_slot P k = Some i"
  shows "i < PROCESS_MAX_COUNT" "P (proc k i)" "\<And>j. j < i \<Longrightarrow> \<not> P (proc k j)"
  using assms by (auto simp: first_slot_def find_Some_iff)

lemma find_by_pidD:
  assumes "process_find_by_pid pid k = Some i"
  shows "pid \<noteq> 0" "i < PROCESS_MAX_COUNT" "p_loaded (proc k i)" "p_pid (proc k i) = pid"
  using assms first_slotD [of "\<lambda>p. p_loaded p \<and> p_pid p = pid" k i]
  by (auto simp: process_find_by_pid_def split: if_splits)

lemma first_slot_cong:
  assumes "\<And>i. i < PROCESS_MAX_COUNT \<Longrightarrow> P (proc k i) = Q (proc k' i)"
  shows "first_slot P k = first_slot Q k'"
  unfolding first_slot_def using assms by (intro find_cong) auto

lemma find_by_pid_cong:
  assumes "\<And>i. i < PROCESS_MAX_COUNT \<Longrightarrow> p_loaded (proc k i) = p_loaded (proc k' i) \<and> p_pid (proc k i) = p_pid (proc k' i)"
  shows "process_find_by_pid pid k = process_find_by_pid pid k'"
  using assms by (auto simp: process_find_by_pid_def intro!: first_slot_cong)

text \<open>The parent in slot \<open>j\<close> waits for the process in slot \<open>i\<close>.\<close>

definition waits_for :: "nat \<Rightarrow> nat \<Rightarrow> 'c kernel \<Rightarrow> bool" where
  "waits_for j i k \<longleftrightarrow> process_find_by_pid (p_parent_pid (proc k i)) k = Some j \<and>
     p_state (proc k j) = PROCESS_STATE_WAITING \<and>
     (p_wait_target_pid (proc k j) = 0 \<or> p_wait_target_pid (proc k j) = p_pid (proc k i))"

definition delivered :: "u32 \<Rightarrow> u32 \<Rightarrow> process \<Rightarrow> process" where
  "delivered pid code q = q\<lparr>p_wait_target_pid := 0,
     p_context := (p_context q)\<lparr>rax := ucast pid, rdx := ucast code\<rparr>, p_state := PROCESS_STATE_READY\<rparr>"

lemma wake_waiter_waiting:
  assumes "waits_for j i k" "process_wake_waiter i k = Some k'" "table_ok k" "i < PROCESS_MAX_COUNT" "i \<noteq> j"
  shows "\<exists>cs. slot_change i (reaped cs (proc k i)) (upd_proc j (delivered (p_pid (proc k i)) (p_exit_code (proc k i))) k) k'"
proof -
  have par: "p_parent_pid (proc k i) \<noteq> 0" using assms(1) find_by_pidD by (auto simp: waits_for_def)
  have "process_reap i (upd_proc j (delivered (p_pid (proc k i)) (p_exit_code (proc k i))) k) = Some k'"
    using assms(1,2) par by (auto simp: process_wake_waiter_def waits_for_def delivered_def [abs_def] Let_def)
  from reap_change [OF this] assms(3-5) show ?thesis by (simp add: kernel_simps table_ok_def)
qed

lemma wake_waiter_none:
  assumes "\<And>j. \<not> waits_for j i k"
  shows "process_wake_waiter i k = Some k"
  using assms by (auto simp: process_wake_waiter_def waits_for_def Let_def split: option.splits)

section \<open>Threads of a process\<close>

definition no_threads :: "nat \<Rightarrow> 'c kernel \<Rightarrow> bool" where
  "no_threads i k \<longleftrightarrow> (\<forall>t<PROCESS_MAX_COUNT. t \<noteq> i \<longrightarrow> p_loaded (proc k t) \<longrightarrow> p_is_thread (proc k t) \<longrightarrow>
     p_user_page_tables (proc k t) \<noteq> p_user_page_tables (proc k i))"

lemma kill_siblings_none: "no_threads w k \<Longrightarrow> kill_siblings_from c w i k = Some k"
proof (induction c w i k rule: kill_siblings_from.induct)
  case (1 c w i k)
  show ?case
  proof (cases "i < PROCESS_MAX_COUNT")
    case True
    with "1.prems" have "kill_sibling c w i k = Some k" by (auto simp: kill_sibling_def no_threads_def Let_def)
    with True "1.IH" "1.prems" show ?thesis by (simp add: kill_siblings_from.simps [of c w i])
  qed (simp add: kill_siblings_from.simps [of c w i])
qed

lemma kill_sibling_threads_none: "no_threads i k \<Longrightarrow> process_kill_sibling_threads c i k = Some k"
  by (simp add: process_kill_sibling_threads_def kill_siblings_none)

section \<open>Exit and wait\<close>

text \<open>The state in which \<open>SYS_EXIT\<close> looks for threads and for a waiting parent.\<close>

definition exiting :: "u64 \<Rightarrow> nat \<Rightarrow> 'c kernel \<Rightarrow> 'c kernel" where
  "exiting code i k = klog_hex JOURNAL_INFO (p_pid (proc (terminate_slot (ucast code) i (close_app (p_pid (proc k i)) k)) i))
     ''process exited, code='' code (terminate_slot (ucast code) i (close_app (p_pid (proc k i)) k))"

lemma exiting_fields:
  "g_processes (exiting code i k) = (g_processes k)[i := (proc k i)\<lparr>p_exit_code := ucast code, p_state := PROCESS_STATE_EXITED\<rparr>]"
  "cpus (exiting code i k) = cpus k"
  by (simp_all add: exiting_def kernel_simps)

lemma exiting_find: "process_find_by_pid pid (exiting code i k) = process_find_by_pid pid k"
  by (rule find_by_pid_cong) (auto simp: exiting_fields nth_update_if)

lemma exiting_waits:
  assumes "table_ok k" "i < PROCESS_MAX_COUNT"
  shows "waits_for j i (exiting code i k) \<longleftrightarrow> j \<noteq> i \<and> waits_for j i k"
  using assms by (auto simp: waits_for_def exiting_find exiting_fields table_ok_def nth_list_update)

lemma exiting_no_threads:
  assumes "no_threads i k" "table_ok k" "i < PROCESS_MAX_COUNT"
  shows "no_threads i (exiting code i k)"
  using assms by (auto simp: no_threads_def exiting_fields table_ok_def nth_list_update)

lemma exit_eq:
  assumes "no_threads i k" "table_ok k" "i < PROCESS_MAX_COUNT"
  shows "sys_exit c i frame k = map_option (\<lambda>k. (True, frame, deschedule c PROCESS_RUN_EXITED k))
    (process_wake_waiter i (exiting (rdi frame) i k))"
  using kill_sibling_threads_none [OF exiting_no_threads [OF assms]]
  by (simp add: sys_exit_def exiting_def [symmetric] Let_def) (auto split: bind_splits option.splits simp: map_option_case)

text \<open>A process that has ended and has not been waited for.\<close>

definition zombie :: "nat \<Rightarrow> u32 \<Rightarrow> u32 \<Rightarrow> u32 \<Rightarrow> 'c kernel \<Rightarrow> bool" where
  "zombie i pid par code k \<longleftrightarrow> table_ok k \<and> i < PROCESS_MAX_COUNT \<and> process_find_by_pid pid k = Some i \<and>
     p_state (proc k i) = PROCESS_STATE_EXITED \<and> p_running_on_cpu (proc k i) = -1 \<and>
     p_parent_pid (proc k i) = par \<and> p_exit_code (proc k i) = code"

lemma find_exited_zombie:
  assumes "zombie i pid par code k"
  shows "process_find_exited_child par pid k = Some i"
proof -
  have "process_find_by_pid pid k = Some i" "pid \<noteq> 0" using assms find_by_pidD(1) by (auto simp: zombie_def)
  then have f: "first_slot (\<lambda>p. p_loaded p \<and> p_pid p = pid) k = Some i" by (simp add: process_find_by_pid_def)
  have "\<not> (p_loaded (proc k m) \<and> p_pid (proc k m) = pid)" if "m < i" for m using first_slotD(3) [OF f that] .
  with first_slotD(2) [OF f] assms show ?thesis
    by (auto simp: process_find_exited_child_def first_slot_def find_Some_iff zombie_def \<open>pid \<noteq> 0\<close> intro!: exI [of _ i])
qed

lemma reap_borrowed:
  assumes "p_user_image_allocation (proc k i) = 0"
  shows "\<exists>k'. process_reap i k = Some k'"
  using assms
  by (auto simp: process_reap_def Let_def free_image_def upd_proc_def ext_call_def klog_hex_def nth_update_if)

lemma waitpid_zombie:
  assumes "zombie i pid par code k" "p_pid (proc k j) = par" "ucast (rdi f) = pid"
  shows "sys_waitpid d j f k = map_option (\<lambda>k'. (False, f\<lparr>rax := ucast pid, rdx := ucast code\<rparr>, k')) (process_reap i k)"
    and "process_reap i k = Some k' \<Longrightarrow> \<not> p_loaded (proc k' i) \<and> p_state (proc k' i) = PROCESS_STATE_EMPTY"
proof -
  have i: "i < length (g_processes k)" "p_pid (proc k i) = pid" "p_exit_code (proc k i) = code"
    using assms(1) find_by_pidD(4) by (auto simp: zombie_def table_ok_def)
  show "sys_waitpid d j f k = map_option (\<lambda>k'. (False, f\<lparr>rax := ucast pid, rdx := ucast code\<rparr>, k')) (process_reap i k)"
    using find_exited_zombie [OF assms(1)] i by (simp add: sys_waitpid_def Let_def assms(2,3) map_option_case split: option.splits)
  assume "process_reap i k = Some k'"
  from reap_change [OF this i(1)] obtain ch where "proc k' i = reaped ch (proc k i)"
    using slot_change_proc i(1) by blast
  then show "\<not> p_loaded (proc k' i) \<and> p_state (proc k' i) = PROCESS_STATE_EMPTY" by simp
qed

text \<open>Updates of a slot that the search for a waiting parent does not see.\<close>

definition unseen :: "(process \<Rightarrow> process) \<Rightarrow> bool" where
  "unseen f \<longleftrightarrow> (\<forall>p. p_loaded (f p) = p_loaded p \<and> p_pid (f p) = p_pid p \<and> p_state (f p) = p_state p \<and>
     p_parent_pid (f p) = p_parent_pid p \<and> p_wait_target_pid (f p) = p_wait_target_pid p)"

lemma unseen_find: "unseen f \<Longrightarrow> process_find_by_pid pid (upd_proc i f k) = process_find_by_pid pid k"
  by (rule find_by_pid_cong) (auto simp: kernel_simps nth_update_if unseen_def)

lemma unseen_waits: "unseen f \<Longrightarrow> waits_for n m (upd_proc i f k) = waits_for n m k"
  using unseen_find [of f _ i k] by (auto simp: waits_for_def kernel_simps nth_update_if unseen_def)

definition released :: "u8 list \<Rightarrow> process \<Rightarrow> process" where
  "released fpu p = p\<lparr>p_fpu_state := fpu, p_running_on_cpu := -1\<rparr>"

lemma unseen_released: "unseen (released fpu)"
  by (simp add: unseen_def released_def)

lemma unseen_ticks: "unseen (\<lambda>p. p\<lparr>p_runtime_ticks := p_runtime_ticks p + 1\<rparr>)"
  by (simp add: unseen_def)

lemma slice_end_no_waiter:
  assumes "p_state (proc k i) \<noteq> PROCESS_STATE_EXITED \<or> (\<forall>n. \<not> waits_for n i k)"
  shows "\<exists>r f. slice_end c i k = Some (r, upd_proc i f (upd_proc i (released (c_fpu (this_cpu c k))) k)) \<and>
    (f = id \<or> f = (\<lambda>p. p\<lparr>p_runtime_ticks := p_runtime_ticks p + 1\<rparr>))"
proof -
  let ?u = "upd_proc i (released (c_fpu (this_cpu c k))) k"
  have "p_state (proc ?u i) = p_state (proc k i)" by (simp add: kernel_simps nth_update_if released_def)
  then have w: "(if p_state (proc ?u i) = PROCESS_STATE_EXITED then process_wake_waiter i ?u else Some ?u) = Some ?u"
    using assms wake_waiter_none [of i ?u] by (auto simp: unseen_waits [OF unseen_released])
  have "slice_end c i k = (let result = c_resume_result (this_cpu c k); k = ?u
      in do { k \<leftarrow> (if p_state (proc k i) = PROCESS_STATE_EXITED then process_wake_waiter i k else Some k);
              Some (result, if result \<noteq> PROCESS_RUN_YIELDED \<or> p_preempt_count (proc k i) = 0
                then upd_proc i (\<lambda>p. p\<lparr>p_runtime_ticks := p_runtime_ticks p + 1\<rparr>) k else k) })"
    by (simp add: slice_end_def released_def [abs_def])
  moreover have "?u = upd_proc i id ?u" by (simp add: upd_proc_def)
  ultimately show ?thesis using w by (fastforce simp: Let_def)
qed

lemma slice_end_exited:
  assumes "slice_end c i k = Some (r, k')" "table_ok k" "i < PROCESS_MAX_COUNT" "p_state (proc k i) = PROCESS_STATE_EXITED"
    and "\<And>n. \<not> waits_for n i k" and "process_find_by_pid (p_pid (proc k i)) k = Some i"
  shows "zombie i (p_pid (proc k i)) (p_parent_pid (proc k i)) (p_exit_code (proc k i)) k'"
    and "j \<noteq> i \<Longrightarrow> proc k' j = proc k j"
proof -
  let ?r = "released (c_fpu (this_cpu c k))"
  obtain f where k': "k' = upd_proc i f (upd_proc i ?r k)"
    and f: "f = id \<or> f = (\<lambda>p. p\<lparr>p_runtime_ticks := p_runtime_ticks p + 1\<rparr>)"
    using slice_end_no_waiter [of k i c] assms(1,5) by auto
  have "unseen f" using f unseen_ticks by (auto simp: unseen_def)
  then have find: "process_find_by_pid pid k' = process_find_by_pid pid k" for pid
    by (simp add: k' unseen_find unseen_released)
  have p': "proc k' i = f (?r (proc k i))" using assms(2,3) by (simp add: k' kernel_simps table_ok_def)
  show "zombie i (p_pid (proc k i)) (p_parent_pid (proc k i)) (p_exit_code (proc k i)) k'"
    using f assms(2,3,4,6) by (auto simp: zombie_def find p' released_def) (auto simp: k' table_ok_def kernel_simps)
  show "proc k' j = proc k j" if "j \<noteq> i" using that by (simp add: k' kernel_simps)
qed

lemma exit_waiting_parent:
  assumes "table_ok k" "i < PROCESS_MAX_COUNT" "no_threads i k" "j \<noteq> i" "waits_for j i k"
    and ends: "sys_exit c i frame k = Some (b, frame', k1)" "slice_end c i k1 = Some (r, k2)"
  shows "proc k2 j = delivered (p_pid (proc k i)) (ucast (rdi frame)) (proc k j) \<and>
    \<not> p_loaded (proc k2 i) \<and> p_state (proc k2 i) = PROCESS_STATE_EMPTY"
proof -
  let ?e = "exiting (rdi frame) i k"
  have len: "length (g_processes k) = PROCESS_MAX_COUNT" using assms(1) by (simp add: table_ok_def)
  have jlt: "j < PROCESS_MAX_COUNT" using assms(5) find_by_pidD by (auto simp: waits_for_def)
  have ek: "table_ok ?e" "proc ?e i = (proc k i)\<lparr>p_exit_code := ucast (rdi frame), p_state := PROCESS_STATE_EXITED\<rparr>"
    "proc ?e j = proc k j"
    using assms(2,4) len by (simp_all add: table_ok_def exiting_fields)
  obtain k0 where k0: "process_wake_waiter i ?e = Some k0" "k1 = deschedule c PROCESS_RUN_EXITED k0"
    using ends(1) exit_eq [OF assms(3,1,2)] by auto
  have "waits_for j i ?e" using exiting_waits [OF assms(1,2)] assms(4,5) by simp
  from wake_waiter_waiting [OF this k0(1) ek(1) assms(2) assms(4) [symmetric]] obtain ch
    where "slot_change i (reaped ch (proc ?e i)) (upd_proc j (delivered (p_pid (proc k i)) (ucast (rdi frame))) ?e) k0"
    by (auto simp: ek)
  then have "g_processes k1 = (g_processes ?e)[j := delivered (p_pid (proc k i)) (ucast (rdi frame)) (proc k j),
      i := reaped ch (proc ?e i)]"
    by (simp add: k0 slot_change_def kernel_simps ek)
  then have "proc k1 i = reaped ch (proc ?e i)" "proc k1 j = delivered (p_pid (proc k i)) (ucast (rdi frame)) (proc k j)"
    "length (g_processes k1) = PROCESS_MAX_COUNT"
    using assms(2,4) jlt len by (simp_all add: exiting_fields)
  then show ?thesis using ends(2) assms(2,4) jlt
    by (auto simp: slice_end_def Let_def kernel_simps nth_update_if split: if_splits)
qed

text \<open>
  C7. The exit status reaches the parent in either order. Let a process without other threads call
  \<open>SYS_EXIT\<close> and its time slice end. If its parent was waiting for it, the parent is ready with the
  process number in \<open>rax\<close> and the status in \<open>rdx\<close>, and the slot is free. Otherwise the slot keeps the
  ended process with its status, and in every state in which it still does, \<open>SYS_WAITPID\<close> of the
  parent for it returns at once with the same two values and reaps the slot. (The slot can be
  taken away in between: see \<open>thread_create_loses_exit_status\<close>.)
\<close>

theorem exit_status_reaches_parent:
  assumes "table_ok k" and "i < PROCESS_MAX_COUNT" and "no_threads i k" and "j \<noteq> i"
    and child: "process_find_by_pid (p_pid (proc k i)) k = Some i"
    and parent: "process_find_by_pid (p_parent_pid (proc k i)) k = Some j"
    and ends: "sys_exit c i frame k = Some (b, frame', k1)" "slice_end c i k1 = Some (r, k2)"
  shows "if waits_for j i k
    then proc k2 j = delivered (p_pid (proc k i)) (ucast (rdi frame)) (proc k j) \<and>
      \<not> p_loaded (proc k2 i) \<and> p_state (proc k2 i) = PROCESS_STATE_EMPTY
    else zombie i (p_pid (proc k i)) (p_parent_pid (proc k i)) (ucast (rdi frame)) k2 \<and> p_pid (proc k2 j) = p_parent_pid (proc k i) \<and>
      (\<forall>d f k3. zombie i (p_pid (proc k i)) (p_parent_pid (proc k i)) (ucast (rdi frame)) k3 \<and>
         p_pid (proc k3 j) = p_parent_pid (proc k i) \<and> ucast (rdi f) = p_pid (proc k i) \<longrightarrow>
         sys_waitpid d j f k3 = map_option (\<lambda>k4. (False, f\<lparr>rax := ucast (p_pid (proc k i)), rdx := ucast (ucast (rdi frame) :: u32)\<rparr>, k4))
           (process_reap i k3) \<and>
         (\<forall>k4. process_reap i k3 = Some k4 \<longrightarrow> \<not> p_loaded (proc k4 i) \<and> p_state (proc k4 i) = PROCESS_STATE_EMPTY))"
proof (cases "waits_for j i k")
  case True
  with exit_waiting_parent [OF assms(1-4) True ends] show ?thesis by simp
next
  case False
  let ?e = "exiting (rdi frame) i k"
  have ek: "table_ok ?e" "proc ?e i = (proc k i)\<lparr>p_exit_code := ucast (rdi frame), p_state := PROCESS_STATE_EXITED\<rparr>"
    "proc ?e j = proc k j"
    using assms(1,2,4) by (simp_all add: table_ok_def exiting_fields)
  have nw: "\<not> waits_for n i ?e" for n
    using False exiting_waits [OF assms(1,2), of n] parent by (auto simp: waits_for_def)
  have k1: "k1 = deschedule c PROCESS_RUN_EXITED ?e"
    using ends(1) exit_eq [OF assms(3,1,2), of c frame] wake_waiter_none [OF nw] by auto
  have nw1: "\<not> waits_for n i k1" for n
    using nw [of n] find_by_pid_cong [of k1 ?e] by (simp add: waits_for_def k1 kernel_simps)
  have t1: "table_ok k1" "p_state (proc k1 i) = PROCESS_STATE_EXITED" "process_find_by_pid (p_pid (proc k1 i)) k1 = Some i"
    using ek child find_by_pid_cong [of k1 ?e] by (simp_all add: k1 kernel_simps table_ok_def exiting_find)
  note z = slice_end_exited [OF ends(2) t1(1) assms(2) t1(2) nw1 t1(3)]
  have "zombie i (p_pid (proc k i)) (p_parent_pid (proc k i)) (ucast (rdi frame)) k2" "p_pid (proc k2 j) = p_parent_pid (proc k i)"
    using z(1) z(2) [OF assms(4)] find_by_pidD(4) [OF parent] by (simp_all add: k1 kernel_simps ek)
  with waitpid_zombie False show ?thesis by (simp only: if_False) blast
qed

lemmas demo_slots = demo_kernel_def ready_process_def empty_process_def PROCESS_MAX_COUNT_def

lemma demo_table:
  "table_ok demo_kernel" "proc demo_kernel 0 = ready_process 1 0 0x400000" "proc demo_kernel (Suc 0) = ready_process 2 1 0x401000"
  "\<And>t. 2 \<le> t \<Longrightarrow> t < PROCESS_MAX_COUNT \<Longrightarrow> proc demo_kernel t = empty_process"
  by (auto simp: table_ok_def demo_kernel_def PROCESS_MAX_COUNT_def)

lemma demo_no_threads: "no_threads i demo_kernel"
proof -
  have "\<not> p_is_thread (proc demo_kernel t)" if "t < PROCESS_MAX_COUNT" for t
    using that demo_table by (cases "t < 2") (auto simp: less_2_cases_iff ready_process_def empty_process_def)
  then show ?thesis by (auto simp: no_threads_def)
qed

lemma demo_find: "process_find_by_pid 1 demo_kernel = Some 0" "process_find_by_pid 2 demo_kernel = Some 1"
proof -
  have u: "[0..<PROCESS_MAX_COUNT] = 0 # 1 # [2..<PROCESS_MAX_COUNT]"
    by (simp add: PROCESS_MAX_COUNT_def upt_conv_Cons numeral_2_eq_2)
  show "process_find_by_pid 1 demo_kernel = Some 0" "process_find_by_pid 2 demo_kernel = Some 1"
    unfolding process_find_by_pid_def first_slot_def u
    by (simp_all add: demo_table ready_process_def)
qed

theorem exit_status_reaches_parent_witness:
  "\<exists>k1 k2 r. sys_exit 0 1 (zero_frame\<lparr>rdi := 7\<rparr>) demo_kernel = Some (True, zero_frame\<lparr>rdi := 7\<rparr>, k1) \<and>
     slice_end 0 1 k1 = Some (r, k2) \<and>
     (\<exists>f2 k3. sys_waitpid 0 0 (zero_frame\<lparr>rdi := 2\<rparr>) k2 = Some (False, f2, k3) \<and> rax f2 = 2 \<and> rdx f2 = 7 \<and> \<not> p_loaded (proc k3 1))"
proof -
  let ?f = "zero_frame\<lparr>rdi := 7\<rparr>"
  let ?e = "exiting 7 1 demo_kernel"
  have nw: "\<not> waits_for j 1 demo_kernel" for j
    using demo_find by (auto simp: waits_for_def demo_table ready_process_def empty_process_def)
  have one: "(1::nat) < PROCESS_MAX_COUNT" by (simp add: PROCESS_MAX_COUNT_def)
  have "\<not> waits_for j 1 ?e" for j using nw exiting_waits [OF demo_table(1) one, of j 7] by auto
  then have x: "sys_exit 0 1 ?f demo_kernel = Some (True, ?f, deschedule 0 PROCESS_RUN_EXITED ?e)"
    using exit_eq [OF demo_no_threads demo_table(1) one, of 0 ?f] wake_waiter_none [of 1 ?e] by simp
  let ?k1 = "deschedule 0 PROCESS_RUN_EXITED ?e"
  have nw1: "\<not> waits_for j 1 ?k1" for j
    using \<open>\<not> waits_for j 1 ?e\<close> find_by_pid_cong [of ?k1 ?e] by (simp add: waits_for_def kernel_simps)
  then obtain r k2 where y: "slice_end 0 1 ?k1 = Some (r, k2)" using slice_end_no_waiter [of ?k1 1 0] by blast
  have p: "p_pid (proc demo_kernel 1) = 2" "p_parent_pid (proc demo_kernel 1) = 1"
    using demo_table(3) by (simp_all add: ready_process_def)
  have ne: "(0::nat) \<noteq> 1" by simp
  have c: "process_find_by_pid (p_pid (proc demo_kernel 1)) demo_kernel = Some 1"
    "process_find_by_pid (p_parent_pid (proc demo_kernel 1)) demo_kernel = Some 0"
    unfolding p by (rule demo_find)+
  note main = exit_status_reaches_parent [OF demo_table(1) one demo_no_threads ne c x y, unfolded if_not_P [OF nw]]
  have z: "zombie 1 (p_pid (proc demo_kernel 1)) (p_parent_pid (proc demo_kernel 1)) (ucast (rdi ?f)) k2"
    "p_pid (proc k2 0) = p_parent_pid (proc demo_kernel 1)" using main by blast+
  note wait = main [THEN conjunct2, THEN conjunct2]
  have img: "p_user_image_allocation (proc ?k1 1) = 0"
    using demo_table by (simp add: kernel_simps exiting_fields table_ok_def nth_update_if ready_process_def empty_process_def)
  have "p_user_image_allocation (proc k2 1) = 0"
    using slice_end_no_waiter [of ?k1 1 0] y nw1 img by (auto simp: upd_proc_def nth_update_if released_def)
  then obtain k3 where r: "process_reap 1 k2 = Some k3" using reap_borrowed by blast
  have u: "ucast (rdi (zero_frame\<lparr>rdi := 2\<rparr>)) = p_pid (proc demo_kernel 1)" by (simp add: p(1) del: One_nat_def)
  have "sys_waitpid 0 0 (zero_frame\<lparr>rdi := 2\<rparr>) k2 = Some (False, (zero_frame\<lparr>rdi := 2\<rparr>)\<lparr>rax := ucast (p_pid (proc demo_kernel 1)),
      rdx := ucast (ucast (rdi ?f) :: u32)\<rparr>, k3)" "\<not> p_loaded (proc k3 1)"
    using wait [rule_format, of k2 "zero_frame\<lparr>rdi := 2\<rparr>" 0] z u r by simp_all
  then have "sys_waitpid 0 0 (zero_frame\<lparr>rdi := 2\<rparr>) k2 = Some (False, (zero_frame\<lparr>rdi := 2\<rparr>)\<lparr>rax := 2, rdx := 7\<rparr>, k3)"
    unfolding p(1) by simp
  with x y \<open>\<not> p_loaded (proc k3 1)\<close> show ?thesis by auto
qed

section \<open>A status that is lost\<close>

text \<open>The search for a free slot takes the first ended process it meets.\<close>

lemma find_free_reaps:
  assumes "\<forall>m<i. p_loaded (proc k m) \<and> p_state (proc k m) \<notin> {PROCESS_STATE_EMPTY, PROCESS_STATE_EXITED}"
    and "i < PROCESS_MAX_COUNT" "p_loaded (proc k i)" "p_state (proc k i) = PROCESS_STATE_EXITED"
  shows "process_find_free_slot k = map_option (\<lambda>k'. (Some i, k')) (process_reap i k)"
proof -
  have "find_free_from n k = map_option (\<lambda>k'. (Some i, k')) (process_reap i k)" if "n \<le> i" for n
    using that
  proof (induction "i - n" arbitrary: n)
    case 0
    then show ?case using assms(2-4) by (simp add: find_free_from.simps [of n] map_option_case split: option.splits)
  next
    case (Suc d)
    then have "n < i" "d = i - (n + 1)" by auto
    with Suc assms(1,2) show ?case by (auto simp: find_free_from.simps [of n])
  qed
  then show ?thesis by (simp add: process_find_free_slot_def)
qed

definition only_slot :: "nat \<Rightarrow> 'c kernel \<Rightarrow> 'c kernel \<Rightarrow> bool" where
  "only_slot i k k' \<longleftrightarrow> length (g_processes k') = length (g_processes k) \<and> (\<forall>m. m \<noteq> i \<longrightarrow> proc k' m = proc k m)"

lemma log_lines_processes: "g_processes (log_lines l pid xs k) = g_processes k"
  unfolding log_lines_def by (induction xs arbitrary: k) (auto simp: kernel_simps)

lemma only_slot_steps:
  "only_slot i k k"
  "only_slot i k k1 \<Longrightarrow> only_slot i k (upd_proc i f k1)"
  "only_slot i k k1 \<Longrightarrow> only_slot i k (process_setup_context i k1)"
  "only_slot i k k1 \<Longrightarrow> only_slot i k (process_reset_vfs_handles i k1)"
  "only_slot i k k1 \<Longrightarrow> only_slot i k (process_set_name i nm k1)"
  "only_slot i k k1 \<Longrightarrow> only_slot i k (k1\<lparr>g_next_pid := n\<rparr>)"
  "only_slot i k k1 \<Longrightarrow> only_slot i k (log_lines l pid xs k1)"
  by (simp_all add: only_slot_def upd_proc_def process_setup_context_def process_reset_vfs_handles_def process_set_name_def Let_def
      kstack_arm_def upd_mem_def log_lines_processes)

lemma ready_steps:
  "i < length (g_processes k) \<Longrightarrow> (\<And>p. p_state (f p) = PROCESS_STATE_READY) \<Longrightarrow> p_state (proc (upd_proc i f k) i) = PROCESS_STATE_READY"
  "p_state (proc k i) = st \<Longrightarrow> (\<And>p. p_state (f p) = p_state p) \<Longrightarrow> p_state (proc (upd_proc i f k) i) = st"
  "p_state (proc k i) = st \<Longrightarrow> p_state (proc (process_reset_vfs_handles i k) i) = st"
  "p_state (proc k i) = st \<Longrightarrow> p_state (proc (process_set_name i nm k) i) = st"
  "p_state (proc k i) = st \<Longrightarrow> p_state (proc (log_lines l pid xs k) i) = st"
  by (auto simp: process_reset_vfs_handles_def process_set_name_def log_lines_processes upd_proc_def Let_def nth_update_if)

lemma only_slot_length: "only_slot i k k1 \<Longrightarrow> i < length (g_processes k) \<Longrightarrow> i < length (g_processes k1)"
  by (simp add: only_slot_def)

lemma create_thread_slots:
  assumes "process_find_free_slot k = Some (Some i, k0)" "i < length (g_processes k0)"
    and "process_create_thread q entry stack_top arg k = Some (tid, k1)" "entry \<noteq> 0" "stack_top \<noteq> 0"
  shows "p_state (proc k1 i) = PROCESS_STATE_READY" "only_slot i k0 k1"
proof -
  note k1 = assms(3) [unfolded process_create_thread_def, simplified assms(1,4,5) Let_def, simplified]
  show "only_slot i k0 k1" using k1 by (elim conjE) (hypsubst, intro only_slot_steps)
  have l: "only_slot i k0 k' \<Longrightarrow> i < length (g_processes k')" for k' using only_slot_length assms(2) by blast
  show "p_state (proc k1 i) = PROCESS_STATE_READY"
    using k1 by (elim conjE) (hypsubst, rule ready_steps(5), rule ready_steps(4), rule ready_steps(2), rule ready_steps(3),
      rule ready_steps(1), rule l, intro only_slot_steps, simp_all)
qed

text \<open>
  C37. An exit status can be lost. Let a process have ended, with its parent yet to call
  \<open>SYS_WAITPID\<close>, and let every slot before its slot be in use. Then creating a thread, by whatever
  process, reaps the slot and reuses it, and \<open>SYS_WAITPID\<close> of the parent for the ended process puts
  the parent to sleep to wait for a process that is gone: no slot holds an ended process with
  that number any more.
\<close>

theorem thread_create_loses_exit_status:
  assumes z: "zombie i pid par code k" and j: "p_pid (proc k j) = par" "j \<noteq> i" "j < PROCESS_MAX_COUNT"
    and before: "\<forall>m<i. p_loaded (proc k m) \<and> p_state (proc k m) \<notin> {PROCESS_STATE_EMPTY, PROCESS_STATE_EXITED}"
    and unique: "\<forall>m<PROCESS_MAX_COUNT. m \<noteq> i \<and> p_loaded (proc k m) \<longrightarrow> p_pid (proc k m) \<noteq> pid"
    and th: "process_create_thread q entry stack_top arg k = Some (tid, k1)" "entry \<noteq> 0" "stack_top \<noteq> 0"
    and f: "ucast (rdi f) = pid"
  shows "\<exists>k2. sys_waitpid c j f k1 = Some (True, f, k2) \<and> p_state (proc k2 j) = PROCESS_STATE_WAITING \<and>
    p_wait_target_pid (proc k2 j) = pid \<and>
    (\<forall>m<PROCESS_MAX_COUNT. p_loaded (proc k2 m) \<and> p_pid (proc k2 m) = pid \<longrightarrow> p_state (proc k2 m) \<noteq> PROCESS_STATE_EXITED)"
proof -
  have zi: "i < length (g_processes k)" "p_loaded (proc k i)" "p_state (proc k i) = PROCESS_STATE_EXITED" "i < PROCESS_MAX_COUNT"
    "length (g_processes k) = PROCESS_MAX_COUNT" "pid \<noteq> 0"
    using z find_by_pidD [of pid k i] by (auto simp: zombie_def table_ok_def)
  note free = find_free_reaps [OF before zi(4,2,3)]
  obtain k0 where k0: "process_reap i k = Some k0" "process_find_free_slot k = Some (Some i, k0)"
    using th free by (cases "process_reap i k") (auto simp: process_create_thread_def)
  obtain ch where sc: "slot_change i (reaped ch (proc k i)) k k0" using reap_change [OF k0(1) zi(1)] by blast
  then have k0s: "length (g_processes k0) = PROCESS_MAX_COUNT" "\<And>m. m \<noteq> i \<Longrightarrow> proc k0 m = proc k m"
    using zi(5) by (simp_all add: slot_change_def)
  note t = create_thread_slots [OF k0(2) _ th] k0s
  have k1: "p_state (proc k1 i) = PROCESS_STATE_READY" "\<And>m. m \<noteq> i \<Longrightarrow> proc k1 m = proc k m" "length (g_processes k1) = PROCESS_MAX_COUNT"
    using t zi(4) by (simp_all add: only_slot_def)
  have none: "\<not> (p_loaded (proc k1 m) \<and> p_state (proc k1 m) = PROCESS_STATE_EXITED \<and> p_pid (proc k1 m) = pid)" if "m < PROCESS_MAX_COUNT" for m
    using k1(1,2) unique that by (cases "m = i") auto
  then have "process_find_exited_child (p_pid (proc k1 j)) pid k1 = None"
    using zi(6) by (auto simp: process_find_exited_child_def first_slot_def find_None_iff)
  then have "sys_waitpid c j f k1 = Some (True, f,
      park j (\<lambda>p. p\<lparr>p_context := f\<lparr>rax := 0, rdx := 0\<rparr>, p_wait_target_pid := pid, p_state := PROCESS_STATE_WAITING\<rparr>) c k1)"
    using f by (simp add: sys_waitpid_def)
  then show ?thesis using none j k1(3) by (auto simp: park_def kernel_simps nth_update_if)
qed

definition zombie_demo :: "unit kernel" where
  "zombie_demo = demo_kernel\<lparr>g_processes := (g_processes demo_kernel)
     [1 := (ready_process 2 1 0x401000)\<lparr>p_state := PROCESS_STATE_EXITED, p_exit_code := 7, p_running_on_cpu := -1\<rparr>]\<rparr>"

lemma zombie_demo_slots:
  "proc zombie_demo 0 = ready_process 1 0 0x400000" "length (g_processes zombie_demo) = PROCESS_MAX_COUNT"
  "proc zombie_demo (Suc 0) = (ready_process 2 1 0x401000)\<lparr>p_state := PROCESS_STATE_EXITED, p_exit_code := 7, p_running_on_cpu := -1\<rparr>"
  "\<And>t. t < PROCESS_MAX_COUNT \<Longrightarrow> p_loaded (proc zombie_demo t) = p_loaded (proc demo_kernel t) \<and> p_pid (proc zombie_demo t) = p_pid (proc demo_kernel t)"
  by (auto simp: zombie_demo_def demo_kernel_def PROCESS_MAX_COUNT_def nth_list_update ready_process_def)

theorem thread_create_loses_exit_status_witness:
  "\<exists>tid k1 k2. zombie 1 2 1 7 zombie_demo \<and> process_create_thread 0 0x20000000 0x2ff80000 0 zombie_demo = Some (tid, k1) \<and>
     sys_waitpid 0 0 (zero_frame\<lparr>rdi := 2\<rparr>) k1 = Some (True, zero_frame\<lparr>rdi := 2\<rparr>, k2) \<and> p_state (proc k2 0) = PROCESS_STATE_WAITING"
proof -
  have find: "process_find_by_pid 2 zombie_demo = Some 1"
    using demo_find find_by_pid_cong [of zombie_demo demo_kernel] zombie_demo_slots(4) by simp
  then have z: "zombie 1 2 1 7 zombie_demo"
    by (simp add: zombie_def table_ok_def zombie_demo_slots ready_process_def PROCESS_MAX_COUNT_def)
  have b: "\<forall>m<1. p_loaded (proc zombie_demo m) \<and> p_state (proc zombie_demo m) \<notin> {PROCESS_STATE_EMPTY, PROCESS_STATE_EXITED}"
    by (simp add: zombie_demo_slots ready_process_def)
  have u: "\<forall>m<PROCESS_MAX_COUNT. m \<noteq> 1 \<and> p_loaded (proc zombie_demo m) \<longrightarrow> p_pid (proc zombie_demo m) \<noteq> 2"
  proof (intro allI impI)
    fix m
    assume m: "m < PROCESS_MAX_COUNT" "m \<noteq> 1 \<and> p_loaded (proc zombie_demo m)"
    then show "p_pid (proc zombie_demo m) \<noteq> 2"
      using zombie_demo_slots(4) [OF m(1)] demo_table by (cases "m < 2") (auto simp: less_2_cases_iff ready_process_def empty_process_def)
  qed
  have "p_user_image_allocation (proc zombie_demo 1) = 0" by (simp add: zombie_demo_slots ready_process_def empty_process_def)
  then obtain k0 where "process_reap 1 zombie_demo = Some k0" using reap_borrowed by blast
  moreover have "process_find_free_slot zombie_demo = map_option (\<lambda>k'. (Some 1, k')) (process_reap 1 zombie_demo)"
    by (rule find_free_reaps [OF b]) (simp_all add: zombie_demo_slots ready_process_def PROCESS_MAX_COUNT_def)
  ultimately obtain tid k1 where t: "process_create_thread 0 0x20000000 0x2ff80000 0 zombie_demo = Some (tid, k1)"
    by (simp add: process_create_thread_def Let_def)
  have "p_pid (proc zombie_demo 0) = 1" "(0::nat) \<noteq> 1" "(0::nat) < PROCESS_MAX_COUNT"
    by (simp_all add: zombie_demo_slots ready_process_def PROCESS_MAX_COUNT_def)
  from thread_create_loses_exit_status [OF z this b u t, of "zero_frame\<lparr>rdi := 2\<rparr>" 0] z t show ?thesis by auto
qed

section \<open>Killing a process that another CPU runs\<close>

lemma kill_running_reaps:
  assumes "table_ok k" "process_find_by_pid pid k = Some i" "p_state (proc k i) = PROCESS_STATE_RUNNING"
    and "p_pending_read_fd (proc k i) < 0" "no_threads i k" "waits_for j i k" "j \<noteq> i"
    and "c_current (this_cpu c k) \<noteq> Some i" "process_kill c pid k = Some (r, k1)"
  shows "r = 0" "cpus k1 = cpus k" "table_ok k1"
    "\<exists>ch. proc k1 i = reaped ch ((proc k i)\<lparr>p_exit_code := -1, p_state := PROCESS_STATE_EXITED\<rparr>)"
proof -
  let ?t = "terminate_slot (-1) i (close_app pid k)"
  have i: "i < PROCESS_MAX_COUNT" using find_by_pidD [OF assms(2)] by simp
  have t: "table_ok ?t" "proc ?t i = (proc k i)\<lparr>p_exit_code := -1, p_state := PROCESS_STATE_EXITED\<rparr>"
    using assms(1) i by (simp_all add: table_ok_def kernel_simps)
  have find: "process_find_by_pid p ?t = process_find_by_pid p k" for p
    by (rule find_by_pid_cong) (auto simp: kernel_simps nth_update_if)
  have w: "waits_for j i ?t"
    using assms(1,6,7) i by (auto simp: waits_for_def find kernel_simps nth_update_if table_ok_def)
  have "no_threads i ?t" using assms(1,5) i by (auto simp: no_threads_def kernel_simps nth_update_if table_ok_def)
  then have "process_kill_sibling_threads c i ?t = Some ?t" by (rule kill_sibling_threads_none)
  moreover have "process_clear_pending_tty_wait i k = k" using assms(4) by (simp add: process_clear_pending_tty_wait_def)
  ultimately obtain k0 where k0: "process_wake_waiter i ?t = Some k0" "r = 0" "k1 = leave_if_current c i k0"
    using assms(2,3,9) by (auto simp: process_kill_def split: bind_splits)
  from wake_waiter_waiting [OF w k0(1) t(1) i assms(7) [symmetric]] obtain ch
    where ch: "slot_change i (reaped ch (proc ?t i)) (upd_proc j (delivered (p_pid (proc ?t i)) (p_exit_code (proc ?t i))) ?t) k0"
    by blast
  then have "cpus k0 = cpus k" by (simp add: slot_change_def kernel_simps)
  then have k1: "k1 = k0" using assms(8) k0(3) by (simp add: leave_if_current_def)
  show "r = 0" "cpus k1 = cpus k" using k0(2) k1 \<open>cpus k0 = cpus k\<close> by simp_all
  show "table_ok k1" using ch t(1) k1 by (simp add: slot_change_def table_ok_def kernel_simps)
  show "\<exists>ch. proc k1 i = reaped ch ((proc k i)\<lparr>p_exit_code := -1, p_state := PROCESS_STATE_EXITED\<rparr>)"
    using slot_change_proc [OF ch] t i k1 by (auto simp: table_ok_def kernel_simps)
qed

definition preempted :: "interrupt_frame \<Rightarrow> process \<Rightarrow> process" where
  "preempted frame p = p\<lparr>p_runtime_ticks := p_runtime_ticks p + 1,
    p_preempt_count := p_preempt_count p + 1, p_context := frame, p_state := PROCESS_STATE_READY\<rparr>"

lemma timer_reaped:
  assumes "table_ok k" "i < PROCESS_MAX_COUNT" "d < length (cpus k)" "c_current (this_cpu d k) = Some i"
    and "p_state (proc k i) = PROCESS_STATE_EMPTY" "cs frame AND 3 = 3" "process_ap_timer d frame k = (b, k1)"
  shows "b" "g_processes k1 = (g_processes k)[i := preempted frame (proc k i)]" "proc k1 i = preempted frame (proc k i)"
proof -
  show g: "b" "g_processes k1 = (g_processes k)[i := preempted frame (proc k i)]"
    using assms by (auto simp: process_ap_timer_def preempt_def kernel_simps preempted_def table_ok_def)
  show "proc k1 i = preempted frame (proc k i)" using g(2) assms(1,2) by (simp add: table_ok_def)
qed

lemma timer_revives:
  assumes "table_ok k" "i < PROCESS_MAX_COUNT" "d < length (cpus k)" "c_current (this_cpu d k) = Some i"
    and "p_state (proc k i) = PROCESS_STATE_EMPTY" "cs frame AND 3 = 3"
    and "process_ap_timer d frame k = (b, k1)" "slice_end d i k1 = Some (r, k2)"
  shows "b" "runnable (proc k2 i)" "p_context (proc k2 i) = frame" "p_loaded (proc k2 i) = p_loaded (proc k i)"
    "p_cr3 (proc k2 i) = p_cr3 (proc k i)" "p_kresume_rsp (proc k2 i) = p_kresume_rsp (proc k i)" "table_ok k2"
proof -
  have len: "length (g_processes k) = PROCESS_MAX_COUNT" using assms(1) by (simp add: table_ok_def)
  note k1 = timer_reaped [OF assms(1-7)]
  obtain f where k2: "k2 = upd_proc i f (upd_proc i (released (c_fpu (this_cpu d k1))) k1)"
    and f: "f = id \<or> f = (\<lambda>p. p\<lparr>p_runtime_ticks := p_runtime_ticks p + 1\<rparr>)"
    using slice_end_no_waiter [of k1 i d] assms(8) k1(3) by (auto simp: preempted_def)
  have "proc k2 i = f (released (c_fpu (this_cpu d k1)) (preempted frame (proc k i)))"
    using k1(2,3) len assms(2) by (simp add: k2 kernel_simps)
  then show "b" "runnable (proc k2 i)" "p_context (proc k2 i) = frame" "p_loaded (proc k2 i) = p_loaded (proc k i)"
    "p_cr3 (proc k2 i) = p_cr3 (proc k i)" "p_kresume_rsp (proc k2 i) = p_kresume_rsp (proc k i)"
    using f k1(1) by (auto simp: runnable_def released_def preempted_def)
  show "table_ok k2" using k1(2) len by (simp add: table_ok_def k2 kernel_simps)
qed

lemma dispatch_effect:
  assumes "i < length (g_processes k)" "e < length (cpus k)" "p_kresume_rsp (proc k i) = 0"
  shows "\<exists>k'. dispatch e i k = (Enter_user (p_context (proc k i)), k') \<and>
    c_cr3 (this_cpu e k') = paging_load_cr3 (p_cr3 (proc k i)) (c_cr3 (this_cpu e k)) \<and> c_current (this_cpu e k') = Some i"
  using assms by (simp add: dispatch_def Let_def kernel_simps set_current_def set_result_def)

text \<open>
  C36. A killed process can run on. Let CPU \<open>d\<close> run a process whose parent waits for it, and let another
  CPU kill the process, as Ctrl+C does. The slot is reaped under the running program. The next timer
  interrupt on \<open>d\<close> makes the reaped slot ready again with the program's registers, and whichever CPU
  takes it enters the program with the page tables that CPU happens to have loaded, because the slot has
  none: the dead program continues in the address space of some other process.
\<close>

theorem killed_process_runs_on:
  assumes "table_ok k" and "process_find_by_pid pid k = Some i"
    and "p_state (proc k i) = PROCESS_STATE_RUNNING" and "p_pending_read_fd (proc k i) < 0"
    and "p_kresume_rsp (proc k i) = 0" and "no_threads i k" and "waits_for j i k" and "j \<noteq> i"
    and "c_current (this_cpu c k) \<noteq> Some i" and "d < length (cpus k)" and "c_current (this_cpu d k) = Some i"
    and "cs frame AND 3 = 3" and "e < length (cpus k)"
    and "process_kill c pid k = Some (r, k1)" and "process_ap_timer d frame k1 = (b, k2)"
    and "slice_end d i k2 = Some (s, k3)"
  shows "\<not> p_loaded (proc k3 i) \<and> runnable (proc k3 i) \<and>
    (\<exists>k4. dispatch e i k3 = (Enter_user frame, k4) \<and> c_current (this_cpu e k4) = Some i \<and>
       c_cr3 (this_cpu e k4) = c_cr3 (this_cpu e k3))"
proof -
  note kill = kill_running_reaps [OF assms(1-4) assms(6-9) assms(14)]
  have i: "i < PROCESS_MAX_COUNT" using find_by_pidD [OF assms(2)] by simp
  obtain ch where ch: "proc k1 i = reaped ch ((proc k i)\<lparr>p_exit_code := -1, p_state := PROCESS_STATE_EXITED\<rparr>)"
    using kill(4) by blast
  have cur: "d < length (cpus k1)" "c_current (this_cpu d k1) = Some i" "p_state (proc k1 i) = PROCESS_STATE_EMPTY"
    using assms(10,11) kill(2) ch by simp_all
  note t = timer_revives [OF kill(3) i cur assms(12,15,16)]
  have "cursors k2 = cursors k1" "cursors k3 = cursors k2"
    using sched.P_ap_timer [OF assms(15) refl] sched.P_slice_end [OF assms(16) refl] by auto
  then have "length (cpus k3) = length (cpus k)" using kill(2) by (metis cursors_def length_map)
  with dispatch_effect [of i k3 e] t ch i assms(5,13) show ?thesis
    by (auto simp: table_ok_def paging_load_cr3_def)
qed

definition kill_demo :: "unit kernel" where
  "kill_demo = demo_kernel\<lparr>
     g_processes := (g_processes demo_kernel)
       [0 := (ready_process 1 0 0x400000)\<lparr>p_state := PROCESS_STATE_WAITING, p_wait_target_pid := 2\<rparr>,
        1 := (ready_process 2 1 0x401000)\<lparr>p_state := PROCESS_STATE_RUNNING, p_running_on_cpu := 1\<rparr>],
     cpus := [idle_cpu 0, (idle_cpu 1)\<lparr>c_current := Some 1\<rparr>]\<rparr>"

lemma kill_demo_table:
  "table_ok kill_demo"
  "proc kill_demo 0 = (ready_process 1 0 0x400000)\<lparr>p_state := PROCESS_STATE_WAITING, p_wait_target_pid := 2\<rparr>"
  "proc kill_demo (Suc 0) = (ready_process 2 1 0x401000)\<lparr>p_state := PROCESS_STATE_RUNNING, p_running_on_cpu := 1\<rparr>"
  "\<And>t. t < PROCESS_MAX_COUNT \<Longrightarrow> p_loaded (proc kill_demo t) = p_loaded (proc demo_kernel t) \<and>
     p_pid (proc kill_demo t) = p_pid (proc demo_kernel t) \<and> p_is_thread (proc kill_demo t) = p_is_thread (proc demo_kernel t)"
  by (auto simp: kill_demo_def table_ok_def demo_kernel_def PROCESS_MAX_COUNT_def nth_list_update ready_process_def)

lemma kill_demo_facts:
  "process_find_by_pid 1 kill_demo = Some 0" "process_find_by_pid 2 kill_demo = Some 1"
  "no_threads 1 kill_demo" "waits_for 0 1 kill_demo"
proof -
  show f: "process_find_by_pid 1 kill_demo = Some 0" "process_find_by_pid 2 kill_demo = Some 1"
    using demo_find find_by_pid_cong [of kill_demo demo_kernel] kill_demo_table(4) by simp_all
  have "\<not> p_is_thread (proc kill_demo t)" if "t < PROCESS_MAX_COUNT" for t
    using that kill_demo_table(4) [OF that] demo_table
    by (cases "t < 2") (auto simp: less_2_cases_iff ready_process_def empty_process_def)
  then show "no_threads 1 kill_demo" by (auto simp: no_threads_def)
  show "waits_for 0 1 kill_demo" using f by (simp add: waits_for_def kill_demo_table ready_process_def)
qed

lemma kill_demo_killed: "\<exists>r k1. process_kill 0 2 kill_demo = Some (r, k1)"
proof -
  let ?t = "terminate_slot (-1) 1 (close_app 2 kill_demo)"
  have no: "no_threads 1 ?t"
    using kill_demo_facts(3) kill_demo_table(1) by (auto simp: no_threads_def kernel_simps nth_update_if)
  have img: "p_user_image_allocation (proc (upd_proc j f ?t) 1) = 0" if "j \<noteq> 1" for j f
    using that kill_demo_table(3) by (auto simp: kernel_simps nth_update_if ready_process_def empty_process_def)
  have "\<exists>k0. process_wake_waiter 1 ?t = Some k0"
  proof (cases "\<exists>j. waits_for j 1 ?t")
    case False
    then show ?thesis using wake_waiter_none [of 1 ?t] by auto
  next
    case True
    then obtain j where j: "waits_for j 1 ?t" by blast
    then have "j \<noteq> 1" using kill_demo_table(1) by (auto simp: waits_for_def kernel_simps table_ok_def PROCESS_MAX_COUNT_def)
    with j find_by_pidD(1) reap_borrowed [OF img] show ?thesis
      by (auto simp: process_wake_waiter_def waits_for_def Let_def)
  qed
  moreover have "process_clear_pending_tty_wait 1 kill_demo = kill_demo"
    using kill_demo_table(3) by (simp add: process_clear_pending_tty_wait_def ready_process_def empty_process_def)
  ultimately show ?thesis using kill_demo_facts(2) kill_demo_table(3) kill_sibling_threads_none [OF no]
    by (auto simp: process_kill_def ready_process_def)
qed

theorem killed_process_runs_on_witness:
  "\<exists>r k1 b k2 s k3 k4. process_kill 0 2 kill_demo = Some (r, k1) \<and> process_ap_timer 1 zero_frame k1 = (b, k2) \<and>
     slice_end 1 1 k2 = Some (s, k3) \<and> \<not> p_loaded (proc k3 1) \<and> dispatch 0 1 k3 = (Enter_user zero_frame, k4) \<and>
     c_cr3 (this_cpu 0 k4) = c_cr3 (this_cpu 0 k3)"
proof -
  obtain r k1 where a: "process_kill 0 2 kill_demo = Some (r, k1)" using kill_demo_killed by blast
  obtain b k2 where b: "process_ap_timer 1 zero_frame k1 = (b, k2)" by force
  have st: "p_state (proc kill_demo 1) = PROCESS_STATE_RUNNING" "p_pending_read_fd (proc kill_demo 1) < 0"
    "p_kresume_rsp (proc kill_demo 1) = 0"
    using kill_demo_table(3) by (simp_all add: ready_process_def empty_process_def)
  have cp: "c_current (this_cpu 0 kill_demo) \<noteq> Some 1" "1 < length (cpus kill_demo)"
    "c_current (this_cpu 1 kill_demo) = Some 1" "0 < length (cpus kill_demo)" "cs zero_frame AND 3 = 3"
    by (simp_all add: kill_demo_def idle_cpu_def zero_frame_def)
  have ne: "(0::nat) \<noteq> 1" by simp
  note kill = kill_running_reaps [OF kill_demo_table(1) kill_demo_facts(2) st(1,2) kill_demo_facts(3,4) ne cp(1) a]
  obtain s k3 where c: "slice_end 1 1 k2 = Some (s, k3)"
  proof -
    obtain ch where "proc k1 1 = reaped ch ((proc kill_demo 1)\<lparr>p_exit_code := -1, p_state := PROCESS_STATE_EXITED\<rparr>)"
      using kill(4) by blast
    then have "proc k2 1 = preempted zero_frame (proc k1 1)"
      using timer_reaped [OF kill(3) _ _ _ _ cp(5) b, of 1] kill(2) cp by (simp add: PROCESS_MAX_COUNT_def)
    then show ?thesis using that slice_end_no_waiter [of k2 1 1] by (auto simp: preempted_def)
  qed
  from killed_process_runs_on [OF kill_demo_table(1) kill_demo_facts(2) st kill_demo_facts(3,4) ne cp(1,2,3,5,4) a b c]
  show ?thesis using a b c by blast
qed

section \<open>Reaping returns and releases the memory\<close>

text \<open>What the two frees of a slot leave of the three heaps.\<close>

definition frees :: "(u64 \<times> u64) set \<Rightarrow> (u64 \<times> u64) set \<Rightarrow> kmem \<Rightarrow> kmem \<Rightarrow> bool" where
  "frees main img h h' \<longleftrightarrow> heaps_ok h' \<and> heap_live h' = heap_live h - main \<and> img_live h' = img_live h - img \<and>
     gfx_live h' = gfx_live h \<and> g_img_heap h' = g_img_heap h"

lemma frees_trans: "frees A B h h1 \<Longrightarrow> frees C D h1 h2 \<Longrightarrow> frees (A \<union> C) (B \<union> D) h h2"
  by (auto simp: frees_def)

lemma kfree_frees:
  assumes "heaps_ok h" "(p, n) \<in> heap_live h"
  shows "\<exists>h'. kfree p h = Some h' \<and> frees {(p, n)} {} h h'"
proof -
  have wf: "heap_wf h" using assms(1) by (simp add: heaps_ok_def)
  from kfree_heaps [OF assms] obtain h' where h': "kfree p h = Some h'" "heaps_ok h'"
    "heap_live h' = heap_live h - {(p, n)}" "gfx_live h' = gfx_live h" "img_live h' = img_live h" by blast
  with kfree_confined(3) [OF wf assms(2) h'(1)] show ?thesis by (auto simp: frees_def)
qed

lemma free_chunks_frees:
  assumes "i < length (g_processes k)" "heaps_ok (heap k)" "n \<le> length (p_heap_chunks (proc k i))"
    and "map fst bs = filter ((\<noteq>) 0) (drop x (take n (p_heap_chunks (proc k i))))"
    and "distinct bs" "set bs \<subseteq> heap_live (heap k)"
  shows "\<exists>k'. free_chunks n x i k = Some k' \<and> frees (set bs) {} (heap k) (heap k')"
  using assms
proof (induction n x i k arbitrary: bs rule: free_chunks.induct)
  case (1 n x i k)
  let ?cs = "p_heap_chunks (proc k i)"
  show ?case
  proof (cases "x < n")
    case False
    with "1.prems" show ?thesis by (simp add: free_chunks.simps [of n x] frees_def)
  next
    case True
    with "1.prems"(3) have dr: "drop x (take n ?cs) = ?cs ! x # drop (x + 1) (take n ?cs)"
      using Cons_nth_drop_Suc [of x "take n ?cs"] by simp
    show ?thesis
    proof (cases "?cs ! x = 0")
      case zero: True
      with dr "1.prems"(4) have "map fst bs = filter ((\<noteq>) 0) (drop (x + 1) (take n ?cs))" by simp
      with "1.IH"(2) [OF True refl _ "1.prems"(1-3)] "1.prems"(5,6) zero True show ?thesis
        by (simp add: free_chunks.simps [of n x])
    next
      case False
      with dr "1.prems"(4) obtain b bs' where bs: "bs = b # bs'" "fst b = ?cs ! x"
        "map fst bs' = filter ((\<noteq>) 0) (drop (x + 1) (take n ?cs))" by (cases bs) auto
      have "(?cs ! x, snd b) \<in> heap_live (heap k)" using "1.prems"(6) bs by (cases b) auto
      from kfree_frees [OF "1.prems"(2) this] obtain h
        where h: "kfree (?cs ! x) (heap k) = Some h" "frees {b} {} (heap k) h" using bs by (cases b) auto
      define k2 where "k2 = upd_proc i (\<lambda>p. p\<lparr>p_heap_chunks := (p_heap_chunks p)[x := 0]\<rparr>) (k\<lparr>heap := h\<rparr>)"
      have wh: "with_heap (kfree (?cs ! x)) k = Some (k\<lparr>heap := h\<rparr>)" by (simp add: with_heap_def h)
      have k2: "i < length (g_processes k2)" "heap k2 = h" "p_heap_chunks (proc k2 i) = ?cs[x := 0]"
        using "1.prems"(1) by (simp_all add: k2_def upd_proc_def)
      have "drop (x + 1) (take n (?cs[x := 0])) = drop (x + 1) (take n ?cs)" by (simp add: take_update_swap)
      then have m: "map fst bs' = filter ((\<noteq>) 0) (drop (x + 1) (take n (p_heap_chunks (proc k2 i))))"
        using bs(3) k2(3) by simp
      have l: "n \<le> length (p_heap_chunks (proc k2 i))" using "1.prems"(3) k2(3) by simp
      have ok: "heaps_ok (heap k2)" "set bs' \<subseteq> heap_live (heap k2)" "distinct bs'"
        using h(2) "1.prems"(5,6) bs(1) k2(2) by (auto simp: frees_def)
      obtain k' where k': "free_chunks n (x + 1) i k2 = Some k'" "frees (set bs') {} h (heap k')"
        using "1.IH"(1) [OF True refl False wh, folded k2_def, OF k2(1) ok(1) l m ok(3,2)] k2(2) by auto
      have "free_chunks n x i k = Some k'"
        using k'(1) False True wh by (simp only: free_chunks.simps [of n x]) (simp add: k2_def Let_def)
      moreover have "frees (set bs) {} (heap k) (heap k')" using frees_trans [OF h(2) k'(2)] bs(1) by simp
      ultimately show ?thesis by blast
    qed
  qed
qed

lemma process_image_free_frees:
  assumes "heaps_ok h" "image_heap_ready h" "(a, n) \<in> img_live h" "a \<noteq> 0"
  shows "\<exists>h'. process_image_free a h = Some h' \<and> frees {} {(a, n)} h h'"
  using image_free_heaps [OF assms(1,3)] assms(2,4)
  by (auto simp: process_image_free_def frees_def image_free_def)

lemma free_image_frees:
  assumes "i < length (g_processes k)" "heaps_ok (heap k)" "image_heap_ready (heap k)" "\<not> p_is_thread (proc k i)"
    and "p_user_image_allocation (proc k i) \<noteq> 0" "(p_user_image_allocation (proc k i), n) \<in> img_live (heap k)"
    and "unat (p_heap_chunk_count (proc k i)) \<le> length (p_heap_chunks (proc k i))"
    and "map fst bs = filter ((\<noteq>) 0) (take (unat (p_heap_chunk_count (proc k i))) (p_heap_chunks (proc k i)))"
    and "distinct bs" "set bs \<subseteq> heap_live (heap k)"
  shows "\<exists>k'. free_image i k = Some k' \<and> frees (set bs) {(p_user_image_allocation (proc k i), n)} (heap k) (heap k')"
proof -
  let ?a = "p_user_image_allocation (proc k i)"
  define f where "f = (\<lambda>p :: process. p\<lparr>p_heap_chunk_count := 0, p_heap_start := 0, p_heap_break := 0\<rparr>)"
  obtain k1 where k1: "free_chunks (unat (p_heap_chunk_count (proc k i))) 0 i k = Some k1"
    "frees (set bs) {} (heap k) (heap k1)"
    using free_chunks_frees [OF assms(1,2,7), of bs 0] assms(8-10) by auto
  obtain ch where "slot_change i ((proc k i)\<lparr>p_heap_chunks := ch\<rparr>) k k1" using free_chunks_change [OF assms(1) k1(1)] by blast
  from slot_change_proc [OF this assms(1)] have a: "p_user_image_allocation (proc (upd_proc i f k1) i) = ?a"
    by (simp add: upd_proc_def nth_update_if f_def)
  have "heaps_ok (heap k1)" "image_heap_ready (heap k1)" "(?a, n) \<in> img_live (heap k1)"
    using k1(2) assms(3,6) by (auto simp: frees_def image_heap_ready_def)
  from process_image_free_frees [OF this assms(5)] obtain h
    where h: "process_image_free ?a (heap k1) = Some h" "frees {} {(?a, n)} (heap k1) h" by blast
  then have "free_image i k = Some ((upd_proc i f k1)\<lparr>heap := h\<rparr>)"
    using assms(4,5) k1(1) a by (simp add: free_image_def process_free_heap_chunks_def f_def with_heap_def upd_proc_def)
  with frees_trans [OF k1(2) h(2)] show ?thesis by auto
qed

text \<open>
  C8. Reaping returns and releases exactly the memory of the process. For a slot that owns an image and
  heap chunks which are live blocks of the two heaps, with each chunk recorded once, \<open>process_reap\<close>
  terminates with all heaps well formed; the chunks and the image are free, every other block of the
  three heaps is still live, the slot is empty and no other slot has changed. Reaping a thread leaves
  the heaps alone.
\<close>

theorem process_reap_releases:
  assumes "table_ok k" and "i < PROCESS_MAX_COUNT" and "heaps_ok (heap k)" and "image_heap_ready (heap k)"
    and "p_user_image_allocation (proc k i) \<noteq> 0" and "(p_user_image_allocation (proc k i), n) \<in> img_live (heap k)"
    and "unat (p_heap_chunk_count (proc k i)) \<le> length (p_heap_chunks (proc k i))"
    and "map fst bs = filter ((\<noteq>) 0) (take (unat (p_heap_chunk_count (proc k i))) (p_heap_chunks (proc k i)))"
    and "distinct bs" and "set bs \<subseteq> heap_live (heap k)"
  shows "\<exists>k'. process_reap i k = Some k' \<and>
    (if p_is_thread (proc k i) then heap k' = heap k
     else heaps_ok (heap k') \<and> heap_live (heap k') = heap_live (heap k) - set bs \<and>
       img_live (heap k') = img_live (heap k) - {(p_user_image_allocation (proc k i), n)} \<and>
       gfx_live (heap k') = gfx_live (heap k)) \<and>
    \<not> p_loaded (proc k' i) \<and> p_state (proc k' i) = PROCESS_STATE_EMPTY \<and> (\<forall>j. j \<noteq> i \<longrightarrow> proc k' j = proc k j)"
proof -
  define f where "f = (\<lambda>p :: process. p\<lparr>p_loaded := False, p_state := PROCESS_STATE_EMPTY, p_pid := 0, p_parent_pid := 0,
     p_wait_target_pid := 0, p_exit_code := 0, p_entry := 0, p_user_stack_top := 0, p_user_virtual_base := 0, p_code_size := 0\<rparr>)"
  define k0 where "k0 = upd_proc i f (ext_call (Audio_release_voice (p_pid (proc k i))) (if p_loaded (proc k i)
     then klog_hex JOURNAL_INFO (p_pid (proc k i)) ''kstack peak bytes='' (of_nat (kstack_highwater i k)) k else k))"
  have len: "i < length (g_processes k)" using assms(1,2) by (simp add: table_ok_def)
  then have k0: "i < length (g_processes k0)" "heap k0 = heap k" "proc k0 i = f (proc k i)" by (simp_all add: k0_def kernel_simps)
  obtain k1 where k1: "free_image i k0 = Some k1"
    "if p_is_thread (proc k i) then heap k1 = heap k
     else frees (set bs) {(p_user_image_allocation (proc k i), n)} (heap k) (heap k1)"
    using free_image_frees [OF k0(1), of n bs] assms(3-10) unfolding k0(2,3)
    by (cases "p_is_thread (proc k i)") (auto simp: f_def free_image_def k0)
  obtain k' where k': "process_reap i k = Some k'" "heap k' = heap k1"
    using k1(1) by (simp add: process_reap_def Let_def k0_def f_def process_reset_vfs_handles_def kernel_simps)
  obtain ch where "slot_change i (reaped ch (proc k i)) k k'" using reap_change [OF k'(1) len] by blast
  then have "proc k' i = reaped ch (proc k i)" "\<forall>j. j \<noteq> i \<longrightarrow> proc k' j = proc k j"
    using len by (simp_all add: slot_change_def)
  with k' k1(2) show ?thesis by (auto simp: frees_def)
qed

text \<open>A process of two live blocks, its image and one heap chunk.\<close>

lemma demo_two_blocks:
  "\<exists>p m s q n h. kmalloc 20 demo_kmem = Some (p, s) \<and> image_alloc 40 s = Some (q, h) \<and> p \<noteq> 0 \<and> q \<noteq> 0 \<and>
     heaps_ok h \<and> heap_live h = {(p, m)} \<and> img_live h = {(q, n)} \<and> image_heap_ready h"
proof -
  have wf: "heap_wf demo_kmem" using demo_heaps_ok by (simp add: heaps_ok_def)
  have e: "heap_live demo_kmem = {}" using heap_live_eq [OF demo_reps(1)] by (simp add: live_of_def)
  obtain p s where p: "kmalloc 20 demo_kmem = Some (p, s)" "p \<noteq> 0"
    using kmalloc_cases [OF demo_reps(1), of 20] by (fastforce simp: round8_def)
  with kmalloc_heaps [OF demo_heaps_ok, of 20] e obtain m where s: "heaps_ok s" "heap_live s = {(p, m)}" by auto
  note c = kmalloc_confined [OF wf p(1)]
  have rep: "kheap_rep (g_img_heap s) (bytes s) [(0x3000, 0xe8, True)]"
    using heap_rep_frame [OF c(1)] demo_reps(3) demo_heaps_ok c(3)
    by (simp add: kheap_rep_def heaps_ok_def kregion_def)
  obtain q m' bs' n where q: "kheap_alloc (g_img_heap s) 40 (bytes s) = Some (q, m')" "kheap_rep (g_img_heap s) m' bs'"
    "q \<noteq> 0" "live_of bs' = {(q, n)}"
    using kheap_alloc_cases [OF rep, of 40] by (fastforce simp: kheap_round_def live_of_def)
  then have i: "image_alloc 40 s = Some (q, s\<lparr>bytes := m'\<rparr>)" by (simp add: image_alloc_def)
  with image_alloc_heaps [OF s(1), of 40] s(2) have "heaps_ok (s\<lparr>bytes := m'\<rparr>)" "heap_live (s\<lparr>bytes := m'\<rparr>) = {(p, m)}" by auto
  moreover have "img_live (s\<lparr>bytes := m'\<rparr>) = {(q, n)}" using kheap_live_eq [OF q(2)] q(4) by (simp add: img_live_def)
  moreover have "image_heap_ready (s\<lparr>bytes := m'\<rparr>)" using c(3) by (simp add: image_heap_ready_def demo_kmem_simps)
  ultimately show ?thesis using p q(3) i by blast
qed

definition reap_demo :: "u64 \<Rightarrow> u64 \<Rightarrow> kmem \<Rightarrow> unit kernel" where
  "reap_demo p q h = demo_kernel\<lparr>heap := h, g_processes := (g_processes demo_kernel)
     [1 := (ready_process 2 1 0x401000)\<lparr>p_user_image_allocation := q, p_heap_chunk_count := 1,
       p_heap_chunks := p # replicate 2047 0\<rparr>]\<rparr>"

lemma reap_demo_table:
  "table_ok (reap_demo p q h)" "heap (reap_demo p q h) = h"
  "proc (reap_demo p q h) (Suc 0) = (ready_process 2 1 0x401000)\<lparr>p_user_image_allocation := q, p_heap_chunk_count := 1,
       p_heap_chunks := p # replicate 2047 0\<rparr>"
  by (simp_all add: reap_demo_def table_ok_def demo_kernel_def PROCESS_MAX_COUNT_def)

theorem process_reap_releases_witness:
  "\<exists>p s q h k'. kmalloc 20 demo_kmem = Some (p, s) \<and> image_alloc 40 s = Some (q, h) \<and>
     process_reap 1 (reap_demo p q h) = Some k' \<and> heaps_ok (heap k') \<and> heap_live (heap k') = {} \<and> img_live (heap k') = {} \<and>
     p_state (proc k' 1) = PROCESS_STATE_EMPTY \<and> p_pid (proc k' 0) = 1"
proof -
  obtain p m s q n h where d: "kmalloc 20 demo_kmem = Some (p, s)" "image_alloc 40 s = Some (q, h)" "p \<noteq> 0" "q \<noteq> 0"
    "heaps_ok h" "heap_live h = {(p, m)}" "img_live h = {(q, n)}" "image_heap_ready h" using demo_two_blocks by blast
  have "p_pid (proc (reap_demo p q h) 0) = 1"
    by (simp add: reap_demo_def demo_kernel_def ready_process_def PROCESS_MAX_COUNT_def)
  with process_reap_releases [of "reap_demo p q h" 1 n "[(p, m)]"] d show ?thesis
    by (auto simp: reap_demo_table ready_process_def empty_process_def PROCESS_MAX_COUNT_def)
qed

end
