(* ===== verification/Bkl.thy ===== *)
theory Bkl
  imports Prelude
begin

text \<open>
  The big kernel lock of src/kernel/src/bkl.c with the spin lock of spinlock.h, one access to
  shared memory at a time, on any number of CPUs.

  A CPU has a stack of kernel entries, the innermost first. A system call or a timer interrupt
  starts an entry, whose stub calls \<open>bkl_acquire\<close>; the entry ends with \<open>bkl_release\<close> on the way out
  (interrupt_stubs.S). A timer that fires while the kernel itself runs with interrupts on starts an
  entry inside another. The loop of \<open>ap_main\<close> and of \<open>kernel_main\<close>, between \<open>bkl_acquire\<close> and the
  release on the way to user mode, is an entry too. A CPU with no entry runs user code or is halted.

  \<open>this_cpu()\<close> is never null once a CPU has been registered, so the early return of the two functions
  for that case is left out. \<open>timer_interrupt_stub\<close> calls \<open>audio_tick\<close> before it takes the lock; that
  call touches only the sound device and its rings and is not part of the entry.
\<close>

section \<open>The two functions, access by access\<close>

record bkl =
  locked :: bool
  g_bkl_owner :: int
  g_bkl_depth :: int

datatype pc = Acq_test | Acq_load | Acq_store int | Acq_spin | Acq_owner | Acq_depth | Body
  | Rel_load | Rel_store int | Rel_owner | Rel_unlock | Left

text \<open>
  The test-and-set of \<open>spin_lock\<close>: it sets the flag and tells what the flag was.
\<close>

definition spin_lock_try :: "bkl \<Rightarrow> bool \<times> bkl" where
  "spin_lock_try b = (locked b, b\<lparr>locked := True\<rparr>)"

definition spin_unlock :: "bkl \<Rightarrow> bkl" where
  "spin_unlock b = b\<lparr>locked := False\<rparr>"

fun bkl_acquire :: "int \<Rightarrow> pc \<Rightarrow> bkl \<Rightarrow> pc \<times> bkl" where
  "bkl_acquire me Acq_test b = ((if g_bkl_owner b = me then Acq_load else Acq_spin), b)"
| "bkl_acquire me Acq_load b = (Acq_store (g_bkl_depth b), b)"
| "bkl_acquire me (Acq_store t) b = (Body, b\<lparr>g_bkl_depth := t + 1\<rparr>)"
| "bkl_acquire me Acq_spin b = (let (was, b') = spin_lock_try b in ((if was then Acq_spin else Acq_owner), b'))"
| "bkl_acquire me Acq_owner b = (Acq_depth, b\<lparr>g_bkl_owner := me\<rparr>)"
| "bkl_acquire me Acq_depth b = (Body, b\<lparr>g_bkl_depth := 1\<rparr>)"
| "bkl_acquire me p b = (p, b)"

fun bkl_release :: "pc \<Rightarrow> bkl \<Rightarrow> pc \<times> bkl" where
  "bkl_release Rel_load b = (Rel_store (g_bkl_depth b), b)"
| "bkl_release (Rel_store t) b = ((if t - 1 = 0 then Rel_owner else Left), b\<lparr>g_bkl_depth := t - 1\<rparr>)"
| "bkl_release Rel_owner b = (Rel_unlock, b\<lparr>g_bkl_owner := -1\<rparr>)"
| "bkl_release Rel_unlock b = (Left, spin_unlock b)"
| "bkl_release p b = (p, b)"

fun releasing :: "pc \<Rightarrow> bool" where
  "releasing Rel_load \<longleftrightarrow> True"
| "releasing (Rel_store t) \<longleftrightarrow> True"
| "releasing Rel_owner \<longleftrightarrow> True"
| "releasing Rel_unlock \<longleftrightarrow> True"
| "releasing _ \<longleftrightarrow> False"

definition bkl_instr :: "int \<Rightarrow> pc \<Rightarrow> bkl \<Rightarrow> pc \<times> bkl" where
  "bkl_instr me p b = (if releasing p then bkl_release p b else bkl_acquire me p b)"

definition bkl_init :: bkl where
  "bkl_init = \<lparr>locked = False, g_bkl_owner = -1, g_bkl_depth = 0\<rparr>"

section \<open>Several CPUs\<close>

record system =
  lk :: bkl
  entries :: "nat \<Rightarrow> pc list"

definition start :: system where
  "start = \<lparr>lk = bkl_init, entries = (\<lambda>_. [])\<rparr>"

text \<open>
  Where the entry of each stub of interrupt_stubs.S begins: system calls and timers call
  \<open>bkl_acquire\<close> first, while the two fault stubs call \<open>fault_handler\<close> without it.
\<close>

definition syscall_interrupt_stub :: pc where [simp]: "syscall_interrupt_stub = Acq_test"
definition timer_interrupt_stub :: pc where [simp]: "timer_interrupt_stub = Acq_test"
definition ap_timer_stub :: pc where [simp]: "ap_timer_stub = Acq_test"
definition pagefault_stub :: pc where [simp]: "pagefault_stub = Body"
definition gpfault_stub :: pc where [simp]: "gpfault_stub = Body"

text \<open>
  \<open>irq p\<close> tells whether an interrupt can arrive at the position \<open>p\<close> of the running entry, and
  \<open>faults\<close> whether user programs can fault. Every entry ends with \<open>bkl_release\<close>.
\<close>

inductive bkl_step :: "(pc \<Rightarrow> bool) \<Rightarrow> bool \<Rightarrow> system \<Rightarrow> system \<Rightarrow> bool" for irq faults where
  enter: "entries s c = [] \<and> e = syscall_interrupt_stub \<or>
      (entries s c = [] \<or> irq (hd (entries s c))) \<and> e \<in> {timer_interrupt_stub, ap_timer_stub} \<Longrightarrow>
    bkl_step irq faults s (s\<lparr>entries := (entries s)(c := e # entries s c)\<rparr>)"
| instr: "entries s c = p # ps \<Longrightarrow> p \<noteq> Body \<Longrightarrow> bkl_instr (int c) p (lk s) = (p', b') \<Longrightarrow>
    bkl_step irq faults s (s\<lparr>lk := b', entries := (entries s)(c := (if p' = Left then ps else p' # ps))\<rparr>)"
| leave: "entries s c = Body # ps \<Longrightarrow>
    bkl_step irq faults s (s\<lparr>entries := (entries s)(c := Rel_load # ps)\<rparr>)"
| fault: "faults \<Longrightarrow> entries s c = [] \<Longrightarrow> e \<in> {pagefault_stub, gpfault_stub} \<Longrightarrow>
    bkl_step irq faults s (s\<lparr>entries := (entries s)(c := [e])\<rparr>)"

definition reaches :: "(pc \<Rightarrow> bool) \<Rightarrow> bool \<Rightarrow> system \<Rightarrow> system \<Rightarrow> bool" where
  "reaches irq faults = (bkl_step irq faults)\<^sup>*\<^sup>*"

text \<open>A CPU runs kernel code when one of its entries is between the two calls.\<close>

definition in_kernel :: "system \<Rightarrow> nat \<Rightarrow> bool" where
  "in_kernel s c \<longleftrightarrow> Body \<in> set (entries s c)"

section \<open>Mutual exclusion\<close>

text \<open>What the CPU that has the lock sees, and what the others see.\<close>

fun holds :: "int \<Rightarrow> pc list \<Rightarrow> bkl \<Rightarrow> bool" where
  "holds me [] b \<longleftrightarrow> False"
| "holds me (p # ps) b \<longleftrightarrow> set ps \<subseteq> {Body} \<and>
     (case p of
        Acq_test \<Rightarrow> ps \<noteq> [] \<and> g_bkl_owner b = me \<and> g_bkl_depth b = int (length ps)
      | Acq_load \<Rightarrow> ps \<noteq> [] \<and> g_bkl_owner b = me \<and> g_bkl_depth b = int (length ps)
      | Acq_store t \<Rightarrow> ps \<noteq> [] \<and> g_bkl_owner b = me \<and> g_bkl_depth b = int (length ps) \<and> t = int (length ps)
      | Acq_spin \<Rightarrow> False
      | Acq_owner \<Rightarrow> ps = [] \<and> g_bkl_owner b = -1
      | Acq_depth \<Rightarrow> ps = [] \<and> g_bkl_owner b = me
      | Body \<Rightarrow> g_bkl_owner b = me \<and> g_bkl_depth b = int (length ps) + 1
      | Rel_load \<Rightarrow> g_bkl_owner b = me \<and> g_bkl_depth b = int (length ps) + 1
      | Rel_store t \<Rightarrow> g_bkl_owner b = me \<and> g_bkl_depth b = int (length ps) + 1 \<and> t = int (length ps) + 1
      | Rel_owner \<Rightarrow> ps = [] \<and> g_bkl_owner b = me
      | Rel_unlock \<Rightarrow> ps = [] \<and> g_bkl_owner b = -1
      | Left \<Rightarrow> False)"

definition waits :: "pc list \<Rightarrow> bool" where
  "waits ps \<longleftrightarrow> ps = [] \<or> ps = [Acq_test] \<or> ps = [Acq_spin]"

definition bkl_inv :: "system \<Rightarrow> bool" where
  "bkl_inv s \<longleftrightarrow>
     (if locked (lk s) then \<exists>c. holds (int c) (entries s c) (lk s) \<and> (\<forall>d. d \<noteq> c \<longrightarrow> waits (entries s d))
      else g_bkl_owner (lk s) = -1 \<and> (\<forall>d. waits (entries s d)))"

lemma holds_in_kernel: "waits ps \<Longrightarrow> Body \<notin> set ps"
  by (auto simp: waits_def)

lemma holds_owner: "holds me ps b \<Longrightarrow> g_bkl_owner b = me \<or> g_bkl_owner b = -1"
  by (cases ps; cases "hd ps") auto

lemma holds_enter: "holds me (Body # ps) b \<Longrightarrow> holds me (Acq_test # Body # ps) b"
  by auto

lemma holds_instr:
  assumes "holds me (p # ps) b" "p \<noteq> Body" "bkl_instr me p b = (p', b')" "locked b"
  shows "if p' = Left \<and> ps = [] then \<not> locked b' \<and> g_bkl_owner b' = -1
    else locked b' \<and> holds me (if p' = Left then ps else p' # ps) b'"
  using assms by (cases p; cases ps) (auto simp: bkl_instr_def spin_unlock_def split: if_splits)

lemma waits_instr:
  assumes "waits (p # ps)" "bkl_instr me p b = (p', b')" "g_bkl_owner b \<noteq> me"
  shows "ps = []" "p' \<noteq> Left"
    "if p' = Acq_owner then \<not> locked b \<and> b' = b\<lparr>locked := True\<rparr> else b' = b \<and> p' = Acq_spin"
  using assms by (auto simp: waits_def bkl_instr_def spin_lock_try_def split: if_splits)

lemma inv_start: "bkl_inv start"
  by (simp add: bkl_inv_def start_def bkl_init_def waits_def)

lemma inv_replace_waiting:
  assumes "bkl_inv s" "waits (entries s c)" "waits ps"
  shows "bkl_inv (s\<lparr>entries := (entries s)(c := ps)\<rparr>)"
proof (cases "locked (lk s)")
  case True
  with assms(1) obtain d where d: "holds (int d) (entries s d) (lk s)" "\<forall>e. e \<noteq> d \<longrightarrow> waits (entries s e)"
    by (auto simp: bkl_inv_def)
  show ?thesis
  proof (cases "d = c")
    case True
    with d(1) assms(2) show ?thesis
      by (auto simp: waits_def)
  qed (use True d assms(3) in \<open>auto simp: bkl_inv_def\<close>)
qed (use assms in \<open>auto simp: bkl_inv_def\<close>)

lemma inv_holder:
  assumes "bkl_inv s" "\<not> waits (entries s c)"
  shows "locked (lk s)" "holds (int c) (entries s c) (lk s)" "\<And>d. d \<noteq> c \<Longrightarrow> waits (entries s d)"
proof -
  obtain d where d: "locked (lk s)" "holds (int d) (entries s d) (lk s)" "\<forall>e. e \<noteq> d \<longrightarrow> waits (entries s e)"
    using assms by (auto simp: bkl_inv_def split: if_splits)
  with assms(2) have "c = d" by metis
  with d show "locked (lk s)" "holds (int c) (entries s c) (lk s)" "\<And>d. d \<noteq> c \<Longrightarrow> waits (entries s d)" by auto
qed

lemma inv_not_owner:
  assumes "bkl_inv s" "waits (entries s c)"
  shows "g_bkl_owner (lk s) \<noteq> int c"
proof
  assume own: "g_bkl_owner (lk s) = int c"
  with assms(1) obtain d where d: "holds (int d) (entries s d) (lk s)"
    by (auto simp: bkl_inv_def split: if_splits)
  with own holds_owner [OF d] have "d = c" by auto
  with d own assms(2) show False by (auto simp: waits_def)
qed

lemma inv_step: "bkl_step (\<lambda>p. p = Body) False s s' \<Longrightarrow> bkl_inv s \<Longrightarrow> bkl_inv s'"
proof (induction rule: bkl_step.induct)
  case (enter s c e)
  then have e: "e = Acq_test" by auto
  have "bkl_inv (s\<lparr>entries := (entries s)(c := Acq_test # entries s c)\<rparr>)"
  proof (cases "entries s c")
    case Nil
    then have "waits (entries s c)" "waits (Acq_test # entries s c)" by (simp_all add: waits_def)
    then show ?thesis using enter.prems by (intro inv_replace_waiting)
  next
    case (Cons p ps)
    with enter.hyps have p: "entries s c = Body # ps" by simp
    then have "\<not> waits (entries s c)" by (simp add: waits_def)
    from inv_holder [OF enter.prems this] p show ?thesis by (auto simp: bkl_inv_def)
  qed
  then show ?case by (simp add: e)
next
  case (instr s c p ps p' b')
  show ?case
  proof (cases "waits (entries s c)")
    case True
    note w = waits_instr [of p ps "int c" "lk s" p' b'] inv_not_owner [OF instr.prems True]
    show ?thesis
    proof (cases "p' = Acq_owner")
      case True
      with w instr \<open>waits (entries s c)\<close> show ?thesis by (auto simp: bkl_inv_def)
    next
      case False
      with w instr \<open>waits (entries s c)\<close> have "ps = []" "p' = Acq_spin" "b' = lk s" by auto
      then show ?thesis using inv_replace_waiting [OF instr.prems True, of "[Acq_spin]"] by (simp add: waits_def)
    qed
  next
    case False
    note h = inv_holder [OF instr.prems False]
    have "if p' = Left \<and> ps = [] then \<not> locked b' \<and> g_bkl_owner b' = -1
        else locked b' \<and> holds (int c) (if p' = Left then ps else p' # ps) b'"
      using holds_instr [of "int c" p ps "lk s" p' b'] h(1,2) instr.hyps by simp
    with h(3) show ?thesis by (cases "p' = Left \<and> ps = []") (auto simp: bkl_inv_def waits_def)
  qed
next
  case (leave s c ps)
  then have "\<not> waits (entries s c)" by (simp add: waits_def)
  from inv_holder [OF leave.prems this] leave.hyps show ?case by (auto simp: bkl_inv_def)
qed simp

lemma inv_reaches: "reaches (\<lambda>p. p = Body) False start s \<Longrightarrow> bkl_inv s"
  unfolding reaches_def by (induction rule: rtranclp_induct) (auto simp: inv_start intro: inv_step)

text \<open>
  C5. The big kernel lock excludes. On any number of CPUs and in every interleaving of their memory
  accesses, where interrupts do not arrive inside the two functions and no user program faults, at
  most one CPU runs kernel code, however deeply its timer interrupts nest; and when no CPU is in the
  kernel the lock is free.
\<close>

theorem bkl_mutual_exclusion:
  assumes "reaches (\<lambda>p. p = Body) False start s"
  shows "(in_kernel s c \<longrightarrow> in_kernel s d \<longrightarrow> c = d) \<and> ((\<forall>e. entries s e = []) \<longrightarrow> \<not> locked (lk s))"
proof -
  from inv_reaches [OF assms] have inv: "bkl_inv s" .
  have "waits (entries s d)" if "in_kernel s c" "d \<noteq> c" for c d
    using inv_holder [OF inv, of c] that holds_in_kernel by (auto simp: in_kernel_def)
  moreover have "\<not> locked (lk s)" if "\<forall>e. entries s e = []" using inv that by (auto simp: bkl_inv_def split: if_splits)
  ultimately show ?thesis using holds_in_kernel by (auto simp: in_kernel_def)
qed

section \<open>Runs of one CPU\<close>

definition exec :: "nat \<Rightarrow> system \<Rightarrow> system" where
  "exec c s =
     (case entries s c of
        [] \<Rightarrow> s\<lparr>entries := (entries s)(c := [Acq_test])\<rparr>
      | Body # ps \<Rightarrow> s\<lparr>entries := (entries s)(c := Rel_load # ps)\<rparr>
      | p # ps \<Rightarrow> let (p', b') = bkl_instr (int c) p (lk s)
          in s\<lparr>lk := b', entries := (entries s)(c := (if p' = Left then ps else p' # ps))\<rparr>)"

lemma exec_step: "bkl_step irq faults s (exec c s)"
proof (cases "entries s c")
  case Nil
  then show ?thesis using bkl_step.enter [of s c Acq_test irq faults] by (simp add: exec_def)
next
  case (Cons p ps)
  show ?thesis
  proof (cases "p = Body")
    case True
    then show ?thesis using bkl_step.leave [of s c ps irq faults] Cons by (simp add: exec_def)
  next
    case False
    obtain p' b' where "bkl_instr (int c) p (lk s) = (p', b')" by force
    with bkl_step.instr [OF Cons False this, of irq faults] False show ?thesis
      by (cases p) (simp_all add: exec_def Cons)
  qed
qed

lemma exec_reaches: "reaches irq faults s t \<Longrightarrow> reaches irq faults s (exec c t)"
  unfolding reaches_def using exec_step [of irq faults t c] by simp

lemma reaches_refl: "reaches irq faults s s"
  by (simp add: reaches_def)

lemmas exec_simps = exec_def bkl_instr_def spin_lock_try_def spin_unlock_def

theorem bkl_mutual_exclusion_witness:
  "reaches (\<lambda>p. p = Body) False start (exec 1 (exec 1 (exec 0 (exec 0 (exec 0 (exec 0 (exec 0 start))))))) \<and>
   in_kernel (exec 1 (exec 1 (exec 0 (exec 0 (exec 0 (exec 0 (exec 0 start))))))) 0 \<and>
   \<not> in_kernel (exec 1 (exec 1 (exec 0 (exec 0 (exec 0 (exec 0 (exec 0 start))))))) 1"
proof -
  let ?s = "exec 1 (exec 1 (exec 0 (exec 0 (exec 0 (exec 0 (exec 0 start))))))"
  have r: "reaches (\<lambda>p. p = Body) False start ?s" by (intro exec_reaches reaches_refl)
  have "in_kernel ?s 0" by (simp add: exec_simps start_def bkl_init_def in_kernel_def)
  with bkl_mutual_exclusion [OF r, of 0 1] r show ?thesis by auto
qed

section \<open>Where exclusion fails\<close>

text \<open>
  C38. A fault breaks the lock. Let CPU \<open>c\<close> run kernel code with the lock, taken once, in any state the
  lock protocol reaches, and let a user program on another CPU \<open>d\<close> fault. The entry of \<open>d\<close> ends with
  \<open>bkl_release\<close> although it never called \<open>bkl_acquire\<close>, so it frees the lock of \<open>c\<close>; the next system
  call on \<open>d\<close> takes it and both CPUs run kernel code.
\<close>

theorem bkl_fault_breaks_exclusion:
  assumes "reaches (\<lambda>p. p = Body) False start s"
    and "entries s c = [Body]" and "entries s d = []"
  shows "\<exists>t u. reaches (\<lambda>p. p = Body) True s t \<and> entries t = entries s \<and> \<not> locked (lk t) \<and>
    reaches (\<lambda>p. p = Body) True t u \<and> in_kernel u c \<and> in_kernel u d \<and> g_bkl_owner (lk u) = int d \<and> c \<noteq> d"
proof -
  have cd: "c \<noteq> d" using assms by auto
  have "holds (int c) (entries s c) (lk s)"
    using inv_holder [OF inv_reaches [OF assms(1)], of c] assms(2) by (simp add: waits_def)
  then have b: "g_bkl_owner (lk s) = int c" "g_bkl_depth (lk s) = 1" using assms(2) by simp_all
  define f where "f = s\<lparr>entries := (entries s)(d := [Body])\<rparr>"
  define t where "t = exec d (exec d (exec d (exec d (exec d f))))"
  define u where "u = exec d (exec d (exec d (exec d (exec d t))))"
  have "reaches (\<lambda>p. p = Body) True s f"
    unfolding f_def reaches_def using bkl_step.fault [of True s d Body "\<lambda>p. p = Body"] assms(3) by auto
  then have "reaches (\<lambda>p. p = Body) True s t" unfolding t_def by (intro exec_reaches)
  moreover have t: "t = s\<lparr>lk := (lk s)\<lparr>locked := False, g_bkl_owner := -1, g_bkl_depth := 0\<rparr>\<rparr>"
    using b assms(3) by (simp add: t_def f_def exec_simps fun_upd_idem)
  moreover have "reaches (\<lambda>p. p = Body) True t u" unfolding u_def by (intro exec_reaches reaches_refl)
  moreover have "entries u d = [Body]" "entries u c = [Body]" "g_bkl_owner (lk u) = int d"
    using assms(2,3) cd by (simp_all add: u_def t exec_simps)
  ultimately show ?thesis using cd by (intro exI [of _ t] exI [of _ u]) (simp add: in_kernel_def)
qed

theorem bkl_fault_breaks_exclusion_witness:
  "\<exists>u. reaches (\<lambda>p. p = Body) True (exec 0 (exec 0 (exec 0 (exec 0 (exec 0 start))))) u \<and> in_kernel u 0 \<and> in_kernel u 1"
proof -
  let ?s = "exec 0 (exec 0 (exec 0 (exec 0 (exec 0 start))))"
  have "reaches (\<lambda>p. p = Body) False start ?s" by (intro exec_reaches reaches_refl)
  moreover have "entries ?s 0 = [Body]" "entries ?s 1 = []" by (simp_all add: exec_simps start_def bkl_init_def)
  ultimately obtain t u where "reaches (\<lambda>p. p = Body) True ?s t" "reaches (\<lambda>p. p = Body) True t u"
      "in_kernel u 0" "in_kernel u 1"
    using bkl_fault_breaks_exclusion [of ?s 0 1] by auto
  then show ?thesis unfolding reaches_def by (meson rtranclp_trans)
qed

text \<open>
  The states after an interrupt between \<open>spin_lock\<close> and the store to \<open>g_bkl_owner\<close> on CPU \<open>a\<close>: the
  handler spins on the lock. Elsewhere there are only entries that spin, on top of the entry of a
  fault, which holds no lock and cannot release it because the depth is not positive.
\<close>

definition spinning :: "pc list \<Rightarrow> bool" where
  "spinning ps \<longleftrightarrow> set ps \<subseteq> {Acq_test, Acq_spin}"

fun fault_entry :: "pc list \<Rightarrow> bool" where
  "fault_entry [] \<longleftrightarrow> True"
| "fault_entry [Body] \<longleftrightarrow> True"
| "fault_entry [Rel_load] \<longleftrightarrow> True"
| "fault_entry [Rel_store t] \<longleftrightarrow> t \<le> 0"
| "fault_entry _ \<longleftrightarrow> False"

definition stuck :: "nat \<Rightarrow> system \<Rightarrow> bool" where
  "stuck a s \<longleftrightarrow> locked (lk s) \<and> g_bkl_owner (lk s) = -1 \<and> g_bkl_depth (lk s) \<le> 0 \<and>
     (\<exists>ps. entries s a = ps @ [Acq_spin, Acq_owner] \<and> spinning ps) \<and>
     (\<forall>d. d \<noteq> a \<longrightarrow> (\<exists>ps qs. entries s d = ps @ qs \<and> spinning ps \<and> fault_entry qs))"

lemma spin_instr:
  assumes "p \<in> {Acq_test, Acq_spin}" "locked b" "g_bkl_owner b = -1" "bkl_instr (int d) p b = (p', b')"
  shows "p' = Acq_spin" "b' = b"
  using assms by (auto simp: bkl_instr_def spin_lock_try_def split: if_splits)

lemma stuck_other:
  assumes "stuck a s" "d \<noteq> a" "spinning ps" "fault_entry qs"
    and "locked b" "g_bkl_owner b = -1" "g_bkl_depth b \<le> 0"
  shows "stuck a (s\<lparr>lk := b, entries := (entries s)(d := ps @ qs)\<rparr>)"
  using assms by (auto simp: stuck_def)

lemma stuck_other': "stuck a s \<Longrightarrow> d \<noteq> a \<Longrightarrow> spinning ps \<Longrightarrow> fault_entry qs \<Longrightarrow>
    stuck a (s\<lparr>entries := (entries s)(d := ps @ qs)\<rparr>)"
  by (auto simp: stuck_def)

lemma stuck_here: "stuck a s \<Longrightarrow> spinning ps \<Longrightarrow> stuck a (s\<lparr>entries := (entries s)(a := ps @ [Acq_spin, Acq_owner])\<rparr>)"
  by (auto simp: stuck_def)

lemma stuck_enter:
  assumes "stuck a s"
  shows "stuck a (s\<lparr>entries := (entries s)(d := Acq_test # entries s d)\<rparr>)"
proof (cases "d = a")
  case True
  obtain ps where ps: "entries s a = ps @ [Acq_spin, Acq_owner]" "spinning ps" using assms by (auto simp: stuck_def)
  with stuck_here [OF assms, of "Acq_test # ps"] True show ?thesis by (simp add: spinning_def)
next
  case False
  obtain ps qs where ps: "entries s d = ps @ qs" "spinning ps" "fault_entry qs" using assms False by (auto simp: stuck_def)
  with stuck_other' [OF assms False, of "Acq_test # ps" qs] show ?thesis by (simp add: spinning_def)
qed

lemma fault_instr:
  assumes "fault_entry (p # ps)" "p \<noteq> Body" "g_bkl_depth b \<le> 0" "bkl_instr (int d) p b = (p', b')"
  shows "fault_entry (if p' = Left then ps else p' # ps)" "locked b' = locked b" "g_bkl_owner b' = g_bkl_owner b" "g_bkl_depth b' \<le> 0"
  using assms by (cases p; cases ps; auto simp: bkl_instr_def)+

lemma stuck_instr:
  assumes s: "stuck a s" and e: "entries s d = p # ps" "p \<noteq> Body" "bkl_instr (int d) p (lk s) = (p', b')"
  shows "stuck a (s\<lparr>lk := b', entries := (entries s)(d := (if p' = Left then ps else p' # ps))\<rparr>)"
proof -
  have b: "locked (lk s)" "g_bkl_owner (lk s) = -1" "g_bkl_depth (lk s) \<le> 0" using s by (simp_all add: stuck_def)
  show ?thesis
  proof (cases "d = a")
    case True
    obtain qs where q: "entries s a = qs @ [Acq_spin, Acq_owner]" "spinning qs" using s by (auto simp: stuck_def)
    have p: "p \<in> {Acq_test, Acq_spin}" using q e(1) True by (cases qs) (auto simp: spinning_def)
    note i = spin_instr [OF p b(1,2) e(3)]
    show ?thesis
    proof (cases qs)
      case Nil
      then show ?thesis using i q e(1) True stuck_here [OF s, of "[]"] by (simp add: spinning_def)
    next
      case (Cons x xs)
      then show ?thesis using i q e(1) True stuck_here [OF s, of "Acq_spin # xs"] by (simp add: spinning_def)
    qed
  next
    case False
    obtain xs qs where q: "entries s d = xs @ qs" "spinning xs" "fault_entry qs" using s False by (auto simp: stuck_def)
    show ?thesis
    proof (cases xs)
      case Nil
      then have f: "fault_entry (p # ps)" using q e(1) by simp
      note i = fault_instr [OF f e(2) b(3) e(3)]
      show ?thesis using stuck_other [OF s False, of "[]"] i b by (simp add: spinning_def)
    next
      case (Cons x ys)
      then have p: "p \<in> {Acq_test, Acq_spin}" using q e(1) by (auto simp: spinning_def)
      note i = spin_instr [OF p b(1,2) e(3)]
      show ?thesis using stuck_other' [OF s False, of "Acq_spin # ys" qs] i q e(1) Cons by (simp add: spinning_def)
    qed
  qed
qed

lemma stuck_body:
  assumes "stuck a s" "entries s d = Body # ps"
  shows "d \<noteq> a"
proof
  assume "d = a"
  then obtain qs where "Body # ps = qs @ [Acq_spin, Acq_owner]" "spinning qs" using assms by (auto simp: stuck_def)
  then show False by (cases qs) (auto simp: spinning_def)
qed

lemma stuck_leave:
  assumes s: "stuck a s" and e: "entries s d = Body # ps"
  shows "stuck a (s\<lparr>entries := (entries s)(d := Rel_load # ps)\<rparr>)"
proof -
  have "d \<noteq> a" using stuck_body [OF s e] .
  then obtain xs qs where q: "Body # ps = xs @ qs" "spinning xs" "fault_entry qs" using s e unfolding stuck_def by metis
  then have "xs = []" by (cases xs) (auto simp: spinning_def)
  then have "ps = []" using q by (cases ps) auto
  then show ?thesis using stuck_other' [OF s \<open>d \<noteq> a\<close>, of "[]" "[Rel_load]"] by (simp add: spinning_def)
qed

lemma stuck_step: "bkl_step irq faults s s' \<Longrightarrow> stuck a s \<Longrightarrow> stuck a s'"
proof (induction rule: bkl_step.induct)
  case (enter s c e)
  then have "e = Acq_test" by auto
  with enter.prems show ?case by (simp add: stuck_enter)
next
  case (fault s c e)
  then have "c \<noteq> a" by (auto simp: stuck_def)
  with fault stuck_other' [of a s c "[]" "[Body]"] show ?case by (auto simp: spinning_def)
qed (simp_all add: stuck_instr stuck_leave)

lemma stuck_reaches: "reaches irq faults s t \<Longrightarrow> stuck a s \<Longrightarrow> stuck a t"
  unfolding reaches_def by (induction rule: rtranclp_induct) (auto intro: stuck_step)

lemma stuck_no_faults:
  assumes "reaches irq False s t" "\<forall>d. spinning (entries s d) \<or> d = a" "stuck a s"
  shows "\<not> in_kernel t d"
proof -
  define safe where "safe = (\<lambda>s. stuck a s \<and> (\<forall>d. d \<noteq> a \<longrightarrow> spinning (entries s d)))"
  have step: "safe t" if "bkl_step irq False s t" "safe s" for s t
    using that
  proof (induction rule: bkl_step.induct)
    case (enter s c e)
    then show ?case using stuck_enter [of a s c] by (auto simp: safe_def spinning_def)
  next
    case (instr s c p ps p' b')
    then have st: "stuck a (s\<lparr>lk := b', entries := (entries s)(c := (if p' = Left then ps else p' # ps))\<rparr>)"
      using stuck_instr [of a s c p ps p' b'] by (simp add: safe_def)
    have "p' = Acq_spin \<and> spinning ps" if "c \<noteq> a"
    proof -
      have "spinning (p # ps)" using instr.hyps(1) instr.prems that unfolding safe_def by metis
      then show ?thesis using instr.hyps(3) instr.prems spin_instr(1) [of p "lk s" c p' b'] by (auto simp: safe_def stuck_def spinning_def)
    qed
    then show ?case using st instr.prems instr.hyps(1) by (auto simp: safe_def spinning_def)
  next
    case (leave s c ps)
    then have "c \<noteq> a \<Longrightarrow> spinning (Body # ps)" unfolding safe_def by metis
    moreover have "c \<noteq> a" using leave stuck_body [of a s c ps] by (simp add: safe_def)
    ultimately show ?case by (simp add: spinning_def)
  qed simp
  have "safe s" using assms(2,3) by (auto simp: safe_def)
  with assms(1) have "safe t" unfolding reaches_def by (induction rule: rtranclp_induct) (auto intro: step)
  then show ?thesis by (cases "d = a") (auto simp: safe_def stuck_def in_kernel_def spinning_def)
qed

text \<open>
  C39. The lock can lock up the machine. \<open>ap_main\<close> calls \<open>bkl_acquire\<close> with interrupts on, after
  \<open>sti; hlt\<close>, and \<open>ap_timer_stub\<close> calls it again. If the timer of any CPU \<open>a\<close> fires in that call after
  the test-and-set and before \<open>g_bkl_owner\<close> is stored, the handler spins on the lock its own CPU
  has taken. From that state on, whether or not user programs fault, CPU \<open>a\<close> never leaves the
  handler and the lock is never granted to anyone again; without faults, which enter the kernel
  without the lock, no CPU ever runs kernel code again.
\<close>

theorem bkl_interrupt_deadlock:
  "\<exists>s. reaches (\<lambda>_. True) False start s \<and> entries s a = [Acq_spin, Acq_owner] \<and>
     (\<forall>t faults. reaches (\<lambda>_. True) faults s t \<longrightarrow>
        locked (lk t) \<and> g_bkl_owner (lk t) = -1 \<and> (\<exists>ps. entries t a = ps @ [Acq_spin, Acq_owner]) \<and>
        (\<not> faults \<longrightarrow> (\<forall>d. \<not> in_kernel t d)))"
proof -
  let ?a = "exec a (exec a (exec a start))"
  let ?i = "?a\<lparr>entries := (entries ?a)(a := Acq_test # entries ?a a)\<rparr>"
  let ?s = "exec a ?i"
  have "reaches (\<lambda>_. True) False start ?a" by (intro exec_reaches reaches_refl)
  then have "reaches (\<lambda>_. True) False start ?i"
    unfolding reaches_def using bkl_step.enter [of ?a a Acq_test "\<lambda>_. True" False] by (simp add: rtranclp.rtrancl_into_rtrancl)
  then have r: "reaches (\<lambda>_. True) False start ?s" by (rule exec_reaches)
  have s: "entries ?s a = [Acq_spin, Acq_owner]" "\<forall>d. d \<noteq> a \<longrightarrow> entries ?s d = []"
    by (simp_all add: exec_simps start_def bkl_init_def)
  have st: "stuck a ?s" using s by (auto simp: stuck_def spinning_def exec_simps start_def bkl_init_def)
  have "locked (lk t) \<and> g_bkl_owner (lk t) = -1 \<and> (\<exists>ps. entries t a = ps @ [Acq_spin, Acq_owner]) \<and>
      (\<not> faults \<longrightarrow> (\<forall>d. \<not> in_kernel t d))" if t: "reaches (\<lambda>_. True) faults ?s t" for t faults
  proof -
    have "\<forall>d. spinning (entries ?s d) \<or> d = a" using s(2) by (auto simp: spinning_def)
    then have "\<not> faults \<longrightarrow> (\<forall>d. \<not> in_kernel t d)" using t stuck_no_faults [OF _ _ st] by (cases faults) auto
    moreover have "stuck a t" by (rule stuck_reaches [OF t st])
    ultimately show ?thesis by (auto simp: stuck_def)
  qed
  with r s(1) show ?thesis by blast
qed

text \<open>The states are reached on every CPU, for example on CPU 1.\<close>

theorem bkl_interrupt_deadlock_witness:
  "\<exists>s. reaches (\<lambda>_. True) False start s \<and> entries s 1 = [Acq_spin, Acq_owner] \<and>
     (\<forall>t. reaches (\<lambda>_. True) False s t \<longrightarrow> \<not> in_kernel t 0)"
  using bkl_interrupt_deadlock [of 1] by blast

end
