(* ===== verification/Spec2Isabelle.thy ===== *)
theory Spec2Isabelle
  imports KAlloc_Correct Pty Journal Vfs_Correct KString Tty Paging Process_Correct Bkl
begin

text \<open>
  A verification development for vibe-os, a multi-process operating system for x86-64 with several
  CPUs, written in C. It covers the parts of the kernel under src/kernel/src that are data
  structures and algorithms rather than device access.

  \<^bold>\<open>The parts and how they interact.\<close> The kernel heap (alloc.c) serves every other part. Processes
  (process.c) live in a table of 48 slots, have page tables (paging.c), descriptors (fd.c) for
  terminals (tty.c, pty.c) and files (vfs.c), and are run by any CPU (cpu.c) that takes the big
  kernel lock (bkl.c, interrupt stubs). The virtual file system looks for a file in three places:
  files built into the kernel, an ext2 file system (ext2_fs.c) on a block device (ramdisk.c, which
  forwards to a disk driver), and an overlay in memory. Events are kept in a journal (journal.c).

  \<^bold>\<open>Conventions.\<close> A C function is an Isabelle function with the source's name; the globals it
  changes are a record it takes and returns. A w-bit integer is a w-bit word with its
  wrap-around, except where the code keeps a counter within a buffer; then it is a natural number.
  Memory the code addresses by pointers is a function from 64-bit addresses to bytes; an array the
  code only indexes is a list of its declared length. The value \<open>None\<close> of an option-valued function
  is undefined behaviour (an access outside an array, a division by zero, a signed overflow, a
  null pointer) or a loop that does not end; error codes are ordinary results. Loops are
  recursive functions: structural, with a termination proof, or \<open>partial_function\<close> where
  termination depends on the data. There is no fuel: that such a loop returns is proved with the
  property that needs it. Bounds that appear (48 slots, 64 directory entries, 8192 bytes of an
  overlay file, 256 journal records) are the constants of the source.

  \<^bold>\<open>Theories, sources and results.\<close>
  \<^item> Prelude: word widths, little-endian access to byte memory, lists as C strings, and the
    collections of rewrite rules. Errno: the error numbers of syscall.h.
  \<^item> KAlloc (alloc.c) models the main heap and the graphics and image heaps on headers in byte
    memory. KAlloc_Correct represents a heap as a list of blocks; the locale \<open>allocator\<close> states
    what a client may rely on, and is interpreted for the main heap and for the auxiliary heaps.
    Results: allocation and release are correct and terminate, live blocks survive any sequence of
    operations, heaps do not interfere, the statistics add up; one header corrupted makes
    \<open>kmalloc\<close> hand out a block in use.
  \<^item> Fd (fd.c, fd.h): the descriptor table. Pty (pty.c): two rings of bytes per pseudo-terminal with
    counters that wrap; the locale \<open>byte_fifo\<close> and its interpretation for the ring. Result: each
    direction delivers exactly the accepted bytes in order.
  \<^item> Journal (journal.c): logging and formatting. Results: the last 256 records are kept, formatting
    stays within its buffer, decimal output denotes its value.
  \<^item> Ramdisk (ramdisk.c, ramdisk_demo.c): block devices; the disk driver is a pair of functions in
    the device. The locale \<open>block_store\<close> states that a block read is the block last written, and is
    interpreted for the memory-backed device.
  \<^item> Ext2_Layout (structures of ext2_fs.h as bytes), Ext2 (every function of ext2_fs.c), Ext2_Disk
    (blocks, bitmaps, metadata, mounting), Ext2_Tree (block trees with indirect tables and their
    disjointness), Ext2_Files (reading and writing), Ext2_Paths (lookup), Ext2_Correct (the results):
    allocation returns free blocks, a write reads back and touches no other file, it survives
    mounting again; three defects on sparse files, holes and the last inode. Replies of
    \<open>kmalloc\<close> are a list in the state, so that failures are part of the model; most results ask
    for no failure.
  \<^item> Vfs (vfs.c), Vfs_Overlay (the overlay as a finite map), Vfs_Correct (the results): without a
    disk any sequence of operations refines a map from paths to contents; files of the disk through
    their paths; \<open>vfs_chmod\<close>; directory listings are sound and complete against a description by
    paths; three defects (offsets above 8192, files without status, the permission bits tested).
    The uid of the calling process is an argument.
  \<^item> KString (string.c): memory and string routines in both builds. Results: \<open>memmove\<close> is the
    simultaneous copy; \<open>strncpy\<close> writes one byte too many.
  \<^item> Tty (tty.c): scrollback, input, screen and escape sequences. Results: no access out of bounds on
    any input, delivery of a typed line, an integer overflow in the cursor sequences.
  \<^item> Paging (paging.c): page tables as bytes and the walk of the processor over them. Result: user
    mode reaches exactly the pages of the process.
  \<^item> Process (process.c, cpu.c, timer.c): the process table, choice of the next process, time slices,
    exit, wait, kill, faults, threads, and the system calls on processes. Scheduler: runs of any
    number of CPUs; the locale \<open>kernel_frame\<close> collects what the handlers leave alone and is
    interpreted for the cursors of the CPUs. Result: no runnable slot starves.
    Process_Correct: how an exit status reaches the parent, how it can be lost, what reaping a
    process frees, and that a process killed while it runs elsewhere runs on.
  \<^item> Bkl (bkl.c, spinlock.h, interrupt_stubs.S): the lock as a step relation, one access to shared
    memory at a time. Results: mutual exclusion without faults; faults break it; an
    interrupt in the acquisition can lock the machine up.

  \<^bold>\<open>Not modelled.\<close> Device drivers, interrupt controllers and boot code (input and output); the window
  system, drawing and the applications built into the kernel; the network stack; loading of ELF
  files, growing the memory of a process and the system calls on windows, sound and network; key
  maps, settings and clipboard; the arm64 port, except for its string routines; user programs, third-party code
  and scripts. Calls from modelled code into these parts are parameters (disk driver, embedded
  files) or are recorded in the state (sound and windows of a process). Of the keyboard and
  serial handlers of a terminal only the changes of the line being typed are modelled.
\<close>

end
